(* ===== verification/Net_Prelude.thy ===== *)
theory Net_Prelude
  imports Main "HOL-Library.Word"
begin

text \<open>
  The vocabulary the component theories share: machine integers by their C width, the run-time
  errors a C program can meet (as values of a sum type), the sequencing of fallible steps, and
  lemmas on overwriting a block of a byte array.

  A fallible C function returns \<open>Inl e\<close> where the source would dereference a null or a dead
  pointer, index outside an object, divide by zero, fail an \<open>assert\<close> or call \<open>exit\<close>, and \<open>Inr v\<close> where it
  returns \<open>v\<close>.
\<close>

unbundle bit_operations_syntax

type_synonym u8 = "8 word"
type_synonym u16 = "16 word"
type_synonym u32 = "32 word"
type_synonym u64 = "64 word"

text \<open>Rewrite rules on the contents of memory blocks.\<close>

named_theorems mem_simps

datatype c_error =
    Null_Deref
  | Dangling_Pointer
  | Out_Of_Bounds
  | Uninitialised
  | Assert_Failed
  | Division_By_Zero
  | Exit int

type_synonym 'a res = "c_error + 'a"

definition rbind :: "'a res \<Rightarrow> ('a \<Rightarrow> 'b res) \<Rightarrow> 'b res" where
  "rbind r f = (case r of Inl e \<Rightarrow> Inl e | Inr v \<Rightarrow> f v)"

lemma rbind_Inr [simp]: "rbind (Inr v) f = f v"
  by (simp add: rbind_def)

lemma rbind_Inl [simp]: "rbind (Inl e) f = Inl e"
  by (simp add: rbind_def)

lemma rbind_eq_Inr_iff: "rbind r f = Inr b \<longleftrightarrow> (\<exists>a. r = Inr a \<and> f a = Inr b)"
  by (cases r) auto

lemma rbind_InrE:
  assumes "rbind r f = Inr b"
  obtains a where "r = Inr a" and "f a = Inr b"
  using assms by (auto simp: rbind_eq_Inr_iff)

text \<open>
  How a program that answers to a list of inputs ends: it returns, it waits for an input beyond the
  list, or it runs for ever.
\<close>

datatype proc_end = Returned int | Waiting | Looping

lemma unat_bound8: "unat (b :: u8) < 256"
proof -
  have "unat b < 2 ^ LENGTH(8)"
    by (rule unsigned_less)
  then show ?thesis by simp
qed

lemma unat_bound16: "unat (b :: u16) < 65536"
proof -
  have "unat b < 2 ^ LENGTH(16)"
    by (rule unsigned_less)
  then show ?thesis by simp
qed

lemma unat_bound32: "unat (b :: u32) < 4294967296"
proof -
  have "unat b < 2 ^ LENGTH(32)"
    by (rule unsigned_less)
  then show ?thesis by simp
qed

lemma word_eq_of_nat: "unat w = n \<Longrightarrow> w = of_nat n" for w :: "'a::len word"
  by auto

text \<open>\<open>memcpy\<close> of the block \<open>ys\<close> to offset \<open>i\<close> of the array \<open>bs\<close>.\<close>

definition write_at :: "nat \<Rightarrow> 'a list \<Rightarrow> 'a list \<Rightarrow> 'a list" where
  "write_at i ys bs = take i bs @ ys @ drop (i + length ys) bs"

definition block :: "nat \<Rightarrow> nat \<Rightarrow> 'a list \<Rightarrow> 'a list" where
  "block i n bs = take n (drop i bs)"

lemma length_write_at [simp]:
  "i + length ys \<le> length bs \<Longrightarrow> length (write_at i ys bs) = length bs"
  by (simp add: write_at_def)

lemma length_block [simp]: "i + n \<le> length bs \<Longrightarrow> length (block i n bs) = n"
  by (simp add: block_def)

lemma nth_write_at:
  assumes "i + length ys \<le> length bs" and "k < length bs"
  shows "write_at i ys bs ! k =
    (if i \<le> k \<and> k < i + length ys then ys ! (k - i) else bs ! k)"
  using assms by (auto simp: write_at_def nth_append)

lemma nth_block: "k < n \<Longrightarrow> i + n \<le> length bs \<Longrightarrow> block i n bs ! k = bs ! (i + k)"
  by (simp add: block_def)

lemma block_write_at_same [mem_simps]:
  "i + length ys \<le> length bs \<Longrightarrow> n = length ys \<Longrightarrow> block i n (write_at i ys bs) = ys"
  by (simp add: block_def write_at_def)

lemma block_write_at_before [mem_simps]:
  assumes "j + n \<le> i" and "i + length ys \<le> length bs"
  shows "block j n (write_at i ys bs) = block j n bs"
  using assms by (simp add: list_eq_iff_nth_eq block_def nth_write_at)

lemma block_write_at_after [mem_simps]:
  assumes "i + length ys \<le> j" and "i + length ys \<le> length bs"
  shows "block j n (write_at i ys bs) = block j n bs"
  using assms by (simp add: block_def write_at_def)

lemma write_at_block_same: "i + n \<le> length bs \<Longrightarrow> write_at i (block i n bs) bs = bs"
  by (simp add: write_at_def block_def)
     (metis add.commute append_take_drop_id drop_drop)

lemma write_at_twice [mem_simps]:
  "i + length ys \<le> length bs \<Longrightarrow> length zs = length ys \<Longrightarrow>
    write_at i zs (write_at i ys bs) = write_at i zs bs"
  by (simp add: write_at_def)

lemma block_block: "a + b \<le> n \<Longrightarrow> block a b (block i n bs) = block (i + a) b bs"
  by (simp add: block_def take_drop min_def add.commute add.left_commute)

lemma block_full: "n = length bs \<Longrightarrow> block 0 n bs = bs"
  by (simp add: block_def)

end
