(* ===== verification/Byte_Order.thy ===== *)
theory Byte_Order
  imports Net_Prelude
begin

text \<open>
  Integers in memory. The programs run on little-endian machines, so reading a \<open>uint16_t\<close> or a
  \<open>uint32_t\<close> through a pointer gives the little-endian value of the bytes, and \<open>htons\<close>, \<open>ntohs\<close>,
  \<open>htonl\<close>, \<open>ntohl\<close> reverse the bytes of a value.
\<close>

definition mk16 :: "u8 \<Rightarrow> u8 \<Rightarrow> u16" where
  "mk16 hi lo = push_bit 8 (ucast hi) OR ucast lo"

definition hi8 :: "u16 \<Rightarrow> u8" where
  "hi8 w = ucast (drop_bit 8 w)"

definition lo8 :: "u16 \<Rightarrow> u8" where
  "lo8 w = ucast w"

definition htons :: "u16 \<Rightarrow> u16" where
  "htons w = mk16 (lo8 w) (hi8 w)"

definition mk32 :: "u8 \<Rightarrow> u8 \<Rightarrow> u8 \<Rightarrow> u8 \<Rightarrow> u32" where
  "mk32 a b c d =
     push_bit 24 (ucast a) OR push_bit 16 (ucast b) OR push_bit 8 (ucast c) OR ucast d"

definition byte32 :: "nat \<Rightarrow> u32 \<Rightarrow> u8" where
  "byte32 k w = ucast (drop_bit (8 * k) w)"

definition htonl :: "u32 \<Rightarrow> u32" where
  "htonl w = mk32 (byte32 0 w) (byte32 1 w) (byte32 2 w) (byte32 3 w)"

abbreviation ntohs :: "u16 \<Rightarrow> u16" where
  "ntohs \<equiv> htons"

abbreviation ntohl :: "u32 \<Rightarrow> u32" where
  "ntohl \<equiv> htonl"

text \<open>Loads and stores through a pointer to offset \<open>i\<close> of a byte array.\<close>

definition bytes16 :: "u16 \<Rightarrow> u8 list" where
  "bytes16 w = [lo8 w, hi8 w]"

definition bytes32 :: "u32 \<Rightarrow> u8 list" where
  "bytes32 w = [byte32 0 w, byte32 1 w, byte32 2 w, byte32 3 w]"

definition load16 :: "nat \<Rightarrow> u8 list \<Rightarrow> u16" where
  "load16 i bs = mk16 (bs ! (i + 1)) (bs ! i)"

definition load32 :: "nat \<Rightarrow> u8 list \<Rightarrow> u32" where
  "load32 i bs = mk32 (bs ! (i + 3)) (bs ! (i + 2)) (bs ! (i + 1)) (bs ! i)"

definition store8 :: "nat \<Rightarrow> u8 \<Rightarrow> u8 list \<Rightarrow> u8 list" where
  "store8 i w bs = write_at i [w] bs"

definition store16 :: "nat \<Rightarrow> u16 \<Rightarrow> u8 list \<Rightarrow> u8 list" where
  "store16 i w bs = write_at i (bytes16 w) bs"

definition store32 :: "nat \<Rightarrow> u32 \<Rightarrow> u8 list \<Rightarrow> u8 list" where
  "store32 i w bs = write_at i (bytes32 w) bs"

section \<open>Values\<close>

lemma hi8_mk16 [simp]: "hi8 (mk16 a b) = a"
  by (rule bit_word_eqI) (auto simp: hi8_def mk16_def bit_simps dest: bit_imp_le_length)

lemma lo8_mk16 [simp]: "lo8 (mk16 a b) = b"
  by (rule bit_word_eqI) (auto simp: lo8_def mk16_def bit_simps dest: bit_imp_le_length)

lemma mk16_hi8_lo8 [simp]: "mk16 (hi8 w) (lo8 w) = w"
  by (rule bit_word_eqI) (auto simp: hi8_def lo8_def mk16_def bit_simps dest: bit_imp_le_length)

lemma unat_mk16: "unat (mk16 a b) = 256 * unat a + unat b"
proof -
  have "mk16 a b = push_bit 8 (ucast a) + ucast b"
    unfolding mk16_def
    by (rule disjunctive_add_eq_or [symmetric], rule bit_word_eqI)
      (auto simp: bit_simps dest: bit_imp_le_length)
  also have "\<dots> = of_nat (256 * unat a + unat b)"
    by (simp add: push_bit_eq_mult)
  finally have eq: "mk16 a b = of_nat (256 * unat a + unat b)" .
  show ?thesis
    unfolding eq unat_of_nat
    using unat_bound8 [of a] unat_bound8 [of b] by simp
qed

lemma mk16_inject [simp]: "mk16 a b = mk16 c d \<longleftrightarrow> a = c \<and> b = d"
  by (metis hi8_mk16 lo8_mk16)

lemma htons_htons [simp]: "htons (htons w) = w"
  by (simp add: htons_def)

lemma byte32_mk32_0 [simp]: "byte32 0 (mk32 a b c d) = d"
  by (rule bit_word_eqI) (auto simp: byte32_def mk32_def bit_simps dest: bit_imp_le_length)

lemma byte32_mk32_1 [simp]: "byte32 (Suc 0) (mk32 a b c d) = c"
  by (rule bit_word_eqI) (auto simp: byte32_def mk32_def bit_simps dest: bit_imp_le_length)

lemma byte32_mk32_2 [simp]: "byte32 2 (mk32 a b c d) = b"
  by (rule bit_word_eqI) (auto simp: byte32_def mk32_def bit_simps dest: bit_imp_le_length)

lemma byte32_mk32_3 [simp]: "byte32 3 (mk32 a b c d) = a"
  by (rule bit_word_eqI) (auto simp: byte32_def mk32_def bit_simps dest: bit_imp_le_length)

lemmas byte32_mk32 = byte32_mk32_0 byte32_mk32_1 byte32_mk32_2 byte32_mk32_3

lemma mk32_byte32 [simp]:
  "mk32 (byte32 3 w) (byte32 2 w) (byte32 (Suc 0) w) (byte32 0 w) = w"
proof (rule bit_word_eqI)
  fix n
  assume n: "n < LENGTH(32)"
  consider "n < 8" | "8 \<le> n" "n < 16" | "16 \<le> n" "n < 24" | "24 \<le> n"
    by linarith
  then show "bit (mk32 (byte32 3 w) (byte32 2 w) (byte32 (Suc 0) w) (byte32 0 w)) n = bit w n"
    using n by cases (auto simp: byte32_def mk32_def bit_simps)
qed

lemma mk32_inject [simp]:
  "mk32 a b c d = mk32 a' b' c' d' \<longleftrightarrow> a = a' \<and> b = b' \<and> c = c' \<and> d = d'"
  by (metis byte32_mk32)

lemma htonl_htonl [simp]: "htonl (htonl w) = w"
  by (simp add: htonl_def)

lemma unat_mk32:
  "unat (mk32 a b c d) = 16777216 * unat a + 65536 * unat b + 256 * unat c + unat d"
proof -
  have "mk32 a b c d = push_bit 24 (ucast a) + (push_bit 16 (ucast b) + (push_bit 8 (ucast c) + ucast d))"
  proof -
    let ?a = "push_bit 24 (ucast a) :: u32" and ?b = "push_bit 16 (ucast b) :: u32"
      and ?c = "push_bit 8 (ucast c) :: u32" and ?d = "ucast d :: u32"
    have "?c + ?d = ?c OR ?d"
      by (rule disjunctive_add_eq_or, rule bit_word_eqI)
        (auto simp: bit_simps dest: bit_imp_le_length)
    moreover have "?b + (?c OR ?d) = ?b OR ?c OR ?d"
      by (rule disjunctive_add_eq_or, rule bit_word_eqI)
        (auto simp: bit_simps dest: bit_imp_le_length)
    moreover have "?a + (?b OR ?c OR ?d) = ?a OR ?b OR ?c OR ?d"
      by (rule disjunctive_add_eq_or, rule bit_word_eqI)
        (auto simp: bit_simps dest: bit_imp_le_length)
    ultimately show ?thesis by (simp add: mk32_def or.assoc)
  qed
  also have "\<dots> = of_nat (16777216 * unat a + 65536 * unat b + 256 * unat c + unat d)"
    by (simp add: push_bit_eq_mult)
  finally have eq: "mk32 a b c d =
      of_nat (16777216 * unat a + 65536 * unat b + 256 * unat c + unat d)" .
  show ?thesis
    unfolding eq unat_of_nat
    using unat_bound8 [of a] unat_bound8 [of b] unat_bound8 [of c] unat_bound8 [of d] by simp
qed

lemma htons_eq_iff [simp]: "htons a = htons b \<longleftrightarrow> a = b"
  by (metis htons_htons)

lemma htonl_eq_iff [simp]: "htonl a = htonl b \<longleftrightarrow> a = b"
  by (metis htonl_htonl)

section \<open>Loads and stores\<close>

lemma length_bytes16 [simp]: "length (bytes16 w) = 2"
  by (simp add: bytes16_def)

lemma length_bytes32 [simp]: "length (bytes32 w) = 4"
  by (simp add: bytes32_def)

lemma length_store8 [simp]: "i < length bs \<Longrightarrow> length (store8 i w bs) = length bs"
  by (simp add: store8_def)

lemma length_store16 [simp]: "i + 2 \<le> length bs \<Longrightarrow> length (store16 i w bs) = length bs"
  by (simp add: store16_def)

lemma length_store32 [simp]: "i + 4 \<le> length bs \<Longrightarrow> length (store32 i w bs) = length bs"
  by (simp add: store32_def)

lemma load16_eq_block:
  "i + 2 \<le> length bs \<Longrightarrow> load16 i bs = mk16 (block i 2 bs ! 1) (block i 2 bs ! 0)"
  by (simp add: load16_def nth_block)

lemma load32_eq_block:
  "i + 4 \<le> length bs \<Longrightarrow>
    load32 i bs = mk32 (block i 4 bs ! 3) (block i 4 bs ! 2) (block i 4 bs ! 1) (block i 4 bs ! 0)"
  by (simp add: load32_def nth_block)

lemma load16_bytes16 [simp]: "mk16 (bytes16 w ! 1) (bytes16 w ! 0) = w"
  by (simp add: bytes16_def)

lemma load16_write_same [mem_simps]:
  assumes "i + 2 \<le> length bs"
  shows "load16 i (store16 i w bs) = w"
  using assms by (simp add: load16_eq_block store16_def block_write_at_same)
    (simp add: bytes16_def)

lemma load32_write_same [mem_simps]:
  assumes "i + 4 \<le> length bs"
  shows "load32 i (store32 i w bs) = w"
  using assms by (simp add: load32_eq_block store32_def block_write_at_same)
    (simp add: bytes32_def)

lemma load16_write_at_other [mem_simps]:
  assumes "j + 2 \<le> i \<or> i + length ys \<le> j" and "i + length ys \<le> length bs" and "j + 2 \<le> length bs"
  shows "load16 j (write_at i ys bs) = load16 j bs"
  using assms by (auto simp: load16_def nth_write_at)

lemma load32_write_at_other [mem_simps]:
  assumes "j + 4 \<le> i \<or> i + length ys \<le> j" and "i + length ys \<le> length bs" and "j + 4 \<le> length bs"
  shows "load32 j (write_at i ys bs) = load32 j bs"
  using assms by (auto simp: load32_def nth_write_at)

lemma htons_ETHERTYPE_ARP: "htons 0x0806 = 1544"
  by code_simp

end
