(* ===== verification/Inet_Checksum.thy ===== *)
theory Inet_Checksum
  imports Byte_Order
begin

text \<open>
  The Internet checksum routines: \<open>ip_checksum\<close> (the same text in \<open>Teme/Tema1/skel.c\<close>,
  \<open>Lab04/skel.c\<close>, \<open>pc pirvu/skel.c\<close> and, as \<open>checksum\<close>, in \<open>Lab05/utils.c\<close>) and
  \<open>icmp_checksum\<close> of \<open>Teme/Tema1/skel.c\<close>.

  \<open>ip_checksum addr data\<close> is the call on the \<open>length data\<close> bytes stored at address \<open>addr\<close>: the
  code treats the bytes up to the first 4-byte boundary apart, so the address matters to what it
  does; the lemmas show that it does not matter to what it returns, which is the RFC 1071 sum.
\<close>

section \<open>The code\<close>

text \<open>The loop over complete 32-bit blocks.\<close>

fun sum_blocks :: "u64 \<Rightarrow> u8 list \<Rightarrow> u64" where
  "sum_blocks acc (a # b # c # d # data) =
     sum_blocks (acc + ucast (ntohl (load32 0 [a, b, c, d]))) data"
| "sum_blocks acc data = acc"

text \<open>The loop over deferred carries.\<close>

function fold_carries :: "u64 \<Rightarrow> u64" where
  "fold_carries acc =
     (if drop_bit 16 acc \<noteq> 0 then fold_carries ((acc AND 0xffff) + drop_bit 16 acc) else acc)"
  by pat_completeness auto

lemma unat_low16: "unat ((acc :: u64) AND 0xffff) = unat acc mod 65536"
proof -
  have "acc AND 0xffff = take_bit 16 acc"
    by (simp add: take_bit_eq_mask mask_eq_exp_minus_1)
  then show ?thesis by (simp add: unsigned_take_bit_eq take_bit_eq_mod unat_mod)
qed

lemma unat_low32: "unat ((acc :: u64) AND 0xffffffff) = unat acc mod 4294967296"
proof -
  have "acc AND 0xffffffff = take_bit 32 acc"
    by (simp add: take_bit_eq_mask mask_eq_exp_minus_1)
  then show ?thesis by (simp add: unsigned_take_bit_eq take_bit_eq_mod unat_mod)
qed

lemma unat_shr16: "unat (drop_bit 16 (acc :: u64)) = unat acc div 65536"
  by (simp add: drop_bit_eq_div unat_div)

lemma unat_shr32: "unat (drop_bit 32 (acc :: u64)) = unat acc div 4294967296"
  by (simp add: drop_bit_eq_div unat_div)

lemma unat_add64:
  "unat (a :: u64) + unat b < 2 ^ 64 \<Longrightarrow> unat (a + b) = unat a + unat b"
  by (simp add: unat_word_ariths)

lemma unat_bound64: "unat (a :: u64) < 2 ^ 64"
proof -
  have "unat a < 2 ^ LENGTH(64)"
    by (rule unsigned_less)
  then show ?thesis by simp
qed

lemma unat_fold16:
  "unat (((acc :: u64) AND 0xffff) + drop_bit 16 acc) = unat acc mod 65536 + unat acc div 65536"
proof -
  have "unat acc mod 65536 + unat acc div 65536 < 2 ^ 64"
    using unat_bound64 [of acc] by simp
  then show ?thesis
    by (subst unat_add64) (simp_all only: unat_low16 unat_shr16)
qed

lemma shr16_zero_iff: "drop_bit 16 (acc :: u64) = 0 \<longleftrightarrow> unat acc < 65536"
  by (metis div_eq_0_iff unat_eq_0 unat_shr16 zero_neq_numeral)

termination fold_carries
proof (relation "measure unat")
  fix acc :: u64
  assume "drop_bit 16 acc \<noteq> 0"
  then have "65536 \<le> unat acc"
    by (simp add: shr16_zero_iff)
  then have "unat acc mod 65536 + unat acc div 65536 < unat acc"
    using div_mult_mod_eq [of "unat acc" 65536] by linarith
  then show "((acc AND 0xffff) + drop_bit 16 acc, acc) \<in> measure unat"
    by (simp only: in_measure unat_fold16)
qed simp

declare fold_carries.simps [simp del]

text \<open>\<open>memcpy(at + (char*)&word, src, n)\<close> into a zeroed word, then \<open>ntohl\<close>.\<close>

definition partial_word :: "nat \<Rightarrow> u8 list \<Rightarrow> u32" where
  "partial_word at src = ntohl (load32 0 (write_at at src [0, 0, 0, 0]))"

text \<open>The bytes before the first 4-byte boundary, and the data that is left.\<close>

definition csum_start :: "nat \<Rightarrow> u8 list \<Rightarrow> u64 \<times> u8 list" where
  "csum_start offset vdata =
    (if offset \<noteq> 0
     then (let count = min (4 - offset) (length vdata)
           in (0xffff + ucast (partial_word offset (take count vdata)), drop count vdata))
     else (0xffff, vdata))"

text \<open>The complete 32-bit blocks and the bytes after the last one.\<close>

definition csum_blocks :: "u64 \<Rightarrow> u8 list \<Rightarrow> u64" where
  "csum_blocks acc data =
    (let data_end = length data - length data mod 4;
         acc' = sum_blocks acc (take data_end data);
         rest = drop data_end data
     in if rest \<noteq> [] then acc' + ucast (partial_word 0 rest) else acc')"

text \<open>Deferred carries and the byte swap for data that began at an odd address.\<close>

definition csum_finish :: "nat \<Rightarrow> u64 \<Rightarrow> u64" where
  "csum_finish offset acc =
    (let acc' = fold_carries ((acc AND 0xffffffff) + drop_bit 32 acc)
     in if odd offset
        then drop_bit 8 (acc' AND 0xff00) OR push_bit 8 (acc' AND 0xff)
        else acc')"

definition ip_checksum :: "nat \<Rightarrow> u8 list \<Rightarrow> u16" where
  "ip_checksum addr vdata =
    (let offset = addr mod 4;
         (acc, data) = csum_start offset vdata
     in htons (ucast (NOT (csum_finish offset (csum_blocks acc data)))))"

text \<open>
  \<open>icmp_checksum\<close> reads 16-bit words in host order; with an odd size it reads a whole word at the
  last byte, one byte past the \<open>size\<close> it was given. \<open>buffer\<close> is the memory at the pointer.
\<close>

fun icmp_sum :: "u64 \<Rightarrow> u8 list \<Rightarrow> nat \<Rightarrow> u64 res" where
  "icmp_sum cksum (a # b # buffer) sz =
     (if 1 < sz then icmp_sum (cksum + ucast (load16 0 [a, b])) buffer (sz - 2)
      else if sz \<noteq> 0 then Inr (cksum + ucast (load16 0 [a, b]))
      else Inr cksum)"
| "icmp_sum cksum buffer sz = (if sz = 0 then Inr cksum else Inl Out_Of_Bounds)"

definition icmp_checksum :: "u8 list \<Rightarrow> nat \<Rightarrow> u16 res" where
  "icmp_checksum buffer sz =
    rbind (icmp_sum 0 buffer sz) (\<lambda>cksum.
      let c1 = drop_bit 16 cksum + (cksum AND 0xffff);
          c2 = c1 + drop_bit 16 c1
      in Inr (ucast (NOT c2)))"

section \<open>Reference: the ones'-complement sum of RFC 1071\<close>

fun be_words :: "u8 list \<Rightarrow> u16 list" where
  "be_words [] = []"
| "be_words [a] = [mk16 a 0]"
| "be_words (a # b # data) = mk16 a b # be_words data"

definition ones_add :: "u16 \<Rightarrow> u16 \<Rightarrow> u16" where
  "ones_add a b =
    (if unat a + unat b < 65536 then a + b else a + b + 1)"

definition rfc1071 :: "u8 list \<Rightarrow> u16" where
  "rfc1071 data = NOT (foldl ones_add 0 (be_words data))"


section \<open>The value of a byte sequence modulo 65535\<close>

text \<open>
  \<open>bsum hi bs\<close> is the sum of \<open>bs\<close> as 16-bit big-endian words whose first byte is a high byte iff
  \<open>hi\<close>. All the routines compute it modulo 65535, with 65535 (never 0) for the class of 0.
\<close>

fun bsum :: "bool \<Rightarrow> u8 list \<Rightarrow> nat" where
  "bsum hi [] = 0"
| "bsum hi (b # bs) = (if hi then 256 * unat b else unat b) + bsum (\<not> hi) bs"

definition cong16 :: "nat \<Rightarrow> nat \<Rightarrow> bool" where
  "cong16 a b \<longleftrightarrow> a mod 65535 = b mod 65535"

definition class16 :: "nat \<Rightarrow> nat" where
  "class16 s = (if s mod 65535 = 0 then 65535 else s mod 65535)"

lemma cong16_refl [simp, intro]: "cong16 a a"
  by (simp add: cong16_def)

lemma cong16_sym: "cong16 a b \<Longrightarrow> cong16 b a"
  by (simp add: cong16_def)

lemma cong16_trans [trans]: "cong16 a b \<Longrightarrow> cong16 b c \<Longrightarrow> cong16 a c"
  by (simp add: cong16_def)

lemma cong16_add: "cong16 a b \<Longrightarrow> cong16 c d \<Longrightarrow> cong16 (a + c) (b + d)"
  unfolding cong16_def by (metis mod_add_eq)

lemma cong16_mult: "cong16 a b \<Longrightarrow> cong16 (k * a) (k * b)"
  unfolding cong16_def by (metis mod_mult_right_eq)

lemma cong16_65536: "cong16 (65536 * a) a"
proof -
  have "65536 * a = a + 65535 * a" by simp
  then show ?thesis by (simp only: cong16_def mod_mult_self2)
qed

lemma cong16_add_65535: "cong16 (65535 + a) a"
  by (simp add: cong16_def)

lemma class16_cong: "cong16 a b \<Longrightarrow> class16 a = class16 b"
  by (simp add: cong16_def class16_def)

lemma class16_unique: "0 < r \<Longrightarrow> r < 65536 \<Longrightarrow> cong16 r s \<Longrightarrow> r = class16 s"
  unfolding cong16_def class16_def
  by (cases "r = 65535") auto

lemma class16_range: "0 < class16 s \<and> class16 s < 65536"
  using pos_mod_bound [of 65535 "int s"] by (auto simp: class16_def intro: less_trans [of _ 65535])

lemma bsum_append:
  "bsum hi (xs @ ys) = bsum hi xs + bsum (if even (length xs) then hi else \<not> hi) ys"
  by (induction xs arbitrary: hi) auto

lemma cong16_bsum_shift: "cong16 (bsum (\<not> hi) bs) (256 * bsum hi bs)"
proof (induction bs arbitrary: hi)
  case (Cons b bs)
  have "cong16 (if \<not> hi then 256 * unat b else unat b) (256 * (if hi then 256 * unat b else unat b))"
    using cong16_sym [OF cong16_65536 [of "unat b"]] by auto
  from cong16_add [OF this Cons.IH [of "\<not> hi"]] show ?case
    by (simp add: add_mult_distrib2)
qed simp

text \<open>Carries: adding the high part of an accumulator to its low part keeps its class.\<close>

lemma cong16_fold16: "cong16 (n mod 65536 + n div 65536) n"
proof -
  have "cong16 (n mod 65536 + n div 65536) (n mod 65536 + 65536 * (n div 65536))"
    by (intro cong16_add cong16_refl cong16_sym [OF cong16_65536])
  then show ?thesis by (simp only: mod_mult_div_eq)
qed

lemma cong16_fold32: "cong16 (n mod 4294967296 + n div 4294967296) n"
proof -
  have eq: "65536 * (65536 * (n div 4294967296)) = 4294967296 * (n div 4294967296)"
    by simp
  have "cong16 (4294967296 * (n div 4294967296)) (n div 4294967296)"
    unfolding eq [symmetric] by (rule cong16_trans [OF cong16_65536 cong16_65536])
  then have "cong16 (n mod 4294967296 + n div 4294967296)
      (n mod 4294967296 + 4294967296 * (n div 4294967296))"
    by (rule cong16_add [OF cong16_refl cong16_sym])
  then show ?thesis by (simp only: mod_mult_div_eq)
qed

lemma fold_carries_class: "0 < unat acc \<Longrightarrow> unat (fold_carries acc) = class16 (unat acc)"
proof (induction acc rule: fold_carries.induct)
  case (1 acc)
  show ?case
  proof (cases "drop_bit 16 acc \<noteq> 0")
    case True
    then have "65536 \<le> unat acc"
      by (simp add: shr16_zero_iff)
    then have "0 < unat acc mod 65536 + unat acc div 65536"
      by (simp add: div_greater_zero_iff)
    with "1.IH" True have "unat (fold_carries acc) = class16 (unat acc mod 65536 + unat acc div 65536)"
      by (subst fold_carries.simps) (simp add: unat_fold16)
    then show ?thesis
      by (simp add: class16_cong [OF cong16_fold16])
  next
    case False
    then have "unat acc < 65536"
      by (simp add: shr16_zero_iff)
    with False "1.prems" show ?thesis
      by (subst fold_carries.simps) (simp add: class16_unique)
  qed
qed


section \<open>The accumulator of \<open>ip_checksum\<close>\<close>

lemma unat_ntohl_load: "unat (ntohl (load32 0 [a, b, c, d])) =
    16777216 * unat a + 65536 * unat b + 256 * unat c + unat d"
  by (simp add: load32_def htonl_def unat_mk32)

lemma cong16_word32:
  "cong16 (16777216 * a + 65536 * b + 256 * c + d) (256 * a + b + (256 * c + d))"
proof -
  have "cong16 (65536 * (256 * a)) (256 * a)" and "cong16 (65536 * b) b"
    by (rule cong16_65536)+
  then have "cong16 (65536 * (256 * a) + 65536 * b + (256 * c + d)) (256 * a + b + (256 * c + d))"
    by (intro cong16_add cong16_refl)
  then show ?thesis by (simp add: ac_simps)
qed

lemma unat_ucast_32_64 [simp]: "unat (ucast (w :: u32) :: u64) = unat w"
  using unat_bound32 [of w] by (simp add: unsigned_ucast_eq take_bit_eq_mod)

lemma sum_blocks_spec:
  assumes "length bs mod 4 = 0" and "unat acc + length bs div 4 * 4294967296 < 2 ^ 64"
  shows "cong16 (unat (sum_blocks acc bs)) (unat acc + bsum True bs) \<and>
    unat acc \<le> unat (sum_blocks acc bs) \<and>
    unat (sum_blocks acc bs) \<le> unat acc + length bs div 4 * 4294967296"
  using assms
proof (induction acc bs rule: sum_blocks.induct)
  case (1 acc a b c d bs)
  let ?w = "ntohl (load32 0 [a, b, c, d])"
  have w: "unat ?w < 4294967296"
    by (rule unat_bound32)
  have q: "length (a # b # c # d # bs) div 4 = Suc (length bs div 4)"
      "(length bs + 4) div 4 = Suc (length bs div 4)"
    by simp_all
  have add: "unat (acc + ucast ?w) = unat acc + unat ?w"
    by (subst unat_add64) (use w "1.prems"(2) in \<open>simp_all only: q unat_ucast_32_64, simp_all\<close>)
  have "cong16 (unat (sum_blocks (acc + ucast ?w) bs)) (unat (acc + ucast ?w) + bsum True bs) \<and>
      unat (acc + ucast ?w) \<le> unat (sum_blocks (acc + ucast ?w) bs) \<and>
      unat (sum_blocks (acc + ucast ?w) bs) \<le> unat (acc + ucast ?w) + length bs div 4 * 4294967296"
    by (rule "1.IH") (use w "1.prems" in \<open>simp_all only: add q, simp_all\<close>)
  moreover have "cong16 (unat acc + unat ?w + bsum True bs)
      (unat acc + (256 * unat a + unat b + (256 * unat c + unat d)) + bsum True bs)"
    by (intro cong16_add cong16_refl) (simp only: unat_ntohl_load cong16_word32)
  ultimately show ?case
    using w by (auto simp: add q ac_simps elim: cong16_trans)
qed auto

text \<open>A partial word at the start or the end of the data.\<close>

lemma cong16_load_block:
  "length w = 4 \<Longrightarrow> cong16 (unat (ntohl (load32 0 w))) (bsum True w)"
  by (cases "(0 :: u64, w)" rule: sum_blocks.cases)
     (auto simp: unat_ntohl_load cong16_word32 [unfolded add.assoc] add.assoc)

lemma bsum_zeros [simp]: "bsum hi (replicate n 0) = 0"
  by (induction n arbitrary: hi) auto

lemma write_at_zeros:
  "at + length src \<le> n \<Longrightarrow>
    write_at at src (replicate n 0) = replicate at 0 @ src @ replicate (n - at - length src) 0"
  by (simp add: write_at_def min_def)

lemma partial_word_spec:
  assumes "at + length src \<le> 4"
  shows "cong16 (unat (partial_word at src)) (bsum (even at) src)"
proof -
  have z: "[0, 0, 0, 0] = replicate 4 (0 :: u8)"
    by (simp add: numeral_eq_Suc)
  have "bsum True (write_at at src [0, 0, 0, 0]) = bsum (even at) src"
    unfolding z using assms by (subst write_at_zeros) (auto simp: bsum_append)
  moreover have "length (write_at at src [0, 0, 0, 0]) = 4"
    using assms by simp
  ultimately show ?thesis
    unfolding partial_word_def by (metis cong16_load_block)
qed


text \<open>The head, the body and the tail of the data, put together.\<close>

lemma csum_start_spec:
  assumes "csum_start offset vdata = (acc, data)" and "offset < 4"
  shows "cong16 (unat acc + bsum True data) (bsum (even offset) vdata) \<and>
    65535 \<le> unat acc \<and> unat acc < 2 ^ 33 \<and> length data \<le> length vdata"
proof (cases "offset = 0")
  case True
  then show ?thesis
    using assms cong16_add_65535 by (auto simp: csum_start_def)
next
  case False
  define count where "count = min (4 - offset) (length vdata)"
  let ?p = "partial_word offset (take count vdata)"
  have acc: "acc = 0xffff + ucast ?p" and data: "data = drop count vdata"
    using assms(1) False by (auto simp: csum_start_def count_def Let_def)
  have p: "unat ?p < 4294967296"
    by (rule unat_bound32)
  have u: "unat acc = 65535 + unat ?p"
    unfolding acc by (subst unat_add64) (use p in simp_all)
  have split: "bsum (even offset) vdata = bsum (even offset) (take count vdata) + bsum True data"
  proof (cases "length vdata \<le> 4 - offset")
    case True
    then show ?thesis by (simp add: data count_def)
  next
    case False
    then have "count = 4 - offset" and "length (take count vdata) = 4 - offset"
      by (simp_all add: count_def)
    moreover have "even (4 - offset) = even offset"
      using assms(2) by simp
    ultimately show ?thesis
      using bsum_append [of "even offset" "take count vdata" "drop count vdata"]
      by (auto simp: data)
  qed
  have "cong16 (unat ?p) (bsum (even offset) (take count vdata))"
    by (rule partial_word_spec) (use assms(2) in \<open>simp add: count_def\<close>)
  then have "cong16 (65535 + unat ?p) (bsum (even offset) (take count vdata))"
    by (rule cong16_trans [OF cong16_add_65535])
  then have "cong16 (65535 + unat ?p + bsum True data) (bsum (even offset) vdata)"
    unfolding split by (rule cong16_add) simp
  then show ?thesis
    using p by (simp add: u data)
qed

lemma csum_blocks_spec:
  assumes "unat acc < 2 ^ 33" and "length data < 2 ^ 32"
  shows "cong16 (unat (csum_blocks acc data)) (unat acc + bsum True data) \<and>
    unat acc \<le> unat (csum_blocks acc data)"
proof -
  define n where "n = length data - length data mod 4"
  define acc' where "acc' = sum_blocks acc (take n data)"
  let ?p = "partial_word 0 (drop n data)"
  have len: "length (take n data) = 4 * (length data div 4)"
    by (simp add: n_def minus_mod_eq_mult_div)
  have lb: "length data div 4 < 1073741824"
    using assms(2) by (simp add: less_mult_imp_div_less)
  have body: "cong16 (unat acc') (unat acc + bsum True (take n data)) \<and> unat acc \<le> unat acc' \<and>
      unat acc' \<le> unat acc + length (take n data) div 4 * 4294967296"
    unfolding acc'_def
    by (rule sum_blocks_spec) (use assms(1) lb in \<open>simp_all only: len, simp_all\<close>)
  have ub: "unat acc' \<le> unat acc + length data div 4 * 4294967296"
    using body unfolding len by simp
  have split: "bsum True data = bsum True (take n data) + bsum True (drop n data)"
    using bsum_append [of True "take n data" "drop n data"] len by simp
  show ?thesis
  proof (cases "drop n data = []")
    case True
    then have "csum_blocks acc data = acc'"
      unfolding csum_blocks_def Let_def n_def [symmetric] acc'_def [symmetric] by simp
    with body show ?thesis by (simp add: split True)
  next
    case False
    have "length data mod 4 < 4"
      by simp
    then have "length (drop n data) \<le> 4"
      by (simp add: n_def)
    then have p: "cong16 (unat ?p) (bsum True (drop n data))"
      using partial_word_spec [of 0 "drop n data"] by simp
    have "unat (acc' + ucast ?p) = unat acc' + unat ?p"
      by (subst unat_add64) (use ub assms(1) lb unat_bound32 [of ?p] in simp_all)
    moreover have "csum_blocks acc data = acc' + ucast ?p"
      using False unfolding csum_blocks_def Let_def n_def [symmetric] acc'_def [symmetric] by simp
    ultimately show ?thesis
      using body cong16_add [OF conjunct1 [OF body] p] by (simp add: split add.assoc)
  qed
qed

lemma unat_swap:
  assumes "unat r < 65536"
  shows "unat (drop_bit 8 (r AND 0xff00) OR push_bit 8 (r AND (0xff :: u64))) =
      256 * (unat r mod 256) + unat r div 256"
proof -
  have m: "(0xff :: u64) = mask 8" "(0xff00 :: u64) = push_bit 8 (mask 8)"
    by (simp_all add: mask_eq_exp_minus_1 push_bit_eq_mult)
  have a: "drop_bit 8 (r AND 0xff00) = take_bit 8 (drop_bit 8 r)"
    unfolding m by (rule bit_word_eqI) (auto simp: bit_simps)
  have b: "r AND 0xff = take_bit 8 r"
    unfolding m by (simp add: take_bit_eq_mask)
  have "drop_bit 8 (r AND 0xff00) OR push_bit 8 (r AND 0xff) =
      take_bit 8 (drop_bit 8 r) + push_bit 8 (take_bit 8 r)"
    unfolding a b
    by (rule disjunctive_add_eq_or [symmetric], rule bit_word_eqI) (auto simp: bit_simps)
  also have "\<dots> = of_nat (unat r div 256 + 256 * (unat r mod 256))"
  proof -
    have "take_bit 8 (drop_bit 8 r) = drop_bit 8 r"
      using assms less_mult_imp_div_less [of "unat r" 256 256]
      by (simp add: take_bit_eq_mod drop_bit_eq_div word_unat_eq_iff unat_mod unat_div)
    moreover have "drop_bit 8 r = of_nat (unat r div 256)"
      by (rule word_eq_of_nat) (simp add: drop_bit_eq_div unat_div)
    moreover have "take_bit 8 r = of_nat (unat r mod 256)"
      by (rule word_eq_of_nat) (simp add: take_bit_eq_mod unat_mod)
    ultimately show ?thesis
      by (simp add: push_bit_eq_mult)
  qed
  finally have eq: "drop_bit 8 (r AND 0xff00) OR push_bit 8 (r AND 0xff) =
      of_nat (unat r div 256 + 256 * (unat r mod 256))" .
  have "unat r div 256 < 256"
    using assms by (simp add: less_mult_imp_div_less)
  moreover have "unat r mod 256 < 256"
    by simp
  ultimately have "unat r div 256 + 256 * (unat r mod 256) < 65536 + 65536"
    by linarith
  then have "unat r div 256 + 256 * (unat r mod 256) < 2 ^ 64"
    by simp
  then show ?thesis
    unfolding eq unat_of_nat by simp
qed

lemma cong16_swap: "cong16 (256 * (n mod 256) + n div 256) (256 * n)"
proof -
  have eq: "256 * n = 256 * (n mod 256) + 65536 * (n div 256)"
    using mod_mult_div_eq [of n 256] by linarith
  show ?thesis
    unfolding eq by (intro cong16_add cong16_refl cong16_sym [OF cong16_65536])
qed

lemma csum_finish_spec:
  assumes "0 < unat acc" and "cong16 (unat acc) (bsum (even offset) data)"
  shows "unat (csum_finish offset acc) = class16 (bsum True data)"
proof -
  let ?acc4 = "(acc AND 0xffffffff) + drop_bit 32 acc"
  have "unat acc div 4294967296 < 2 ^ 32"
    using unat_bound64 [of acc] by (simp add: less_mult_imp_div_less)
  then have u4: "unat ?acc4 = unat acc mod 4294967296 + unat acc div 4294967296"
    by (subst unat_add64) (simp_all add: unat_low32 unat_shr32)
  have "0 < unat ?acc4"
    unfolding u4 using assms(1) mod_mult_div_eq [of "unat acc" 4294967296]
    by (metis add_is_0 mult_is_0 neq0_conv)
  then have u5: "unat (fold_carries ?acc4) = class16 (bsum (even offset) data)"
    using fold_carries_class [of ?acc4] cong16_trans [OF cong16_fold32 assms(2)]
    by (simp add: u4 class16_cong)
  show ?thesis
  proof (cases "odd offset")
    case True
    define r where "r = fold_carries ?acc4"
    have r: "unat r = class16 (bsum False data)"
      using u5 True by (simp add: r_def)
    have r65: "unat r < 65536" "0 < unat r"
      using class16_range by (auto simp: r)
    have v: "unat (csum_finish offset acc) = 256 * (unat r mod 256) + unat r div 256"
      using True
      by (simp only: csum_finish_def Let_def r_def [symmetric] not_False_eq_True if_True
          unat_swap [OF r65(1)])
    have "cong16 (unat r) (bsum False data)"
      unfolding r by (simp add: cong16_def class16_def)
    then have "cong16 (256 * (unat r mod 256) + unat r div 256) (256 * bsum False data)"
      by (rule cong16_trans [OF cong16_swap cong16_mult])
    then have c: "cong16 (256 * (unat r mod 256) + unat r div 256) (bsum True data)"
      by (rule cong16_trans [OF _ cong16_sym [OF cong16_bsum_shift [of False, simplified]]])
    have up: "256 * (unat r mod 256) + unat r div 256 < 65536"
      using r65 by (simp add: less_mult_imp_div_less)
    have lo: "0 < 256 * (unat r mod 256) + unat r div 256"
      using r65(2) mod_mult_div_eq [of "unat r" 256] by linarith
    show ?thesis
      unfolding v by (rule class16_unique [OF lo up c])
  next
    case False
    then show ?thesis
      using u5 by (simp add: csum_finish_def Let_def)
  qed
qed

lemma ucast_not_64_16: "ucast (NOT (w :: u64)) = NOT (ucast w :: u16)"
  by (rule bit_word_eqI) (simp add: bit_simps)

text \<open>What \<open>ip_checksum\<close> returns depends on the bytes only, not on their address.\<close>

lemma ip_checksum_class:
  assumes "length data < 2 ^ 32"
  shows "ip_checksum addr data = htons (NOT (of_nat (class16 (bsum True data))))"
proof -
  obtain acc rest where start: "csum_start (addr mod 4) data = (acc, rest)"
    by force
  from csum_start_spec [OF start]
  have s: "cong16 (unat acc + bsum True rest) (bsum (even (addr mod 4)) data)"
      "65535 \<le> unat acc" "unat acc < 2 ^ 33" "length rest \<le> length data"
    by simp_all
  from csum_blocks_spec [OF s(3), of rest] assms s(4)
  have b: "cong16 (unat (csum_blocks acc rest)) (unat acc + bsum True rest)"
      "unat acc \<le> unat (csum_blocks acc rest)"
    by simp_all
  have "unat (csum_finish (addr mod 4) (csum_blocks acc rest)) = class16 (bsum True data)"
    by (rule csum_finish_spec) (use s b in \<open>auto intro: cong16_trans\<close>)
  then have "unat (ucast (csum_finish (addr mod 4) (csum_blocks acc rest)) :: u16) =
      class16 (bsum True data)"
    using class16_range [of "bsum True data"] by (simp add: unsigned_ucast_eq take_bit_eq_mod)
  then have "ucast (csum_finish (addr mod 4) (csum_blocks acc rest)) =
      (of_nat (class16 (bsum True data)) :: u16)"
    by (rule word_eq_of_nat)
  then show ?thesis
    by (simp add: ip_checksum_def start ucast_not_64_16)
qed

section \<open>Agreement with RFC 1071\<close>

lemma unat_ones_add:
  "unat (ones_add a b) =
    (if unat a + unat b < 65536 then unat a + unat b else unat a + unat b - 65535)"
proof (cases "unat a + unat b < 65536")
  case False
  define s where "s = unat a + unat b"
  have "s < 131071"
    using unat_bound16 [of a] unat_bound16 [of b] by (simp add: s_def)
  moreover have "65536 \<le> s"
    using False by (simp add: s_def)
  moreover have "unat (a + b + 1) = (s + 1) mod 65536"
    by (simp add: unat_word_ariths s_def mod_simps)
  ultimately have "unat (a + b + 1) = s - 65535"
    by (simp add: mod_if)
  then show ?thesis
    using False by (simp add: ones_add_def s_def)
qed (simp add: ones_add_def unat_word_ariths)

lemma cong16_ones_add: "cong16 (unat (ones_add a b)) (unat a + unat b)"
  using cong16_add_65535 [of "unat a + unat b - 65535"]
  by (auto simp: unat_ones_add intro: cong16_sym)

lemma ones_add_eq_0_iff: "ones_add a b = 0 \<longleftrightarrow> a = 0 \<and> b = 0"
  by (auto simp: unat_eq_0 [symmetric] unat_ones_add split: if_splits)

lemma cong16_foldl_ones_add:
  "cong16 (unat (foldl ones_add a ws)) (unat a + sum_list (map unat ws))"
proof (induction ws arbitrary: a)
  case (Cons w ws)
  have "cong16 (unat (ones_add a w) + sum_list (map unat ws)) (unat a + unat w + sum_list (map unat ws))"
    by (rule cong16_add [OF cong16_ones_add cong16_refl])
  then show ?case
    using cong16_trans [OF Cons.IH [of "ones_add a w"]] by (simp add: add.assoc)
qed simp

lemma foldl_ones_add_eq_0_iff:
  "foldl ones_add a ws = 0 \<longleftrightarrow> a = 0 \<and> (\<forall>w \<in> set ws. w = 0)"
  by (induction ws arbitrary: a) (auto simp: ones_add_eq_0_iff)

lemma mk16_eq_0_iff: "mk16 a b = 0 \<longleftrightarrow> a = 0 \<and> b = 0"
proof -
  have "mk16 0 0 = 0"
    by code_simp
  then show ?thesis by (metis mk16_inject)
qed

lemma sum_list_be_words: "sum_list (map unat (be_words data)) = bsum True data"
  by (induction data rule: be_words.induct) (simp_all add: unat_mk16)

lemma be_words_zero_iff: "(\<forall>w \<in> set (be_words data). w = 0) \<longleftrightarrow> (\<forall>b \<in> set data. b = 0)"
  by (induction data rule: be_words.induct) (auto simp: mk16_eq_0_iff)

lemma rfc1071_class:
  assumes "\<exists>b \<in> set data. b \<noteq> 0"
  shows "rfc1071 data = NOT (of_nat (class16 (bsum True data)))"
proof -
  let ?f = "foldl ones_add 0 (be_words data)"
  have "?f \<noteq> 0"
    using assms by (simp add: foldl_ones_add_eq_0_iff be_words_zero_iff)
  then have "0 < unat ?f"
    by (simp add: unat_gt_0)
  moreover have "cong16 (unat ?f) (bsum True data)"
    using cong16_foldl_ones_add [of 0 "be_words data"] by (simp add: sum_list_be_words)
  ultimately have "unat ?f = class16 (bsum True data)"
    using class16_unique unat_bound16 by blast
  then show ?thesis
    by (metis rfc1071_def word_eq_of_nat)
qed

text \<open>
  C3. \<open>ip_checksum\<close> computes the RFC 1071 checksum, in network byte order, of any data that is not
  all zero, whatever the alignment of the buffer (the special treatment of the first and the last
  partial block and the final byte swap cancel out) and without overflow of its accumulator.
\<close>

theorem ip_checksum_rfc1071:
  assumes "length data < 2 ^ 32" and "\<exists>b \<in> set data. b \<noteq> 0"
  shows "ip_checksum addr data = htons (rfc1071 data)"
  using assms by (simp add: ip_checksum_class rfc1071_class)

theorem ip_checksum_rfc1071_witness:
  "ip_checksum 2 [0x45, 0, 0, 0x54, 0xbe] = htons (rfc1071 [0x45, 0, 0, 0x54, 0xbe])"
  by (rule ip_checksum_rfc1071) simp_all

section \<open>Verification of a received checksum\<close>

lemma unat_not16: "unat (NOT (w :: u16)) = 65535 - unat w"
proof -
  have "NOT w = - 1 - w"
    by (simp add: not_eq_complement)
  then have "unat (NOT w) = unat (- 1 - w)"
    by simp
  also have "\<dots> = unat (- 1 :: u16) - unat w"
    by (rule unat_sub) simp
  also have "unat (- 1 :: u16) = 65535"
    by (simp add: unsigned_minus_1_eq_mask mask_eq_exp_minus_1)
  finally show ?thesis .
qed

text \<open>Storing the checksum itself, big-endian, into two zero bytes at an even offset.\<close>

lemma bsum_store16:
  assumes "i + 2 \<le> length bs" and "even i"
  shows "bsum True (store16 i (htons w) bs) + bsum True (block i 2 bs) = bsum True bs + unat w"
proof -
  have split: "bs = take i bs @ block i 2 bs @ drop (i + 2) bs"
    by (metis append_take_drop_id block_def drop_drop add.commute)
  have len: "length (take i bs) = i" "length (block i 2 bs) = 2"
    using assms(1) by simp_all
  have w: "bsum True (bytes16 (htons w)) = unat w"
    by (simp add: bytes16_def htons_def unat_mk16 [symmetric])
  have "bsum True bs = bsum True (take i bs) + bsum True (block i 2 bs) + bsum True (drop (i + 2) bs)"
    by (subst split) (use assms(2) in \<open>simp only: bsum_append len, simp add: len\<close>)
  moreover have "bsum True (store16 i (htons w) bs) =
      bsum True (take i bs) + unat w + bsum True (drop (i + 2) bs)"
    unfolding store16_def write_at_def
    using assms by (simp add: bsum_append w)
  ultimately show ?thesis by simp
qed

lemma bsum_bytes16_0: "block i 2 bs = bytes16 0 \<Longrightarrow> bsum True (block i 2 bs) = 0"
  by (simp add: bytes16_def lo8_def hi8_def)

lemma checksum_stored_verifies:
  assumes "length data < 2 ^ 32" and "even i" and "i + 2 \<le> length data"
  shows "ip_checksum addr' (store16 i (ip_checksum addr (store16 i 0 data)) data) = 0"
proof -
  define zeroed where "zeroed = store16 i 0 data"
  define r where "r = class16 (bsum True zeroed)"
  have r: "0 < r" "r < 65536" "cong16 r (bsum True zeroed)"
    using class16_range by (auto simp: r_def cong16_def class16_def)
  have len: "length zeroed = length data"
    using assms(3) by (simp add: zeroed_def)
  have ck: "ip_checksum addr zeroed = htons (NOT (of_nat r))"
    using assms(1) by (simp add: ip_checksum_class len r_def)
  have blk: "block i 2 zeroed = bytes16 0"
    using assms(3) by (simp add: zeroed_def store16_def block_write_at_same)
  define final where "final = store16 i (htons (NOT (of_nat r))) zeroed"
  have eq: "store16 i (ip_checksum addr zeroed) data = final"
    unfolding ck using assms(3) by (simp add: final_def zeroed_def store16_def write_at_twice)
  have ur: "unat (of_nat r :: u16) = r"
    using r(2) by (simp add: unat_of_nat)
  have "bsum True final = bsum True zeroed + (65535 - r)"
    using bsum_store16 [of i zeroed "NOT (of_nat r)"] assms(2,3) bsum_bytes16_0 [OF blk]
    by (simp add: final_def len unat_not16 ur)
  moreover have "cong16 (bsum True zeroed + (65535 - r)) (r + (65535 - r))"
    by (rule cong16_add [OF cong16_sym [OF r(3)] cong16_refl])
  ultimately have "class16 (bsum True final) = 65535"
    using class16_cong [of "bsum True final" 65535] r(2) by (simp add: class16_def)
  moreover have "length final = length data"
    using assms(3) by (simp add: final_def len)
  ultimately have "ip_checksum addr' final = htons (NOT 65535)"
    using assms(1) by (simp add: ip_checksum_class)
  also have "htons (NOT 65535) = 0"
    by code_simp
  finally show ?thesis
    by (simp only: zeroed_def [symmetric] eq)
qed

text \<open>
  A checksum that is computed over data with a zero checksum field and then stored in that
  field verifies: the routine over the whole data then returns 0 (the receiver's test of
  \<open>Lab04/router.c\<close>), at every alignment of the receiving buffer.
\<close>

theorem ip_checksum_verifies:
  assumes "length data < 2 ^ 32" and "even i" and "i + 2 \<le> length data"
  shows "ip_checksum addr' (store16 i (ip_checksum addr (store16 i 0 data)) data) = 0"
  using assms by (rule checksum_stored_verifies)

theorem ip_checksum_verifies_witness:
  "ip_checksum 3 (store16 2 (ip_checksum 2 (store16 2 0 [0x45, 1, 7, 7])) [0x45, 1, 7, 7]) = 0"
  by (rule ip_checksum_verifies) simp_all

section \<open>Detection of a corrupted byte\<close>

lemma bsum_update:
  assumes "k < length bs"
  shows "bsum hi (bs[k := v]) + (if even k = hi then 256 else 1) * unat (bs ! k) =
    bsum hi bs + (if even k = hi then 256 else 1) * unat v"
  using assms
proof (induction bs arbitrary: hi k)
  case (Cons b bs)
  show ?case
  proof (cases k)
    case (Suc j)
    with Cons.IH [of j "\<not> hi"] Cons.prems show ?thesis
      by (auto split: if_splits)
  qed auto
qed simp

lemma class16_eq_iff: "class16 a = class16 b \<longleftrightarrow> cong16 a b"
proof
  assume "class16 a = class16 b"
  moreover have "cong16 (class16 s) s" for s
    by (simp add: cong16_def class16_def)
  ultimately show "cong16 a b"
    by (metis cong16_sym cong16_trans)
qed (rule class16_cong)

lemma of_nat_u16_eq_iff:
  "a < 65536 \<Longrightarrow> b < 65536 \<Longrightarrow> (of_nat a :: u16) = of_nat b \<longleftrightarrow> a = b"
proof -
  assume ab: "a < 65536" "b < 65536"
  have "unat (of_nat a :: u16) = a" and "unat (of_nat b :: u16) = b"
    using ab by (simp_all add: unat_of_nat)
  then show ?thesis by metis
qed

lemma cong16_small_diff:
  assumes "cong16 a b" and "a + c * m = b + c * n" and "m < 256" and "n < 256" and "c = 1 \<or> c = 256"
  shows "m = n"
proof -
  have "int (a mod 65535) = int (b mod 65535)"
    using assms(1) by (simp only: cong16_def)
  then have "65535 dvd (int a - int b)"
    by (simp add: mod_eq_dvd_iff zmod_int)
  moreover have "int a - int b = int c * (int n - int m)"
    using arg_cong [OF assms(2), of int] by (simp add: algebra_simps)
  ultimately have d: "65535 dvd int c * (int n - int m)"
    by simp
  have "int c * (int n - int m) = 0"
  proof (rule ccontr)
    assume nz: "int c * (int n - int m) \<noteq> 0"
    have "\<bar>int c * (int n - int m)\<bar> \<le> 65280"
      using assms(3,4,5) by (auto simp: abs_le_iff)
    with dvd_imp_le_int [OF nz d] show False by simp
  qed
  then show ?thesis
    using assms(5) by auto
qed

text \<open>
  Changing any single byte of the data changes the checksum, so a header with one corrupted byte
  never passes for the header that was sent.
\<close>

theorem ip_checksum_detects_byte:
  assumes "length data < 2 ^ 32" and "k < length data" and "v \<noteq> data ! k"
  shows "ip_checksum addr (data[k := v]) \<noteq> ip_checksum addr' data"
proof
  assume eq: "ip_checksum addr (data[k := v]) = ip_checksum addr' data"
  then have "class16 (bsum True (data[k := v])) = class16 (bsum True data)"
    using assms(1) class16_range by (simp add: ip_checksum_class of_nat_u16_eq_iff)
  then have "cong16 (bsum True (data[k := v])) (bsum True data)"
    by (simp add: class16_eq_iff)
  then have "unat (data ! k) = unat v"
    by (rule cong16_small_diff [OF _ bsum_update [OF assms(2)]]) (use unat_bound8 in auto)
  then show False
    using assms(3) by (metis word_unat_eq_iff)
qed

theorem ip_checksum_detects_byte_witness:
  "ip_checksum 0 ([1, 2, 3][1 := 7]) \<noteq> ip_checksum 1 [1, 2, 3]"
  by (rule ip_checksum_detects_byte) simp_all

section \<open>The ICMP checksum\<close>

lemma unat_load16_pair: "unat (load16 0 [a, b]) = unat a + 256 * unat b"
  by (simp add: load16_def unat_mk16)

lemma unat_ucast_16_64 [simp]: "unat (ucast (w :: u16) :: u64) = unat w"
  using unat_bound16 [of w] by (simp add: unsigned_ucast_eq take_bit_eq_mod)

lemma icmp_sum_spec:
  assumes "even sz" and "sz \<le> length buffer" and "unat cksum + sz * 65535 < 2 ^ 64"
  shows "\<exists>s. icmp_sum cksum buffer sz = Inr s \<and> unat s = unat cksum + bsum False (take sz buffer)"
  using assms
proof (induction cksum buffer sz rule: icmp_sum.induct)
  case (1 cksum a b buffer sz)
  show ?case
  proof (cases "sz = 0")
    case False
    then obtain n where sz: "sz = Suc (Suc n)"
      using "1.prems"(1) by (metis even_Suc_Suc_iff old.nat.exhaust odd_one One_nat_def)
    let ?w = "load16 0 [a, b]"
    have add: "unat (cksum + ucast ?w) = unat cksum + unat ?w"
      by (subst unat_add64) (use "1.prems"(3) unat_bound16 [of ?w] sz in simp_all)
    have "\<exists>s. icmp_sum (cksum + ucast ?w) buffer (sz - 2) = Inr s \<and>
        unat s = unat (cksum + ucast ?w) + bsum False (take (sz - 2) buffer)"
      by (rule "1.IH") (use "1.prems" unat_bound16 [of ?w] sz in \<open>simp_all add: add\<close>)
    then show ?thesis
      using sz by (auto simp: add unat_load16_pair)
  qed simp
qed auto

text \<open>Two explicit carry additions are enough below \<open>2 ^ 32\<close>.\<close>

lemma icmp_carries:
  assumes "0 < unat ck" and "unat ck < 2 ^ 32"
  shows "(ucast (let c1 = drop_bit 16 ck + (ck AND (0xffff :: u64)) in c1 + drop_bit 16 c1) :: u16) =
    of_nat (class16 (unat ck))"
proof -
  define c1 where "c1 = drop_bit 16 ck + (ck AND 0xffff)"
  have hi: "unat ck div 65536 < 65536"
    using assms(2) by (simp add: less_mult_imp_div_less)
  have u1: "unat c1 = unat ck mod 65536 + unat ck div 65536"
    unfolding c1_def using unat_fold16 [of ck] by (simp only: add.commute)
  have pos: "0 < unat c1"
    using assms(1) mod_mult_div_eq [of "unat ck" 65536] unfolding u1 by linarith
  have c1: "unat c1 < 131071"
    unfolding u1 using hi mod_less_divisor [of 65536 "unat ck"] by linarith
  have cg: "cong16 (unat c1) (unat ck)"
    unfolding u1 by (rule cong16_fold16)
  have u2: "unat (c1 + drop_bit 16 c1) = unat c1 + unat c1 div 65536"
    by (subst unat_add64) (use c1 in \<open>simp_all add: unat_shr16\<close>)
  have "unat (ucast (c1 + drop_bit 16 c1) :: u16) = class16 (unat ck)"
  proof (cases "unat c1 < 65536")
    case True
    then have "unat (ucast (c1 + drop_bit 16 c1) :: u16) = unat c1"
      by (simp add: unsigned_ucast_eq take_bit_eq_mod u2)
    then show ?thesis
      using class16_unique [OF pos True cg] by simp
  next
    case False
    define n where "n = unat c1 - 65535"
    have n: "unat c1 = 65535 + n" "0 < n" "n < 65536"
      using False c1 by (simp_all add: n_def)
    have "unat (ucast (c1 + drop_bit 16 c1) :: u16) = n"
    proof -
      have "unat c1 div 65536 = 1"
        using False c1 by (simp add: div_nat_eqI)
      then have "unat c1 + unat c1 div 65536 = n + 65536"
        using n(1) by simp
      then show ?thesis
        using n(3) by (simp add: unsigned_ucast_eq take_bit_eq_mod u2)
    qed
    moreover have "cong16 n (unat ck)"
      using cong16_trans [OF cong16_sym [OF cong16_add_65535] cg [unfolded n(1)]] .
    ultimately show ?thesis
      using class16_unique [OF n(2,3)] by simp
  qed
  then show ?thesis
    by (simp add: Let_def c1_def word_eq_of_nat)
qed

lemma htons_NOT: "htons (NOT w) = NOT (htons w)"
  by (rule bit_word_eqI)
     (auto simp: htons_def mk16_def hi8_def lo8_def bit_simps dest: bit_imp_le_length)

lemma htons_of_nat_class: "htons (of_nat (class16 s)) = of_nat (class16 (256 * s))"
proof -
  define r where "r = class16 s"
  have r: "0 < r" "r < 65536" "cong16 r s"
    using class16_range by (auto simp: r_def cong16_def class16_def)
  let ?w = "of_nat r :: u16"
  have ur: "unat ?w = r"
    using r(2) by (simp add: unat_of_nat)
  have "unat (lo8 ?w) = r mod 256" and "unat (hi8 ?w) = r div 256"
    using r(2) ur
    by (simp_all add: lo8_def hi8_def unsigned_ucast_eq take_bit_eq_mod drop_bit_eq_div unat_div
        less_mult_imp_div_less)
  then have u: "unat (htons ?w) = 256 * (r mod 256) + r div 256"
    by (simp add: htons_def unat_mk16)
  have c: "cong16 (256 * (r mod 256) + r div 256) (256 * s)"
    by (rule cong16_trans [OF cong16_swap cong16_mult [OF r(3)]])
  have lo: "0 < 256 * (r mod 256) + r div 256"
    using r(1) mod_mult_div_eq [of r 256] by linarith
  have "unat (htons ?w) = class16 (256 * s)"
    unfolding u by (rule class16_unique [OF lo _ c]) (use unat_bound16 [of "htons ?w"] u in simp)
  then show ?thesis
    unfolding r_def by (rule word_eq_of_nat)
qed

lemma bsum_pos: "\<exists>b \<in> set bs. b \<noteq> 0 \<Longrightarrow> 0 < bsum hi bs"
  by (induction bs arbitrary: hi) (auto simp: unat_gt_0)

lemma bsum_le: "even (length bs) \<Longrightarrow> bsum hi bs \<le> length bs div 2 * 65535"
proof (induction bs arbitrary: hi rule: be_words.induct)
  case (3 a b bs)
  have "bsum hi bs \<le> length bs div 2 * 65535"
    using 3 by simp
  then show ?case
    using unat_bound8 [of a] unat_bound8 [of b] by (cases hi) simp_all
qed auto

text \<open>The alignment of the buffer does not matter.\<close>

lemma ip_checksum_addr:
  "length data < 2 ^ 32 \<Longrightarrow> ip_checksum addr data = ip_checksum 0 data"
  by (simp add: ip_checksum_class)

lemma icmp_checksum_even:
  assumes "even sz" and "sz \<le> length buffer" and "sz < 131072"
    and "\<exists>b \<in> set (take sz buffer). b \<noteq> 0"
  shows "icmp_checksum buffer sz = Inr (ip_checksum addr (take sz buffer))"
proof -
  let ?d = "take sz buffer"
  have len: "length ?d = sz"
    using assms(2) by simp
  obtain s where s: "icmp_sum 0 buffer sz = Inr s" "unat s = bsum False ?d"
    using icmp_sum_spec [OF assms(1,2), of 0] assms(3) by auto
  have "bsum False ?d \<le> sz div 2 * 65535"
    using bsum_le [of ?d False] assms(1) unfolding len by blast
  then have up: "unat s < 2 ^ 32"
    using assms(3) s(2) by simp
  have "icmp_checksum buffer sz = Inr (NOT (of_nat (class16 (bsum False ?d))))"
    using icmp_carries [OF _ up] bsum_pos [OF assms(4)] s(2)
    by (simp add: icmp_checksum_def s(1) Let_def ucast_not_64_16)
  moreover have "class16 (bsum False ?d) = class16 (256 * bsum True ?d)"
    using class16_cong [OF cong16_bsum_shift [of True]] by simp
  moreover have "length ?d < 2 ^ 32"
    using assms(3) by (simp add: len)
  ultimately show ?thesis
    by (simp only: ip_checksum_class htons_NOT htons_of_nat_class)
qed

text \<open>
  \<open>icmp_checksum\<close> reads host-order words and folds the carries by two additions; on an even size
  it agrees with \<open>ip_checksum\<close> on every data that is not all zero (byte order independence).
\<close>

theorem icmp_checksum_eq_ip_checksum:
  assumes "even sz" and "sz \<le> length buffer" and "sz < 131072"
    and "\<exists>b \<in> set (take sz buffer). b \<noteq> 0"
  shows "icmp_checksum buffer sz = Inr (ip_checksum addr (take sz buffer))"
  using assms by (rule icmp_checksum_even)

theorem icmp_checksum_eq_ip_checksum_witness:
  "icmp_checksum [8, 0, 0, 0, 0x12, 0x34, 0, 1] 8 = Inr (ip_checksum 2 (take 8 [8, 0, 0, 0, 0x12, 0x34, 0, 1]))"
  by (rule icmp_checksum_eq_ip_checksum) simp_all

end
