(* ===== verification/C_Strings.thy ===== *)
theory C_Strings
  imports Net_Prelude
begin

text \<open>
  The part of the C string library the programs use, on strings as character lists (the characters
  before the terminator): decimal printing and parsing (\<open>%d\<close>, \<open>%u\<close>, \<open>atoi\<close>), token scanning
  (\<open>%s\<close>), \<open>fgets\<close>, \<open>strstr\<close>, \<open>strncmp\<close> against a literal, and \<open>strcspn\<close> of a newline.
\<close>

section \<open>Characters\<close>

definition char_val :: "char \<Rightarrow> nat" where
  "char_val c = of_char c"

definition is_digit :: "char \<Rightarrow> bool" where
  "is_digit c \<longleftrightarrow> 48 \<le> char_val c \<and> char_val c \<le> 57"

definition digit_val :: "char \<Rightarrow> nat" where
  "digit_val c = char_val c - 48"

definition digit_char :: "nat \<Rightarrow> char" where
  "digit_char n = char_of (48 + n)"

text \<open>\<open>isspace\<close> in the C locale: space, tab, newline, vertical tab, form feed, carriage return.\<close>

definition is_space :: "char \<Rightarrow> bool" where
  "is_space c \<longleftrightarrow> char_val c = 32 \<or> (9 \<le> char_val c \<and> char_val c \<le> 13)"

lemma char_val_char_of: "n < 256 \<Longrightarrow> char_val (char_of n) = n"
  by (simp add: char_val_def)

lemma digit_char_props:
  assumes "n < 10"
  shows "is_digit (digit_char n)" and "digit_val (digit_char n) = n" and "\<not> is_space (digit_char n)"
  using assms
  by (simp_all add: digit_char_def is_digit_def digit_val_def is_space_def char_val_char_of)

section \<open>Decimal numbers\<close>

fun show_nat :: "nat \<Rightarrow> string" where
  "show_nat n = (if n < 10 then [digit_char n] else show_nat (n div 10) @ [digit_char (n mod 10)])"

declare show_nat.simps [simp del]

definition show_int :: "int \<Rightarrow> string" where
  "show_int i = (if i < 0 then CHR ''-'' # show_nat (nat (- i)) else show_nat (nat i))"

definition dec_val :: "string \<Rightarrow> nat" where
  "dec_val ds = foldl (\<lambda>v c. 10 * v + digit_val c) 0 ds"

lemma show_nat_digits: "\<forall>c \<in> set (show_nat n). is_digit c \<and> \<not> is_space c"
proof (induction n rule: show_nat.induct)
  case (1 n)
  show ?case
  proof (cases "n < 10")
    case True
    then show ?thesis
      by (subst show_nat.simps) (simp add: digit_char_props)
  next
    case False
    with 1 have "\<forall>c \<in> set (show_nat (n div 10)). is_digit c \<and> \<not> is_space c"
      by blast
    with False show ?thesis
      by (subst show_nat.simps) (auto simp: digit_char_props)
  qed
qed

lemma show_nat_nonempty [simp]: "show_nat n \<noteq> []"
  by (subst show_nat.simps) simp

lemma dec_val_show_nat [simp]: "dec_val (show_nat n) = n"
proof (induction n rule: show_nat.induct)
  case (1 n)
  show ?case
  proof (cases "n < 10")
    case True
    then show ?thesis
      by (subst show_nat.simps) (simp add: dec_val_def digit_char_props)
  next
    case False
    with 1 have "dec_val (show_nat (n div 10)) = n div 10"
      by blast
    with False show ?thesis
      by (subst show_nat.simps) (simp add: dec_val_def digit_char_props)
  qed
qed

lemma takeWhile_show_nat:
  assumes "rest = [] \<or> \<not> is_digit (hd rest)"
  shows "takeWhile is_digit (show_nat n @ rest) = show_nat n"
    and "dropWhile is_digit (show_nat n @ rest) = rest"
proof -
  have all: "\<And>c. c \<in> set (show_nat n) \<Longrightarrow> is_digit c"
    using show_nat_digits by blast
  have rest: "takeWhile is_digit rest = []" "dropWhile is_digit rest = rest"
    using assms by (cases rest; simp)+
  show "takeWhile is_digit (show_nat n @ rest) = show_nat n"
    by (subst takeWhile_append2) (use all rest in auto)
  show "dropWhile is_digit (show_nat n @ rest) = rest"
    by (subst dropWhile_append2) (use all rest in auto)
qed

text \<open>
  \<open>strtoul\<close>/\<open>strtol\<close> in base 10: white space, an optional sign, digits; \<open>None\<close> if there is no digit.
  The magnitude is returned with the sign and the rest of the string.
\<close>

definition scan_number :: "string \<Rightarrow> (bool \<times> nat \<times> string) option" where
  "scan_number s =
    (let t = dropWhile is_space s;
         (neg, u) = (case t of
             [] \<Rightarrow> (False, t)
           | c # t' \<Rightarrow> if c = CHR ''-'' then (True, t') else if c = CHR ''+'' then (False, t')
                      else (False, t));
         ds = takeWhile is_digit u
     in if ds = [] then None else Some (neg, dec_val ds, dropWhile is_digit u))"

text \<open>\<open>%u\<close>: the value saturates at \<open>ULONG_MAX\<close> and is stored modulo \<open>2 ^ 32\<close>.\<close>

definition scan_u :: "string \<Rightarrow> (u32 \<times> string) option" where
  "scan_u s = (case scan_number s of None \<Rightarrow> None
     | Some (neg, v, rest) \<Rightarrow>
         (let w = of_nat (min v (2 ^ 64 - 1)) :: u32
          in Some ((if neg \<and> v < 2 ^ 64 then - w else w), rest)))"

text \<open>
  \<open>%d\<close> and \<open>atoi\<close>: \<open>strtol\<close> saturates at the bounds of \<open>long\<close>, and the result is converted to
  \<open>int\<close>.
\<close>

definition long_val :: "bool \<Rightarrow> nat \<Rightarrow> int" where
  "long_val neg v = (if neg then - int (min v (2 ^ 63)) else int (min v (2 ^ 63 - 1)))"

definition scan_d :: "string \<Rightarrow> (int \<times> string) option" where
  "scan_d s = (case scan_number s of None \<Rightarrow> None
     | Some (neg, v, rest) \<Rightarrow> Some (sint (of_int (long_val neg v) :: u32), rest))"

definition atoi :: "string \<Rightarrow> int" where
  "atoi s = (case scan_d s of None \<Rightarrow> 0 | Some (i, _) \<Rightarrow> i)"

lemma hd_show_nat: "is_digit (hd (show_nat n)) \<and> \<not> is_space (hd (show_nat n))"
  using show_nat_digits [of n] by (simp add: hd_in_set)

lemma hd_show_nat_0: "hd (show_nat n) = CHR ''0'' \<Longrightarrow> n = 0"
proof (induction n rule: show_nat.induct)
  case (1 n)
  show ?case
  proof (cases "n < 10")
    case True
    then have "digit_char n = CHR ''0''"
      using "1.prems" by (subst (asm) show_nat.simps) simp
    then have "digit_val (digit_char n) = digit_val CHR ''0''"
      by simp
    then show ?thesis
      using True by (simp add: digit_char_props) (simp add: digit_val_def char_val_def)
  next
    case False
    then have "hd (show_nat (n div 10)) = CHR ''0''"
      using "1.prems" by (subst (asm) show_nat.simps) simp
    with 1 False show ?thesis by simp
  qed
qed

lemma scan_number_show_nat:
  assumes "rest = [] \<or> \<not> is_digit (hd rest)"
  shows "scan_number (show_nat n @ rest) = Some (False, n, rest)"
proof -
  obtain c cs where cs: "show_nat n = c # cs"
    by (cases "show_nat n") auto
  have c: "is_digit c" "\<not> is_space c"
    using hd_show_nat [of n] by (simp_all add: cs)
  then have "c \<noteq> CHR ''-''" and "c \<noteq> CHR ''+''"
    by (auto simp: is_digit_def char_val_def)
  with c have "scan_number (show_nat n @ rest) =
      (let ds = takeWhile is_digit (show_nat n @ rest)
       in if ds = [] then None else Some (False, dec_val ds, dropWhile is_digit (show_nat n @ rest)))"
    by (simp add: scan_number_def cs)
  also have "\<dots> = Some (False, n, rest)"
    using assms by (simp add: takeWhile_show_nat)
  finally show ?thesis .
qed

lemma scan_number_show_neg:
  assumes "rest = [] \<or> \<not> is_digit (hd rest)"
  shows "scan_number (CHR ''-'' # show_nat n @ rest) = Some (True, n, rest)"
  using assms by (simp add: scan_number_def takeWhile_show_nat is_space_def char_val_def)

lemma scan_u_show_nat:
  assumes "n < 2 ^ 32" and "rest = [] \<or> \<not> is_digit (hd rest)"
  shows "scan_u (show_nat n @ rest) = Some (of_nat n, rest)"
  using assms by (simp add: scan_u_def scan_number_show_nat min_def)

lemma scan_d_show_int:
  assumes "- (2 ^ 31) \<le> i" and "i < 2 ^ 31" and "rest = [] \<or> \<not> is_digit (hd rest)"
  shows "scan_d (show_int i @ rest) = Some (i, rest)"
proof -
  have s: "sint (of_int i :: u32) = i"
    using assms(1,2) by (simp add: signed_of_int signed_take_bit_int_eq_self)
  show ?thesis
  proof (cases "i < 0")
    case True
    with assms have "scan_number (show_int i @ rest) = Some (True, nat (- i), rest)"
      by (simp add: show_int_def scan_number_show_neg)
    then show ?thesis
      using True assms(1) s by (simp add: scan_d_def long_val_def min_def)
  next
    case False
    with assms have "scan_number (show_int i @ rest) = Some (False, nat i, rest)"
      by (simp add: show_int_def scan_number_show_nat)
    then show ?thesis
      using False assms(2) s by (simp add: scan_d_def long_val_def min_def)
  qed
qed

lemma scan_d_skip: "is_space c \<Longrightarrow> scan_d (c # s) = scan_d s"
  by (simp add: scan_d_def scan_number_def)

lemma atoi_show_int: "- (2 ^ 31) \<le> i \<Longrightarrow> i < 2 ^ 31 \<Longrightarrow> atoi (show_int i) = i"
  using scan_d_show_int [of i "[]"] by (simp add: atoi_def)

section \<open>Tokens and lines\<close>

abbreviation newline :: char where
  "newline \<equiv> CHR 0x0A"

text \<open>\<open>%s\<close>: skip white space, then the longest run of other characters; \<open>None\<close> at the end.\<close>

definition scan_s :: "string \<Rightarrow> (string \<times> string) option" where
  "scan_s s =
    (let t = dropWhile is_space s
     in if t = [] then None
        else Some (takeWhile (\<lambda>c. \<not> is_space c) t, dropWhile (\<lambda>c. \<not> is_space c) t))"

text \<open>\<open>fgets\<close> with a buffer of \<open>n\<close> characters: the line with its newline, and the rest of the file.\<close>

definition fgets :: "nat \<Rightarrow> string \<Rightarrow> (string \<times> string) option" where
  "fgets n s =
    (if s = [] then None
     else let t = take (n - 1) s;
              line = take (Suc (length (takeWhile (\<lambda>c. c \<noteq> newline) t))) t
          in Some (line, drop (length line) s))"

lemma fgets_progress: "fgets n s = Some (l, r) \<Longrightarrow> 1 < n \<Longrightarrow> length r < length s"
  by (auto simp: fgets_def Let_def split: if_splits)

lemma fgets_line:
  assumes "\<forall>c \<in> set l. c \<noteq> newline" and "length l + 1 < n"
  shows "fgets n (l @ newline # r) = Some (l @ [newline], r)"
proof -
  have t: "take (n - 1) (l @ newline # r) = l @ newline # take (n - 2 - length l) r"
  proof -
    have "n - 1 - length l = Suc (n - 2 - length l)"
      using assms(2) by arith
    then show ?thesis
      using assms(2) by simp
  qed
  have "takeWhile (\<lambda>c. c \<noteq> newline) (l @ newline # take (n - 2 - length l) r) = l"
    using assms(1) by (simp add: takeWhile_append)
  then show ?thesis
    unfolding fgets_def Let_def t by simp
qed

lemma scan_s_token:
  assumes "\<forall>c \<in> set w. \<not> is_space c" and "w \<noteq> []" and "r = [] \<or> is_space (hd r)"
  shows "scan_s (w @ r) = Some (w, r)"
proof -
  obtain c cs where w: "w = c # cs"
    using assms(2) by (cases w) auto
  have "dropWhile is_space (w @ r) = w @ r"
    using assms(1) by (simp add: w)
  moreover have "takeWhile (\<lambda>c. \<not> is_space c) (w @ r) = w" "dropWhile (\<lambda>c. \<not> is_space c) (w @ r) = r"
    using assms(1,3) by (cases r; simp)+
  ultimately show ?thesis
    by (simp add: scan_s_def Let_def w)
qed

lemma scan_s_skip: "is_space c \<Longrightarrow> scan_s (c # s) = scan_s s"
  by (simp add: scan_s_def)

lemma show_int_no_space: "\<forall>c \<in> set (show_int i). \<not> is_space c"
  using show_nat_digits by (auto simp: show_int_def is_space_def char_val_def)

lemma show_int_nonempty [simp]: "show_int i \<noteq> []"
  by (simp add: show_int_def)

text \<open>The length of a decimal numeral.\<close>

lemma length_show_nat: "n < 10 ^ k \<Longrightarrow> 0 < k \<Longrightarrow> length (show_nat n) \<le> k"
proof (induction k arbitrary: n)
  case (Suc k)
  show ?case
  proof (cases "n < 10")
    case True
    then show ?thesis by (subst show_nat.simps) simp
  next
    case False
    with Suc.prems have k: "0 < k"
      by (cases k) auto
    from Suc.prems(1) have "n div 10 < 10 ^ k"
      by (simp add: less_mult_imp_div_less)
    from Suc.IH [OF this k] False show ?thesis
      by (subst show_nat.simps) simp
  qed
qed simp

lemma length_show_int:
  assumes "- (2 ^ 31) \<le> i" and "i < 2 ^ 31"
  shows "length (show_int i) \<le> 11"
proof -
  have "nat (- i) < 10 ^ 10" and "nat i < 10 ^ 10"
    using assms by (simp_all add: nat_less_iff)
  then have "length (show_nat (nat (- i))) \<le> 10" and "length (show_nat (nat i)) \<le> 10"
    by (simp_all only: length_show_nat)
  then show ?thesis
    by (simp add: show_int_def)
qed

section \<open>Strings in byte arrays\<close>

definition bytes_of :: "string \<Rightarrow> u8 list" where
  "bytes_of s = map (\<lambda>c. of_nat (char_val c)) s"

definition string_of :: "u8 list \<Rightarrow> string res" where
  "string_of bs =
    (if 0 \<in> set bs then Inr (map (\<lambda>b. char_of (unat b)) (takeWhile (\<lambda>b. b \<noteq> 0) bs)) else Inl Out_Of_Bounds)"

text \<open>\<open>snprintf\<close> and \<open>strcpy\<close>: the characters and the terminator at the start of an array.\<close>

definition put_string :: "string \<Rightarrow> u8 list \<Rightarrow> u8 list" where
  "put_string s bs = write_at 0 (bytes_of s @ [0]) bs"

lemma string_of_put:
  assumes "CHR 0x00 \<notin> set s" and "length s < length bs"
  shows "string_of (put_string s bs) = Inr s"
proof -
  have byte: "char_of (unat (of_nat (char_val c) :: u8)) = c" for c :: char
    by (simp add: char_val_def unat_of_nat)
  have nz: "(of_nat (char_val c) :: u8) \<noteq> 0" if "c \<in> set s" for c
  proof
    assume "(of_nat (char_val c) :: u8) = 0"
    then have "c = char_of (0 :: nat)"
      using byte [of c] by simp
    moreover have "char_of (0 :: nat) = CHR 0x00"
      by code_simp
    ultimately show False
      using assms(1) that by simp
  qed
  have "takeWhile (\<lambda>b. b \<noteq> 0) (bytes_of s @ 0 # rest) = bytes_of s" for rest
    using nz by (induction s) (auto simp: bytes_of_def)
  then show ?thesis
    by (simp add: string_of_def put_string_def write_at_def)
      (simp add: bytes_of_def byte comp_def)
qed

text \<open>\<open>strncmp\<close> with all the characters of a constant text.\<close>

definition starts_with :: "string \<Rightarrow> u8 list \<Rightarrow> bool" where
  "starts_with w buf \<longleftrightarrow> take (length w) buf = bytes_of w"

lemma unat_char_byte: "unat (of_nat (char_val c) :: u8) = char_val c"
  by (simp add: char_val_def unat_of_nat)

lemma char_byte_eq: "(of_nat (char_val c) :: u8) = of_nat (char_val d) \<longleftrightarrow> c = d"
  using unat_char_byte [of c] unat_char_byte [of d] by (metis char_val_def of_char_eq_iff)

lemma bytes_of_simps [simp]: "bytes_of [] = []" "bytes_of (c # s) = of_nat (char_val c) # bytes_of s"
  "length (bytes_of s) = length s"
  by (simp_all add: bytes_of_def)

end
