(* ===== verification/Routing.thy ===== *)
theory Routing
  imports Byte_Order C_Strings
begin

text \<open>
  The routing table and the ARP table of the router, \<open>Teme/Tema1/router.c\<close> lines 5 to 96: reading
  the table from its file, sorting it by prefix and looking up a destination by binary search.
  Addresses are kept in network byte order, so on the little-endian machine the first octet of an
  address is the least significant byte of its value. The tables are lists whose length is
  \<open>rtable_size\<close> and \<open>arp_table_len\<close>; both arrays have room for 66000 entries.
\<close>

record arp_entry =
  ip :: u32
  mac :: "u8 list"

record route_table_entry =
  rt_prefix :: u32
  rt_next_hop :: u32
  rt_mask :: u32
  rt_interface :: int

section \<open>Addresses as text\<close>

text \<open>
  The conversions \<open>%u.%u.%u.%u\<close> of \<open>sscanf\<close>: the numbers scanned until one is missing or a dot
  does not match.
\<close>

fun scan_groups :: "nat \<Rightarrow> string \<Rightarrow> u32 list" where
  "scan_groups 0 s = []"
| "scan_groups (Suc n) s =
     (case scan_u s of None \<Rightarrow> []
      | Some (g, r) \<Rightarrow> g # (case r of [] \<Rightarrow> []
          | c # r' \<Rightarrow> if c = CHR ''.'' then scan_groups n r' else []))"

definition ipToInt :: "string \<Rightarrow> u32 res" where
  "ipToInt s = (case scan_groups 4 s of
       [group3, group2, group1, group0] \<Rightarrow>
         Inr (push_bit 24 group3 + push_bit 16 group2 + push_bit 8 group1 + group0)
     | _ \<Rightarrow> Inl Uninitialised)"

text \<open>\<open>inet_ntoa\<close>: the four bytes of the address in memory order.\<close>

definition dotted :: "u8 \<Rightarrow> u8 \<Rightarrow> u8 \<Rightarrow> u8 \<Rightarrow> string" where
  "dotted a b c d = show_nat (unat a) @ CHR ''.'' # show_nat (unat b) @ CHR ''.'' #
     show_nat (unat c) @ CHR ''.'' # show_nat (unat d)"

definition inet_ntoa :: "u32 \<Rightarrow> string" where
  "inet_ntoa a = dotted (byte32 0 a) (byte32 1 a) (byte32 2 a) (byte32 3 a)"

lemma scan_u_byte:
  "r = [] \<or> \<not> is_digit (hd r) \<Longrightarrow> scan_u (show_nat (unat (b :: u8)) @ r) = Some (ucast b, r)"
  using unat_bound8 [of b] by (simp add: scan_u_show_nat)

lemma not_digit_dot [simp]: "\<not> is_digit CHR ''.''"
  by (simp add: is_digit_def char_val_def)

lemma scan_groups_dotted:
  assumes "r = [] \<or> \<not> is_digit (hd r)"
  shows "scan_groups 4 (dotted a b c d @ r) =
    [ucast a, ucast b, ucast c, ucast d]"
  using assms
  by (cases r) (simp_all add: numeral_eq_Suc dotted_def scan_u_byte
      scan_u_byte [of "[]", simplified])

lemma group_sum:
  "push_bit 24 (ucast a) + push_bit 16 (ucast b) + push_bit 8 (ucast c) + (ucast d :: u32) =
    mk32 a b c (d :: u8)"
proof -
  have "mk32 a b c d = of_nat (unat (mk32 a b c d))"
    by simp
  also have "\<dots> = push_bit 24 (ucast a) + push_bit 16 (ucast b) + push_bit 8 (ucast c) + (ucast d :: u32)"
    by (simp only: unat_mk32) (simp add: push_bit_eq_mult)
  finally show ?thesis by simp
qed

lemma ipToInt_dotted: "ipToInt (dotted a b c d) = Inr (mk32 a b c d)"
  using scan_groups_dotted [of "[]" a b c d] by (simp add: ipToInt_def group_sum)

lemma ipToInt_inet_ntoa: "ipToInt (inet_ntoa a) = Inr (htonl a)"
  by (simp add: inet_ntoa_def ipToInt_dotted htonl_def)

text \<open>
  \<open>inet_aton\<close> on a decimal dotted quad, the only form the router gives it (the output of
  \<open>inet_ntoa\<close>); on failure the result variable is not written.
\<close>

definition inet_aton :: "string \<Rightarrow> u32 res" where
  "inet_aton s = (case scan_groups 4 s of
       [a, b, c, d] \<Rightarrow>
         if a < 256 \<and> b < 256 \<and> c < 256 \<and> d < 256
         then Inr (mk32 (ucast d) (ucast c) (ucast b) (ucast a)) else Inl Uninitialised
     | _ \<Rightarrow> Inl Uninitialised)"

lemma ucast_byte_less: "(ucast (b :: u8) :: u32) < 256"
  using unat_bound8 [of b] by (simp add: word_less_nat_alt unsigned_ucast_eq take_bit_eq_mod)

lemma ucast_ucast_byte: "ucast (ucast b :: u32) = (b :: u8)"
  by (rule bit_word_eqI) (auto simp: bit_simps dest: bit_imp_le_length)

lemma inet_aton_inet_ntoa: "inet_aton (inet_ntoa a) = Inr a"
  using scan_groups_dotted [of "[]" "byte32 0 a" "byte32 1 a" "byte32 2 a" "byte32 3 a"]
  by (simp add: inet_aton_def inet_ntoa_def ucast_byte_less ucast_ucast_byte)

section \<open>Reading the table\<close>

definition MAX_LEN :: nat where
  "MAX_LEN = 1600"

text \<open>The \<open>n\<close> conversions \<open>%s\<close>, each into a buffer of 100 characters.\<close>

fun scan_strings :: "nat \<Rightarrow> string \<Rightarrow> string list res" where
  "scan_strings 0 s = Inr []"
| "scan_strings (Suc n) s =
     (case scan_s s of None \<Rightarrow> Inr []
      | Some (w, r) \<Rightarrow>
          if 100 \<le> length w then Inl Out_Of_Bounds
          else rbind (scan_strings n r) (\<lambda>ws. Inr (w # ws)))"

definition parse_line :: "string \<Rightarrow> route_table_entry res" where
  "parse_line line =
    rbind (scan_strings 4 line) (\<lambda>ws. case ws of
      [group1, group2, group3, group4] \<Rightarrow>
        rbind (ipToInt group1) (\<lambda>p.
        rbind (ipToInt group2) (\<lambda>h.
        rbind (ipToInt group3) (\<lambda>m.
        Inr \<lparr>rt_prefix = htonl p, rt_next_hop = htonl h, rt_mask = htonl m,
          rt_interface = atoi group4\<rparr>)))
    | _ \<Rightarrow> Inl Uninitialised)"

function read_lines :: "route_table_entry list \<Rightarrow> string \<Rightarrow> route_table_entry list res" where
  "read_lines rt s =
    (case fgets MAX_LEN s of None \<Rightarrow> Inr rt
     | Some (line, s') \<Rightarrow>
         rbind (parse_line line) (\<lambda>e.
           if 66000 \<le> length rt then Inl Out_Of_Bounds else read_lines (rt @ [e]) s'))"
  by pat_completeness auto

termination
  by (relation "measure (\<lambda>(rt, s). length s)") (auto simp: MAX_LEN_def dest: fgets_progress)

declare read_lines.simps [simp del]

text \<open>\<open>None\<close> is a file that cannot be opened.\<close>

definition readRtable :: "string option \<Rightarrow> route_table_entry list res" where
  "readRtable file = (case file of None \<Rightarrow> Inl (Exit 1) | Some s \<Rightarrow> read_lines [] s)"

text \<open>A table file: one line per route.\<close>

definition render_route :: "route_table_entry \<Rightarrow> string" where
  "render_route e = inet_ntoa (rt_prefix e) @ CHR '' '' # inet_ntoa (rt_next_hop e) @ CHR '' '' #
     inet_ntoa (rt_mask e) @ CHR '' '' # show_int (rt_interface e)"

definition render_rtable :: "route_table_entry list \<Rightarrow> string" where
  "render_rtable rt = concat (map (\<lambda>e. render_route e @ [newline]) rt)"

lemma length_show_byte: "length (show_nat (unat (b :: u8))) \<le> 3"
  using length_show_nat [of "unat b" 3] unat_bound8 [of b] by simp

lemma inet_ntoa_props:
  "\<forall>c \<in> set (inet_ntoa a). \<not> is_space c" "inet_ntoa a \<noteq> []" "length (inet_ntoa a) \<le> 15"
proof -
  show "\<forall>c \<in> set (inet_ntoa a). \<not> is_space c"
    using show_nat_digits by (auto simp: inet_ntoa_def dotted_def is_space_def char_val_def)
  show "inet_ntoa a \<noteq> []"
    by (simp add: inet_ntoa_def dotted_def)
  show "length (inet_ntoa a) \<le> 15"
    using length_show_byte [of "byte32 0 a"] length_show_byte [of "byte32 1 a"]
      length_show_byte [of "byte32 2 a"] length_show_byte [of "byte32 3 a"]
    by (simp add: inet_ntoa_def dotted_def)
qed

lemma is_space_blank [simp]: "is_space CHR '' ''" "is_space newline"
  by (simp_all add: is_space_def char_val_def)

lemma parse_line_render:
  assumes i: "- (2 ^ 31) \<le> rt_interface e" "rt_interface e < 2 ^ 31"
  shows "parse_line (render_route e @ [newline]) = Inr e"
proof -
  have tok: "scan_s (inet_ntoa a @ CHR '' '' # r) = Some (inet_ntoa a, CHR '' '' # r)" for a r
    by (rule scan_s_token) (simp_all add: inet_ntoa_props)
  have tok4: "scan_s (show_int j @ [newline]) = Some (show_int j, [newline])" for j
    by (rule scan_s_token) (simp_all add: show_int_no_space)
  have short: "length (inet_ntoa a) < 100" for a
    using inet_ntoa_props(3) [of a] by simp
  have "length (show_int (rt_interface e)) < 100"
    using length_show_int [OF i] by simp
  then have "scan_strings 4 (render_route e @ [newline]) =
      Inr [inet_ntoa (rt_prefix e), inet_ntoa (rt_next_hop e), inet_ntoa (rt_mask e),
        show_int (rt_interface e)]"
    using short by (simp add: numeral_eq_Suc render_route_def tok tok4 scan_s_skip not_le)
  with i show ?thesis
    by (simp add: parse_line_def ipToInt_inet_ntoa atoi_show_int)
qed

lemma fgets_render:
  assumes i: "- (2 ^ 31) \<le> rt_interface e" "rt_interface e < 2 ^ 31"
  shows "fgets MAX_LEN (render_route e @ newline # r) = Some (render_route e @ [newline], r)"
proof (rule fgets_line)
  have nl: "c \<noteq> newline" if "\<not> is_space c" for c
    using that by auto
  show "\<forall>c \<in> set (render_route e). c \<noteq> newline"
    using inet_ntoa_props(1) show_int_no_space [of "rt_interface e"] nl
    by (auto simp: render_route_def)
  show "length (render_route e) + 1 < MAX_LEN"
    using inet_ntoa_props(3) [of "rt_prefix e"] inet_ntoa_props(3) [of "rt_next_hop e"]
      inet_ntoa_props(3) [of "rt_mask e"] length_show_int [OF i]
    by (simp add: render_route_def MAX_LEN_def)
qed

lemma read_lines_render:
  assumes "\<forall>e \<in> set es. - (2 ^ 31) \<le> rt_interface e \<and> rt_interface e < 2 ^ 31"
    and "length rt + length es \<le> 66000"
  shows "read_lines rt (render_rtable es) = Inr (rt @ es)"
  using assms
proof (induction es arbitrary: rt)
  case Nil
  then show ?case
    by (subst read_lines.simps) (simp add: render_rtable_def fgets_def)
next
  case (Cons e es)
  have s: "render_rtable (e # es) = render_route e @ newline # render_rtable es"
    by (simp add: render_rtable_def)
  have "read_lines rt (render_rtable (e # es)) = read_lines (rt @ [e]) (render_rtable es)"
    using Cons.prems by (subst read_lines.simps) (simp add: s fgets_render parse_line_render)
  also have "\<dots> = Inr (rt @ e # es)"
    using Cons.IH [of "rt @ [e]"] Cons.prems by simp
  finally show ?case .
qed

text \<open>
  C35. Reading back a table file gives the table: for every list of at most 66000 routes whose
  interface numbers fit an \<open>int\<close>, \<open>readRtable\<close> on the file with one line
  \<open>prefix next_hop mask interface\<close> per route succeeds and stores exactly these routes, in order,
  with every address in network byte order.
\<close>

theorem readRtable_render:
  assumes "\<forall>e \<in> set es. - (2 ^ 31) \<le> rt_interface e \<and> rt_interface e < 2 ^ 31"
    and "length es \<le> 66000"
  shows "readRtable (Some (render_rtable es)) = Inr es"
  using read_lines_render [OF assms(1), of "[]"] assms(2) by (simp add: readRtable_def)

theorem readRtable_render_witness:
  "readRtable (Some (render_rtable
     [\<lparr>rt_prefix = 0x0003A8C0, rt_next_hop = 0x0203A8C0, rt_mask = 0x00FFFFFF, rt_interface = 2\<rparr>])) =
   Inr [\<lparr>rt_prefix = 0x0003A8C0, rt_next_hop = 0x0203A8C0, rt_mask = 0x00FFFFFF, rt_interface = 2\<rparr>]"
  by (rule readRtable_render) simp_all

section \<open>Sorting\<close>

text \<open>
  The difference of two \<open>int\<close>s, with the wrap-around of the machine (the source reads the unsigned
  prefixes into \<open>int\<close> variables).
\<close>

definition comparator :: "route_table_entry \<Rightarrow> route_table_entry \<Rightarrow> int" where
  "comparator o1 o2 = sint (rt_prefix o2 - rt_prefix o1)"

text \<open>
  \<open>qsort\<close> of the C library, as a stable insertion sort by the comparator. Where the comparator is
  not a consistent order the C standard leaves the result open; the order below is then one of the
  results it allows.
\<close>

fun qsort_insert :: "route_table_entry \<Rightarrow> route_table_entry list \<Rightarrow> route_table_entry list" where
  "qsort_insert e [] = [e]"
| "qsort_insert e (x # xs) =
     (if comparator e x \<le> 0 then e # x # xs else x # qsort_insert e xs)"

definition qsort_rtable :: "route_table_entry list \<Rightarrow> route_table_entry list" where
  "qsort_rtable rt = foldr qsort_insert rt []"

lemma set_qsort_insert [simp]: "set (qsort_insert e xs) = insert e (set xs)"
  by (induction xs) auto

lemma length_qsort_insert [simp]: "length (qsort_insert e xs) = Suc (length xs)"
  by (induction xs) auto

lemma set_qsort_rtable [simp]: "set (qsort_rtable rt) = set rt"
  unfolding qsort_rtable_def by (induction rt) auto

lemma length_qsort_rtable [simp]: "length (qsort_rtable rt) = length rt"
  unfolding qsort_rtable_def by (induction rt) auto

text \<open>Below \<open>2 ^ 31\<close> the comparator is the descending order of the unsigned prefixes.\<close>

lemma comparator_small:
  assumes "rt_prefix a < 0x80000000" and "rt_prefix b < 0x80000000"
  shows "comparator a b = int (unat (rt_prefix b)) - int (unat (rt_prefix a))"
proof -
  have lt: "uint (rt_prefix a) < 2147483648" "uint (rt_prefix b) < 2147483648"
      "0 \<le> uint (rt_prefix a)" "0 \<le> uint (rt_prefix b)"
    using assms by (simp_all add: word_less_def)
  have self: "signed_take_bit 31 (uint (rt_prefix b) - uint (rt_prefix a)) =
      uint (rt_prefix b) - uint (rt_prefix a)"
  proof (rule signed_take_bit_int_eq_self)
    have "(2 :: int) ^ 31 = 2147483648"
      by simp
    with lt show "- (2 ^ 31) \<le> uint (rt_prefix b) - uint (rt_prefix a)"
      and "uint (rt_prefix b) - uint (rt_prefix a) < 2 ^ 31"
      by linarith+
  qed
  have eq: "rt_prefix b - rt_prefix a = of_int (uint (rt_prefix b) - uint (rt_prefix a))"
    by simp
  show ?thesis
    using self unfolding comparator_def eq signed_of_int by simp
qed

definition sorted_desc :: "route_table_entry list \<Rightarrow> bool" where
  "sorted_desc rt \<longleftrightarrow> sorted_wrt (\<lambda>a b. rt_prefix b \<le> rt_prefix a) rt"

lemma sorted_desc_insert:
  assumes "sorted_desc xs" and "\<forall>x \<in> set (e # xs). rt_prefix x < 0x80000000"
  shows "sorted_desc (qsort_insert e xs)"
  using assms
proof (induction xs)
  case (Cons x xs)
  have le: "comparator e x \<le> 0 \<longleftrightarrow> rt_prefix x \<le> rt_prefix e"
    using Cons.prems(2) by (simp add: comparator_small word_le_def)
  show ?case
  proof (cases "rt_prefix x \<le> rt_prefix e")
    case True
    then show ?thesis
      using Cons.prems(1) le by (force simp: sorted_desc_def)
  next
    case False
    then have "sorted_desc (qsort_insert e xs)"
      using Cons by (simp add: sorted_desc_def)
    with False show ?thesis
      using Cons.prems(1) le by (auto simp: sorted_desc_def)
  qed
qed (simp add: sorted_desc_def)

lemma sorted_desc_qsort:
  assumes "\<forall>e \<in> set rt. rt_prefix e < 0x80000000"
  shows "sorted_desc (qsort_rtable rt)"
  using assms
proof (induction rt)
  case (Cons e rt)
  have "sorted_desc (qsort_insert e (qsort_rtable rt))"
    by (rule sorted_desc_insert) (use Cons in auto)
  then show ?case
    by (simp add: qsort_rtable_def)
qed (simp add: qsort_rtable_def sorted_desc_def)

section \<open>Looking up a destination\<close>

text \<open>
  The loop of \<open>get_best_route\<close>; the bounds are \<open>int\<close>s, their sum stays below \<open>2 * 66000\<close>, and since
  it is not negative inside the loop the division of C is \<open>div\<close>.
\<close>

definition matches :: "u32 \<Rightarrow> route_table_entry \<Rightarrow> bool" where
  "matches d e \<longleftrightarrow> d AND rt_mask e = rt_prefix e"

function search :: "route_table_entry list \<Rightarrow> u32 \<Rightarrow> int \<Rightarrow> int \<Rightarrow> int res" where
  "search rt d left right =
    (if left \<le> right then
       let mid = (left + right) div 2
       in if mid < 0 \<or> int (length rt) \<le> mid then Inl Out_Of_Bounds
          else let e = rt ! nat mid
               in if matches d e then Inr mid
                  else if d AND rt_mask e > rt_prefix e then search rt d left (mid - 1)
                  else search rt d (mid + 1) right
     else Inr (- 1))"
  by pat_completeness auto

termination
  by (relation "measure (\<lambda>(rt, d, left, right). nat (right - left + 1))") auto

declare search.simps [simp del]

text \<open>The entry the returned pointer points to, or \<open>None\<close> for \<open>NULL\<close>.\<close>

definition get_best_route :: "route_table_entry list \<Rightarrow> u32 \<Rightarrow> route_table_entry option res" where
  "get_best_route rt d =
    rbind (search rt d 0 (int (length rt) - 1)) (\<lambda>finalId.
      Inr (if finalId = - 1 then None else Some (rt ! nat finalId)))"

lemma search_sound:
  assumes "0 \<le> left" and "right < int (length rt)"
  shows "\<exists>i. search rt d left right = Inr i \<and>
    (i = - 1 \<or> (left \<le> i \<and> i \<le> right \<and> matches d (rt ! nat i)))"
  using assms
proof (induction rt d left right rule: search.induct)
  case (1 rt d left right)
  show ?case
  proof (cases "left \<le> right")
    case False
    then show ?thesis by (simp add: search.simps)
  next
    case True
    let ?mid = "(left + right) div 2"
    have mid: "left \<le> ?mid" "?mid \<le> right"
      using True by auto
    note IH = "1.IH" [OF True refl _ refl]
    consider "matches d (rt ! nat ?mid)"
      | "\<not> matches d (rt ! nat ?mid)" "d AND rt_mask (rt ! nat ?mid) > rt_prefix (rt ! nat ?mid)"
      | "\<not> matches d (rt ! nat ?mid)" "\<not> d AND rt_mask (rt ! nat ?mid) > rt_prefix (rt ! nat ?mid)"
      by blast
    then show ?thesis
    proof cases
      case 1
      then show ?thesis
        using True mid "1.prems" by (subst search.simps) (auto simp: Let_def)
    next
      case 2
      have "search rt d left right = search rt d left (?mid - 1)"
        using True mid "1.prems" 2 by (subst search.simps) (auto simp: Let_def)
      moreover have "\<exists>i. search rt d left (?mid - 1) = Inr i \<and>
          (i = - 1 \<or> left \<le> i \<and> i \<le> ?mid - 1 \<and> matches d (rt ! nat i))"
        by (rule IH(1)) (use mid "1.prems" 2 in auto)
      ultimately show ?thesis
        using mid by auto
    next
      case 3
      have "search rt d left right = search rt d (?mid + 1) right"
        using True mid "1.prems" 3 by (subst search.simps) (auto simp: Let_def)
      moreover have "\<exists>i. search rt d (?mid + 1) right = Inr i \<and>
          (i = - 1 \<or> ?mid + 1 \<le> i \<and> i \<le> right \<and> matches d (rt ! nat i))"
        by (rule IH(2)) (use mid "1.prems" 3 in auto)
      ultimately show ?thesis
        using mid by auto
    qed
  qed
qed

text \<open>
  The order the search relies on: nothing matches below an entry that is smaller than the masked
  destination, nor above an entry that is larger.
\<close>

definition searchable :: "route_table_entry list \<Rightarrow> u32 \<Rightarrow> bool" where
  "searchable rt d \<longleftrightarrow> (\<forall>i j. i \<le> j \<longrightarrow> j < length rt \<longrightarrow>
    (rt_prefix (rt ! i) < d AND rt_mask (rt ! i) \<longrightarrow> \<not> matches d (rt ! j)) \<and>
    (d AND rt_mask (rt ! j) < rt_prefix (rt ! j) \<longrightarrow> \<not> matches d (rt ! i)))"

lemma search_complete:
  assumes "searchable rt d" and "0 \<le> left" and "right < int (length rt)"
    and "left \<le> k" and "k \<le> right" and "matches d (rt ! nat k)"
  shows "search rt d left right \<noteq> Inr (- 1)"
  using assms
proof (induction rt d left right rule: search.induct)
  case (1 rt d left right)
  let ?mid = "(left + right) div 2"
  have lr: "left \<le> right"
    using "1.prems" by simp
  have mid: "left \<le> ?mid" "?mid \<le> right"
    using lr by auto
  let ?e = "rt ! nat ?mid"
  note IH = "1.IH" [OF lr refl _ refl]
  consider "matches d ?e"
    | "\<not> matches d ?e" "d AND rt_mask ?e > rt_prefix ?e"
    | "\<not> matches d ?e" "d AND rt_mask ?e < rt_prefix ?e"
    unfolding matches_def by (meson linorder_less_linear)
  then show ?case
  proof cases
    case 1
    then show ?thesis
      using lr mid "1.prems" by (subst search.simps) (auto simp: Let_def)
  next
    case 2
    have "\<not> ?mid \<le> k"
    proof
      assume "?mid \<le> k"
      then have "nat ?mid \<le> nat k" "nat k < length rt"
        using "1.prems" mid by auto
      with 2(2) "1.prems"(1,6) show False
        by (auto simp: searchable_def)
    qed
    then have "search rt d left (?mid - 1) \<noteq> Inr (- 1)"
      by (intro IH(1)) (use mid "1.prems" 2 in auto)
    moreover have "search rt d left right = search rt d left (?mid - 1)"
      using lr mid "1.prems" 2 by (subst search.simps) (auto simp: Let_def)
    ultimately show ?thesis by simp
  next
    case 3
    have "\<not> k \<le> ?mid"
    proof
      assume "k \<le> ?mid"
      then have "nat k \<le> nat ?mid" "nat ?mid < length rt"
        using "1.prems" mid by auto
      with 3(2) "1.prems"(1,6) show False
        by (auto simp: searchable_def)
    qed
    then have "search rt d (?mid + 1) right \<noteq> Inr (- 1)"
      by (intro IH(2)) (use mid "1.prems" 3 in auto)
    moreover have "search rt d left right = search rt d (?mid + 1) right"
      using lr mid "1.prems" 3 by (subst search.simps) (auto simp: Let_def)
    ultimately show ?thesis by simp
  qed
qed

lemma get_best_route_cases:
  obtains (none) "get_best_route rt d = Inr None"
  | (some) e where "get_best_route rt d = Inr (Some e)" and "e \<in> set rt" and "matches d e"
proof -
  obtain i where i: "search rt d 0 (int (length rt) - 1) = Inr i"
      "i = - 1 \<or> (0 \<le> i \<and> i \<le> int (length rt) - 1 \<and> matches d (rt ! nat i))"
    using search_sound [of 0 "int (length rt) - 1" rt d] by auto
  show ?thesis
  proof (cases "i = - 1")
    case True
    then show ?thesis
      using i none by (simp add: get_best_route_def)
  next
    case False
    with i(2) have "rt ! nat i \<in> set rt"
      by (intro nth_mem) auto
    with False i show ?thesis
      using some by (auto simp: get_best_route_def)
  qed
qed

lemma get_best_route_searchable:
  assumes "searchable rt d" and "get_best_route rt d = Inr None" and "e \<in> set rt"
  shows "\<not> matches d e"
proof
  assume m: "matches d e"
  from assms(3) obtain k where k: "k < length rt" "rt ! k = e"
    by (auto simp: in_set_conv_nth)
  have "search rt d 0 (int (length rt) - 1) \<noteq> Inr (- 1)"
    by (rule search_complete [OF assms(1), where k = "int k"]) (use k m in auto)
  with assms(2) show False
    by (auto simp: get_best_route_def rbind_eq_Inr_iff split: if_splits)
qed

lemma searchable_uniform:
  assumes "sorted_desc rt" and "\<forall>e \<in> set rt. rt_mask e = m"
  shows "searchable rt d"
  unfolding searchable_def
proof (intro allI impI)
  fix i j
  assume ij: "i \<le> j" "j < length rt"
  then have le: "rt_prefix (rt ! j) \<le> rt_prefix (rt ! i)"
    using assms(1) by (cases "i = j") (auto simp: sorted_desc_def sorted_wrt_iff_nth_less)
  from ij assms(2) have "rt_mask (rt ! i) = m" "rt_mask (rt ! j) = m"
    by auto
  with le show "(rt_prefix (rt ! i) < d AND rt_mask (rt ! i) \<longrightarrow> \<not> matches d (rt ! j)) \<and>
    (d AND rt_mask (rt ! j) < rt_prefix (rt ! j) \<longrightarrow> \<not> matches d (rt ! i))"
    by (auto simp: matches_def)
qed

text \<open>
  On every table, sorted or not, the binary search of \<open>get_best_route\<close> ends, never reads outside
  the table, and returns either no route or a route of the table whose masked destination is its
  prefix.
\<close>

theorem get_best_route_sound:
  "\<exists>r. get_best_route rt d = Inr r \<and>
    (\<forall>e. r = Some e \<longrightarrow> e \<in> set rt \<and> d AND rt_mask e = rt_prefix e)"
  by (cases rule: get_best_route_cases [of rt d]) (auto simp: matches_def)

theorem get_best_route_sound_witness:
  "\<exists>r. get_best_route [\<lparr>rt_prefix = 10, rt_next_hop = 7, rt_mask = 255, rt_interface = 1\<rparr>] 0x010A = Inr r \<and>
    (\<forall>e. r = Some e \<longrightarrow>
      e \<in> set [\<lparr>rt_prefix = 10, rt_next_hop = 7, rt_mask = 255, rt_interface = 1\<rparr>] \<and>
      0x010A AND rt_mask e = rt_prefix e)"
  by (rule get_best_route_sound)

text \<open>
  C12. On a table whose routes share one mask and whose prefixes are below \<open>2 ^ 31\<close> (in network byte
  order: the last octet is below 128), sorting it as \<open>main\<close> does makes the search complete: it
  returns no route only if no route of the table matches the destination.
\<close>

theorem get_best_route_complete:
  assumes "\<forall>e \<in> set rt. rt_mask e = m" and "\<forall>e \<in> set rt. rt_prefix e < 0x80000000"
    and "e \<in> set rt" and "d AND m = rt_prefix e"
  shows "\<exists>e'. get_best_route (qsort_rtable rt) d = Inr (Some e') \<and> e' \<in> set rt \<and>
    rt_prefix e' = rt_prefix e"
proof -
  have srch: "searchable (qsort_rtable rt) d"
    by (rule searchable_uniform [OF sorted_desc_qsort]) (use assms(1,2) in auto)
  have m: "matches d e"
    using assms by (auto simp: matches_def)
  show ?thesis
  proof (cases rule: get_best_route_cases [of "qsort_rtable rt" d])
    case none
    then show ?thesis
      using get_best_route_searchable [OF srch none, of e] assms(3) m by simp
  next
    case (some e')
    then show ?thesis
      using assms by (auto simp: matches_def)
  qed
qed

theorem get_best_route_complete_witness:
  "\<exists>e'. get_best_route (qsort_rtable
      [\<lparr>rt_prefix = 10, rt_next_hop = 7, rt_mask = 0xFFFF, rt_interface = 1\<rparr>,
       \<lparr>rt_prefix = 0x010A, rt_next_hop = 8, rt_mask = 0xFFFF, rt_interface = 2\<rparr>]) 0x0302010A = Inr (Some e') \<and>
    e' \<in> set [\<lparr>rt_prefix = 10, rt_next_hop = 7, rt_mask = 0xFFFF, rt_interface = 1\<rparr>,
       \<lparr>rt_prefix = 0x010A, rt_next_hop = 8, rt_mask = 0xFFFF, rt_interface = 2\<rparr>] \<and>
    rt_prefix e' =
      rt_prefix \<lparr>rt_prefix = 0x010A, rt_next_hop = 8, rt_mask = 0xFFFF, rt_interface = 2\<rparr>"
  by (rule get_best_route_complete [where m = "0xFFFF"]) simp_all

text \<open>
  Outside these bounds the search fails. With the host routes of 10.0.0.1 and 10.0.0.200 the
  signed comparator sorts them in ascending order, and the search for 10.0.0.200 finds no route
  although one matches. With the nested routes 10.0.0.0/8, 10.1.0.0/16 and 10.1.2.0/24 the search
  for 10.1.2.3 returns the middle one, not the longest prefix.
\<close>

theorem get_best_route_incomplete:
  "(let r1 = \<lparr>rt_prefix = 0x0100000A, rt_next_hop = 7, rt_mask = 0xFFFFFFFF, rt_interface = 1\<rparr>;
       r200 = \<lparr>rt_prefix = 0xC800000A, rt_next_hop = 8, rt_mask = 0xFFFFFFFF, rt_interface = 2\<rparr>
   in get_best_route (qsort_rtable [r1, r200]) 0xC800000A = Inr None \<and> matches 0xC800000A r200) \<and>
   (let r8 = \<lparr>rt_prefix = 0x0A, rt_next_hop = 7, rt_mask = 0xFF, rt_interface = 0\<rparr>;
       r16 = \<lparr>rt_prefix = 0x010A, rt_next_hop = 8, rt_mask = 0xFFFF, rt_interface = 1\<rparr>;
       r24 = \<lparr>rt_prefix = 0x02010A, rt_next_hop = 9, rt_mask = 0xFFFFFF, rt_interface = 2\<rparr>
   in get_best_route (qsort_rtable [r8, r16, r24]) 0x0302010A = Inr (Some r16) \<and>
     matches 0x0302010A r24)"
  by code_simp

section \<open>The ARP table\<close>

fun get_arp_entry :: "arp_entry list \<Rightarrow> u32 \<Rightarrow> arp_entry option" where
  "get_arp_entry [] a = None"
| "get_arp_entry (e # es) a = (if a = ip e then Some e else get_arp_entry es a)"

lemma get_arp_entry_append:
  "get_arp_entry (xs @ ys) a =
    (case get_arp_entry xs a of None \<Rightarrow> get_arp_entry ys a | Some e \<Rightarrow> Some e)"
  by (induction xs) auto

lemma get_arp_entry_Some: "get_arp_entry es a = Some e \<Longrightarrow> e \<in> set es \<and> ip e = a"
  by (induction es) (auto split: if_splits)

lemma get_arp_entry_None: "get_arp_entry es a = None \<longleftrightarrow> a \<notin> ip ` set es"
  by (induction es) auto

end
