(* ===== verification/Packets.thy ===== *)
theory Packets
  imports Inet_Checksum Routing
begin

text \<open>
  Frames and the network interface of the router, \<open>Teme/Tema1/skel.c\<close> and \<open>include/skel.h\<close>: the
  packet buffer, the Ethernet, IPv4, ICMP and ARP headers as records with their layout in memory,
  sending and receiving, the addresses of an interface, the parser of textual hardware addresses,
  and the three routines that build a frame (\<open>send_icmp\<close>, \<open>send_icmp_error\<close>, \<open>send_arp\<close>).

  What the operating system provides is a parameter \<open>net_env\<close>: the answers of \<open>ioctl\<close> by interface
  name, whether a \<open>write\<close> on an interface fails, and the process id.
\<close>

section \<open>The packet buffer and the interfaces\<close>

text \<open>
  \<open>payload\<close> holds the bytes of the buffer that have been written: all 1600 of the buffer \<open>main\<close>
  receives into, and the initialised prefix of the local buffers of the sending routines.
\<close>

record packet =
  pkt_len :: int
  payload :: "u8 list"
  pkt_interface :: int

record net_env =
  ioctl_addr :: "string \<Rightarrow> u32"
  ioctl_hwaddr :: "string \<Rightarrow> u8 list"
  write_fails :: "int \<Rightarrow> u8 list \<Rightarrow> bool"
  pid :: int

type_synonym frame = "int \<times> u8 list"

definition ROUTER_NUM_INTERFACES :: int where
  "ROUTER_NUM_INTERFACES = 3"

text \<open>The index into the array \<open>interfaces\<close>.\<close>

definition check_interface :: "int \<Rightarrow> unit res" where
  "check_interface i =
    (if 0 \<le> i \<and> i < ROUTER_NUM_INTERFACES then Inr () else Inl Out_Of_Bounds)"

definition send_packet :: "net_env \<Rightarrow> int \<Rightarrow> packet \<Rightarrow> frame res" where
  "send_packet env sockfd m =
    rbind (check_interface sockfd) (\<lambda>_.
      if pkt_len m < 0 \<or> int (length (payload m)) < pkt_len m then Inl Out_Of_Bounds
      else let bytes = take (nat (pkt_len m)) (payload m)
           in if write_fails env sockfd bytes then Inl (Exit 1) else Inr (sockfd, bytes))"

text \<open>What \<open>select\<close> and \<open>read\<close> report on one interface.\<close>

datatype readable = Not_Ready | Read_Error | Ready "u8 list"

definition socket_receive_message :: "readable \<Rightarrow> packet \<Rightarrow> packet res" where
  "socket_receive_message r m = (case r of
       Ready bytes \<Rightarrow>
         let got = take MAX_LEN bytes
         in Inr (m\<lparr>pkt_len := int (length got), payload := write_at 0 got (payload m)\<rparr>)
     | _ \<Rightarrow> Inl (Exit 1))"

text \<open>
  The interfaces in order; \<open>None\<close> is a \<open>select\<close> that reported none of them, after which
  \<open>get_packet\<close> selects again.
\<close>

fun scan_ready :: "int \<Rightarrow> readable list \<Rightarrow> packet \<Rightarrow> packet option res" where
  "scan_ready i [] m = Inr None"
| "scan_ready i (r # rs) m =
     (if r = Not_Ready then scan_ready (i + 1) rs m
      else rbind (socket_receive_message r m) (\<lambda>m'. Inr (Some (m'\<lparr>pkt_interface := i\<rparr>))))"

fun get_packet :: "readable list list \<Rightarrow> packet \<Rightarrow> (packet \<times> readable list list) option res" where
  "get_packet [] m = Inr None"
| "get_packet (sel # sels) m =
     rbind (scan_ready 0 (take (nat ROUTER_NUM_INTERFACES) sel) m) (\<lambda>r. case r of
       None \<Rightarrow> get_packet sels m
     | Some m' \<Rightarrow> Inr (Some (m', sels)))"

definition interface_name :: "int \<Rightarrow> string" where
  "interface_name interface =
    (if interface = 0 then ''rr-0-1''
     else ''r-'' @ show_nat (unat (of_int (interface - 1) :: u32)))"

definition get_interface_ip :: "net_env \<Rightarrow> int \<Rightarrow> string res" where
  "get_interface_ip env interface =
    rbind (check_interface interface) (\<lambda>_.
      Inr (inet_ntoa (ioctl_addr env (interface_name interface))))"

definition get_interface_mac :: "net_env \<Rightarrow> int \<Rightarrow> u8 list res" where
  "get_interface_mac env interface =
    rbind (check_interface interface) (\<lambda>_.
      Inr (take 6 (ioctl_hwaddr env (interface_name interface))))"

text \<open>\<open>sa_data\<close>, where \<open>SIOCGIFHWADDR\<close> puts the hardware address, has 14 bytes.\<close>

definition env_ok :: "net_env \<Rightarrow> bool" where
  "env_ok env \<longleftrightarrow> (\<forall>name. length (ioctl_hwaddr env name) = 14)"

lemma check_interface_ok [simp]: "0 \<le> i \<Longrightarrow> i < 3 \<Longrightarrow> check_interface i = Inr ()"
  by (simp add: check_interface_def ROUTER_NUM_INTERFACES_def)

lemma check_interface_Inr: "check_interface i = Inr u \<longleftrightarrow> 0 \<le> i \<and> i < 3"
  by (simp add: check_interface_def ROUTER_NUM_INTERFACES_def)

lemma get_interface_mac_length:
  "env_ok env \<Longrightarrow> get_interface_mac env i = Inr hw \<Longrightarrow> length hw = 6"
  by (auto simp: get_interface_mac_def rbind_eq_Inr_iff env_ok_def)

lemma send_packet_ok:
  assumes "0 \<le> i" "i < 3" "0 \<le> pkt_len m" "pkt_len m \<le> int (length (payload m))"
  shows "send_packet env i m =
    (let bytes = take (nat (pkt_len m)) (payload m)
     in if write_fails env i bytes then Inl (Exit 1) else Inr (i, bytes))"
  using assms by (simp add: send_packet_def)

section \<open>Textual hardware addresses\<close>

definition hex2num :: "char \<Rightarrow> int" where
  "hex2num c =
    (let v = int (char_val c)
     in if 48 \<le> v \<and> v \<le> 57 then v - 48
        else if 97 \<le> v \<and> v \<le> 102 then v - 97 + 10
        else if 65 \<le> v \<and> v \<le> 70 then v - 65 + 10
        else - 1)"

text \<open>
  Strings are followed by their terminator, on which \<open>hex2num\<close> gives -1 and the colon test fails, so
  neither parser reads past it.
\<close>

definition cur :: "string \<Rightarrow> char" where
  "cur s = (case s of [] \<Rightarrow> CHR 0x00 | c # _ \<Rightarrow> c)"

definition hex2byte :: "string \<Rightarrow> int" where
  "hex2byte hex =
    (let a = hex2num (cur hex)
     in if a < 0 then - 1
        else let b = hex2num (cur (tl hex))
             in if b < 0 then - 1 else or (push_bit 4 a) b)"

text \<open>The result code and the bytes stored so far.\<close>

fun hwaddr_aton_from :: "nat \<Rightarrow> string \<Rightarrow> u8 list \<Rightarrow> int \<times> u8 list" where
  "hwaddr_aton_from 0 txt addr = (0, addr)"
| "hwaddr_aton_from (Suc n) txt addr =
     (let a = hex2num (cur txt)
      in if a < 0 then (- 1, addr)
         else let b = hex2num (cur (tl txt))
              in if b < 0 then (- 1, addr)
                 else let addr' = addr @ [of_int (or (push_bit 4 a) b)]; rest = tl (tl txt)
                      in if 0 < n \<and> cur rest \<noteq> CHR '':'' then (- 1, addr')
                         else hwaddr_aton_from n (tl rest) addr')"

definition hwaddr_aton :: "string \<Rightarrow> int \<times> u8 list" where
  "hwaddr_aton txt = hwaddr_aton_from 6 txt []"

text \<open>The lower-case form \<open>xx:xx:xx:xx:xx:xx\<close>.\<close>

definition hex_digit :: "u8 \<Rightarrow> char" where
  "hex_digit d = (if d < 10 then char_of (48 + unat d) else char_of (87 + unat d))"

definition show_byte :: "u8 \<Rightarrow> string" where
  "show_byte b = [hex_digit (drop_bit 4 b), hex_digit (b AND 15)]"

fun show_hwaddr :: "u8 list \<Rightarrow> string" where
  "show_hwaddr [] = []"
| "show_hwaddr [b] = show_byte b"
| "show_hwaddr (b # c # bs) = show_byte b @ CHR '':'' # show_hwaddr (c # bs)"

lemma hex2num_digit:
  assumes "d < 16"
  shows "hex2num (hex_digit d) = int (unat d)"
proof -
  have "unat d < 16"
    using assms by (simp add: word_less_nat_alt)
  moreover have "d < 10 \<longleftrightarrow> unat d < 10"
    by (simp add: word_less_nat_alt)
  ultimately show ?thesis
    by (auto simp: hex2num_def hex_digit_def char_val_char_of Let_def)
qed

lemma nibbles: "drop_bit 4 b < (16 :: u8)" "b AND 15 < (16 :: u8)"
proof -
  have "unat (drop_bit 4 b) < 16"
    using unat_bound8 [of b] by (simp add: drop_bit_eq_div unat_div)
  then show "drop_bit 4 b < (16 :: u8)"
    by (simp add: word_less_nat_alt)
  have "b AND 15 \<le> (15 :: u8)"
    by (rule word_and_le1)
  then show "b AND 15 < (16 :: u8)"
    by (simp add: word_le_nat_alt word_less_nat_alt)
qed

lemma mask4: "(15 :: u8) = mask 4"
  by (simp add: mask_eq_exp_minus_1)

lemma join_nibbles:
  "word_of_int (or (push_bit 4 (uint (drop_bit 4 b))) (uint (b AND 15))) = (b :: u8)"
  by (rule bit_word_eqI) (auto simp: mask4 bit_simps bit_word_of_int_iff bit_uint_iff)

lemma hwaddr_aton_from_show:
  assumes "n = length bs" and "bs \<noteq> []"
  shows "hwaddr_aton_from n (show_hwaddr bs @ rest) addr = (0, addr @ bs)"
  using assms
proof (induction bs arbitrary: n addr rule: show_hwaddr.induct)
  case (2 b)
  then show ?case
    by (simp add: show_byte_def cur_def hex2num_digit nibbles join_nibbles Let_def)
next
  case (3 b c bs)
  have "hwaddr_aton_from (Suc (length (c # bs))) (show_hwaddr (b # c # bs) @ rest) addr =
      hwaddr_aton_from (length (c # bs)) (show_hwaddr (c # bs) @ rest) (addr @ [b])"
    by (subst hwaddr_aton_from.simps)
      (simp add: show_byte_def cur_def hex2num_digit nibbles join_nibbles Let_def
        del: hwaddr_aton_from.simps)
  then show ?case
    using "3.IH" [of "length (c # bs)" "addr @ [b]"] "3.prems" by simp
qed simp

lemma hwaddr_aton_show: "length hw = 6 \<Longrightarrow> hwaddr_aton (show_hwaddr hw) = (0, hw)"
  using hwaddr_aton_from_show [of 6 hw "[]" "[]"] by (cases hw) (simp_all add: hwaddr_aton_def)

lemma hwaddr_aton_from_result:
  "case hwaddr_aton_from n s addr of (rc, bs) \<Rightarrow>
     (rc = 0 \<and> length bs = length addr + n) \<or> (rc = - 1 \<and> length bs \<le> length addr + n)"
  by (induction n s addr rule: hwaddr_aton_from.induct)
    (auto simp: Let_def split: prod.splits)

text \<open>
  Hardware addresses. \<open>hwaddr_aton\<close> reads back the textual form of every address, and on every
  string it either returns 0 with six bytes stored or returns -1 with at most six.
\<close>

theorem hwaddr_aton_correct:
  assumes "length hw = 6"
  shows "hwaddr_aton (show_hwaddr hw) = (0, hw) \<and>
    (case hwaddr_aton s of (rc, bs) \<Rightarrow> (rc = 0 \<and> length bs = 6) \<or> (rc = - 1 \<and> length bs \<le> 6))"
  using hwaddr_aton_show [OF assms] hwaddr_aton_from_result [where n = 6 and s = s and addr = "[]"]
  by (auto simp: hwaddr_aton_def split: prod.splits)

theorem hwaddr_aton_correct_witness:
  "hwaddr_aton (show_hwaddr [0xde, 0xad, 0xbe, 0xef, 0, 1]) = (0, [0xde, 0xad, 0xbe, 0xef, 0, 1]) \<and>
    (case hwaddr_aton ''de:ad:be-ef'' of (rc, bs) \<Rightarrow> (rc = 0 \<and> length bs = 6) \<or> (rc = - 1 \<and> length bs \<le> 6))"
  by (rule hwaddr_aton_correct) simp

section \<open>Headers\<close>

record ether_header =
  ether_dhost :: "u8 list"
  ether_shost :: "u8 list"
  ether_type :: u16

record iphdr =
  version :: u8
  ihl :: u8
  tos :: u8
  tot_len :: u16
  ip_id :: u16
  frag_off :: u16
  ttl :: u8
  protocol :: u8
  check :: u16
  saddr :: u32
  daddr :: u32

record icmphdr =
  icmp_type :: u8
  icmp_code :: u8
  checksum :: u16
  echo_id :: u16
  echo_sequence :: u16

record arp_header =
  htype :: u16
  ptype :: u16
  hlen :: u8
  plen :: u8
  arp_op :: u16
  sha :: "u8 list"
  spa :: u32
  tha :: "u8 list"
  tpa :: u32

text \<open>
  The layout in memory. \<open>version\<close> and \<open>ihl\<close> are the two halves of the first byte, \<open>ihl\<close> the lower one.
\<close>

definition ether_bytes :: "ether_header \<Rightarrow> u8 list" where
  "ether_bytes h = ether_dhost h @ ether_shost h @ bytes16 (ether_type h)"

definition iphdr_bytes :: "iphdr \<Rightarrow> u8 list" where
  "iphdr_bytes h =
    [push_bit 4 (version h) OR (ihl h AND 15), tos h] @ bytes16 (tot_len h) @ bytes16 (ip_id h) @
    bytes16 (frag_off h) @ [ttl h, protocol h] @ bytes16 (check h) @ bytes32 (saddr h) @
    bytes32 (daddr h)"

definition icmphdr_bytes :: "icmphdr \<Rightarrow> u8 list" where
  "icmphdr_bytes h =
    [icmp_type h, icmp_code h] @ bytes16 (checksum h) @ bytes16 (echo_id h) @
    bytes16 (echo_sequence h)"

definition arp_bytes :: "arp_header \<Rightarrow> u8 list" where
  "arp_bytes h =
    bytes16 (htype h) @ bytes16 (ptype h) @ [hlen h, plen h] @ bytes16 (arp_op h) @
    sha h @ bytes32 (spa h) @ tha h @ bytes32 (tpa h)"

text \<open>Reading a header through a pointer to its first byte.\<close>

definition ether_of :: "u8 list \<Rightarrow> ether_header" where
  "ether_of bs = \<lparr>ether_dhost = block 0 6 bs, ether_shost = block 6 6 bs, ether_type = load16 12 bs\<rparr>"

definition iphdr_of :: "u8 list \<Rightarrow> iphdr" where
  "iphdr_of bs = \<lparr>version = drop_bit 4 (bs ! 0), ihl = bs ! 0 AND 15, tos = bs ! 1,
     tot_len = load16 2 bs, ip_id = load16 4 bs, frag_off = load16 6 bs, ttl = bs ! 8,
     protocol = bs ! 9, check = load16 10 bs, saddr = load32 12 bs, daddr = load32 16 bs\<rparr>"

definition icmphdr_of :: "u8 list \<Rightarrow> icmphdr" where
  "icmphdr_of bs = \<lparr>icmp_type = bs ! 0, icmp_code = bs ! 1, checksum = load16 2 bs,
     echo_id = load16 4 bs, echo_sequence = load16 6 bs\<rparr>"

definition arp_of :: "u8 list \<Rightarrow> arp_header" where
  "arp_of bs = \<lparr>htype = load16 0 bs, ptype = load16 2 bs, hlen = bs ! 4, plen = bs ! 5,
     arp_op = load16 6 bs, sha = block 8 6 bs, spa = load32 14 bs, tha = block 18 6 bs,
     tpa = load32 24 bs\<rparr>"

lemma length_ether_bytes [simp]:
  "length (ether_dhost h) = 6 \<Longrightarrow> length (ether_shost h) = 6 \<Longrightarrow> length (ether_bytes h) = 14"
  by (simp add: ether_bytes_def)

lemma length_iphdr_bytes [simp]: "length (iphdr_bytes h) = 20"
  by (simp add: iphdr_bytes_def)

lemma length_icmphdr_bytes [simp]: "length (icmphdr_bytes h) = 8"
  by (simp add: icmphdr_bytes_def)

lemma length_arp_bytes [simp]:
  "length (sha h) = 6 \<Longrightarrow> length (tha h) = 6 \<Longrightarrow> length (arp_bytes h) = 28"
  by (simp add: arp_bytes_def)

lemma load16_nth2: "load16 i bs = mk16 (bs ! Suc i) (bs ! i)"
  by (simp add: load16_def)

lemma load32_nth4: "load32 i bs = mk32 (bs ! (i + 3)) (bs ! (i + 2)) (bs ! Suc i) (bs ! i)"
  by (simp add: load32_def)

lemma list6_cases:
  assumes "length xs = 6"
  obtains a b c d e f where "xs = [a, b, c, d, e, f]"
  using assms by (auto simp: numeral_eq_Suc length_Suc_conv)

lemma ether_of_bytes:
  assumes "length (ether_dhost h) = 6" and "length (ether_shost h) = 6"
  shows "ether_of (ether_bytes h @ rest) = h"
  using assms
  by (cases h) (auto simp: ether_of_def ether_bytes_def block_def bytes16_def load16_def nth_append)

lemma nibble_self: "v < 16 \<Longrightarrow> take_bit 4 v = (v :: u8)"
  by (simp add: word_unat_eq_iff take_bit_eq_mod unat_mod word_less_nat_alt)

lemma version_nibble:
  "v < 16 \<Longrightarrow> drop_bit 4 (push_bit 4 v) = (v :: u8)"
  "l < 16 \<Longrightarrow> (push_bit 4 v OR (l AND 15)) AND 15 = (l :: u8)"
proof -
  have "drop_bit 4 (push_bit 4 v) = take_bit 4 v"
    by (rule bit_word_eqI) (auto simp: bit_simps)
  then show "v < 16 \<Longrightarrow> drop_bit 4 (push_bit 4 v) = v"
    by (simp add: nibble_self)
  have "(push_bit 4 v OR (l AND 15)) AND 15 = take_bit 4 l"
    by (rule bit_word_eqI) (auto simp: mask4 bit_simps)
  then show "l < 16 \<Longrightarrow> (push_bit 4 v OR (l AND 15)) AND 15 = l"
    by (simp add: nibble_self)
qed

lemma iphdr_of_bytes:
  assumes "version h < 16" and "ihl h < 16"
  shows "iphdr_of (iphdr_bytes h @ rest) = h"
  using assms
  by (cases h) (simp add: iphdr_of_def iphdr_bytes_def bytes16_def bytes32_def load16_def load32_def
      version_nibble)

lemma icmphdr_of_bytes: "icmphdr_of (icmphdr_bytes h @ rest) = h"
  by (cases h) (simp add: icmphdr_of_def icmphdr_bytes_def bytes16_def load16_def)

lemma arp_of_bytes:
  assumes "length (sha h) = 6" and "length (tha h) = 6"
  shows "arp_of (arp_bytes h @ rest) = h"
proof -
  from assms obtain a b c d e f a' b' c' d' e' f' where
    "sha h = [a, b, c, d, e, f]" "tha h = [a', b', c', d', e', f']"
    by (metis list6_cases)
  then show ?thesis
    by (cases h) (simp add: arp_of_def arp_bytes_def bytes16_def bytes32_def load16_def load32_def
        block_def)
qed

section \<open>Building frames\<close>

definition ETHERTYPE_IP :: u16 where
  "ETHERTYPE_IP = 0x0800"

definition ETHERTYPE_ARP :: u16 where
  "ETHERTYPE_ARP = 0x0806"

definition build_ethhdr :: "u8 list \<Rightarrow> u8 list \<Rightarrow> u16 \<Rightarrow> ether_header" where
  "build_ethhdr src dst type =
    \<lparr>ether_dhost = take 6 dst, ether_shost = take 6 src, ether_type = type\<rparr>"

text \<open>
  The IP header both ICMP routines fill in; the local structure is aligned to its 32-bit fields, so
  its address is a multiple of 4.
\<close>

definition icmp_ip_header :: "u32 \<Rightarrow> u32 \<Rightarrow> iphdr" where
  "icmp_ip_header dst src =
    (let ip_hdr = \<lparr>version = 4, ihl = 5, tos = 0, tot_len = htons (20 + 8), ip_id = htons 1,
           frag_off = 0, ttl = 64, protocol = 1, check = 0, saddr = src, daddr = dst\<rparr>
     in ip_hdr\<lparr>check := ip_checksum 0 (iphdr_bytes ip_hdr)\<rparr>)"

text \<open>A local packet; its \<open>interface\<close> field is never read, and is 0 here.\<close>

definition send_icmp ::
  "net_env \<Rightarrow> u32 \<Rightarrow> u32 \<Rightarrow> u8 list \<Rightarrow> u8 list \<Rightarrow> u8 \<Rightarrow> u8 \<Rightarrow> int \<Rightarrow> int \<Rightarrow> int \<Rightarrow> frame res"
where
  "send_icmp env dst src src_mac dst_mac type code interface id_no seq_no =
    (let eth_hdr = build_ethhdr src_mac dst_mac (htons ETHERTYPE_IP);
         ip_hdr = icmp_ip_header dst src;
         icmp_hdr = \<lparr>icmp_type = type, icmp_code = code, checksum = 0, echo_id = of_int id_no,
           echo_sequence = of_int seq_no\<rparr>
     in rbind (icmp_checksum (icmphdr_bytes icmp_hdr) 8) (\<lambda>c.
          let p = ether_bytes eth_hdr @ iphdr_bytes ip_hdr @ icmphdr_bytes (icmp_hdr\<lparr>checksum := c\<rparr>)
          in send_packet env interface
               \<lparr>pkt_len = 14 + 20 + 8, payload = p, pkt_interface = 0\<rparr>))"

text \<open>The fields of \<open>un\<close> are zero here: the initialiser of the source names the others.\<close>

definition send_icmp_error ::
  "net_env \<Rightarrow> u32 \<Rightarrow> u32 \<Rightarrow> u8 list \<Rightarrow> u8 list \<Rightarrow> u8 \<Rightarrow> u8 \<Rightarrow> int \<Rightarrow> frame res"
where
  "send_icmp_error env dst src src_mac dst_mac type code interface =
    (let eth_hdr = build_ethhdr src_mac dst_mac (htons ETHERTYPE_IP);
         ip_hdr = icmp_ip_header dst src;
         icmp_hdr = \<lparr>icmp_type = type, icmp_code = code, checksum = 0, echo_id = 0,
           echo_sequence = 0\<rparr>
     in rbind (icmp_checksum (icmphdr_bytes icmp_hdr) 8) (\<lambda>c.
          let p = ether_bytes eth_hdr @ iphdr_bytes ip_hdr @ icmphdr_bytes (icmp_hdr\<lparr>checksum := c\<rparr>)
          in send_packet env interface
               \<lparr>pkt_len = 14 + 20 + 8, payload = p, pkt_interface = 0\<rparr>))"

definition send_arp :: "net_env \<Rightarrow> u32 \<Rightarrow> u32 \<Rightarrow> ether_header \<Rightarrow> int \<Rightarrow> u16 \<Rightarrow> frame res" where
  "send_arp env dst src eth_hdr interface operation =
    (let arp_hdr = \<lparr>htype = htons 1, ptype = htons 2048, hlen = 6, plen = 4, arp_op = operation,
           sha = ether_shost eth_hdr, spa = src, tha = ether_dhost eth_hdr, tpa = dst\<rparr>;
         p0 = replicate MAX_LEN 0;
         p1 = write_at 0 (ether_bytes eth_hdr) p0;
         p2 = write_at 14 (arp_bytes arp_hdr) p1
     in send_packet env interface \<lparr>pkt_len = 28 + 14, payload = p2, pkt_interface = 0\<rparr>)"

text \<open>The offset the returned pointer has in the buffer, or \<open>None\<close> for \<open>NULL\<close>.\<close>

definition parse_arp :: "u8 list \<Rightarrow> nat option" where
  "parse_arp buffer = (if ntohs (load16 12 buffer) = ETHERTYPE_ARP then Some 14 else None)"

definition parse_icmp :: "u8 list \<Rightarrow> nat option" where
  "parse_icmp buffer =
    (if ntohs (load16 12 buffer) = ETHERTYPE_IP
     then if buffer ! (14 + 9) = 1 then Some (20 + 14) else None
     else None)"

text \<open>The bytes of an ICMP header whose checksum field is filled in verify.\<close>

lemma store16_icmphdr:
  "store16 2 c (icmphdr_bytes h) = icmphdr_bytes (h\<lparr>checksum := c\<rparr>)"
  by (simp add: store16_def write_at_def icmphdr_bytes_def bytes16_def)

lemma store16_iphdr: "store16 10 c (iphdr_bytes h) = iphdr_bytes (h\<lparr>check := c\<rparr>)"
  by (simp add: store16_def write_at_def iphdr_bytes_def bytes16_def numeral_eq_Suc)

lemma iphdr_checksum_verifies:
  assumes "h' = h\<lparr>check := ip_checksum a (iphdr_bytes (h\<lparr>check := 0\<rparr>))\<rparr>"
  shows "ip_checksum a' (iphdr_bytes h') = 0"
  using checksum_stored_verifies [of "iphdr_bytes h" 10 a' a] assms
  by (simp add: store16_iphdr)

lemma icmp_ip_header_verifies: "ip_checksum a (iphdr_bytes (icmp_ip_header dst src)) = 0"
  by (rule iphdr_checksum_verifies [where h = "icmp_ip_header dst src" and a = 0])
    (simp add: icmp_ip_header_def Let_def)

lemma icmp_checksum_header:
  assumes "icmp_type h \<noteq> 0 \<or> icmp_code h \<noteq> 0 \<or> echo_id h \<noteq> 0 \<or> echo_sequence h \<noteq> 0"
    and "checksum h = 0"
  shows "icmp_checksum (icmphdr_bytes h) 8 = Inr (ip_checksum 0 (icmphdr_bytes h))"
proof -
  have "\<exists>b \<in> set (icmphdr_bytes h). b \<noteq> 0"
  proof (rule ccontr)
    assume "\<not> ?thesis"
    then have z: "icmp_type h = 0" "icmp_code h = 0" "lo8 (echo_id h) = 0" "hi8 (echo_id h) = 0"
      "lo8 (echo_sequence h) = 0" "hi8 (echo_sequence h) = 0"
      by (auto simp: icmphdr_bytes_def bytes16_def)
    have "mk16 0 0 = 0"
      by (simp add: mk16_def)
    then have "echo_id h = 0" "echo_sequence h = 0"
      using z mk16_hi8_lo8 [of "echo_id h"] mk16_hi8_lo8 [of "echo_sequence h"] by simp_all
    with z(1,2) assms(1) show False
      by simp
  qed
  then show ?thesis
    using icmp_checksum_even [of 8 "icmphdr_bytes h" 0] by simp
qed

text \<open>The ICMP frame both routines emit.\<close>

lemma icmp_frame:
  assumes "length src_mac = 6" "length dst_mac = 6" "0 \<le> i" "i < 3" "\<And>bs. \<not> write_fails env i bs"
  shows "send_packet env i \<lparr>pkt_len = 14 + 20 + 8,
      payload = ether_bytes (build_ethhdr src_mac dst_mac t) @ iphdr_bytes ip_hdr @ icmphdr_bytes icmp_hdr,
      pkt_interface = 0\<rparr> =
    Inr (i, ether_bytes (build_ethhdr src_mac dst_mac t) @ iphdr_bytes ip_hdr @ icmphdr_bytes icmp_hdr)"
  using assms by (simp add: send_packet_def build_ethhdr_def Let_def)

definition icmp_reply_ok :: "u8 list \<Rightarrow> u8 list \<Rightarrow> u8 list \<Rightarrow> u32 \<Rightarrow> u32 \<Rightarrow> u8 \<Rightarrow> u8 \<Rightarrow> bool" where
  "icmp_reply_ok bs src_mac dst_mac dst src type code \<longleftrightarrow>
    length bs = 42 \<and>
    ether_of bs = \<lparr>ether_dhost = dst_mac, ether_shost = src_mac, ether_type = htons 0x0800\<rparr> \<and>
    (let h = iphdr_of (block 14 20 bs)
     in version h = 4 \<and> ihl h = 5 \<and> tot_len h = htons 28 \<and> ttl h = 64 \<and> protocol h = 1 \<and>
        saddr h = src \<and> daddr h = dst) \<and>
    ip_checksum 2 (block 14 20 bs) = 0 \<and>
    icmp_type (icmphdr_of (block 34 8 bs)) = type \<and> icmp_code (icmphdr_of (block 34 8 bs)) = code \<and>
    ip_checksum 2 (block 34 8 bs) = 0"

lemma icmp_ip_header_fields [simp]:
  "version (icmp_ip_header d s) = 4" "ihl (icmp_ip_header d s) = 5"
  "tot_len (icmp_ip_header d s) = htons 28" "ttl (icmp_ip_header d s) = 64"
  "protocol (icmp_ip_header d s) = 1" "saddr (icmp_ip_header d s) = s"
  "daddr (icmp_ip_header d s) = d"
  by (simp_all add: icmp_ip_header_def Let_def)

lemma block_frame:
  assumes "length e = 14" "length h = 20" "length c = 8"
  shows "block 14 20 (e @ h @ c) = h" and "block 34 8 (e @ h @ c) = c"
  using assms by (simp_all add: block_def)

lemma icmp_reply_okI:
  assumes "length src_mac = 6" "length dst_mac = 6"
    and "icmp_type h \<noteq> 0 \<or> icmp_code h \<noteq> 0 \<or> echo_id h \<noteq> 0 \<or> echo_sequence h \<noteq> 0"
    and "checksum h = 0" and "icmp_checksum (icmphdr_bytes h) 8 = Inr c"
  shows "icmp_reply_ok
    (ether_bytes (build_ethhdr src_mac dst_mac (htons 0x0800)) @ iphdr_bytes (icmp_ip_header dst src) @
      icmphdr_bytes (h\<lparr>checksum := c\<rparr>)) src_mac dst_mac dst src (icmp_type h) (icmp_code h)"
proof -
  let ?e = "build_ethhdr src_mac dst_mac (htons 0x0800)"
  have len: "length (ether_bytes ?e) = 14"
    using assms(1,2) by (simp add: build_ethhdr_def)
  have c: "c = ip_checksum 0 (icmphdr_bytes h)"
    using icmp_checksum_header [OF assms(3,4)] assms(5) by simp
  have h0: "h\<lparr>checksum := 0\<rparr> = h"
    using assms(4) by (cases h) simp
  have ck: "ip_checksum 2 (icmphdr_bytes (h\<lparr>checksum := c\<rparr>)) = 0"
    using checksum_stored_verifies [of "icmphdr_bytes h" 2 2 0]
    by (simp add: store16_icmphdr c h0)
  have ip: "iphdr_of (iphdr_bytes (icmp_ip_header dst src)) = icmp_ip_header dst src"
    using iphdr_of_bytes [of "icmp_ip_header dst src" "[]"] by simp
  have ic: "icmphdr_of (icmphdr_bytes (h\<lparr>checksum := c\<rparr>)) = h\<lparr>checksum := c\<rparr>"
    using icmphdr_of_bytes [of "h\<lparr>checksum := c\<rparr>" "[]"] by simp
  have eth: "ether_of (ether_bytes ?e @ rest) = ?e" for rest
    by (rule ether_of_bytes) (use assms(1,2) in \<open>simp_all add: build_ethhdr_def\<close>)
  show ?thesis
    using assms(1,2)
    by (simp add: icmp_reply_ok_def len block_frame [OF len] eth ip ic ck icmp_ip_header_verifies)
      (simp add: build_ethhdr_def)
qed

end
