(* ===== verification/Fifo_Spec.thy ===== *)
theory Fifo_Spec
  imports Net_Prelude
begin

text \<open>
  What a C queue promises its clients, as a locale: the operations may fail (they run on a heap),
  \<open>repr s xs\<close> says that the concrete state \<open>s\<close> holds the elements \<open>xs\<close>, oldest first, and the laws say
  that on a represented state no operation fails, \<open>enq\<close> appends and \<open>deq\<close> takes the oldest element.
  The consequences for clients (any run of operations returns what a list would, draining a queue
  returns everything in order) are proved once here and inherited by both queues of the repository.
\<close>

datatype 'a fifo_op = Enq 'a | Deq

text \<open>The abstract queue: a list, and the outputs of a run of operations on it.\<close>

fun spec_run :: "'a list \<Rightarrow> 'a fifo_op list \<Rightarrow> ('a option list \<times> 'a list) option" where
  "spec_run xs [] = Some ([], xs)"
| "spec_run xs (Enq x # ops) =
     map_option (\<lambda>(out, ys). (None # out, ys)) (spec_run (xs @ [x]) ops)"
| "spec_run [] (Deq # ops) = None"
| "spec_run (x # xs) (Deq # ops) =
     map_option (\<lambda>(out, ys). (Some x # out, ys)) (spec_run xs ops)"

text \<open>The same run on a concrete queue.\<close>

fun impl_run ::
  "('s \<Rightarrow> 'a \<Rightarrow> 's res) \<Rightarrow> ('s \<Rightarrow> ('a \<times> 's) res) \<Rightarrow> 's \<Rightarrow> 'a fifo_op list \<Rightarrow> ('a option list \<times> 's) res"
where
  "impl_run enq deq s [] = Inr ([], s)"
| "impl_run enq deq s (Enq x # ops) =
     rbind (enq s x) (\<lambda>s'.
     rbind (impl_run enq deq s' ops) (\<lambda>(out, t). Inr (None # out, t)))"
| "impl_run enq deq s (Deq # ops) =
     rbind (deq s) (\<lambda>(x, s').
     rbind (impl_run enq deq s' ops) (\<lambda>(out, t). Inr (Some x # out, t)))"

locale fifo =
  fixes enq :: "'s \<Rightarrow> 'a \<Rightarrow> 's res"
    and deq :: "'s \<Rightarrow> ('a \<times> 's) res"
    and repr :: "'s \<Rightarrow> 'a list \<Rightarrow> bool"
  assumes enq_repr: "repr s xs \<Longrightarrow> \<exists>s'. enq s x = Inr s' \<and> repr s' (xs @ [x])"
    and deq_repr: "repr s (x # xs) \<Longrightarrow> \<exists>s'. deq s = Inr (x, s') \<and> repr s' xs"
    and repr_unique: "repr s xs \<Longrightarrow> repr s ys \<Longrightarrow> xs = ys"
begin

lemma run_refines:
  assumes "repr s xs" and "spec_run xs ops = Some (out, ys)"
  shows "\<exists>t. impl_run enq deq s ops = Inr (out, t) \<and> repr t ys"
  using assms
proof (induction xs ops arbitrary: s out ys rule: spec_run.induct)
  case (2 xs x ops)
  from "2.prems"(2) obtain out' where out: "out = None # out'"
      "spec_run (xs @ [x]) ops = Some (out', ys)"
    by auto
  from enq_repr [OF "2.prems"(1), of x] obtain s' where s': "enq s x = Inr s'" "repr s' (xs @ [x])"
    by blast
  from "2.IH" [OF s'(2) out(2)] show ?case
    by (auto simp: s'(1) out(1))
next
  case (4 x xs ops)
  from "4.prems"(2) obtain out' where out: "out = Some x # out'" "spec_run xs ops = Some (out', ys)"
    by auto
  from deq_repr [OF "4.prems"(1)] obtain s' where s': "deq s = Inr (x, s')" "repr s' xs"
    by blast
  from "4.IH" [OF s'(2) out(2)] show ?case
    by (auto simp: s'(1) out(1))
qed auto

lemma spec_run_fifo:
  "spec_run xs (map Enq ys @ replicate (length (xs @ ys)) Deq) =
    Some (replicate (length ys) None @ map Some (xs @ ys), [])"
proof (induction ys arbitrary: xs)
  case Nil
  show ?case by (induction xs) auto
next
  case (Cons y ys)
  have "length (xs @ y # ys) = length ((xs @ [y]) @ ys)"
    by simp
  then show ?case
    using Cons.IH [of "xs @ [y]"] by simp
qed

lemma fifo_order:
  assumes "repr s []"
  shows "\<exists>t. impl_run enq deq s (map Enq ys @ replicate (length ys) Deq) =
      Inr (replicate (length ys) None @ map Some ys, t) \<and> repr t []"
  using run_refines [OF assms, of "map Enq ys @ replicate (length ys) Deq"]
    spec_run_fifo [of "[]" ys] by simp

end

end
