(* ===== verification/Cell_Store.thy ===== *)
theory Cell_Store
  imports Net_Prelude
begin

text \<open>
  Heap cells of singly linked lists: a store maps addresses to cells, \<open>malloc\<close> returns an address
  that was never used before (so a freed address stays dead and a use of it is detected), a pointer
  is \<open>None\<close> for \<open>NULL\<close>. \<open>chain st p as xs q\<close> says that following \<open>nxt\<close> from \<open>p\<close> visits the cells
  at \<open>as\<close>, with elements \<open>xs\<close>, and ends in the pointer \<open>q\<close>.
\<close>

type_synonym ptr = "nat option"

record 'a cell =
  element :: 'a
  nxt :: ptr

record 'a store =
  cells :: "nat \<Rightarrow> 'a cell option"
  fresh :: nat

definition empty_store :: "'a store" where
  "empty_store = \<lparr>cells = (\<lambda>_. None), fresh = 0\<rparr>"

definition wf_store :: "'a store \<Rightarrow> bool" where
  "wf_store st \<longleftrightarrow> (\<forall>a. fresh st \<le> a \<longrightarrow> cells st a = None)"

definition alloc :: "'a cell \<Rightarrow> 'a store \<Rightarrow> nat \<times> 'a store" where
  "alloc c st = (fresh st, st\<lparr>cells := (cells st)(fresh st := Some c), fresh := Suc (fresh st)\<rparr>)"

definition deref :: "'a store \<Rightarrow> ptr \<Rightarrow> (nat \<times> 'a cell) res" where
  "deref st p = (case p of None \<Rightarrow> Inl Null_Deref
     | Some a \<Rightarrow> (case cells st a of None \<Rightarrow> Inl Dangling_Pointer | Some c \<Rightarrow> Inr (a, c)))"

definition put_cell :: "nat \<Rightarrow> 'a cell \<Rightarrow> 'a store \<Rightarrow> 'a store" where
  "put_cell a c st = st\<lparr>cells := (cells st)(a := Some c)\<rparr>"

definition free_cell :: "nat \<Rightarrow> 'a store \<Rightarrow> 'a store" where
  "free_cell a st = st\<lparr>cells := (cells st)(a := None)\<rparr>"

fun chain :: "'a store \<Rightarrow> ptr \<Rightarrow> nat list \<Rightarrow> 'a list \<Rightarrow> ptr \<Rightarrow> bool" where
  "chain st p [] xs q \<longleftrightarrow> xs = [] \<and> p = q"
| "chain st p (a # as) xs q \<longleftrightarrow>
     p = Some a \<and> (\<exists>c ys. cells st a = Some c \<and> xs = element c # ys \<and> chain st (nxt c) as ys q)"

lemma wf_empty_store [simp]: "wf_store empty_store"
  by (simp add: wf_store_def empty_store_def)

lemma wf_alloc: "wf_store st \<Longrightarrow> alloc c st = (a, st') \<Longrightarrow> wf_store st'"
  by (auto simp: wf_store_def alloc_def)

lemma wf_put_cell: "wf_store st \<Longrightarrow> cells st a = Some c' \<Longrightarrow> wf_store (put_cell a c st)"
  by (fastforce simp: wf_store_def put_cell_def)

lemma wf_free_cell: "wf_store st \<Longrightarrow> wf_store (free_cell a st)"
  by (auto simp: wf_store_def free_cell_def)

lemma chain_length: "chain st p as xs q \<Longrightarrow> length as = length xs"
  by (induction as arbitrary: p xs) auto

lemma chain_allocated: "chain st p as xs q \<Longrightarrow> a \<in> set as \<Longrightarrow> cells st a \<noteq> None"
  by (induction as arbitrary: p xs) auto

lemma chain_append:
  "chain st p (as @ bs) zs q \<longleftrightarrow>
    (\<exists>xs ys r. zs = xs @ ys \<and> chain st p as xs r \<and> chain st r bs ys q)"
proof (induction as arbitrary: p zs)
  case (Cons a as)
  show ?case
    by (auto simp: Cons.IH Cons_eq_append_conv) (metis append_Cons)+
qed auto

lemma chain_update_other:
  "a \<notin> set as \<Longrightarrow> chain (st\<lparr>cells := (cells st)(a := v)\<rparr>) p as xs q = chain st p as xs q"
  by (induction as arbitrary: p xs) auto

lemma chain_fresh_other:
  "chain (st\<lparr>fresh := n\<rparr>) p as xs q = chain st p as xs q"
  by (induction as arbitrary: p xs) auto

lemma chain_alloc:
  assumes "wf_store st" and "chain st p as xs q" and "alloc c st = (a, st')"
  shows "chain st' p as xs q"
proof -
  have "fresh st \<notin> set as"
    using assms(1) chain_allocated [OF assms(2), of "fresh st"] by (auto simp: wf_store_def)
  then show ?thesis
    using assms(2,3) chain_update_other [of "fresh st" as st]
    by (auto simp: alloc_def chain_fresh_other)
qed

lemma chain_unique:
  "chain st p as xs None \<Longrightarrow> chain st p bs ys None \<Longrightarrow> as = bs \<and> xs = ys"
proof (induction as arbitrary: p xs bs ys)
  case Nil
  then show ?case by (cases bs) auto
next
  case (Cons a as)
  then show ?case by (cases bs) auto
qed

lemma chain_distinct: "chain st p as xs None \<Longrightarrow> distinct as"
proof (induction as arbitrary: p xs)
  case (Cons a as)
  from Cons.prems obtain c ys where c: "cells st a = Some c" "chain st (nxt c) as ys None"
    by auto
  have "a \<notin> set as"
  proof
    assume "a \<in> set as"
    then obtain bs cs where as: "as = bs @ a # cs"
      by (auto simp: in_set_conv_decomp)
    from c(2) obtain zs where "chain st (Some a) (a # cs) zs None"
      unfolding as chain_append by auto
    moreover from c have "chain st (Some a) (a # as) (element c # ys) None"
      by simp
    ultimately have "a # cs = a # as"
      using chain_unique by blast
    then show False
      by (simp add: as)
  qed
  with Cons.IH [OF c(2)] show ?case by simp
qed simp

text \<open>Linking a fresh last cell behind the last cell of a chain.\<close>

lemma chain_link_last:
  assumes "chain st p (as @ [a]) xs None" and "cells st b = Some d" and "b \<notin> set (as @ [a])"
    and "nxt d = None" and "cells st a = Some c"
  shows "chain (put_cell a (c\<lparr>nxt := Some b\<rparr>) st) p ((as @ [a]) @ [b]) (xs @ [element d]) None"
proof -
  have dist: "a \<notin> set as"
    using chain_distinct [OF assms(1)] by simp
  from assms(1) obtain ys r where "xs = ys @ [element c]" "chain st p as ys (Some a)"
    using assms(5) by (auto simp: chain_append)
  then have "chain (put_cell a (c\<lparr>nxt := Some b\<rparr>) st) p as ys (Some a)"
    using dist by (simp add: put_cell_def chain_update_other)
  moreover have "cells (put_cell a (c\<lparr>nxt := Some b\<rparr>) st) b = Some d"
    using assms(2,3) by (simp add: put_cell_def)
  ultimately show ?thesis
    using assms(4) \<open>xs = ys @ [element c]\<close>
    by (auto simp: chain_append put_cell_def)
qed

end
