(* ===== verification/Router_Queue.thy ===== *)
theory Router_Queue
  imports Fifo_Spec Cell_Store
begin

text \<open>
  The packet queue of the router, \<open>Teme/Tema1/list.c\<close> and \<open>Teme/Tema1/queue.c\<close>: a linked list with
  a head and a tail pointer. \<open>queue_deq\<close> leaves the tail dangling when it removes the last cell;
  \<open>queue_empty\<close> and \<open>queue_enq\<close> only look at the head, so the invariant constrains the tail of a
  non-empty queue only.
\<close>

definition cons :: "'a \<Rightarrow> ptr \<Rightarrow> 'a store \<Rightarrow> ptr \<times> 'a store" where
  "cons e l st = (let (a, st') = alloc \<lparr>element = e, nxt = l\<rparr> st in (Some a, st'))"

definition cdr_and_free :: "ptr \<Rightarrow> 'a store \<Rightarrow> (ptr \<times> 'a store) res" where
  "cdr_and_free l st = rbind (deref st l) (\<lambda>(a, c). Inr (nxt c, free_cell a st))"

record cqueue =
  head :: ptr
  tail :: ptr

definition queue_create :: "'a store \<Rightarrow> 'a store \<times> cqueue" where
  "queue_create st = (st, \<lparr>head = None, tail = None\<rparr>)"

definition queue_empty :: "cqueue \<Rightarrow> bool" where
  "queue_empty q \<longleftrightarrow> head q = None"

definition queue_enq :: "'a store \<times> cqueue \<Rightarrow> 'a \<Rightarrow> ('a store \<times> cqueue) res" where
  "queue_enq s e =
    (let (st, q) = s; (p, st1) = cons e None st
     in if queue_empty q then Inr (st1, \<lparr>head = p, tail = p\<rparr>)
        else rbind (deref st1 (tail q)) (\<lambda>(a, c).
             let st2 = put_cell a (c\<lparr>nxt := p\<rparr>) st1
             in rbind (deref st2 (tail q)) (\<lambda>(_, c'). Inr (st2, q\<lparr>tail := nxt c'\<rparr>))))"

definition queue_deq :: "'a store \<times> cqueue \<Rightarrow> ('a \<times> ('a store \<times> cqueue)) res" where
  "queue_deq s =
    (let (st, q) = s
     in if queue_empty q then Inl Assert_Failed
        else rbind (deref st (head q)) (\<lambda>(_, c).
             rbind (cdr_and_free (head q) st) (\<lambda>(l, st').
             Inr (element c, (st', q\<lparr>head := l\<rparr>)))))"

definition queue_repr :: "'a store \<times> cqueue \<Rightarrow> 'a list \<Rightarrow> bool" where
  "queue_repr s xs \<longleftrightarrow>
    (\<exists>as. wf_store (fst s) \<and> chain (fst s) (head (snd s)) as xs None \<and>
      (as \<noteq> [] \<longrightarrow> tail (snd s) = Some (last as)))"

lemma queue_create_repr: "wf_store st \<Longrightarrow> queue_repr (queue_create st) []"
  by (auto simp: queue_repr_def queue_create_def intro!: exI [of _ "[]"])

lemma queue_repr_empty_iff: "queue_repr (st, q) xs \<Longrightarrow> queue_empty q \<longleftrightarrow> xs = []"
  by (auto simp: queue_repr_def queue_empty_def neq_Nil_conv elim: chain.elims)

lemma queue_repr_unique: "queue_repr s xs \<Longrightarrow> queue_repr s ys \<Longrightarrow> xs = ys"
  unfolding queue_repr_def using chain_unique by blast

lemma queue_enq_repr:
  assumes "queue_repr s xs"
  shows "\<exists>s'. queue_enq s x = Inr s' \<and> queue_repr s' (xs @ [x])"
proof -
  obtain st q where s: "s = (st, q)"
    by force
  from assms s obtain as where wf: "wf_store st" and ch: "chain st (head q) as xs None"
    and tl: "as \<noteq> [] \<longrightarrow> tail q = Some (last as)"
    by (auto simp: queue_repr_def)
  let ?new = "\<lparr>element = x, nxt = None\<rparr>"
  obtain b st1 where al: "alloc ?new st = (b, st1)"
    by force
  have wf1: "wf_store st1"
    by (rule wf_alloc [OF wf al])
  have ch1: "chain st1 (head q) as xs None"
    by (rule chain_alloc [OF wf ch al])
  have b: "cells st1 b = Some ?new" "b \<notin> set as"
    using al wf chain_allocated [OF ch, of b] by (auto simp: alloc_def wf_store_def)
  show ?thesis
  proof (cases "as = []")
    case True
    with ch have "queue_empty q" and "xs = []"
      by (simp_all add: queue_empty_def)
    then show ?thesis
      using wf1 b by (auto simp: queue_enq_def s cons_def al queue_repr_def intro!: exI [of _ "[b]"])
  next
    case False
    then obtain as' a where as: "as = as' @ [a]"
      by (metis append_butlast_last_id)
    with tl have ta: "tail q = Some a"
      by simp
    from ch1 as obtain c where c: "cells st1 a = Some c"
      using chain_allocated [OF ch1, of a] by auto
    let ?st2 = "put_cell a (c\<lparr>nxt := Some b\<rparr>) st1"
    have ne: "\<not> queue_empty q"
      using ch False by (cases as) (auto simp: queue_empty_def)
    have "queue_enq s x = Inr (?st2, q\<lparr>tail := Some b\<rparr>)"
      using ne c by (simp add: queue_enq_def s cons_def al ta deref_def put_cell_def)
    moreover have "chain ?st2 (head q) (as @ [b]) (xs @ [x]) None"
      using chain_link_last [OF ch1 [unfolded as] b(1) _ _ c] b(2) by (simp add: as)
    then have "queue_repr (?st2, q\<lparr>tail := Some b\<rparr>) (xs @ [x])"
      using wf_put_cell [OF wf1 c] by (auto simp: queue_repr_def intro!: exI [of _ "as @ [b]"])
    ultimately show ?thesis
      by blast
  qed
qed

lemma queue_deq_repr:
  assumes "queue_repr s (x # xs)"
  shows "\<exists>s'. queue_deq s = Inr (x, s') \<and> queue_repr s' xs"
proof -
  obtain st q where s: "s = (st, q)"
    by force
  from assms s obtain as where wf: "wf_store st" and ch: "chain st (head q) as (x # xs) None"
    and tl: "as \<noteq> [] \<longrightarrow> tail q = Some (last as)"
    by (auto simp: queue_repr_def)
  from ch obtain a as' c where as: "as = a # as'" "head q = Some a" "cells st a = Some c"
      "element c = x" "chain st (nxt c) as' xs None"
    by (cases as) auto
  have "a \<notin> set as'"
    using chain_distinct [OF ch] as(1) by simp
  then have "chain (free_cell a st) (nxt c) as' xs None"
    using as(5) by (simp add: free_cell_def chain_update_other)
  then have "queue_repr (free_cell a st, q\<lparr>head := nxt c\<rparr>) xs"
    using tl as(1) wf_free_cell [OF wf, of a]
    by (auto simp: queue_repr_def intro!: exI [of _ as'])
  moreover have "queue_deq s = Inr (x, (free_cell a st, q\<lparr>head := nxt c\<rparr>))"
    using as by (simp add: queue_deq_def s queue_empty_def cdr_and_free_def deref_def)
  ultimately show ?thesis
    by blast
qed

interpretation rq: fifo queue_enq queue_deq queue_repr
  by unfold_locales (fact queue_enq_repr queue_deq_repr queue_repr_unique)+

text \<open>
  C16. On the router's linked queue, every run of \<open>queue_enq\<close> and \<open>queue_deq\<close> (never dequeuing from an
  empty queue) succeeds without touching a null or a freed cell, and returns what the same run on
  a list returns: the pointer structure refines a first-in first-out queue.
\<close>

theorem router_queue_refines_fifo:
  assumes "queue_repr s xs" and "spec_run xs ops = Some (out, ys)"
  shows "\<exists>t. impl_run queue_enq queue_deq s ops = Inr (out, t) \<and> queue_repr t ys"
  using assms by (rule rq.run_refines)

theorem router_queue_refines_fifo_witness:
  "\<exists>t. impl_run queue_enq queue_deq (queue_create empty_store) [Enq 1, Enq (2::nat), Deq, Deq, Enq 3] =
    Inr ([None, None, Some 1, Some 2, None], t) \<and> queue_repr t [3]"
  by (rule router_queue_refines_fifo [OF queue_create_repr]) simp_all

end
