(* ===== verification/Router.thy ===== *)
theory Router
  imports Packets Router_Queue
begin

text \<open>
  The router, \<open>main\<close> of \<open>Teme/Tema1/router.c\<close> with \<open>init\<close> and \<open>get_sock\<close> of \<open>skel.c\<close>. The state is
  what \<open>main\<close> keeps between iterations: the two tables, the queue of packets that wait for an ARP
  reply, and the receive buffer \<open>m\<close> (field \<open>m_buf\<close>), which still holds the bytes of earlier frames behind a shorter
  one. One iteration of the loop is \<open>router_step\<close>; it returns the frames written.

  A queued pointer is \<open>Heap_Pkt p\<close> when it points to a \<open>malloc\<close>ed copy, and \<open>Local_Pkt\<close> when it is the
  address of the variable \<open>firstPacket\<close> of the second loop of the ARP-reply branch, which is dead by
  the time the queue is read again; reading through it is the error \<open>Dangling_Pointer\<close>.
\<close>

datatype queued = Heap_Pkt packet | Local_Pkt

record router =
  rtable :: "route_table_entry list"
  arp_table :: "arp_entry list"
  pq :: "queued store \<times> cqueue"
  m_buf :: packet

section \<open>One iteration of the loop\<close>

text \<open>
  Lines 153 to 155 and 230 to 232, on the bytes of a payload. The buffers are aligned to 4, their
  payload starts at offset 4 and the IP header at offset 14 of the payload, so its address is 2
  modulo 4.
\<close>

definition update_ip :: "u8 list \<Rightarrow> u8 list" where
  "update_ip b =
    (let b1 = b[22 := b ! 22 - 1];
         b2 = store16 24 0 b1
     in store16 24 (ip_checksum 2 (block 14 20 b2)) b2)"

definition ip_hdr :: "u8 list \<Rightarrow> iphdr" where
  "ip_hdr b = iphdr_of (block 14 20 b)"

definition arp_hdr :: "u8 list \<Rightarrow> arp_header" where
  "arp_hdr b = arp_of (block 14 28 b)"

definition handle_arp_request :: "net_env \<Rightarrow> router \<Rightarrow> (router \<times> frame list) res" where
  "handle_arp_request env st =
    (let i = pkt_interface (m_buf st); b = payload (m_buf st)
     in rbind (get_interface_mac env i) (\<lambda>aux.
        let b1 = write_at 0 (block 6 6 b) b;
            b2 = write_at 6 aux b1;
            b3 = store16 12 (htons ETHERTYPE_ARP) b2
        in rbind (get_interface_ip env i) (\<lambda>s.
           rbind (ipToInt s) (\<lambda>n.
           rbind (send_arp env (spa (arp_hdr b3)) (htonl n) (ether_of b3) i (htons 2)) (\<lambda>f.
           Inr (st\<lparr>m_buf := (m_buf st)\<lparr>payload := b3\<rparr>\<rparr>, [f]))))))"

text \<open>
  Lines 145 to 164 for one dequeued packet: \<open>None\<close> when it waits for another next hop, the frame
  sent otherwise.
\<close>

definition flush_packet ::
  "net_env \<Rightarrow> route_table_entry list \<Rightarrow> u32 \<Rightarrow> u8 list \<Rightarrow> queued \<Rightarrow> frame option res" where
  "flush_packet env rt hop hw firstPacket = (case firstPacket of
      Local_Pkt \<Rightarrow> Inl Dangling_Pointer
    | Heap_Pkt p \<Rightarrow>
        rbind (get_best_route rt (daddr (ip_hdr (payload p)))) (\<lambda>r. case r of
          None \<Rightarrow> Inl Null_Deref
        | Some bestRoute \<Rightarrow>
            if rt_next_hop bestRoute \<noteq> hop then Inr None
            else rbind (get_interface_mac env (rt_interface bestRoute)) (\<lambda>own.
                 let b = write_at 6 own (write_at 0 hw (update_ip (payload p)))
                 in rbind (send_packet env (rt_interface bestRoute) (p\<lparr>payload := b\<rparr>)) (\<lambda>f.
                    Inr (Some f)))))"

text \<open>
  The two loops over the queue. Each queue has cells of its own, so it comes with its own store.
  \<open>None\<close> is a loop that does not end.
\<close>

partial_function (option) flush_queue ::
  "net_env \<Rightarrow> route_table_entry list \<Rightarrow> u32 \<Rightarrow> u8 list \<Rightarrow> queued store \<times> cqueue \<Rightarrow>
    queued store \<times> cqueue \<Rightarrow> frame list \<Rightarrow>
    ((queued store \<times> cqueue) \<times> (queued store \<times> cqueue) \<times> frame list) res option" where
  "flush_queue env rt hop hw q q2 out =
    (if queue_empty (snd q) then Some (Inr (q, q2, out))
     else case queue_deq q of Inl e \<Rightarrow> Some (Inl e)
       | Inr (x, q') \<Rightarrow>
           (case flush_packet env rt hop hw x of
              Inl e \<Rightarrow> Some (Inl e)
            | Inr None \<Rightarrow>
                (case queue_enq q2 x of Inl e \<Rightarrow> Some (Inl e)
                 | Inr q2' \<Rightarrow> flush_queue env rt hop hw q' q2' out)
            | Inr (Some f) \<Rightarrow> flush_queue env rt hop hw q' q2 (out @ [f])))"

partial_function (option) requeue ::
  "queued store \<times> cqueue \<Rightarrow> queued store \<times> cqueue \<Rightarrow> (queued store \<times> cqueue) res option" where
  "requeue q q2 =
    (if queue_empty (snd q2) then Some (Inr q)
     else case queue_deq q2 of Inl e \<Rightarrow> Some (Inl e)
       | Inr (x, q2') \<Rightarrow>
           (case x of Local_Pkt \<Rightarrow> Some (Inl Dangling_Pointer)
            | Heap_Pkt firstPacket \<Rightarrow>
                (case queue_enq q Local_Pkt of Inl e \<Rightarrow> Some (Inl e)
                 | Inr q' \<Rightarrow> requeue q' q2')))"

definition handle_arp_reply :: "net_env \<Rightarrow> router \<Rightarrow> (router \<times> frame list) res option" where
  "handle_arp_reply env st =
    (let a = arp_hdr (payload (m_buf st));
         newArp = \<lparr>ip = spa a, mac = sha a\<rparr>
     in if 66000 \<le> length (arp_table st) then Some (Inl Out_Of_Bounds)
        else case flush_queue env (rtable st) (spa a) (sha a) (pq st) (queue_create empty_store) [] of
          None \<Rightarrow> None
        | Some (Inl e) \<Rightarrow> Some (Inl e)
        | Some (Inr (q, q2, out)) \<Rightarrow>
            (case requeue q q2 of
               None \<Rightarrow> None
             | Some (Inl e) \<Rightarrow> Some (Inl e)
             | Some (Inr q') \<Rightarrow>
                 Some (Inr (st\<lparr>arp_table := arp_table st @ [newArp], pq := q'\<rparr>, out))))"

text \<open>The echo test of lines 198 to 208.\<close>

definition echo_for_router :: "net_env \<Rightarrow> packet \<Rightarrow> bool res" where
  "echo_for_router env p =
    (let b = payload p
     in if protocol (ip_hdr b) \<noteq> 1 then Inr False
        else case parse_icmp b of None \<Rightarrow> Inl Null_Deref
          | Some off \<Rightarrow>
              rbind (get_interface_ip env (pkt_interface p)) (\<lambda>s.
              rbind (inet_aton s) (\<lambda>routerIp.
              Inr (icmp_type (icmphdr_of (drop off b)) = 8 \<and> routerIp = daddr (ip_hdr b)))))"

text \<open>Lines 212 to 228: the packet is queued and its destination asked for.\<close>

definition enqueue_and_ask ::
  "net_env \<Rightarrow> router \<Rightarrow> route_table_entry \<Rightarrow> (router \<times> frame list) res" where
  "enqueue_and_ask env st route =
    rbind (queue_enq (pq st) (Heap_Pkt (m_buf st))) (\<lambda>q.
    rbind (get_interface_mac env (rt_interface route)) (\<lambda>aux.
    let b = payload (m_buf st);
        b1 = write_at 6 aux b;
        b2 = write_at 0 (replicate 6 0xff) b1;
        b3 = store16 12 1544 b2
    in rbind (get_interface_ip env (rt_interface route)) (\<lambda>s.
       rbind (inet_aton s) (\<lambda>x.
       rbind (send_arp env (rt_next_hop route) x (ether_of b3) (rt_interface route) (htons 1)) (\<lambda>f.
       Inr (st\<lparr>pq := q, m_buf := (m_buf st)\<lparr>payload := b3\<rparr>\<rparr>, [f]))))))"

text \<open>Lines 230 to 236.\<close>

definition forward :: "net_env \<Rightarrow> router \<Rightarrow> route_table_entry \<Rightarrow> arp_entry \<Rightarrow> (router \<times> frame list) res" where
  "forward env st route arpX =
    (let b = write_at 0 (mac arpX) (update_ip (payload (m_buf st)));
         st' = st\<lparr>m_buf := (m_buf st)\<lparr>payload := b\<rparr>\<rparr>
     in rbind (send_packet env (rt_interface route) (m_buf st')) (\<lambda>f. Inr (st', [f])))"

definition handle_ipv4 :: "net_env \<Rightarrow> router \<Rightarrow> (router \<times> frame list) res" where
  "handle_ipv4 env st =
    rbind (get_best_route (rtable st) (daddr (ip_hdr (payload (m_buf st))))) (\<lambda>route.
      let i = pkt_interface (m_buf st);
          currSum = check (ip_hdr (payload (m_buf st)));
          b = store16 24 0 (payload (m_buf st));
          st = st\<lparr>m_buf := (m_buf st)\<lparr>payload := b\<rparr>\<rparr>;
          h = ip_hdr b;
          eth = ether_of b;
          newSum = ip_checksum 2 (block 14 20 b)
      in if newSum \<noteq> currSum then Inr (st, [])
         else if ttl h \<le> 1 then
           rbind (send_icmp_error env (saddr h) (daddr h) (ether_dhost eth) (ether_shost eth) 11 0 i)
             (\<lambda>f. Inr (st, [f]))
         else case route of
           None \<Rightarrow>
             rbind (send_icmp_error env (saddr h) (daddr h) (ether_dhost eth) (ether_shost eth) 3 0 i)
               (\<lambda>f. Inr (st, [f]))
         | Some route \<Rightarrow>
             rbind (echo_for_router env (m_buf st)) (\<lambda>echo.
               if echo then
                 rbind (send_icmp env (saddr h) (daddr h) (ether_dhost eth) (ether_shost eth) 0 0 i
                    (int (unat (htons (of_int (pid env))))) 0)
                   (\<lambda>f. Inr (st, [f]))
               else case get_arp_entry (arp_table st) (daddr h) of
                 None \<Rightarrow> enqueue_and_ask env st route
               | Some arpX \<Rightarrow> forward env st route arpX))"

text \<open>The iteration after \<open>get_packet\<close> has filled \<open>m\<close>.\<close>

definition router_step :: "net_env \<Rightarrow> router \<Rightarrow> (router \<times> frame list) res option" where
  "router_step env st =
    (let b = payload (m_buf st); type = ether_type (ether_of b)
     in if type = htons ETHERTYPE_ARP then
          (case parse_arp b of None \<Rightarrow> Some (Inl Null_Deref)
           | Some _ \<Rightarrow>
               if arp_op (arp_hdr b) = htons 1 then Some (handle_arp_request env st)
               else handle_arp_reply env st)
        else if type = htons ETHERTYPE_IP then Some (handle_ipv4 env st)
        else Some (Inr (st, [])))"

section \<open>The loop and \<open>main\<close>\<close>

text \<open>
  The loop over a list of results of \<open>select\<close>; it stops where \<open>get_packet\<close> would block, and returns
  all frames sent.
\<close>

lemma get_packet_progress:
  "get_packet sels p = Inr (Some (p', sels')) \<Longrightarrow> length sels' < length sels"
  by (induction sels) (auto simp: rbind_eq_Inr_iff split: option.splits)

function router_run ::
  "net_env \<Rightarrow> router \<Rightarrow> readable list list \<Rightarrow> frame list \<Rightarrow> (router \<times> frame list) res option" where
  "router_run env st sels out =
    (case get_packet sels (m_buf st) of
       Inl e \<Rightarrow> Some (Inl e)
     | Inr None \<Rightarrow> Some (Inr (st, out))
     | Inr (Some (p, sels')) \<Rightarrow>
         (case router_step env (st\<lparr>m_buf := p\<rparr>) of
            None \<Rightarrow> None
          | Some (Inl e) \<Rightarrow> Some (Inl e)
          | Some (Inr (st', out')) \<Rightarrow> router_run env st' sels' (out @ out')))"
  by pat_completeness auto

termination
  by (relation "measure (\<lambda>(env, st, sels, out). length sels)")
    (auto dest: get_packet_progress)

declare router_run.simps [simp del]

text \<open>
  \<open>get_sock\<close>: \<open>open_socket\<close> gives the descriptor, or \<open>None\<close> when \<open>socket\<close>, \<open>ioctl\<close> or \<open>bind\<close> fails;
  the name is copied into a field of 16 characters. \<open>init\<close> stores the descriptors in the array
  \<open>interfaces\<close>, one per argument.
\<close>

definition get_sock :: "(string \<Rightarrow> int option) \<Rightarrow> string \<Rightarrow> int res" where
  "get_sock open_socket if_name =
    (if 16 \<le> length if_name then Inl Out_Of_Bounds
     else case open_socket if_name of None \<Rightarrow> Inl (Exit 1) | Some s \<Rightarrow> Inr s)"

fun init :: "(string \<Rightarrow> int option) \<Rightarrow> int list \<Rightarrow> string list \<Rightarrow> int list res" where
  "init open_socket socks [] = Inr socks"
| "init open_socket socks (a # argv) =
     rbind (get_sock open_socket a) (\<lambda>s.
       if ROUTER_NUM_INTERFACES \<le> int (length socks) then Inl Out_Of_Bounds
       else init open_socket (socks @ [s]) argv)"

text \<open>
  \<open>main\<close>, with the contents of the file of its first argument, the interface names, the initial
  contents of the receive buffer and the results of \<open>select\<close>.
\<close>

definition router_main ::
  "net_env \<Rightarrow> (string \<Rightarrow> int option) \<Rightarrow> string option \<Rightarrow> string list \<Rightarrow> packet \<Rightarrow>
    readable list list \<Rightarrow> (router \<times> frame list) res option" where
  "router_main env open_socket file names m0 sels =
    (case rbind (init open_socket [] names) (\<lambda>_. readRtable file) of
       Inl e \<Rightarrow> Some (Inl e)
     | Inr rt \<Rightarrow>
         router_run env
           \<lparr>rtable = qsort_rtable rt, arp_table = [], pq = queue_create empty_store, m_buf = m0\<rparr> sels [])"

end
