(* ===== verification/Router_Frames.thy ===== *)
theory Router_Frames
  imports Router
begin

text \<open>
  What the router's edits of a frame do to its headers: clearing or storing the IP checksum,
  decrementing the TTL (\<open>update_ip\<close>) and rewriting the Ethernet addresses, and the frames built by
  \<open>send_arp\<close>, \<open>send_icmp\<close> and \<open>send_icmp_error\<close> from them.
\<close>

section \<open>Editing the IP header in place\<close>

lemma store16_in_block:
  assumes "i + 2 \<le> n" and "k + n \<le> length b"
  shows "store16 (k + i) w b = write_at k (store16 i w (block k n b)) b"
  using assms
  by (auto simp: list_eq_iff_nth_eq store16_def nth_write_at nth_block)

lemma update_in_block:
  assumes "i < n" and "k + n \<le> length b"
  shows "b[k + i := w] = write_at k ((block k n b)[i := w]) b"
  using assms
  by (auto simp: list_eq_iff_nth_eq nth_write_at nth_block nth_list_update)

lemma block_write_at_eq: "k + length h \<le> length b \<Longrightarrow> n = length h \<Longrightarrow> block k n (write_at k h b) = h"
  by (rule block_write_at_same)

lemma iphdr_of_store_check:
  "length h = 20 \<Longrightarrow> iphdr_of (store16 10 w h) = (iphdr_of h)\<lparr>check := w\<rparr>"
  unfolding iphdr_of_def
  by (simp add: load16_write_same, simp add: store16_def nth_write_at load16_write_at_other
      load32_write_at_other)

lemma iphdr_of_store_ttl:
  "length h = 20 \<Longrightarrow> iphdr_of (h[8 := x]) = (iphdr_of h)\<lparr>ttl := x\<rparr>"
  unfolding iphdr_of_def by (simp add: load16_def load32_def)

lemma check_at_24:
  assumes "34 \<le> length b"
  shows "store16 24 w b = write_at 14 (store16 10 w (block 14 20 b)) b"
  using store16_in_block [of 10 20 14 b w] assms by simp

lemma ip_hdr_store_check:
  assumes "34 \<le> length b"
  shows "ip_hdr (store16 24 w b) = (ip_hdr b)\<lparr>check := w\<rparr>"
    and "block 14 20 (store16 24 w b) = store16 10 w (block 14 20 b)"
proof -
  show b: "block 14 20 (store16 24 w b) = store16 10 w (block 14 20 b)"
    using assms by (simp add: check_at_24 block_write_at_same)
  show "ip_hdr (store16 24 w b) = (ip_hdr b)\<lparr>check := w\<rparr>"
    using assms by (simp add: ip_hdr_def b iphdr_of_store_check)
qed

lemma ether_of_write_after:
  assumes "14 \<le> i" and "i + length ys \<le> length b"
  shows "ether_of (write_at i ys b) = ether_of b"
  using assms by (simp add: ether_of_def block_write_at_before load16_write_at_other)

lemma ether_of_store16_24 [simp]: "34 \<le> length b \<Longrightarrow> ether_of (store16 24 w b) = ether_of b"
  unfolding store16_def by (rule ether_of_write_after) simp_all

lemma ip_hdr_write_before:
  assumes "i + length ys \<le> 14" and "34 \<le> length b"
  shows "block 14 20 (write_at i ys b) = block 14 20 b" and "ip_hdr (write_at i ys b) = ip_hdr b"
proof -
  show "block 14 20 (write_at i ys b) = block 14 20 b"
    using assms by (simp add: block_write_at_after)
  then show "ip_hdr (write_at i ys b) = ip_hdr b"
    by (simp add: ip_hdr_def)
qed

text \<open>\<open>update_ip\<close> in one block write.\<close>

definition new_ip :: "u8 list \<Rightarrow> u8 list" where
  "new_ip h =
    (let h0 = store16 10 0 (h[8 := h ! 8 - 1]) in store16 10 (ip_checksum 2 h0) h0)"

lemma length_new_ip [simp]: "length h = 20 \<Longrightarrow> length (new_ip h) = 20"
  by (simp add: new_ip_def Let_def)

lemma update_ip_eq:
  assumes "34 \<le> length b"
  shows "update_ip b = write_at 14 (new_ip (block 14 20 b)) b"
proof -
  let ?h = "block 14 20 b" and ?b1 = "b[22 := b ! 22 - 1]"
  have h: "length ?h = 20" "?h ! 8 = b ! 22"
    using assms by (simp_all add: nth_block)
  have b1: "?b1 = write_at 14 (?h[8 := ?h ! 8 - 1]) b"
    using update_in_block [of 8 20 14 b "b ! 22 - 1"] assms h by simp
  have len: "length ?b1 = length b"
    by simp
  have blk: "block 14 20 ?b1 = ?h[8 := ?h ! 8 - 1]"
    using assms h by (simp add: b1 block_write_at_same)
  have s: "store16 24 w ?b1 = write_at 14 (store16 10 w (?h[8 := ?h ! 8 - 1])) b" for w
    using assms h by (subst check_at_24) (simp_all add: blk, simp add: b1 write_at_twice)
  have s2: "store16 24 w (store16 24 v ?b1) =
      write_at 14 (store16 10 w (store16 10 v (?h[8 := ?h ! 8 - 1]))) b" for w v
    using assms h
    by (subst check_at_24) (simp_all add: ip_hdr_store_check blk, simp add: s write_at_twice)
  show ?thesis
    using assms h
    by (simp add: update_ip_def Let_def s2 new_ip_def ip_hdr_store_check blk)
qed

lemma update_ip_props:
  assumes "34 \<le> length b"
  shows "length (update_ip b) = length b"
    and "ip_hdr (update_ip b) = (ip_hdr b)\<lparr>ttl := ttl (ip_hdr b) - 1, check := check (ip_hdr (update_ip b))\<rparr>"
    and "ip_checksum a (block 14 20 (update_ip b)) = 0"
    and "take 14 (update_ip b) = take 14 b"
    and "drop 34 (update_ip b) = drop 34 b"
proof -
  let ?h = "block 14 20 b"
  have h: "length ?h = 20"
    using assms by simp
  show "length (update_ip b) = length b"
    using assms h by (simp add: update_ip_eq)
  have blk: "block 14 20 (update_ip b) = new_ip ?h"
    using assms h by (simp add: update_ip_eq block_write_at_same)
  have "?h ! 8 = ttl (ip_hdr b)"
    by (simp add: ip_hdr_def iphdr_of_def)
  then have hdr: "ip_hdr (update_ip b) = (ip_hdr b)\<lparr>ttl := ttl (ip_hdr b) - 1,
      check := ip_checksum 2 (store16 10 0 (?h[8 := ?h ! 8 - 1]))\<rparr>"
    using h unfolding ip_hdr_def [of "update_ip b"] blk
    by (simp add: new_ip_def Let_def iphdr_of_store_check iphdr_of_store_ttl ip_hdr_def)
  then show "ip_hdr (update_ip b) =
      (ip_hdr b)\<lparr>ttl := ttl (ip_hdr b) - 1, check := check (ip_hdr (update_ip b))\<rparr>"
    by simp
  have twice: "store16 10 w (store16 10 v ys) = store16 10 w ys" if "length ys = 20" for w v ys
    using that by (simp add: store16_def write_at_twice)
  show "ip_checksum a (block 14 20 (update_ip b)) = 0"
    using checksum_stored_verifies [of "?h[8 := ?h ! 8 - 1]" 10 a 2] h
    by (simp add: blk new_ip_def Let_def twice)
  show "take 14 (update_ip b) = take 14 b" and "drop 34 (update_ip b) = drop 34 b"
    using assms h by (simp_all add: update_ip_eq write_at_def)
qed

lemma take_write_at_0: "k = length ys \<Longrightarrow> k \<le> length b \<Longrightarrow> take k (write_at 0 ys b) = ys"
  by (simp add: write_at_def)

lemma drop_write_at_0: "length ys \<le> k \<Longrightarrow> length ys \<le> length b \<Longrightarrow> drop k (write_at 0 ys b) = drop k b"
  by (simp add: write_at_def)

lemma daddr_update_ip: "34 \<le> length b \<Longrightarrow> daddr (ip_hdr (update_ip b)) = daddr (ip_hdr b)"
  using update_ip_props(2) [of b] by (metis iphdr.select_convs(11) iphdr.surjective
      iphdr.update_convs(7) iphdr.update_convs(9))

text \<open>A frame with a new destination address, TTL and checksum.\<close>

lemma edited_frame:
  assumes "34 \<le> length b" and "length hw = 6"
  shows "block 0 6 (write_at 0 hw (update_ip b)) = hw"
    and "block 6 8 (write_at 0 hw (update_ip b)) = block 6 8 b"
    and "drop 34 (write_at 0 hw (update_ip b)) = drop 34 b"
    and "ip_hdr (write_at 0 hw (update_ip b)) =
      (ip_hdr b)\<lparr>ttl := ttl (ip_hdr b) - 1, check := check (ip_hdr (write_at 0 hw (update_ip b)))\<rparr>"
    and "ip_checksum 2 (block 14 20 (write_at 0 hw (update_ip b))) = 0"
proof -
  note u = update_ip_props [OF assms(1)]
  have len: "34 \<le> length (update_ip b)" "0 + length hw \<le> 14"
    using u(1) assms by simp_all
  show "block 0 6 (write_at 0 hw (update_ip b)) = hw"
    using assms(2) len by (simp add: block_write_at_same)
  have "block 6 8 (update_ip b) = block 6 8 (take 14 (update_ip b))"
    by (simp add: block_def drop_take)
  also have "\<dots> = block 6 8 b"
    by (simp add: u(4) block_def drop_take)
  finally show "block 6 8 (write_at 0 hw (update_ip b)) = block 6 8 b"
    using assms(2) len by (simp add: block_write_at_after)
  show "drop 34 (write_at 0 hw (update_ip b)) = drop 34 b"
    using assms(2) len u(5) by (simp add: drop_write_at_0)
  note w = ip_hdr_write_before [OF len(2,1)]
  show "ip_hdr (write_at 0 hw (update_ip b)) =
      (ip_hdr b)\<lparr>ttl := ttl (ip_hdr b) - 1, check := check (ip_hdr (write_at 0 hw (update_ip b)))\<rparr>"
    unfolding w(2) by (rule u(2))
  show "ip_checksum 2 (block 14 20 (write_at 0 hw (update_ip b))) = 0"
    unfolding w(1) by (rule u(3))
qed

section \<open>The emitted frames\<close>

lemma send_icmp_error_ok:
  assumes "length src_mac = 6" "length dst_mac = 6" "0 \<le> i" "i < 3" "\<And>bs. \<not> write_fails env i bs"
    and "type \<noteq> 0 \<or> code \<noteq> 0"
  shows "\<exists>bs. send_icmp_error env dst src src_mac dst_mac type code i = Inr (i, bs) \<and>
    icmp_reply_ok bs src_mac dst_mac dst src type code"
proof -
  define h where "h = \<lparr>icmp_type = type, icmp_code = code, checksum = 0, echo_id = 0, echo_sequence = 0\<rparr>"
  have nz: "icmp_type h \<noteq> 0 \<or> icmp_code h \<noteq> 0 \<or> echo_id h \<noteq> 0 \<or> echo_sequence h \<noteq> 0" "checksum h = 0"
    using assms(6) by (simp_all add: h_def)
  obtain c where c: "icmp_checksum (icmphdr_bytes h) 8 = Inr c"
    using icmp_checksum_header [OF nz] by blast
  have "send_icmp_error env dst src src_mac dst_mac type code i = Inr (i,
      ether_bytes (build_ethhdr src_mac dst_mac (htons 0x0800)) @ iphdr_bytes (icmp_ip_header dst src) @
      icmphdr_bytes (h\<lparr>checksum := c\<rparr>))"
    unfolding send_icmp_error_def h_def [symmetric] Let_def c rbind_Inr ETHERTYPE_IP_def
    by (rule icmp_frame) (use assms in simp_all)
  moreover note icmp_reply_okI [OF assms(1,2) nz c, of dst src]
  ultimately show ?thesis
    by (simp add: h_def)
qed

lemma send_icmp_ok:
  assumes "length src_mac = 6" "length dst_mac = 6" "0 \<le> i" "i < 3" "\<And>bs. \<not> write_fails env i bs"
    and "(of_int id_no :: u16) \<noteq> 0"
  shows "\<exists>bs. send_icmp env dst src src_mac dst_mac type code i id_no seq_no = Inr (i, bs) \<and>
    icmp_reply_ok bs src_mac dst_mac dst src type code \<and>
    echo_id (icmphdr_of (block 34 8 bs)) = of_int id_no \<and>
    echo_sequence (icmphdr_of (block 34 8 bs)) = of_int seq_no"
proof -
  define h where "h = \<lparr>icmp_type = type, icmp_code = code, checksum = 0, echo_id = of_int id_no,
    echo_sequence = of_int seq_no\<rparr>"
  have nz: "icmp_type h \<noteq> 0 \<or> icmp_code h \<noteq> 0 \<or> echo_id h \<noteq> 0 \<or> echo_sequence h \<noteq> 0" "checksum h = 0"
    using assms(6) by (simp_all add: h_def)
  obtain c where c: "icmp_checksum (icmphdr_bytes h) 8 = Inr c"
    using icmp_checksum_header [OF nz] by blast
  have "send_icmp env dst src src_mac dst_mac type code i id_no seq_no = Inr (i,
      ether_bytes (build_ethhdr src_mac dst_mac (htons 0x0800)) @ iphdr_bytes (icmp_ip_header dst src) @
      icmphdr_bytes (h\<lparr>checksum := c\<rparr>))"
    unfolding send_icmp_def h_def [symmetric] Let_def c rbind_Inr ETHERTYPE_IP_def
    by (rule icmp_frame) (use assms in simp_all)
  moreover have "block 34 8 (ether_bytes (build_ethhdr src_mac dst_mac t) @
      iphdr_bytes (icmp_ip_header dst src) @ icmphdr_bytes h') = icmphdr_bytes h'" for t h'
    using assms(1,2) by (intro block_frame) (simp_all add: build_ethhdr_def)
  moreover have "icmphdr_of (icmphdr_bytes h') = h'" for h'
    using icmphdr_of_bytes [of h' "[]"] by simp
  moreover note icmp_reply_okI [OF assms(1,2) nz c, of dst src]
  ultimately show ?thesis
    by (simp add: h_def)
qed

text \<open>An ARP frame: 42 bytes, an Ethernet header and the ARP body for it.\<close>

definition arp_frame_ok :: "u8 list \<Rightarrow> ether_header \<Rightarrow> u32 \<Rightarrow> u32 \<Rightarrow> u16 \<Rightarrow> bool" where
  "arp_frame_ok bs eth dst src operation \<longleftrightarrow>
    length bs = 42 \<and> ether_of bs = eth \<and>
    arp_hdr bs = \<lparr>htype = htons 1, ptype = htons 0x0800, hlen = 6, plen = 4, arp_op = operation,
      sha = ether_shost eth, spa = src, tha = ether_dhost eth, tpa = dst\<rparr>"

lemma send_arp_ok:
  assumes "length (ether_shost eth) = 6" "length (ether_dhost eth) = 6" "0 \<le> i" "i < 3"
    and "\<And>bs. \<not> write_fails env i bs"
  shows "\<exists>bs. send_arp env dst src eth i operation = Inr (i, bs) \<and> arp_frame_ok bs eth dst src operation"
proof -
  define a where "a = \<lparr>htype = htons 1, ptype = htons 2048, hlen = 6, plen = 4, arp_op = operation,
    sha = ether_shost eth, spa = src, tha = ether_dhost eth, tpa = dst\<rparr>"
  let ?bs = "ether_bytes eth @ arp_bytes a"
  have len: "length (ether_bytes eth) = 14" "length (arp_bytes a) = 28"
    using assms(1,2) by (simp_all add: a_def)
  have "take 42 (write_at 14 (arp_bytes a) (write_at 0 (ether_bytes eth) (replicate MAX_LEN 0))) = ?bs"
    using len by (simp add: write_at_def MAX_LEN_def)
  then have "send_arp env dst src eth i operation = Inr (i, ?bs)"
    using assms len
    by (simp add: send_arp_def a_def [symmetric] Let_def send_packet_ok MAX_LEN_def)
  moreover have "arp_frame_ok ?bs eth dst src operation"
  proof -
    have "block 14 28 ?bs = arp_bytes a"
      using len by (simp add: block_def)
    moreover have "arp_of (arp_bytes a) = a"
      using arp_of_bytes [of a "[]"] assms(1,2) by (simp add: a_def)
    ultimately show ?thesis
      using len assms(1,2) by (simp add: arp_frame_ok_def arp_hdr_def ether_of_bytes a_def)
  qed
  ultimately show ?thesis
    by blast
qed

end
