(* ===== verification/Router_Safety.thy ===== *)
theory Router_Safety
  imports Router_Frames
begin

text \<open>
  The invariant of the router's state and what it gives: the loops of the ARP-reply branch end and
  do what a filter of a list does, and an iteration can only fail by reading through the pointer to
  a dead local variable.
\<close>

definition pkt_ok :: "packet \<Rightarrow> bool" where
  "pkt_ok p \<longleftrightarrow> length (payload p) = MAX_LEN \<and> 0 \<le> pkt_len p \<and> pkt_len p \<le> int MAX_LEN \<and>
    0 \<le> pkt_interface p \<and> pkt_interface p < 3"

text \<open>A queued packet has a route: \<open>main\<close> looked it up before queueing, and the table is fixed.\<close>

definition queued_ok :: "route_table_entry list \<Rightarrow> queued \<Rightarrow> bool" where
  "queued_ok rt x = (case x of Local_Pkt \<Rightarrow> True
     | Heap_Pkt p \<Rightarrow> pkt_ok p \<and> get_best_route rt (daddr (ip_hdr (payload p))) \<noteq> Inr None)"

definition rtable_ok :: "route_table_entry list \<Rightarrow> bool" where
  "rtable_ok rt \<longleftrightarrow> (\<forall>e \<in> set rt. 0 \<le> rt_interface e \<and> rt_interface e < 3)"

definition router_ok :: "router \<Rightarrow> bool" where
  "router_ok st \<longleftrightarrow> pkt_ok (m_buf st) \<and> rtable_ok (rtable st) \<and>
    (\<forall>e \<in> set (arp_table st). length (mac e) = 6) \<and>
    (\<exists>xs. queue_repr (pq st) xs \<and> (\<forall>x \<in> set xs. queued_ok (rtable st) x))"

definition net_ok :: "net_env \<Rightarrow> bool" where
  "net_ok env \<longleftrightarrow> env_ok env \<and> (\<forall>i bs. \<not> write_fails env i bs)"

lemma pkt_ok_payload:
  "pkt_ok p \<Longrightarrow> length b = MAX_LEN \<Longrightarrow> pkt_ok (p\<lparr>payload := b\<rparr>)"
  by (simp add: pkt_ok_def)

lemma pkt_ok_length: "pkt_ok p \<Longrightarrow> length (payload p) = 1600"
  by (simp add: pkt_ok_def MAX_LEN_def)

lemma get_mac_ok:
  assumes "env_ok env" "0 \<le> i" "i < 3"
  obtains hw where "get_interface_mac env i = Inr hw" and "length hw = 6"
proof
  show "get_interface_mac env i = Inr (take 6 (ioctl_hwaddr env (interface_name i)))"
    using assms by (simp add: get_interface_mac_def)
  show "length (take 6 (ioctl_hwaddr env (interface_name i))) = 6"
    using assms by (simp add: env_ok_def)
qed

lemma get_ip_ok:
  assumes "0 \<le> i" "i < 3"
  shows "get_interface_ip env i = Inr (inet_ntoa (ioctl_addr env (interface_name i)))"
  using assms by (simp add: get_interface_ip_def)

lemma route_interface:
  assumes "rtable_ok rt" and "get_best_route rt d = Inr (Some r)"
  shows "0 \<le> rt_interface r" and "rt_interface r < 3"
  using assms get_best_route_cases [of rt d] by (auto simp: rtable_ok_def)

lemma get_best_route_total: "\<exists>r. get_best_route rt d = Inr r"
  by (cases rule: get_best_route_cases [of rt d]) auto

section \<open>The loops over the queue\<close>

text \<open>The frame a waiting packet becomes.\<close>

definition flushed :: "net_env \<Rightarrow> route_table_entry \<Rightarrow> u8 list \<Rightarrow> packet \<Rightarrow> frame" where
  "flushed env r hw p =
    (rt_interface r,
     take (nat (pkt_len p))
       (write_at 6 (take 6 (ioctl_hwaddr env (interface_name (rt_interface r))))
         (write_at 0 hw (update_ip (payload p)))))"

lemma flush_packet_ok:
  assumes "net_ok env" and "rtable_ok rt" and "pkt_ok p" and "length hw = 6"
    and "get_best_route rt (daddr (ip_hdr (payload p))) = Inr (Some r)"
  shows "flush_packet env rt hop hw (Heap_Pkt p) =
    Inr (if rt_next_hop r \<noteq> hop then None else Some (flushed env r hw p))"
proof -
  note i = route_interface [OF assms(2,5)]
  have len: "length (update_ip (payload p)) = 1600"
    using assms(3) by (simp add: pkt_ok_length update_ip_props)
  have hw: "length (take 6 (ioctl_hwaddr env n)) = 6" for n
    using assms(1) by (simp add: net_ok_def env_ok_def)
  show ?thesis
    using i len hw assms
    by (simp add: flush_packet_def flushed_def get_interface_mac_def send_packet_ok pkt_ok_def
        MAX_LEN_def net_ok_def)
qed

text \<open>The first loop on lists: the packets kept, and the frames sent.\<close>

fun flush_list ::
  "net_env \<Rightarrow> route_table_entry list \<Rightarrow> u32 \<Rightarrow> u8 list \<Rightarrow> queued list \<Rightarrow> (queued list \<times> frame list) res"
where
  "flush_list env rt hop hw [] = Inr ([], [])"
| "flush_list env rt hop hw (x # xs) =
     rbind (flush_packet env rt hop hw x) (\<lambda>r.
     rbind (flush_list env rt hop hw xs) (\<lambda>(keep, out).
     Inr (case r of None \<Rightarrow> (x # keep, out) | Some f \<Rightarrow> (keep, f # out))))"

lemma queue_repr_not_empty: "queue_repr q (x # xs) \<Longrightarrow> \<not> queue_empty (snd q)"
  by (cases q) (simp add: queue_repr_empty_iff)

lemma queue_repr_Nil: "queue_repr q [] \<Longrightarrow> queue_empty (snd q)"
  by (cases q) (simp add: queue_repr_empty_iff)

lemma flush_queue_list:
  assumes "queue_repr q xs" and "queue_repr q2 ys"
  shows "case flush_list env rt hop hw xs of
      Inl e \<Rightarrow> flush_queue env rt hop hw q q2 out = Some (Inl e)
    | Inr (keep, sent) \<Rightarrow> (\<exists>q' q2'. flush_queue env rt hop hw q q2 out = Some (Inr (q', q2', out @ sent)) \<and>
        queue_repr q' [] \<and> queue_repr q2' (ys @ keep))"
  using assms
proof (induction xs arbitrary: q q2 ys out)
  case Nil
  then show ?case
    by (auto simp: flush_queue.simps queue_repr_Nil)
next
  case (Cons x xs)
  obtain q' where q': "queue_deq q = Inr (x, q')" "queue_repr q' xs"
    using rq.deq_repr [OF Cons.prems(1)] by blast
  have ne: "\<not> queue_empty (snd q)"
    by (rule queue_repr_not_empty [OF Cons.prems(1)])
  show ?case
  proof (cases "flush_packet env rt hop hw x")
    case (Inl e)
    then show ?thesis
      using ne q' by (simp add: flush_queue.simps)
  next
    case (Inr r)
    show ?thesis
    proof (cases r)
      case None
      obtain q2' where q2': "queue_enq q2 x = Inr q2'" "queue_repr q2' (ys @ [x])"
        using rq.enq_repr [OF Cons.prems(2)] by blast
      have "flush_queue env rt hop hw q q2 out = flush_queue env rt hop hw q' q2' out"
        using ne q' q2' Inr None by (simp add: flush_queue.simps)
      then show ?thesis
        using Cons.IH [OF q'(2) q2'(2), of out] Inr None
        by (auto split: sum.splits)
    next
      case (Some f)
      have "flush_queue env rt hop hw q q2 out = flush_queue env rt hop hw q' q2 (out @ [f])"
        using ne q' Inr Some by (simp add: flush_queue.simps)
      then show ?thesis
        using Cons.IH [OF q'(2) Cons.prems(2), of "out @ [f]"] Inr Some
        by (auto split: sum.splits)
    qed
  qed
qed

lemma requeue_list:
  assumes "queue_repr q ys" and "queue_repr q2 (map Heap_Pkt ps)"
  shows "\<exists>q'. requeue q q2 = Some (Inr q') \<and> queue_repr q' (ys @ replicate (length ps) Local_Pkt)"
  using assms
proof (induction ps arbitrary: q q2 ys)
  case Nil
  then show ?case
    by (auto simp: requeue.simps queue_repr_Nil)
next
  case (Cons p ps)
  have repr2: "queue_repr q2 (Heap_Pkt p # map Heap_Pkt ps)"
    using Cons.prems(2) by simp
  obtain q2' where q2': "queue_deq q2 = Inr (Heap_Pkt p, q2')" "queue_repr q2' (map Heap_Pkt ps)"
    using rq.deq_repr [OF repr2] by blast
  obtain q' where q': "queue_enq q Local_Pkt = Inr q'" "queue_repr q' (ys @ [Local_Pkt])"
    using rq.enq_repr [OF Cons.prems(1)] by blast
  have "requeue q q2 = requeue q' q2'"
    using queue_repr_not_empty [OF repr2] q' q2' by (simp add: requeue.simps)
  then show ?case
    using Cons.IH [OF q'(2) q2'(2)] by simp
qed

text \<open>The packets of a list that wait for a next hop.\<close>

definition waits_for :: "route_table_entry list \<Rightarrow> u32 \<Rightarrow> packet \<Rightarrow> bool" where
  "waits_for rt hop p = (case get_best_route rt (daddr (ip_hdr (payload p))) of
      Inr (Some r) \<Rightarrow> rt_next_hop r = hop | _ \<Rightarrow> False)"

definition route_of :: "route_table_entry list \<Rightarrow> packet \<Rightarrow> route_table_entry" where
  "route_of rt p = (case get_best_route rt (daddr (ip_hdr (payload p))) of
      Inr (Some r) \<Rightarrow> r
    | _ \<Rightarrow> \<lparr>rt_prefix = 0, rt_next_hop = 0, rt_mask = 0, rt_interface = 0\<rparr>)"

lemma flush_list_heap:
  assumes "net_ok env" and "rtable_ok rt" and "length hw = 6"
    and "\<forall>p \<in> set ps. queued_ok rt (Heap_Pkt p)"
  shows "flush_list env rt hop hw (map Heap_Pkt ps) =
    Inr (map Heap_Pkt (filter (\<lambda>p. \<not> waits_for rt hop p) ps),
         map (\<lambda>p. flushed env (route_of rt p) hw p) (filter (waits_for rt hop) ps))"
  using assms(4)
proof (induction ps)
  case (Cons p ps)
  obtain r where r: "get_best_route rt (daddr (ip_hdr (payload p))) = Inr (Some r)"
    using Cons.prems get_best_route_total [of rt "daddr (ip_hdr (payload p))"]
    by (auto simp: queued_ok_def)
  have "pkt_ok p"
    using Cons.prems by (simp add: queued_ok_def)
  then have "flush_packet env rt hop hw (Heap_Pkt p) =
      Inr (if rt_next_hop r \<noteq> hop then None else Some (flushed env r hw p))"
    by (intro flush_packet_ok assms r)
  moreover have "waits_for rt hop p \<longleftrightarrow> rt_next_hop r = hop" "route_of rt p = r"
    by (simp_all add: waits_for_def route_of_def r)
  ultimately show ?case
    using Cons by simp
qed simp

lemma flush_list_error:
  assumes "net_ok env" and "rtable_ok rt" and "length hw = 6"
    and "\<forall>x \<in> set xs. queued_ok rt x" and "Local_Pkt \<in> set xs"
  shows "flush_list env rt hop hw xs = Inl Dangling_Pointer"
  using assms(4,5)
proof (induction xs)
  case (Cons x xs)
  show ?case
  proof (cases x)
    case Local_Pkt
    then show ?thesis
      by (simp add: flush_packet_def)
  next
    case (Heap_Pkt p)
    obtain r where r: "get_best_route rt (daddr (ip_hdr (payload p))) = Inr (Some r)"
      using Cons.prems Heap_Pkt get_best_route_total [of rt "daddr (ip_hdr (payload p))"]
      by (auto simp: queued_ok_def)
    have "pkt_ok p"
      using Cons.prems Heap_Pkt by (simp add: queued_ok_def)
    then have "flush_packet env rt hop hw x =
        Inr (if rt_next_hop r \<noteq> hop then None else Some (flushed env r hw p))"
      unfolding Heap_Pkt by (intro flush_packet_ok assms r)
    with Cons Heap_Pkt show ?thesis
      by simp
  qed
qed simp

lemma heap_list:
  assumes "Local_Pkt \<notin> set xs"
  obtains ps where "xs = map Heap_Pkt ps"
proof -
  have "\<exists>ps. xs = map Heap_Pkt ps"
    using assms
  proof (induction xs)
    case (Cons x xs)
    then obtain ps where "xs = map Heap_Pkt ps"
      by auto
    moreover obtain p where "x = Heap_Pkt p"
      using Cons.prems by (cases x) auto
    ultimately show ?case
      by (metis list.simps(9))
  qed simp
  with that show ?thesis
    by blast
qed

section \<open>The ARP-reply branch\<close>

lemma arp_reply_heap:
  assumes "net_ok env" and "rtable_ok (rtable st)" and "length (sha (arp_hdr (payload (m_buf st)))) = 6"
    and "queue_repr (pq st) (map Heap_Pkt ps)" and "\<forall>p \<in> set ps. queued_ok (rtable st) (Heap_Pkt p)"
    and "length (arp_table st) < 66000" and "a = arp_hdr (payload (m_buf st))"
  shows "\<exists>q. handle_arp_reply env st =
      Some (Inr (st\<lparr>arp_table := arp_table st @ [\<lparr>ip = spa a, mac = sha a\<rparr>], pq := q\<rparr>,
        map (\<lambda>p. flushed env (route_of (rtable st) p) (sha a) p)
          (filter (waits_for (rtable st) (spa a)) ps))) \<and>
    queue_repr q (replicate (length (filter (\<lambda>p. \<not> waits_for (rtable st) (spa a) p) ps)) Local_Pkt)"
proof -
  let ?keep = "filter (\<lambda>p. \<not> waits_for (rtable st) (spa a) p) ps"
  have q0: "queue_repr (queue_create empty_store) []"
    by (rule queue_create_repr) simp
  have fl: "flush_list env (rtable st) (spa a) (sha a) (map Heap_Pkt ps) = Inr (map Heap_Pkt ?keep,
      map (\<lambda>p. flushed env (route_of (rtable st) p) (sha a) p) (filter (waits_for (rtable st) (spa a)) ps))"
    by (rule flush_list_heap) (use assms in auto)
  from flush_queue_list [OF assms(4) q0, of env "rtable st" "spa a" "sha a" "[]"]
  obtain q q2 where f: "flush_queue env (rtable st) (spa a) (sha a) (pq st) (queue_create empty_store) [] =
      Some (Inr (q, q2, map (\<lambda>p. flushed env (route_of (rtable st) p) (sha a) p)
        (filter (waits_for (rtable st) (spa a)) ps)))"
    "queue_repr q []" "queue_repr q2 (map Heap_Pkt ?keep)"
    unfolding fl by auto
  obtain q' where "requeue q q2 = Some (Inr q')" "queue_repr q' (replicate (length ?keep) Local_Pkt)"
    using requeue_list [OF f(2,3)] by auto
  then show ?thesis
    using f(1) assms(6,7) by (intro exI [of _ q']) (simp add: handle_arp_reply_def Let_def)
qed

lemma arp_reply_local:
  assumes "net_ok env" and "rtable_ok (rtable st)" and "length (sha (arp_hdr (payload (m_buf st)))) = 6"
    and "queue_repr (pq st) xs" and "\<forall>x \<in> set xs. queued_ok (rtable st) x" and "Local_Pkt \<in> set xs"
    and "length (arp_table st) < 66000"
  shows "handle_arp_reply env st = Some (Inl Dangling_Pointer)"
proof -
  let ?a = "arp_hdr (payload (m_buf st))"
  have q0: "queue_repr (queue_create empty_store) []"
    by (rule queue_create_repr) simp
  have "flush_list env (rtable st) (spa ?a) (sha ?a) xs = Inl Dangling_Pointer"
    by (rule flush_list_error) (use assms in auto)
  with flush_queue_list [OF assms(4) q0, of env "rtable st" "spa ?a" "sha ?a" "[]"]
  have "flush_queue env (rtable st) (spa ?a) (sha ?a) (pq st) (queue_create empty_store) [] =
      Some (Inl Dangling_Pointer)"
    by simp
  then show ?thesis
    using assms(7) by (simp add: handle_arp_reply_def Let_def)
qed

lemma sha_length [simp]: "42 \<le> length b \<Longrightarrow> length (sha (arp_hdr b)) = 6"
  by (simp add: arp_hdr_def arp_of_def)

end
