(* ===== verification/Router_Props.thy ===== *)
theory Router_Props
  imports Router_Safety
begin

text \<open>
  What one iteration of the router does, and what a whole run does. \<open>ipv4_action\<close> is the decision an
  IPv4 router has to make, stated over decoded headers; the theorems say what the code sends and
  keeps for each decision, and that an iteration preserves the invariant.
\<close>

section \<open>The decision for an IPv4 packet\<close>

datatype ipv4_action =
    Discard
  | Time_Exceeded
  | Unreachable
  | Echo_Reply
  | Ask route_table_entry
  | Forward route_table_entry arp_entry

text \<open>The stored checksum is the one of the header with a zero checksum field.\<close>

definition ip_valid :: "u8 list \<Rightarrow> bool" where
  "ip_valid b \<longleftrightarrow> check (ip_hdr b) = ip_checksum 2 (store16 10 0 (block 14 20 b))"

definition is_echo :: "net_env \<Rightarrow> packet \<Rightarrow> bool" where
  "is_echo env p \<longleftrightarrow> protocol (ip_hdr (payload p)) = 1 \<and>
    icmp_type (icmphdr_of (drop 34 (payload p))) = 8 \<and>
    ioctl_addr env (interface_name (pkt_interface p)) = daddr (ip_hdr (payload p))"

definition ipv4_action :: "net_env \<Rightarrow> router \<Rightarrow> ipv4_action" where
  "ipv4_action env st =
    (let b = payload (m_buf st); h = ip_hdr b
     in if \<not> ip_valid b then Discard
        else if ttl h \<le> 1 then Time_Exceeded
        else case get_best_route (rtable st) (daddr h) of
          Inr (Some r) \<Rightarrow>
            if is_echo env (m_buf st) then Echo_Reply
            else (case get_arp_entry (arp_table st) (daddr h) of None \<Rightarrow> Ask r | Some e \<Rightarrow> Forward r e)
        | _ \<Rightarrow> Unreachable)"

text \<open>The state after \<open>main\<close> has cleared the checksum field of its buffer.\<close>

definition cleared :: "router \<Rightarrow> router" where
  "cleared st = st\<lparr>m_buf := (m_buf st)\<lparr>payload := store16 24 0 (payload (m_buf st))\<rparr>\<rparr>"

lemma cleared_simps [simp]:
  "rtable (cleared st) = rtable st" "arp_table (cleared st) = arp_table st" "pq (cleared st) = pq st"
  "pkt_interface (m_buf (cleared st)) = pkt_interface (m_buf st)"
  "pkt_len (m_buf (cleared st)) = pkt_len (m_buf st)"
  "payload (m_buf (cleared st)) = store16 24 0 (payload (m_buf st))"
  by (simp_all add: cleared_def)

lemma is_ip_ntohs: "w = htons ETHERTYPE_IP \<Longrightarrow> ntohs w = ETHERTYPE_IP"
  by simp

lemma ether_type_load: "ether_type (ether_of b) = load16 12 b"
  by (simp add: ether_of_def)

lemma nth_protocol: "34 \<le> length b \<Longrightarrow> b ! 23 = protocol (ip_hdr b)"
  by (simp add: ip_hdr_def iphdr_of_def nth_block)

lemma echo_for_router_eq:
  assumes "pkt_ok p" and "ether_type (ether_of (payload p)) = htons ETHERTYPE_IP"
  shows "echo_for_router env p = Inr (is_echo env p)"
proof (cases "protocol (ip_hdr (payload p)) = 1")
  case True
  have i: "0 \<le> pkt_interface p" "pkt_interface p < 3"
    using assms(1) by (simp_all add: pkt_ok_def)
  have "parse_icmp (payload p) = Some 34"
    using assms True pkt_ok_length [OF assms(1)]
    by (simp add: parse_icmp_def ether_type_load nth_protocol)
  then show ?thesis
    using True by (simp add: echo_for_router_def is_echo_def get_ip_ok [OF i] inet_aton_inet_ntoa Let_def)
next
  case False
  then show ?thesis
    by (simp add: echo_for_router_def is_echo_def Let_def)
qed

lemma drop_store16: "i + 2 \<le> k \<Longrightarrow> k \<le> length b \<Longrightarrow> drop k (store16 i w b) = drop k b"
  by (auto simp: list_eq_iff_nth_eq store16_def nth_write_at)

lemma is_echo_cleared:
  assumes "pkt_ok (m_buf st)"
  shows "is_echo env (m_buf (cleared st)) \<longleftrightarrow> is_echo env (m_buf st)"
  using pkt_ok_length [OF assms]
  by (simp add: is_echo_def ip_hdr_store_check drop_store16)

lemma pkt_ok_cleared: "pkt_ok (m_buf st) \<Longrightarrow> pkt_ok (m_buf (cleared st))"
  by (simp add: cleared_def pkt_ok_def MAX_LEN_def)

lemma handle_ipv4_action:
  assumes "pkt_ok (m_buf st)" and "ether_type (ether_of (payload (m_buf st))) = htons ETHERTYPE_IP"
    and "h = ip_hdr (payload (m_buf st))" and "eth = ether_of (payload (m_buf st))"
    and "i = pkt_interface (m_buf st)"
  shows "handle_ipv4 env st = (case ipv4_action env st of
      Discard \<Rightarrow> Inr (cleared st, [])
    | Time_Exceeded \<Rightarrow>
        rbind (send_icmp_error env (saddr h) (daddr h) (ether_dhost eth) (ether_shost eth) 11 0 i)
          (\<lambda>f. Inr (cleared st, [f]))
    | Unreachable \<Rightarrow>
        rbind (send_icmp_error env (saddr h) (daddr h) (ether_dhost eth) (ether_shost eth) 3 0 i)
          (\<lambda>f. Inr (cleared st, [f]))
    | Echo_Reply \<Rightarrow>
        rbind (send_icmp env (saddr h) (daddr h) (ether_dhost eth) (ether_shost eth) 0 0 i
            (int (unat (htons (of_int (pid env))))) 0)
          (\<lambda>f. Inr (cleared st, [f]))
    | Ask r \<Rightarrow> enqueue_and_ask env (cleared st) r
    | Forward r e \<Rightarrow> forward env (cleared st) r e)"
proof -
  have len: "length (payload (m_buf st)) = 1600"
    by (rule pkt_ok_length [OF assms(1)])
  obtain route where route: "get_best_route (rtable st) (daddr h) = Inr route"
    using get_best_route_total by blast
  have h0: "ip_hdr (store16 24 0 (payload (m_buf st))) = h\<lparr>check := 0\<rparr>"
    using len assms(3) by (simp add: ip_hdr_store_check)
  have echo: "echo_for_router env (m_buf (cleared st)) = Inr (is_echo env (m_buf st))"
    using echo_for_router_eq [OF pkt_ok_cleared [OF assms(1)]] len assms(2) is_echo_cleared [OF assms(1)]
    by simp
  have valid: "ip_valid (payload (m_buf st)) \<longleftrightarrow>
      ip_checksum 2 (block 14 20 (store16 24 0 (payload (m_buf st)))) = check h"
    using len assms(3) by (auto simp: ip_valid_def ip_hdr_store_check)
  have echo': "echo_for_router env ((m_buf st)\<lparr>payload := store16 24 0 (payload (m_buf st))\<rparr>) =
      Inr (is_echo env (m_buf st))"
    using echo by (simp add: cleared_def)
  note folds = assms(3-5) [symmetric]
  show ?thesis
    using len
    by (simp add: handle_ipv4_def route Let_def h0 valid ipv4_action_def cleared_def folds echo'
        split: option.splits)
qed

section \<open>Results of the branches\<close>

lemma forward_result:
  assumes "net_ok env" and "pkt_ok (m_buf st)" and "length (mac e) = 6"
    and "0 \<le> rt_interface r" and "rt_interface r < 3"
    and "b' = write_at 0 (mac e) (update_ip (payload (m_buf st)))"
  shows "forward env st r e =
    Inr (st\<lparr>m_buf := (m_buf st)\<lparr>payload := b'\<rparr>\<rparr>, [(rt_interface r, take (nat (pkt_len (m_buf st))) b')])"
proof -
  have "length b' = 1600"
    using assms(2,3,6) by (simp add: pkt_ok_length update_ip_props)
  then show ?thesis
    using assms by (simp add: forward_def Let_def send_packet_ok pkt_ok_def MAX_LEN_def net_ok_def)
qed

lemma ask_result:
  assumes "net_ok env" and "pkt_ok (m_buf st)" and "queue_repr (pq st) xs"
    and "0 \<le> rt_interface r" and "rt_interface r < 3"
  shows "\<exists>q b' bs. enqueue_and_ask env st r =
      Inr (st\<lparr>pq := q, m_buf := (m_buf st)\<lparr>payload := b'\<rparr>\<rparr>, [(rt_interface r, bs)]) \<and>
    queue_repr q (xs @ [Heap_Pkt (m_buf st)]) \<and> length b' = MAX_LEN \<and>
    arp_frame_ok bs \<lparr>ether_dhost = replicate 6 0xff,
        ether_shost = take 6 (ioctl_hwaddr env (interface_name (rt_interface r))), ether_type = htons 0x0806\<rparr>
      (rt_next_hop r) (ioctl_addr env (interface_name (rt_interface r))) (htons 1)"
proof -
  obtain q where q: "queue_enq (pq st) (Heap_Pkt (m_buf st)) = Inr q"
      "queue_repr q (xs @ [Heap_Pkt (m_buf st)])"
    using rq.enq_repr [OF assms(3)] by blast
  let ?hw = "take 6 (ioctl_hwaddr env (interface_name (rt_interface r)))"
  have env: "env_ok env" "\<And>i bs. \<not> write_fails env i bs"
    using assms(1) by (simp_all add: net_ok_def)
  have hw: "get_interface_mac env (rt_interface r) = Inr ?hw" "length ?hw = 6"
    using assms(4,5) env(1) by (simp_all add: get_interface_mac_def env_ok_def)
  define b' where "b' = store16 12 1544 (write_at 0 (replicate 6 0xff) (write_at 6 ?hw (payload (m_buf st))))"
  have len: "length b' = 1600"
    using assms(2) hw(2) by (simp add: b'_def pkt_ok_length)
  let ?eth = "\<lparr>ether_dhost = replicate 6 0xff, ether_shost = ?hw, ether_type = htons 0x0806\<rparr>"
  have eth: "ether_of b' = ?eth"
    using assms(2) hw(2)
    by (simp add: ether_of_def b'_def pkt_ok_length load16_write_same)
      (simp add: store16_def block_write_at_before block_write_at_after block_write_at_same
        pkt_ok_length htons_ETHERTYPE_ARP)
  obtain bs where bs: "send_arp env (rt_next_hop r) (ioctl_addr env (interface_name (rt_interface r)))
      ?eth (rt_interface r) (htons 1) = Inr (rt_interface r, bs)"
    "arp_frame_ok bs ?eth (rt_next_hop r) (ioctl_addr env (interface_name (rt_interface r))) (htons 1)"
    using send_arp_ok [of ?eth "rt_interface r" env "rt_next_hop r"
        "ioctl_addr env (interface_name (rt_interface r))" "htons 1"] assms(4,5) env hw(2)
    by auto
  have "enqueue_and_ask env st r =
      Inr (st\<lparr>pq := q, m_buf := (m_buf st)\<lparr>payload := b'\<rparr>\<rparr>, [(rt_interface r, bs)])"
    by (simp add: enqueue_and_ask_def q(1) hw(1) get_ip_ok [OF assms(4,5)] inet_aton_inet_ntoa
        b'_def [symmetric] eth bs(1) Let_def)
  with q(2) len bs(2) show ?thesis
    by (intro exI [of _ q] exI [of _ b'] exI [of _ bs]) (simp add: MAX_LEN_def)
qed

lemma request_result:
  assumes "net_ok env" and "pkt_ok (m_buf st)" and "i = pkt_interface (m_buf st)"
    and "b = payload (m_buf st)"
  shows "\<exists>b' bs. handle_arp_request env st =
      Inr (st\<lparr>m_buf := (m_buf st)\<lparr>payload := b'\<rparr>\<rparr>, [(i, bs)]) \<and> length b' = MAX_LEN \<and>
    arp_frame_ok bs \<lparr>ether_dhost = ether_shost (ether_of b),
        ether_shost = take 6 (ioctl_hwaddr env (interface_name i)), ether_type = htons 0x0806\<rparr>
      (spa (arp_hdr b)) (ioctl_addr env (interface_name i)) (htons 2)"
proof -
  have i: "0 \<le> i" "i < 3"
    using assms(2,3) by (simp_all add: pkt_ok_def)
  have len: "length b = 1600"
    using assms(2,4) by (simp add: pkt_ok_length)
  let ?hw = "take 6 (ioctl_hwaddr env (interface_name i))"
  have env: "env_ok env" "\<And>i bs. \<not> write_fails env i bs"
    using assms(1) by (simp_all add: net_ok_def)
  have hw: "get_interface_mac env i = Inr ?hw" "length ?hw = 6"
    using i env(1) by (simp_all add: get_interface_mac_def env_ok_def)
  define b' where "b' = store16 12 (htons ETHERTYPE_ARP) (write_at 6 ?hw (write_at 0 (block 6 6 b) b))"
  have len': "length b' = 1600"
    using len hw(2) by (simp add: b'_def)
  let ?eth = "\<lparr>ether_dhost = ether_shost (ether_of b), ether_shost = ?hw, ether_type = htons 0x0806\<rparr>"
  have eth: "ether_of b' = ?eth"
    using len hw(2)
    by (simp add: ether_of_def b'_def load16_write_same ETHERTYPE_ARP_def)
      (simp add: store16_def block_write_at_before block_write_at_after block_write_at_same)
  have "block 14 28 b' = block 14 28 b"
    using len hw(2) by (simp add: b'_def store16_def block_write_at_after)
  then have spa: "spa (arp_hdr b') = spa (arp_hdr b)"
    by (simp add: arp_hdr_def)
  have "length (ether_shost (ether_of b)) = 6"
    using len by (simp add: ether_of_def)
  then obtain bs where bs: "send_arp env (spa (arp_hdr b)) (ioctl_addr env (interface_name i))
      ?eth i (htons 2) = Inr (i, bs)"
    "arp_frame_ok bs ?eth (spa (arp_hdr b)) (ioctl_addr env (interface_name i)) (htons 2)"
    using send_arp_ok [of ?eth i env "spa (arp_hdr b)" "ioctl_addr env (interface_name i)" "htons 2"]
      i env hw(2)
    by auto
  have "handle_arp_request env st = Inr (st\<lparr>m_buf := (m_buf st)\<lparr>payload := b'\<rparr>\<rparr>, [(i, bs)])"
    unfolding handle_arp_request_def Let_def assms(3,4) [symmetric] hw(1) rbind_Inr b'_def [symmetric]
      get_ip_ok [OF i] ipToInt_inet_ntoa htonl_htonl spa eth bs(1) ..
  with len' bs(2) show ?thesis
    by (intro exI [of _ b'] exI [of _ bs]) (simp add: MAX_LEN_def)
qed

section \<open>The invariant\<close>

lemma router_okE:
  assumes "router_ok st"
  obtains xs where "pkt_ok (m_buf st)" "rtable_ok (rtable st)"
    "\<forall>e \<in> set (arp_table st). length (mac e) = 6"
    "queue_repr (pq st) xs" "\<forall>x \<in> set xs. queued_ok (rtable st) x"
  using assms by (auto simp: router_ok_def)

lemma router_ok_payload:
  assumes "router_ok st" and "length b = MAX_LEN"
  shows "router_ok (st\<lparr>m_buf := (m_buf st)\<lparr>payload := b\<rparr>\<rparr>)"
  using assms by (auto simp: router_ok_def pkt_ok_payload)

lemma router_ok_cleared: "router_ok st \<Longrightarrow> router_ok (cleared st)"
  using pkt_ok_length [of "m_buf st"]
  by (auto simp: cleared_def router_ok_def MAX_LEN_def pkt_ok_def)

lemma macs_of_frame: "14 \<le> length b \<Longrightarrow>
    length (ether_dhost (ether_of b)) = 6 \<and> length (ether_shost (ether_of b)) = 6"
  by (simp add: ether_of_def)

lemma icmp_checksum_total: "\<exists>c. icmp_checksum (icmphdr_bytes h) 8 = Inr c"
proof -
  obtain s where "icmp_sum 0 (icmphdr_bytes h) 8 = Inr s"
    using icmp_sum_spec [of 8 "icmphdr_bytes h" 0] by auto
  then show ?thesis
    by (simp add: icmp_checksum_def Let_def)
qed

lemma send_icmp_frame:
  assumes "net_ok env" "length src_mac = 6" "length dst_mac = 6" "0 \<le> i" "i < 3"
  shows "\<exists>bs. send_icmp env dst src src_mac dst_mac type code i id_no seq_no = Inr (i, bs) \<and> length bs = 42"
proof -
  define h where "h = \<lparr>icmp_type = type, icmp_code = code, checksum = 0, echo_id = of_int id_no,
    echo_sequence = of_int seq_no\<rparr>"
  obtain c where c: "icmp_checksum (icmphdr_bytes h) 8 = Inr c"
    using icmp_checksum_total by blast
  have "send_icmp env dst src src_mac dst_mac type code i id_no seq_no = Inr (i,
      ether_bytes (build_ethhdr src_mac dst_mac (htons 0x0800)) @ iphdr_bytes (icmp_ip_header dst src) @
      icmphdr_bytes (h\<lparr>checksum := c\<rparr>))"
    unfolding send_icmp_def h_def [symmetric] Let_def c rbind_Inr ETHERTYPE_IP_def
    by (rule icmp_frame) (use assms in \<open>simp_all add: net_ok_def\<close>)
  then show ?thesis
    using assms(2,3) by (simp add: build_ethhdr_def)
qed

lemma send_icmp_total:
  assumes "net_ok env" "length src_mac = 6" "length dst_mac = 6" "0 \<le> i" "i < 3"
  shows "\<exists>bs. send_icmp env dst src src_mac dst_mac type code i id_no seq_no = Inr (i, bs)"
  using send_icmp_frame [OF assms] by blast

text \<open>The facts about the received frame that every IPv4 branch uses.\<close>

lemma ipv4_action_cases:
  assumes "router_ok st" and "ipv4_action env st = a"
  shows "a = Forward r e \<Longrightarrow> length (mac e) = 6 \<and> ip e = daddr (ip_hdr (payload (m_buf st)))"
    and "a = Forward r e \<or> a = Ask r \<Longrightarrow> 0 \<le> rt_interface r \<and> rt_interface r < 3 \<and>
      get_best_route (rtable st) (daddr (ip_hdr (payload (m_buf st)))) = Inr (Some r)"
proof -
  obtain xs where ok: "rtable_ok (rtable st)" "\<forall>e \<in> set (arp_table st). length (mac e) = 6"
    using assms(1) by (rule router_okE)
  obtain route where route: "get_best_route (rtable st) (daddr (ip_hdr (payload (m_buf st)))) = Inr route"
    using get_best_route_total by blast
  note action = assms(2) [unfolded ipv4_action_def Let_def route]
  show "length (mac e) = 6 \<and> ip e = daddr (ip_hdr (payload (m_buf st)))" if "a = Forward r e"
    using action that ok(2)
      get_arp_entry_Some [of "arp_table st" "daddr (ip_hdr (payload (m_buf st)))" e]
    by (auto split: if_splits option.splits)
  show "0 \<le> rt_interface r \<and> rt_interface r < 3 \<and>
      get_best_route (rtable st) (daddr (ip_hdr (payload (m_buf st)))) = Inr (Some r)"
    if "a = Forward r e \<or> a = Ask r"
  proof -
    have "route = Some r"
      using action that by (auto split: if_splits option.splits)
    with route ok(1) show ?thesis
      by (auto simp: route_interface)
  qed
qed

lemma router_step_ipv4:
  assumes "ether_type (ether_of (payload (m_buf st))) = htons ETHERTYPE_IP"
  shows "router_step env st = Some (handle_ipv4 env st)"
  using assms by (simp add: router_step_def ETHERTYPE_IP_def ETHERTYPE_ARP_def)

lemma router_step_arp:
  assumes "ether_type (ether_of (payload (m_buf st))) = htons ETHERTYPE_ARP"
  shows "router_step env st =
    (if arp_op (arp_hdr (payload (m_buf st))) = htons 1 then Some (handle_arp_request env st)
     else handle_arp_reply env st)"
  using assms by (simp add: router_step_def parse_arp_def ether_type_load)

section \<open>Properties of an iteration\<close>

text \<open>
  C2. Forwarding. When an IPv4 frame is valid, its TTL exceeds 1, a route matches and the hardware
  address of the destination is known, one frame leaves on the interface of the route: the received
  one with the destination address replaced, the TTL one less, a checksum that verifies, and every
  other byte (source hardware address, type, the rest of the header, the payload) unchanged. The
  tables and the queue do not change.
\<close>

theorem router_forwards:
  assumes "net_ok env" and "router_ok st" and "b = payload (m_buf st)"
    and "ether_type (ether_of b) = htons ETHERTYPE_IP" and "ipv4_action env st = Forward r e"
  shows "\<exists>b'. router_step env st = Some (Inr (st\<lparr>m_buf := (m_buf st)\<lparr>payload := b'\<rparr>\<rparr>,
      [(rt_interface r, take (nat (pkt_len (m_buf st))) b')])) \<and>
    block 0 6 b' = mac e \<and> block 6 8 b' = block 6 8 b \<and>
    ip_hdr b' = (ip_hdr b)\<lparr>ttl := ttl (ip_hdr b) - 1, check := check (ip_hdr b')\<rparr> \<and>
    ip_checksum 2 (block 14 20 b') = 0 \<and> drop 34 b' = drop 34 b"
proof -
  obtain xs where ok: "pkt_ok (m_buf st)"
    using assms(2) by (rule router_okE)
  note len = pkt_ok_length [OF ok, folded assms(3)]
  note case1 = ipv4_action_cases [OF assms(2,5)]
  have e: "length (mac e) = 6" and r: "0 \<le> rt_interface r" "rt_interface r < 3"
    using case1 by auto
  define c where "c = store16 24 0 b"
  define b' where "b' = write_at 0 (mac e) (update_ip c)"
  have lens: "length c = 1600" "length (update_ip c) = 1600"
    using len by (simp_all add: c_def update_ip_props)
  have "router_step env st = Some (forward env (cleared st) r e)"
    using handle_ipv4_action [OF ok assms(4) [unfolded assms(3)] refl refl refl, of env] assms(3,4,5)
    by (simp add: router_step_ipv4)
  also have "forward env (cleared st) r e = Inr (st\<lparr>m_buf := (m_buf st)\<lparr>payload := b'\<rparr>\<rparr>,
      [(rt_interface r, take (nat (pkt_len (m_buf st))) b')])"
    using forward_result [OF assms(1) pkt_ok_cleared [OF ok] e r refl]
    by (simp add: b'_def c_def assms(3) cleared_def)
  finally have step: "router_step env st = Some (Inr (st\<lparr>m_buf := (m_buf st)\<lparr>payload := b'\<rparr>\<rparr>,
      [(rt_interface r, take (nat (pkt_len (m_buf st))) b')]))" .
  have upd: "take 14 (update_ip c) = take 14 b" "drop 34 (update_ip c) = drop 34 b"
    using update_ip_props(4,5) [of c] len lens
    by (simp_all add: c_def drop_store16) (simp add: store16_def write_at_def)
  have "block 6 8 b' = block 6 8 (update_ip c)"
    using lens e by (simp add: b'_def block_write_at_after)
  also have "\<dots> = block 6 8 b"
    using upd(1) by (simp add: block_def take_drop)
  finally have "block 6 8 b' = block 6 8 b" .
  moreover have "block 0 6 b' = mac e"
    using lens e by (simp add: b'_def block_write_at_same)
  moreover have "drop 34 b' = drop 34 b"
    using lens e upd(2) by (simp add: b'_def write_at_def)
  moreover have "ip_hdr b' = (ip_hdr b)\<lparr>ttl := ttl (ip_hdr b) - 1, check := check (ip_hdr b')\<rparr>"
    using update_ip_props(2) [of c] lens len e
    by (simp add: b'_def ip_hdr_write_before) (simp add: c_def ip_hdr_store_check)
  moreover have "ip_checksum 2 (block 14 20 b') = 0"
    using update_ip_props(3) [of c 2] lens e by (simp add: b'_def ip_hdr_write_before)
  ultimately show ?thesis
    using step by blast
qed

section \<open>A concrete router\<close>

text \<open>Two interfaces' networks, 10.0.0.0/24 and 10.0.1.0/24, used by the witnesses.\<close>

definition demo_env :: net_env where
  "demo_env = \<lparr>ioctl_addr = (\<lambda>n. if n = ''rr-0-1'' then 0x0100000A else 0x0101000A),
    ioctl_hwaddr = (\<lambda>n. replicate 14 9), write_fails = (\<lambda>i bs. False), pid = 7\<rparr>"

definition demo_route :: route_table_entry where
  "demo_route = \<lparr>rt_prefix = 0x0001000A, rt_next_hop = 0x0201000A, rt_mask = 0x00FFFFFF, rt_interface = 1\<rparr>"

definition demo_arp :: arp_entry where
  "demo_arp = \<lparr>ip = 0x0201000A, mac = [3, 3, 3, 3, 3, 3]\<rparr>"

definition demo_packet :: "u8 list \<Rightarrow> packet" where
  "demo_packet bs = \<lparr>pkt_len = int (length bs), payload = bs @ replicate (1600 - length bs) 0, pkt_interface = 0\<rparr>"

definition demo_router :: "arp_entry list \<Rightarrow> u8 list \<Rightarrow> router" where
  "demo_router arps bs = \<lparr>rtable = [demo_route], arp_table = arps, pq = queue_create empty_store,
     m_buf = demo_packet bs\<rparr>"

definition udp_frame :: "u8 \<Rightarrow> u16 \<Rightarrow> u8 list" where
  "udp_frame t c = [1, 1, 1, 1, 1, 1, 2, 2, 2, 2, 2, 2, 8, 0, 69, 0, 0, 28, 0, 1, 0, 0, t, 17, hi8 c, lo8 c,
     10, 0, 0, 2, 10, 0, 1, 2, 0, 9, 0, 9, 0, 8, 0, 0]"

lemma demo_net_ok: "net_ok demo_env"
  by (simp add: net_ok_def env_ok_def demo_env_def)

lemma demo_router_ok:
  assumes "length bs \<le> 1600" and "\<forall>e \<in> set arps. length (mac e) = 6"
  shows "router_ok (demo_router arps bs)"
proof -
  have "queue_repr (queue_create empty_store :: queued store \<times> cqueue) []"
    by (rule queue_create_repr) simp
  then show ?thesis
    using assms by (auto simp: router_ok_def demo_router_def pkt_ok_def demo_packet_def rtable_ok_def
        demo_route_def MAX_LEN_def)
qed

lemma demo_blocks:
  assumes "34 \<le> length bs"
  shows "block 14 20 (payload (demo_packet bs)) = block 14 20 bs"
    and "ether_of (payload (demo_packet bs)) = ether_of bs"
    and "ip_hdr (payload (demo_packet bs)) = ip_hdr bs"
    and "ip_valid (payload (demo_packet bs)) = ip_valid bs"
proof -
  show b: "block 14 20 (payload (demo_packet bs)) = block 14 20 bs"
    using assms by (simp add: demo_packet_def block_def)
  show "ether_of (payload (demo_packet bs)) = ether_of bs"
    using assms by (simp add: demo_packet_def ether_of_def block_def load16_def nth_append)
  show h: "ip_hdr (payload (demo_packet bs)) = ip_hdr bs"
    by (simp add: ip_hdr_def b)
  show "ip_valid (payload (demo_packet bs)) = ip_valid bs"
    by (simp add: ip_valid_def h b)
qed

text \<open>The decision on a frame that is no ICMP message, from the frame alone.\<close>

definition udp_action :: "arp_entry list \<Rightarrow> u8 list \<Rightarrow> ipv4_action" where
  "udp_action arps bs =
    (if \<not> ip_valid bs then Discard
     else if ttl (ip_hdr bs) \<le> 1 then Time_Exceeded
     else case get_best_route [demo_route] (daddr (ip_hdr bs)) of
       Inr (Some r) \<Rightarrow>
         (case get_arp_entry arps (daddr (ip_hdr bs)) of None \<Rightarrow> Ask r | Some e \<Rightarrow> Forward r e)
     | _ \<Rightarrow> Unreachable)"

lemma demo_action:
  assumes "34 \<le> length bs" and "protocol (ip_hdr bs) \<noteq> 1"
  shows "ipv4_action demo_env (demo_router arps bs) = udp_action arps bs"
  using assms
  by (simp add: ipv4_action_def demo_router_def Let_def demo_blocks is_echo_def udp_action_def
      split: sum.splits option.splits)

lemma udp_frame_facts [simp]:
  "length (udp_frame t c) = 42" "protocol (ip_hdr (udp_frame t c)) = 17" "ttl (ip_hdr (udp_frame t c)) = t"
  "check (ip_hdr (udp_frame t c)) = htons c" "daddr (ip_hdr (udp_frame t c)) = 0x0201000A"
  "ether_type (ether_of (udp_frame t c)) = htons ETHERTYPE_IP"
  by (simp_all add: udp_frame_def ip_hdr_def block_def iphdr_of_def load16_def load32_def htons_def
      ether_of_def ETHERTYPE_IP_def) (simp_all add: mk32_def hi8_def lo8_def mk16_def)

lemma udp_frame_zero_check:
  "store16 10 0 (block 14 20 (udp_frame t c)) = [69, 0, 0, 28, 0, 1, 0, 0, t, 17, 0, 0, 10, 0, 0, 2, 10, 0, 1, 2]"
  by (simp add: store16_def write_at_def block_def udp_frame_def bytes16_def hi8_def lo8_def)

lemma udp_frame_valid:
  "ip_valid (udp_frame 64 0x65CD)" "ip_valid (udp_frame 1 0xA4CD)" "\<not> ip_valid (udp_frame 64 7)"
  unfolding ip_valid_def udp_frame_zero_check by (simp_all add: ip_checksum_class class16_def)

lemma demo_lookup: "get_best_route [demo_route] 0x0201000A = Inr (Some demo_route)"
  by code_simp

lemma demo_actions:
  "udp_action [demo_arp] (udp_frame 64 0x65CD) = Forward demo_route demo_arp"
  "udp_action [] (udp_frame 64 0x65CD) = Ask demo_route"
  "udp_action [] (udp_frame 1 0xA4CD) = Time_Exceeded"
  "udp_action [] (udp_frame 64 7) = Discard"
  by (simp_all add: udp_action_def udp_frame_valid demo_lookup word_le_nat_alt) (simp add: demo_arp_def)

lemma demo_m_buf [simp]: "m_buf (demo_router arps bs) = demo_packet bs"
  by (simp add: demo_router_def)

theorem router_forwards_witness:
  "let st = demo_router [demo_arp] (udp_frame 64 0x65CD); b = payload (m_buf st) in
    \<exists>b'. router_step demo_env st = Some (Inr (st\<lparr>m_buf := (m_buf st)\<lparr>payload := b'\<rparr>\<rparr>,
      [(rt_interface demo_route, take (nat (pkt_len (m_buf st))) b')])) \<and>
    block 0 6 b' = mac demo_arp \<and> block 6 8 b' = block 6 8 b \<and>
    ip_hdr b' = (ip_hdr b)\<lparr>ttl := ttl (ip_hdr b) - 1, check := check (ip_hdr b')\<rparr> \<and>
    ip_checksum 2 (block 14 20 b') = 0 \<and> drop 34 b' = drop 34 b"
  unfolding Let_def
  by (rule router_forwards [OF demo_net_ok demo_router_ok refl])
    (simp_all add: demo_blocks demo_action demo_actions, simp add: demo_arp_def)

section \<open>The other branches\<close>

text \<open>
  Drop. An IPv4 frame whose stored checksum is not the checksum of its header leaves no trace
  but the cleared checksum field in the receive buffer: nothing is sent, and tables and queue stay.
\<close>

theorem router_drops_corrupted:
  assumes "pkt_ok (m_buf st)" and "b = payload (m_buf st)"
    and "ether_type (ether_of b) = htons ETHERTYPE_IP" and "\<not> ip_valid b"
  shows "router_step env st =
    Some (Inr (st\<lparr>m_buf := (m_buf st)\<lparr>payload := store16 24 0 b\<rparr>\<rparr>, []))"
proof -
  have "ipv4_action env st = Discard"
    using assms(2,4) by (simp add: ipv4_action_def)
  then show ?thesis
    using handle_ipv4_action [OF assms(1) assms(3) [unfolded assms(2)] refl refl refl, of env] assms(2,3)
    by (simp add: router_step_ipv4 cleared_def)
qed

theorem router_drops_corrupted_witness:
  "let st = demo_router [] (udp_frame 64 7); b = payload (m_buf st) in
    router_step demo_env st = Some (Inr (st\<lparr>m_buf := (m_buf st)\<lparr>payload := store16 24 0 b\<rparr>\<rparr>, []))"
  unfolding Let_def
  by (rule router_drops_corrupted [OF _ refl])
    (simp_all add: demo_blocks udp_frame_valid, simp add: pkt_ok_def demo_packet_def MAX_LEN_def)

text \<open>
  ICMP errors. A valid IPv4 frame whose TTL is at most 1 (TTL test first), or without a route, is
  answered on its interface by one well-formed 42-byte ICMP message of type 11 or 3, code 0: IP
  version 4, header length 5, TTL 64, both checksums verify, addressed to the sender with the
  hardware addresses swapped, and with the source address set to the destination of the frame.
\<close>

theorem router_icmp_errors:
  assumes "net_ok env" and "router_ok st" and "b = payload (m_buf st)"
    and "ether_type (ether_of b) = htons ETHERTYPE_IP"
    and "ipv4_action env st = a" and "a = Time_Exceeded \<or> a = Unreachable"
  shows "\<exists>bs. router_step env st =
      Some (Inr (st\<lparr>m_buf := (m_buf st)\<lparr>payload := store16 24 0 b\<rparr>\<rparr>, [(pkt_interface (m_buf st), bs)])) \<and>
    icmp_reply_ok bs (ether_dhost (ether_of b)) (ether_shost (ether_of b))
      (saddr (ip_hdr b)) (daddr (ip_hdr b)) (if a = Time_Exceeded then 11 else 3) 0"
proof -
  obtain xs where ok: "pkt_ok (m_buf st)"
    using assms(2) by (rule router_okE)
  let ?i = "pkt_interface (m_buf st)" and ?type = "if a = Time_Exceeded then 11 else 3 :: u8"
  have macs: "length (ether_dhost (ether_of b)) = 6" "length (ether_shost (ether_of b)) = 6"
    using macs_of_frame [of b] pkt_ok_length [OF ok] assms(3) by simp_all
  have i: "0 \<le> ?i" "?i < 3" and w: "\<And>bs. \<not> write_fails env ?i bs"
    using ok assms(1) by (simp_all add: pkt_ok_def net_ok_def)
  have nz: "?type \<noteq> 0 \<or> (0 :: u8) \<noteq> 0"
    by simp
  obtain bs where bs: "send_icmp_error env (saddr (ip_hdr b)) (daddr (ip_hdr b)) (ether_dhost (ether_of b))
      (ether_shost (ether_of b)) ?type 0 ?i = Inr (?i, bs)"
    "icmp_reply_ok bs (ether_dhost (ether_of b)) (ether_shost (ether_of b))
      (saddr (ip_hdr b)) (daddr (ip_hdr b)) ?type 0"
    using send_icmp_error_ok [OF macs i w nz] by blast
  have "router_step env st = Some (Inr (cleared st, [(?i, bs)]))"
    using handle_ipv4_action [OF ok assms(4) [unfolded assms(3)] refl refl refl, of env] assms(3-6) bs(1)
    by (auto simp: router_step_ipv4)
  with bs(2) show ?thesis
    by (auto simp: cleared_def assms(3))
qed

theorem router_icmp_errors_witness:
  "let st = demo_router [] (udp_frame 1 0xA4CD); b = payload (m_buf st) in
    \<exists>bs. router_step demo_env st =
      Some (Inr (st\<lparr>m_buf := (m_buf st)\<lparr>payload := store16 24 0 b\<rparr>\<rparr>, [(pkt_interface (m_buf st), bs)])) \<and>
    icmp_reply_ok bs (ether_dhost (ether_of b)) (ether_shost (ether_of b))
      (saddr (ip_hdr b)) (daddr (ip_hdr b)) (if Time_Exceeded = Time_Exceeded then 11 else 3) 0"
  unfolding Let_def
  by (rule router_icmp_errors [OF demo_net_ok demo_router_ok refl])
    (simp_all add: demo_blocks demo_action demo_actions)

text \<open>
  Echo. A valid ICMP echo request for the address of the interface it arrived on is answered on
  that interface by a well-formed ICMP message of type 0 (echo reply), code 0, to its sender; the
  sequence number it carries is 0 and the identifier is the router's process id, not those of the
  request. The process id must not be a multiple of 65536.
\<close>

theorem router_echo_reply:
  assumes "net_ok env" and "router_ok st" and "b = payload (m_buf st)"
    and "ether_type (ether_of b) = htons ETHERTYPE_IP"
    and "ipv4_action env st = Echo_Reply" and "pid env mod 65536 \<noteq> 0"
  shows "\<exists>bs. router_step env st =
      Some (Inr (st\<lparr>m_buf := (m_buf st)\<lparr>payload := store16 24 0 b\<rparr>\<rparr>, [(pkt_interface (m_buf st), bs)])) \<and>
    icmp_reply_ok bs (ether_dhost (ether_of b)) (ether_shost (ether_of b))
      (saddr (ip_hdr b)) (daddr (ip_hdr b)) 0 0 \<and>
    echo_id (icmphdr_of (block 34 8 bs)) = htons (of_int (pid env)) \<and>
    echo_sequence (icmphdr_of (block 34 8 bs)) = 0"
proof -
  obtain xs where ok: "pkt_ok (m_buf st)"
    using assms(2) by (rule router_okE)
  let ?i = "pkt_interface (m_buf st)" and ?id = "int (unat (htons (of_int (pid env))))"
  have macs: "length (ether_dhost (ether_of b)) = 6" "length (ether_shost (ether_of b)) = 6"
    using macs_of_frame [of b] pkt_ok_length [OF ok] assms(3) by simp_all
  have i: "0 \<le> ?i" "?i < 3" and w: "\<And>bs. \<not> write_fails env ?i bs"
    using ok assms(1) by (simp_all add: pkt_ok_def net_ok_def)
  have "uint (of_int (pid env) :: u16) = pid env mod 65536"
    by (simp add: uint_word_of_int)
  then have "(of_int (pid env) :: u16) \<noteq> 0"
    using assms(6) by (metis unsigned_0)
  moreover have "htons 0 = 0"
    by code_simp
  ultimately have "htons (of_int (pid env)) \<noteq> 0"
    using htons_eq_iff [of "of_int (pid env)" 0] by metis
  then have id: "(of_int ?id :: u16) \<noteq> 0"
    by simp
  obtain bs where bs: "send_icmp env (saddr (ip_hdr b)) (daddr (ip_hdr b)) (ether_dhost (ether_of b))
      (ether_shost (ether_of b)) 0 0 ?i ?id 0 = Inr (?i, bs)"
    "icmp_reply_ok bs (ether_dhost (ether_of b)) (ether_shost (ether_of b))
      (saddr (ip_hdr b)) (daddr (ip_hdr b)) 0 0"
    "echo_id (icmphdr_of (block 34 8 bs)) = of_int ?id"
    "echo_sequence (icmphdr_of (block 34 8 bs)) = 0"
    using send_icmp_ok [OF macs i w id] by fastforce
  have "router_step env st = Some (Inr (cleared st, [(?i, bs)]))"
    using handle_ipv4_action [OF ok assms(4) [unfolded assms(3)] refl refl refl, of env] assms(3-5) bs(1)
    by (simp add: router_step_ipv4)
  with bs(2-4) show ?thesis
    by (auto simp: cleared_def assms(3))
qed

definition echo_frame :: "u8 list" where
  "echo_frame = [1, 1, 1, 1, 1, 1, 2, 2, 2, 2, 2, 2, 8, 0, 69, 0, 0, 28, 0, 1, 0, 0, 64, 1, 102, 222,
     10, 0, 0, 2, 10, 0, 0, 1, 8, 0, 0, 0, 0, 7, 0, 1]"

definition demo_net :: route_table_entry where
  "demo_net = \<lparr>rt_prefix = 0x0000000A, rt_next_hop = 0, rt_mask = 0x00FFFFFF, rt_interface = 0\<rparr>"

definition echo_router :: router where
  "echo_router = (demo_router [] echo_frame)\<lparr>rtable := [demo_net]\<rparr>"

lemma echo_frame_facts [simp]:
  "length echo_frame = 42" "protocol (ip_hdr echo_frame) = 1" "ttl (ip_hdr echo_frame) = 64"
  "check (ip_hdr echo_frame) = htons 0x66DE" "daddr (ip_hdr echo_frame) = 0x0100000A"
  "ether_type (ether_of echo_frame) = htons ETHERTYPE_IP"
  by (simp_all add: echo_frame_def ip_hdr_def block_def iphdr_of_def load16_def load32_def htons_def
      ether_of_def ETHERTYPE_IP_def) (simp_all add: mk32_def hi8_def lo8_def mk16_def)

lemma echo_frame_valid: "ip_valid echo_frame"
proof -
  have "store16 10 0 (block 14 20 echo_frame) =
      [69, 0, 0, 28, 0, 1, 0, 0, 64, 1, 0, 0, 10, 0, 0, 2, 10, 0, 0, 1]"
    by (simp add: store16_def write_at_def block_def echo_frame_def bytes16_def hi8_def lo8_def)
  then show ?thesis
    by (simp add: ip_valid_def ip_checksum_class class16_def)
qed

lemma echo_router_action: "ipv4_action demo_env echo_router = Echo_Reply"
proof -
  have "get_best_route [demo_net] 0x0100000A = Inr (Some demo_net)"
    by code_simp
  moreover have "is_echo demo_env (demo_packet echo_frame)"
    by (simp add: is_echo_def demo_blocks demo_env_def interface_name_def)
      (simp add: demo_packet_def echo_frame_def icmphdr_of_def)
  ultimately show ?thesis
    by (simp add: ipv4_action_def echo_router_def Let_def demo_blocks echo_frame_valid word_le_nat_alt)
qed

lemma echo_router_ok: "router_ok echo_router"
  using demo_router_ok [of echo_frame "[]"]
  by (auto simp: router_ok_def echo_router_def demo_router_def rtable_ok_def demo_net_def queue_create_def
      queue_repr_def queued_ok_def intro!: exI [of _ "[]"])

theorem router_echo_reply_witness:
  "let b = payload (m_buf echo_router) in
    \<exists>bs. router_step demo_env echo_router =
      Some (Inr (echo_router\<lparr>m_buf := (m_buf echo_router)\<lparr>payload := store16 24 0 b\<rparr>\<rparr>,
        [(pkt_interface (m_buf echo_router), bs)])) \<and>
    icmp_reply_ok bs (ether_dhost (ether_of b)) (ether_shost (ether_of b))
      (saddr (ip_hdr b)) (daddr (ip_hdr b)) 0 0 \<and>
    echo_id (icmphdr_of (block 34 8 bs)) = htons (of_int (pid demo_env)) \<and>
    echo_sequence (icmphdr_of (block 34 8 bs)) = 0"
  unfolding Let_def
  by (rule router_echo_reply [OF demo_net_ok echo_router_ok refl _ echo_router_action])
    (simp_all add: echo_router_def demo_blocks demo_env_def)

text \<open>
  C22. Unknown destination. When only the hardware address is missing, the packet (with its checksum
  field cleared) is appended to the queue and one broadcast ARP request for the next hop of the
  route leaves on the interface of the route, from that interface's addresses. The tables do not
  change.
\<close>

theorem router_queues_and_asks:
  assumes "net_ok env" and "router_ok st" and "b = payload (m_buf st)"
    and "ether_type (ether_of b) = htons ETHERTYPE_IP" and "ipv4_action env st = Ask r"
    and "queue_repr (pq st) xs"
  shows "\<exists>q b' bs. router_step env st =
      Some (Inr (st\<lparr>pq := q, m_buf := (m_buf st)\<lparr>payload := b'\<rparr>\<rparr>, [(rt_interface r, bs)])) \<and>
    queue_repr q (xs @ [Heap_Pkt ((m_buf st)\<lparr>payload := store16 24 0 b\<rparr>)]) \<and>
    arp_frame_ok bs \<lparr>ether_dhost = replicate 6 0xff,
        ether_shost = take 6 (ioctl_hwaddr env (interface_name (rt_interface r))), ether_type = htons 0x0806\<rparr>
      (rt_next_hop r) (ioctl_addr env (interface_name (rt_interface r))) (htons 1)"
proof -
  obtain ys where ok: "pkt_ok (m_buf st)"
    using assms(2) by (rule router_okE)
  have r: "0 \<le> rt_interface r" "rt_interface r < 3"
    using ipv4_action_cases [OF assms(2,5)] by auto
  have "queue_repr (pq (cleared st)) xs"
    using assms(6) by simp
  from ask_result [OF assms(1) pkt_ok_cleared [OF ok] this r]
  obtain q b' bs where "enqueue_and_ask env (cleared st) r =
      Inr ((cleared st)\<lparr>pq := q, m_buf := (m_buf (cleared st))\<lparr>payload := b'\<rparr>\<rparr>, [(rt_interface r, bs)])"
    and q: "queue_repr q (xs @ [Heap_Pkt (m_buf (cleared st))])"
    and bs: "arp_frame_ok bs \<lparr>ether_dhost = replicate 6 0xff,
        ether_shost = take 6 (ioctl_hwaddr env (interface_name (rt_interface r))), ether_type = htons 0x0806\<rparr>
      (rt_next_hop r) (ioctl_addr env (interface_name (rt_interface r))) (htons 1)"
    by blast
  then have "router_step env st =
      Some (Inr (st\<lparr>pq := q, m_buf := (m_buf st)\<lparr>payload := b'\<rparr>\<rparr>, [(rt_interface r, bs)]))"
    using handle_ipv4_action [OF ok assms(4) [unfolded assms(3)] refl refl refl, of env] assms(3-5)
    by (simp add: router_step_ipv4 cleared_def)
  with q bs show ?thesis
    by (intro exI [of _ q] exI [of _ b'] exI [of _ bs]) (simp add: cleared_def assms(3))
qed

theorem router_queues_and_asks_witness:
  "let st = demo_router [] (udp_frame 64 0x65CD); b = payload (m_buf st); r = demo_route in
    \<exists>q b' bs. router_step demo_env st =
      Some (Inr (st\<lparr>pq := q, m_buf := (m_buf st)\<lparr>payload := b'\<rparr>\<rparr>, [(rt_interface r, bs)])) \<and>
    queue_repr q ([] @ [Heap_Pkt ((m_buf st)\<lparr>payload := store16 24 0 b\<rparr>)]) \<and>
    arp_frame_ok bs \<lparr>ether_dhost = replicate 6 0xff,
        ether_shost = take 6 (ioctl_hwaddr demo_env (interface_name (rt_interface r))), ether_type = htons 0x0806\<rparr>
      (rt_next_hop r) (ioctl_addr demo_env (interface_name (rt_interface r))) (htons 1)"
proof -
  have "queue_repr (pq (demo_router [] (udp_frame 64 0x65CD))) []"
    unfolding demo_router_def by simp (rule queue_create_repr, simp)
  from router_queues_and_asks [OF demo_net_ok demo_router_ok refl _ _ this]
  show ?thesis
    unfolding Let_def by (simp add: demo_blocks demo_action demo_actions)
qed

text \<open>
  ARP requests. Every ARP request, whoever it asks for, is answered on the interface it came
  from with the hardware and the IP address of that interface, addressed to the sender.
\<close>

theorem router_answers_arp:
  assumes "net_ok env" and "pkt_ok (m_buf st)" and "i = pkt_interface (m_buf st)"
    and "b = payload (m_buf st)" and "ether_type (ether_of b) = htons ETHERTYPE_ARP"
    and "arp_op (arp_hdr b) = htons 1"
  shows "\<exists>b' bs. router_step env st = Some (Inr (st\<lparr>m_buf := (m_buf st)\<lparr>payload := b'\<rparr>\<rparr>, [(i, bs)])) \<and>
    arp_frame_ok bs \<lparr>ether_dhost = ether_shost (ether_of b),
        ether_shost = take 6 (ioctl_hwaddr env (interface_name i)), ether_type = htons 0x0806\<rparr>
      (spa (arp_hdr b)) (ioctl_addr env (interface_name i)) (htons 2)"
proof -
  from request_result [OF assms(1-4)] obtain b' bs where
    "handle_arp_request env st = Inr (st\<lparr>m_buf := (m_buf st)\<lparr>payload := b'\<rparr>\<rparr>, [(i, bs)])"
    "arp_frame_ok bs \<lparr>ether_dhost = ether_shost (ether_of b),
        ether_shost = take 6 (ioctl_hwaddr env (interface_name i)), ether_type = htons 0x0806\<rparr>
      (spa (arp_hdr b)) (ioctl_addr env (interface_name i)) (htons 2)"
    by blast
  with assms(4-6) show ?thesis
    by (intro exI [of _ b'] exI [of _ bs]) (simp add: router_step_arp)
qed

definition arp_frame :: "u16 \<Rightarrow> u8 \<Rightarrow> u8 list" where
  "arp_frame operation host = [255, 255, 255, 255, 255, 255, 2, 2, 2, 2, 2, 2, 8, 6, 0, 1, 8, 0, 6, 4,
     hi8 operation, lo8 operation, 2, 2, 2, 2, 2, 2, 10, 0, 1, host, 0, 0, 0, 0, 0, 0, 10, 0, 1, 1]"

lemma arp_frame_facts [simp]:
  "length (arp_frame p c) = 42" "ether_type (ether_of (arp_frame p c)) = htons ETHERTYPE_ARP"
  "arp_op (arp_hdr (arp_frame p c)) = htons p" "spa (arp_hdr (arp_frame p c)) = mk32 c 1 0 10"
  by (simp_all add: arp_frame_def ether_of_def arp_hdr_def arp_of_def block_def load16_def load32_def htons_def
      ETHERTYPE_ARP_def) (simp_all add: hi8_def lo8_def mk16_def)

lemma demo_arp_hdr: "42 \<le> length bs \<Longrightarrow> arp_hdr (payload (demo_packet bs)) = arp_hdr bs"
  by (simp add: arp_hdr_def demo_packet_def block_def)

lemma demo_packet_ok: "length bs \<le> 1600 \<Longrightarrow> pkt_ok (demo_packet bs)"
  by (simp add: pkt_ok_def demo_packet_def MAX_LEN_def)

theorem router_answers_arp_witness:
  "let st = demo_router [] (arp_frame 1 2); b = payload (m_buf st) in
    \<exists>b' bs. router_step demo_env st = Some (Inr (st\<lparr>m_buf := (m_buf st)\<lparr>payload := b'\<rparr>\<rparr>, [(0, bs)])) \<and>
    arp_frame_ok bs \<lparr>ether_dhost = ether_shost (ether_of b),
        ether_shost = take 6 (ioctl_hwaddr demo_env (interface_name 0)), ether_type = htons 0x0806\<rparr>
      (spa (arp_hdr b)) (ioctl_addr demo_env (interface_name 0)) (htons 2)"
  unfolding Let_def
  by (rule router_answers_arp [OF demo_net_ok _ _ refl])
    (simp_all add: demo_blocks demo_arp_hdr demo_packet_ok, simp add: demo_packet_def)

section \<open>ARP replies\<close>

text \<open>
  C10. Flushing. On an ARP reply, when all queued pointers are valid, the sender is appended to the
  ARP table and the queue is emptied in one pass that ends: every packet whose route has the sender
  as next hop leaves, in queue order, on the interface of its route; each of the other packets is
  replaced in the queue by a pointer to a dead variable.
\<close>

theorem router_flushes_on_reply:
  assumes "net_ok env" and "router_ok st" and "b = payload (m_buf st)"
    and "ether_type (ether_of b) = htons ETHERTYPE_ARP" and "arp_op (arp_hdr b) \<noteq> htons 1"
    and "queue_repr (pq st) (map Heap_Pkt ps)" and "length (arp_table st) < 66000"
    and "hop = spa (arp_hdr b)" and "hw = sha (arp_hdr b)" and "rt = rtable st"
  shows "\<exists>q. router_step env st =
      Some (Inr (st\<lparr>arp_table := arp_table st @ [\<lparr>ip = hop, mac = hw\<rparr>], pq := q\<rparr>,
        map (\<lambda>p. flushed env (route_of rt p) hw p) (filter (waits_for rt hop) ps))) \<and>
    queue_repr q (replicate (length (filter (\<lambda>p. \<not> waits_for rt hop p) ps)) Local_Pkt)"
proof -
  obtain xs where ok: "pkt_ok (m_buf st)" "rtable_ok (rtable st)" "queue_repr (pq st) xs"
    "\<forall>x \<in> set xs. queued_ok (rtable st) x"
    using assms(2) by (rule router_okE)
  have "xs = map Heap_Pkt ps"
    by (rule queue_repr_unique [OF ok(3) assms(6)])
  with ok(4) have q: "\<forall>p \<in> set ps. queued_ok (rtable st) (Heap_Pkt p)"
    by simp
  have sha: "length (sha (arp_hdr (payload (m_buf st)))) = 6"
    using pkt_ok_length [OF ok(1)] by simp
  have "router_step env st = handle_arp_reply env st"
    using assms(3-5) by (simp add: router_step_arp)
  with arp_reply_heap [OF assms(1) ok(2) sha assms(6) q assms(7) refl] show ?thesis
    by (simp add: assms(3,8-10))
qed

definition demo_queue :: "queued list \<Rightarrow> queued store \<times> cqueue" where
  "demo_queue xs = foldl (\<lambda>q x. case queue_enq q x of Inr q' \<Rightarrow> q' | Inl _ \<Rightarrow> q) (queue_create empty_store) xs"

lemma demo_queue_repr: "queue_repr (demo_queue xs) xs"
proof (induction xs rule: rev_induct)
  case Nil
  show ?case
    unfolding demo_queue_def by simp (rule queue_create_repr, simp)
next
  case (snoc x xs)
  from rq.enq_repr [OF snoc, of x] show ?case
    by (auto simp: demo_queue_def)
qed

definition waiting :: packet where
  "waiting = demo_packet (udp_frame 64 0)"

definition reply_router :: "u8 \<Rightarrow> router" where
  "reply_router host = (demo_router [] (arp_frame 2 host))\<lparr>pq := demo_queue (map Heap_Pkt [waiting])\<rparr>"

lemma waiting_ok: "queued_ok [demo_route] (Heap_Pkt waiting)"
  by (simp add: queued_ok_def waiting_def demo_packet_ok demo_blocks demo_lookup)

lemma waiting_for: "waits_for [demo_route] hop waiting \<longleftrightarrow> hop = 0x0201000A"
proof -
  have "rt_next_hop demo_route = 0x0201000A"
    by (simp add: demo_route_def)
  then show ?thesis
    by (auto simp: waits_for_def waiting_def demo_blocks demo_lookup)
qed

lemma reply_router_simps [simp]:
  "m_buf (reply_router h) = demo_packet (arp_frame 2 h)" "rtable (reply_router h) = [demo_route]"
  "arp_table (reply_router h) = []" "pq (reply_router h) = demo_queue [Heap_Pkt waiting]"
  by (simp_all add: reply_router_def demo_router_def)

lemma reply_router_ok: "router_ok (reply_router h)"
proof -
  have "queue_repr (demo_queue [Heap_Pkt waiting]) [Heap_Pkt waiting]"
    by (rule demo_queue_repr)
  then show ?thesis
    using waiting_ok
    by (auto simp: router_ok_def demo_packet_ok rtable_ok_def demo_route_def
        intro!: exI [of _ "[Heap_Pkt waiting]"])
qed

lemma htons_2_1: "htons 2 \<noteq> htons 1"
  by simp

theorem router_flushes_on_reply_witness:
  "let st = reply_router 2; b = payload (m_buf st); hop = spa (arp_hdr b); hw = sha (arp_hdr b); rt = rtable st in
    \<exists>q. router_step demo_env st =
      Some (Inr (st\<lparr>arp_table := arp_table st @ [\<lparr>ip = hop, mac = hw\<rparr>], pq := q\<rparr>,
        map (\<lambda>p. flushed demo_env (route_of rt p) hw p) (filter (waits_for rt hop) [waiting]))) \<and>
    queue_repr q (replicate (length (filter (\<lambda>p. \<not> waits_for rt hop p) [waiting])) Local_Pkt)"
  unfolding Let_def
  by (rule router_flushes_on_reply [OF demo_net_ok reply_router_ok refl _ _ _ _ refl refl refl])
    (simp_all add: demo_blocks demo_arp_hdr demo_queue_repr)

text \<open>
  A packet sent from the queue: destination and source hardware addresses are those of the next
  hop and of the outgoing interface, the TTL is one less, the checksum verifies, and the rest of the
  packet (34 bytes or more long) is the queued one.
\<close>

theorem flushed_frame:
  assumes "net_ok env" and "pkt_ok p" and "length hw = 6" and "34 \<le> pkt_len p"
    and "b = payload p" and "bs = snd (flushed env r hw p)"
  shows "length bs = nat (pkt_len p) \<and> block 0 6 bs = hw \<and>
    block 6 6 bs = take 6 (ioctl_hwaddr env (interface_name (rt_interface r))) \<and>
    block 12 2 bs = block 12 2 b \<and>
    ip_hdr bs = (ip_hdr b)\<lparr>ttl := ttl (ip_hdr b) - 1, check := check (ip_hdr bs)\<rparr> \<and>
    ip_checksum 2 (block 14 20 bs) = 0 \<and> drop 34 bs = take (nat (pkt_len p) - 34) (drop 34 b)"
proof -
  let ?own = "take 6 (ioctl_hwaddr env (interface_name (rt_interface r)))" and ?n = "nat (pkt_len p)"
  let ?u = "update_ip b"
  define f where "f = write_at 6 ?own (write_at 0 hw ?u)"
  have len: "length b = 1600" "34 \<le> ?n" "?n \<le> 1600"
    using assms(2,4,5) by (auto simp: pkt_ok_def MAX_LEN_def)
  have own: "length ?own = 6"
    using assms(1) by (simp add: net_ok_def env_ok_def)
  have u: "length ?u = 1600"
    using len by (simp add: update_ip_props)
  have f: "length f = 1600"
    using u own assms(3) by (simp add: f_def)
  have bs: "bs = take ?n f"
    using assms(5,6) by (simp add: flushed_def f_def)
  have pre: "block i k bs = block i k f" if "i + k \<le> 34" for i k
    using that len(2) by (simp add: bs block_def drop_take min_def)
  have "block 12 2 f = block 12 2 ?u" "block 14 20 f = block 14 20 ?u" "drop 34 f = drop 34 ?u"
    using own assms(3) u by (simp_all add: f_def block_write_at_after) (simp add: write_at_def)
  moreover have "block 12 2 ?u = block 12 2 b"
    using update_ip_props(4) [of b] len by (simp add: block_def take_drop)
  moreover have "block 0 6 f = hw" "block 6 6 f = ?own"
    using own assms(3) u by (simp_all add: f_def block_write_at_before block_write_at_same)
  moreover have "ip_hdr bs = ip_hdr ?u"
    using pre [of 14 20] \<open>block 14 20 f = block 14 20 ?u\<close> by (simp add: ip_hdr_def)
  ultimately show ?thesis
    using len f pre update_ip_props(1,2,5) [of b] update_ip_props(3) [of b 2] by (simp add: bs drop_take)
qed

theorem flushed_frame_witness:
  "let b = payload waiting; bs = snd (flushed demo_env demo_route [4, 4, 4, 4, 4, 4] waiting) in
    length bs = nat (pkt_len waiting) \<and> block 0 6 bs = [4, 4, 4, 4, 4, 4] \<and>
    block 6 6 bs = take 6 (ioctl_hwaddr demo_env (interface_name (rt_interface demo_route))) \<and>
    block 12 2 bs = block 12 2 b \<and>
    ip_hdr bs = (ip_hdr b)\<lparr>ttl := ttl (ip_hdr b) - 1, check := check (ip_hdr bs)\<rparr> \<and>
    ip_checksum 2 (block 14 20 bs) = 0 \<and> drop 34 bs = take (nat (pkt_len waiting) - 34) (drop 34 b)"
  unfolding Let_def
  by (rule flushed_frame [OF demo_net_ok _ _ _ refl refl])
    (simp_all add: waiting_def demo_packet_ok, simp add: demo_packet_def)

text \<open>
  C34. The dangling pointer. If an ARP reply finds a queued packet that waits for another next hop,
  the iteration stores the address of a local variable in the queue, and if the next frame is an ARP
  reply too, whatever it says, the router reads through that dead address.
\<close>

theorem router_requeue_dangles:
  assumes "net_ok env" and "router_ok st" and "b = payload (m_buf st)"
    and "ether_type (ether_of b) = htons ETHERTYPE_ARP" and "arp_op (arp_hdr b) \<noteq> htons 1"
    and "queue_repr (pq st) (map Heap_Pkt ps)" and "length (arp_table st) + 1 < 66000"
    and "p \<in> set ps" and "\<not> waits_for (rtable st) (spa (arp_hdr b)) p"
    and "pkt_ok m2" and "ether_type (ether_of (payload m2)) = htons ETHERTYPE_ARP"
    and "arp_op (arp_hdr (payload m2)) \<noteq> htons 1"
  shows "\<exists>st' out. router_step env st = Some (Inr (st', out)) \<and>
    router_step env (st'\<lparr>m_buf := m2\<rparr>) = Some (Inl Dangling_Pointer)"
proof -
  obtain xs where ok: "pkt_ok (m_buf st)" "rtable_ok (rtable st)" "queue_repr (pq st) xs"
    "\<forall>x \<in> set xs. queued_ok (rtable st) x"
    using assms(2) by (rule router_okE)
  have "xs = map Heap_Pkt ps"
    by (rule queue_repr_unique [OF ok(3) assms(6)])
  with ok(4) have q: "\<forall>p \<in> set ps. queued_ok (rtable st) (Heap_Pkt p)"
    by simp
  have sha: "length (sha (arp_hdr b)) = 6"
    using pkt_ok_length [OF ok(1)] assms(3) by simp
  let ?keep = "filter (\<lambda>p. \<not> waits_for (rtable st) (spa (arp_hdr b)) p) ps"
  have "length (arp_table st) < 66000"
    using assms(7) by simp
  from arp_reply_heap [OF assms(1) ok(2) sha [unfolded assms(3)] assms(6) q this refl]
  obtain q' out where step: "handle_arp_reply env st =
      Some (Inr (st\<lparr>arp_table := arp_table st @ [\<lparr>ip = spa (arp_hdr b), mac = sha (arp_hdr b)\<rparr>], pq := q'\<rparr>, out))"
    and q': "queue_repr q' (replicate (length ?keep) Local_Pkt)"
    unfolding assms(3) by blast
  let ?st' = "st\<lparr>arp_table := arp_table st @ [\<lparr>ip = spa (arp_hdr b), mac = sha (arp_hdr b)\<rparr>], pq := q', m_buf := m2\<rparr>"
  have "length ?keep \<noteq> 0"
    using assms(8,9) by (auto simp: filter_empty_conv)
  moreover have "length (sha (arp_hdr (payload m2))) = 6"
    using pkt_ok_length [OF assms(10)] by simp
  ultimately have "handle_arp_reply env ?st' = Some (Inl Dangling_Pointer)"
    using ok(2) q' assms(7) by (intro arp_reply_local [OF assms(1)]) (auto simp: queued_ok_def)
  then have "router_step env ?st' = Some (Inl Dangling_Pointer)"
    using assms(11,12) by (simp add: router_step_arp)
  moreover have "router_step env st = Some (Inr (st\<lparr>arp_table := arp_table st @
      [\<lparr>ip = spa (arp_hdr b), mac = sha (arp_hdr b)\<rparr>], pq := q'\<rparr>, out))"
    using step assms(3-5) by (simp add: router_step_arp)
  ultimately show ?thesis
    by (metis (no_types, lifting) router.update_convs(4) router.surjective)
qed

theorem router_requeue_dangles_witness:
  "\<exists>st' out. router_step demo_env (reply_router 9) = Some (Inr (st', out)) \<and>
    router_step demo_env (st'\<lparr>m_buf := demo_packet (arp_frame 2 2)\<rparr>) = Some (Inl Dangling_Pointer)"
  by (rule router_requeue_dangles [OF demo_net_ok reply_router_ok refl, where ps = "[waiting]" and p = waiting])
    (simp_all add: demo_blocks demo_arp_hdr demo_queue_repr demo_packet_ok waiting_for mk32_def)

end
