(* ===== verification/Router_Run.thy ===== *)
theory Router_Run
  imports Router_Props
begin

text \<open>
  Whole runs of the router: an iteration preserves the invariant and can fail in one way only, and
  so can \<open>main\<close>, for every routing table file and every sequence of received frames.
\<close>

text \<open>The outcome of an iteration or a run that is safe up to the dangling queue pointer.\<close>

definition safe_outcome :: "router \<Rightarrow> nat \<Rightarrow> (router \<times> frame list) res option \<Rightarrow> bool" where
  "safe_outcome st k r = (case r of
      None \<Rightarrow> False
    | Some (Inl e) \<Rightarrow> e = Dangling_Pointer
    | Some (Inr (st', out)) \<Rightarrow>
        router_ok st' \<and> rtable st' = rtable st \<and> length (arp_table st') \<le> length (arp_table st) + k)"

lemma safe_cleared: "router_ok st \<Longrightarrow> safe_outcome st 1 (Some (Inr (cleared st, out)))"
  by (simp add: safe_outcome_def router_ok_cleared)

lemma safe_answer:
  assumes "\<exists>bs. r = Inr (i, bs)" and "router_ok st"
  shows "safe_outcome st 1 (Some (rbind r (\<lambda>f. Inr (cleared st, [f]))))"
  using assms safe_cleared by auto

lemma safe_reply:
  assumes "net_ok env" and "router_ok st" and "length (arp_table st) < 66000"
  shows "safe_outcome st 1 (handle_arp_reply env st)"
proof -
  obtain xs where ok: "pkt_ok (m_buf st)" "rtable_ok (rtable st)"
    "\<forall>e \<in> set (arp_table st). length (mac e) = 6" "queue_repr (pq st) xs"
    "\<forall>x \<in> set xs. queued_ok (rtable st) x"
    using assms(2) by (rule router_okE)
  let ?a = "arp_hdr (payload (m_buf st))"
  have sha: "length (sha ?a) = 6"
    using pkt_ok_length [OF ok(1)] by simp
  show ?thesis
  proof (cases "Local_Pkt \<in> set xs")
    case True
    then show ?thesis
      using arp_reply_local [OF assms(1) ok(2) sha ok(4,5) _ assms(3)] by (simp add: safe_outcome_def)
  next
    case False
    then obtain ps where ps: "xs = map Heap_Pkt ps"
      by (rule heap_list)
    have q: "\<forall>p \<in> set ps. queued_ok (rtable st) (Heap_Pkt p)"
      using ok(5) by (simp add: ps)
    obtain q n out where r: "handle_arp_reply env st =
        Some (Inr (st\<lparr>arp_table := arp_table st @ [\<lparr>ip = spa ?a, mac = sha ?a\<rparr>], pq := q\<rparr>, out))"
      and "queue_repr q (replicate n Local_Pkt)"
      using arp_reply_heap [OF assms(1) ok(2) sha ok(4) [unfolded ps] q assms(3) refl] by blast
    then have "router_ok (st\<lparr>arp_table := arp_table st @ [\<lparr>ip = spa ?a, mac = sha ?a\<rparr>], pq := q\<rparr>)"
      using ok sha
      by (auto simp: router_ok_def queued_ok_def intro!: exI [of _ "replicate n Local_Pkt"])
    then show ?thesis
      by (simp add: r safe_outcome_def)
  qed
qed

lemma safe_ipv4:
  assumes "net_ok env" and "router_ok st"
    and "ether_type (ether_of (payload (m_buf st))) = htons ETHERTYPE_IP"
  shows "safe_outcome st 1 (Some (handle_ipv4 env st))"
proof -
  obtain xs where ok: "pkt_ok (m_buf st)" "rtable_ok (rtable st)"
    "\<forall>e \<in> set (arp_table st). length (mac e) = 6" "queue_repr (pq st) xs"
    "\<forall>x \<in> set xs. queued_ok (rtable st) x"
    using assms(2) by (rule router_okE)
  let ?b = "payload (m_buf st)" and ?i = "pkt_interface (m_buf st)"
  have len: "length ?b = 1600"
    by (rule pkt_ok_length [OF ok(1)])
  have macs: "length (ether_dhost (ether_of ?b)) = 6" "length (ether_shost (ether_of ?b)) = 6"
    using macs_of_frame [of ?b] len by simp_all
  have i: "0 \<le> ?i" "?i < 3" and w: "\<And>bs. \<not> write_fails env ?i bs"
    using ok(1) assms(1) by (simp_all add: pkt_ok_def net_ok_def)
  note eq = handle_ipv4_action [OF ok(1) assms(3) refl refl refl, of env]
  show ?thesis
  proof (cases "ipv4_action env st")
    case Discard
    then show ?thesis
      using eq safe_cleared [OF assms(2)] by simp
  next
    case Time_Exceeded
    have "\<exists>bs. send_icmp_error env (saddr (ip_hdr ?b)) (daddr (ip_hdr ?b)) (ether_dhost (ether_of ?b))
        (ether_shost (ether_of ?b)) 11 0 ?i = Inr (?i, bs)"
      using send_icmp_error_ok [OF macs i w, of 11 0] by auto
    then show ?thesis
      using safe_answer [OF _ assms(2)] by (simp add: eq Time_Exceeded)
  next
    case Unreachable
    have "\<exists>bs. send_icmp_error env (saddr (ip_hdr ?b)) (daddr (ip_hdr ?b)) (ether_dhost (ether_of ?b))
        (ether_shost (ether_of ?b)) 3 0 ?i = Inr (?i, bs)"
      using send_icmp_error_ok [OF macs i w, of 3 0] by auto
    then show ?thesis
      using safe_answer [OF _ assms(2)] by (simp add: eq Unreachable)
  next
    case Echo_Reply
    show ?thesis
      using safe_answer [OF send_icmp_total [OF assms(1) macs i] assms(2)] by (simp add: eq Echo_Reply)
  next
    case (Ask r)
    note r = ipv4_action_cases(2) [OF assms(2) Ask, of r]
    have "queue_repr (pq (cleared st)) xs"
      using ok(4) by simp
    from ask_result [OF assms(1) pkt_ok_cleared [OF ok(1)] this, of r]
    obtain q b' bs where ask: "enqueue_and_ask env (cleared st) r =
        Inr ((cleared st)\<lparr>pq := q, m_buf := (m_buf (cleared st))\<lparr>payload := b'\<rparr>\<rparr>, [(rt_interface r, bs)])"
      "queue_repr q (xs @ [Heap_Pkt (m_buf (cleared st))])" "length b' = MAX_LEN"
      using r by auto
    have "queued_ok (rtable st) (Heap_Pkt (m_buf (cleared st)))"
      using pkt_ok_cleared [OF ok(1)] r len by (simp add: queued_ok_def ip_hdr_store_check)
    then have "router_ok ((cleared st)\<lparr>pq := q, m_buf := (m_buf (cleared st))\<lparr>payload := b'\<rparr>\<rparr>)"
      using ok(2,3,5) ask(2,3) pkt_ok_cleared [OF ok(1)]
      by (auto simp: router_ok_def pkt_ok_payload intro!: exI [of _ "xs @ [Heap_Pkt (m_buf (cleared st))]"])
    then show ?thesis
      using eq Ask ask(1) by (simp add: safe_outcome_def)
  next
    case (Forward r e)
    note c1 = ipv4_action_cases(1) [OF assms(2) Forward, of r e]
    note c2 = ipv4_action_cases(2) [OF assms(2) Forward, of r e]
    let ?b' = "write_at 0 (mac e) (update_ip (payload (m_buf (cleared st))))"
    have "length ?b' = MAX_LEN"
      using len c1 by (simp add: update_ip_props MAX_LEN_def)
    then have "router_ok ((cleared st)\<lparr>m_buf := (m_buf (cleared st))\<lparr>payload := ?b'\<rparr>\<rparr>)"
      by (rule router_ok_payload [OF router_ok_cleared [OF assms(2)]])
    moreover have "forward env (cleared st) r e = Inr ((cleared st)\<lparr>m_buf := (m_buf (cleared st))\<lparr>payload := ?b'\<rparr>\<rparr>,
        [(rt_interface r, take (nat (pkt_len (m_buf (cleared st)))) ?b')])"
      by (rule forward_result [OF assms(1) pkt_ok_cleared [OF ok(1)] _ _ _ refl]) (use c1 c2 in auto)
    ultimately show ?thesis
      unfolding eq Forward by (simp add: safe_outcome_def)
  qed
qed

lemma step_safe:
  assumes "net_ok env" and "router_ok st" and "length (arp_table st) < 66000"
  shows "safe_outcome st 1 (router_step env st)"
proof -
  let ?b = "payload (m_buf st)"
  have ok: "pkt_ok (m_buf st)"
    using assms(2) by (rule router_okE)
  consider (arp) "ether_type (ether_of ?b) = htons ETHERTYPE_ARP"
    | (ip) "ether_type (ether_of ?b) = htons ETHERTYPE_IP"
    | (other) "ether_type (ether_of ?b) \<noteq> htons ETHERTYPE_ARP" "ether_type (ether_of ?b) \<noteq> htons ETHERTYPE_IP"
    by blast
  then show ?thesis
  proof cases
    case arp
    obtain b' bs where "handle_arp_request env st =
        Inr (st\<lparr>m_buf := (m_buf st)\<lparr>payload := b'\<rparr>\<rparr>, [(pkt_interface (m_buf st), bs)])" "length b' = MAX_LEN"
      using request_result [OF assms(1) ok refl refl] by blast
    then have "safe_outcome st 1 (Some (handle_arp_request env st))"
      using router_ok_payload [OF assms(2)] by (simp add: safe_outcome_def)
    then show ?thesis
      using safe_reply [OF assms] arp by (simp add: router_step_arp)
  next
    case ip
    then show ?thesis
      using safe_ipv4 [OF assms(1,2) ip] by (simp add: router_step_ipv4)
  next
    case other
    then show ?thesis
      using assms(2) by (simp add: router_step_def safe_outcome_def)
  qed
qed

text \<open>Receiving keeps the invariant.\<close>

lemma scan_ready_ok:
  assumes "Read_Error \<notin> set rs" and "pkt_ok p" and "0 \<le> i" and "i + int (length rs) \<le> 3"
  shows "case scan_ready i rs p of Inl e \<Rightarrow> False | Inr None \<Rightarrow> True | Inr (Some p') \<Rightarrow> pkt_ok p'"
  using assms
proof (induction i rs p rule: scan_ready.induct)
  case (2 i r rs p)
  show ?case
  proof (cases r)
    case (Ready bytes)
    then show ?thesis
      using "2.prems" by (auto simp: socket_receive_message_def pkt_ok_def MAX_LEN_def Let_def)
  qed (use 2 in auto)
qed simp

lemma get_packet_ok:
  assumes "\<forall>sel \<in> set sels. Read_Error \<notin> set sel" and "pkt_ok p"
  shows "case get_packet sels p of Inl e \<Rightarrow> False | Inr None \<Rightarrow> True
    | Inr (Some (p', sels')) \<Rightarrow> pkt_ok p' \<and> set sels' \<subseteq> set sels \<and> length sels' < length sels"
  using assms
proof (induction sels)
  case (Cons sel sels)
  let ?sel = "take (nat ROUTER_NUM_INTERFACES) sel"
  have "Read_Error \<notin> set ?sel"
    using Cons.prems(1) by (auto dest: in_set_takeD)
  then have "case scan_ready 0 ?sel p of Inl e \<Rightarrow> False | Inr None \<Rightarrow> True | Inr (Some p') \<Rightarrow> pkt_ok p'"
    by (rule scan_ready_ok) (use Cons.prems(2) in \<open>simp_all add: ROUTER_NUM_INTERFACES_def\<close>)
  then show ?case
    using Cons by (auto split: sum.splits option.splits)
qed simp

lemma router_ok_receive: "router_ok st \<Longrightarrow> pkt_ok p \<Longrightarrow> router_ok (st\<lparr>m_buf := p\<rparr>)"
  by (auto simp: router_ok_def)

lemma run_safe:
  assumes "net_ok env" and "router_ok st" and "\<forall>sel \<in> set sels. Read_Error \<notin> set sel"
    and "length (arp_table st) + length sels \<le> 66000"
  shows "safe_outcome st (length sels) (router_run env st sels out)"
  using assms
proof (induction env st sels out rule: router_run.induct)
  case (1 env st sels out)
  have p: "pkt_ok (m_buf st)"
    using "1.prems"(2) by (rule router_okE)
  note got = get_packet_ok [OF "1.prems"(3) p]
  show ?case
  proof (cases "get_packet sels (m_buf st)")
    case (Inl e)
    with got show ?thesis by simp
  next
    case (Inr r)
    show ?thesis
    proof (cases r)
      case None
      with Inr "1.prems"(2) show ?thesis
        by (simp add: router_run.simps safe_outcome_def)
    next
      case (Some ps)
      obtain p' sels' where ps: "ps = (p', sels')"
        by force
      have got': "pkt_ok p'" "set sels' \<subseteq> set sels" "length sels' < length sels"
        using got Inr Some ps by auto
      let ?st = "st\<lparr>m_buf := p'\<rparr>"
      have "length (arp_table st) < 66000"
        using "1.prems"(4) got'(3) by linarith
      then have step: "safe_outcome ?st 1 (router_step env ?st)"
        by (intro step_safe "1.prems"(1) router_ok_receive "1.prems"(2) got'(1)) simp
      show ?thesis
      proof (cases "router_step env ?st")
        case None
        with step show ?thesis by (simp add: safe_outcome_def)
      next
        case (Some o1)
        show ?thesis
        proof (cases o1)
          case (Inl e)
          with step Some Inr \<open>r = Some ps\<close> ps show ?thesis
            by (simp add: router_run.simps safe_outcome_def)
        next
          case (Inr so)
          obtain st' out' where so: "so = (st', out')"
            by force
          have st': "router_ok st'" "rtable st' = rtable st"
              "length (arp_table st') \<le> length (arp_table st) + 1"
            using step Some Inr so by (simp_all add: safe_outcome_def)
          have run: "router_run env st sels out = router_run env st' sels' (out @ out')"
            using Some Inr so \<open>r = Some ps\<close> ps \<open>get_packet sels (m_buf st) = Inr r\<close>
            by (simp add: router_run.simps [of env st])
          have "safe_outcome st' (length sels') (router_run env st' sels' (out @ out'))"
            by (rule "1.IH" [OF \<open>get_packet sels (m_buf st) = Inr r\<close> \<open>r = Some ps\<close> ps [symmetric] Some Inr so [symmetric]])
              (use "1.prems" st' got' in auto)
          with st' got'(3) show ?thesis
            unfolding run by (auto simp: safe_outcome_def split: option.splits sum.splits)
        qed
      qed
    qed
  qed
qed

text \<open>
  One iteration. From a state that satisfies the invariant (well-sized receive buffer, route
  interfaces 0 to 2, a route for every queued packet), for every received frame, if writes succeed
  and the ARP table is not full, the iteration ends; it never dereferences a null pointer and never
  leaves an array. It either restores the invariant or reads
  through the dangling queue pointer.
\<close>

theorem router_step_safe:
  assumes "net_ok env" and "router_ok st" and "length (arp_table st) < 66000"
  shows "case router_step env st of None \<Rightarrow> False
    | Some (Inl e) \<Rightarrow> e = Dangling_Pointer
    | Some (Inr (st', out)) \<Rightarrow> router_ok st' \<and> rtable st' = rtable st"
  using step_safe [OF assms] by (auto simp: safe_outcome_def split: option.splits sum.splits)

theorem router_step_safe_witness:
  "case router_step demo_env (reply_router 2) of None \<Rightarrow> False
    | Some (Inl e) \<Rightarrow> e = Dangling_Pointer
    | Some (Inr (st', out)) \<Rightarrow> router_ok st' \<and> rtable st' = rtable (reply_router 2)"
  by (rule router_step_safe [OF demo_net_ok reply_router_ok]) simp

text \<open>
  C1. Whole runs. Let the three sockets open, the table file read as routes over the interfaces 0 to 2 (a
  route over another interface makes the router index its sockets out of range), no read or write
  fail, and \<open>select\<close> be called at most 66000 times (the size of the ARP table); let the variable \<open>m\<close>
  of \<open>main\<close>, which every \<open>get_packet\<close> fills, start as any packet of the right size with a length of at
  most 1600 and one of the three interfaces. Then \<open>main\<close> handles every such sequence of received frames,
  of any content and length: the run ends, keeps the invariant and the sorted table, and the only
  error it can meet is the dangling queue pointer.
\<close>

theorem router_main_safe:
  assumes "net_ok env" and "init open_socket [] names = Inr socks"
    and "readRtable file = Inr rt" and "\<forall>e \<in> set rt. 0 \<le> rt_interface e \<and> rt_interface e < 3"
    and "pkt_ok m0" and "\<forall>sel \<in> set sels. Read_Error \<notin> set sel" and "length sels \<le> 66000"
  shows "case router_main env open_socket file names m0 sels of None \<Rightarrow> False
    | Some (Inl e) \<Rightarrow> e = Dangling_Pointer
    | Some (Inr (st', out)) \<Rightarrow> router_ok st' \<and> rtable st' = qsort_rtable rt"
proof -
  let ?st = "\<lparr>rtable = qsort_rtable rt, arp_table = [], pq = queue_create empty_store, m_buf = m0\<rparr>"
  have "queue_repr (queue_create empty_store :: queued store \<times> cqueue) []"
    by (rule queue_create_repr) simp
  then have ok: "router_ok ?st"
    using assms(4,5) by (auto simp: router_ok_def rtable_ok_def)
  have "safe_outcome ?st (length sels) (router_run env ?st sels [])"
    by (rule run_safe [OF assms(1) ok assms(6)]) (use assms(7) in simp)
  then show ?thesis
    by (auto simp: router_main_def assms(2,3) safe_outcome_def split: option.splits sum.splits)
qed

theorem router_main_safe_witness:
  "case router_main demo_env (\<lambda>n. Some 3) (Some (render_rtable [demo_route])) [''rr-0-1'', ''r-0'']
      (demo_packet []) [[Ready (arp_frame 1 2)], [Not_Ready, Ready (udp_frame 64 0x65CD)]] of None \<Rightarrow> False
    | Some (Inl e) \<Rightarrow> e = Dangling_Pointer
    | Some (Inr (st', out)) \<Rightarrow> router_ok st' \<and> rtable st' = qsort_rtable [demo_route]"
proof (rule router_main_safe [OF demo_net_ok])
  show "init (\<lambda>n. Some 3) [] [''rr-0-1'', ''r-0''] = Inr [3, 3]"
    by (simp add: get_sock_def ROUTER_NUM_INTERFACES_def)
  show "readRtable (Some (render_rtable [demo_route])) = Inr [demo_route]"
    using read_lines_render [of "[demo_route]" "[]"] by (simp add: readRtable_def demo_route_def)
qed (simp_all add: demo_route_def demo_packet_ok)

end
