(* ===== verification/Http_Buffer.thy ===== *)
theory Http_Buffer
  imports C_Strings
begin

text \<open>
  The growing byte buffer of the HTTP clients, \<open>Teme/Tema3/buffer.c\<close> (the same file as
  \<open>Lab10/buffer.c\<close>): a pointer to allocated bytes and their number, with search for a byte string,
  exact or without regard to case.
\<close>

section \<open>The buffer\<close>

record buffer =
  buf_data :: "string option"
  buf_size :: nat

definition buffer_init :: buffer where
  "buffer_init = \<lparr>buf_data = None, buf_size = 0\<rparr>"

definition buffer_destroy :: "buffer \<Rightarrow> buffer" where
  "buffer_destroy b =
    (let b' = (if buf_data b \<noteq> None then b\<lparr>buf_data := None\<rparr> else b) in b'\<lparr>buf_size := 0\<rparr>)"

definition buffer_is_empty :: "buffer \<Rightarrow> bool" where
  "buffer_is_empty b \<longleftrightarrow> buf_data b = None"

text \<open>
  \<open>realloc\<close> to \<open>n\<close> bytes keeps the old ones; the fresh bytes are zero here, and overwritten by the
  \<open>memcpy\<close> that follows. Reallocating to no bytes frees the block.
\<close>

definition realloc :: "nat \<Rightarrow> string \<Rightarrow> string option" where
  "realloc n d = (if n = 0 then None else Some (take n d @ replicate (n - length d) CHR 0x00))"

definition buffer_add :: "buffer \<Rightarrow> string \<Rightarrow> buffer res" where
  "buffer_add b data =
    (let n = length data;
         p = (case buf_data b of
                Some d \<Rightarrow> realloc (buf_size b + n) d
              | None \<Rightarrow> Some (replicate n CHR 0x00))
     in case p of
          None \<Rightarrow> if n = 0 then Inr (b\<lparr>buf_data := None\<rparr>) else Inl Null_Deref
        | Some d \<Rightarrow>
            if buf_size b + n \<le> length d
            then Inr \<lparr>buf_data = Some (write_at (buf_size b) data d), buf_size = buf_size b + n\<rparr>
            else Inl Out_Of_Bounds)"

text \<open>The bytes of the buffer.\<close>

definition bytes_of :: "buffer \<Rightarrow> string" where
  "bytes_of b = (case buf_data b of None \<Rightarrow> [] | Some d \<Rightarrow> d)"

section \<open>Searching\<close>

text \<open>The conversion of a position to the \<open>int\<close> that is returned.\<close>

definition int32 :: "int \<Rightarrow> int" where
  "int32 i = sint (of_int i :: u32)"

lemma int32_self: "- (2 ^ 31) \<le> i \<Longrightarrow> i < 2 ^ 31 \<Longrightarrow> int32 i = i"
  by (simp add: int32_def signed_of_int signed_take_bit_int_eq_self)

text \<open>The inner loop: the number of characters that agree from position \<open>i\<close> on.\<close>

function agree :: "(char \<Rightarrow> char \<Rightarrow> bool) \<Rightarrow> string \<Rightarrow> string \<Rightarrow> nat \<Rightarrow> nat \<Rightarrow> nat" where
  "agree same d p i j =
    (if j < length p then if same (d ! (i + j)) (p ! j) then agree same d p i (j + 1) else j else j)"
  by pat_completeness auto

termination
  by (relation "measure (\<lambda>(same, d, p, i, j). length p - j)") auto

declare agree.simps [simp del]

function find_pos :: "(char \<Rightarrow> char \<Rightarrow> bool) \<Rightarrow> string \<Rightarrow> string \<Rightarrow> nat \<Rightarrow> nat \<Rightarrow> int" where
  "find_pos same d p last_pos i =
    (if i < last_pos then
       if agree same d p i 0 = length p then int32 (int i) else find_pos same d p last_pos (i + 1)
     else - 1)"
  by pat_completeness auto

termination
  by (relation "measure (\<lambda>(same, d, p, last_pos, i). last_pos - i)") auto

declare find_pos.simps [simp del]

definition buffer_find :: "buffer \<Rightarrow> string \<Rightarrow> int" where
  "buffer_find b data =
    (if buf_size b < length data then - 1
     else find_pos (=) (bytes_of b) data (buf_size b - length data + 1) 0)"

definition tolower :: "char \<Rightarrow> char" where
  "tolower c = (if 65 \<le> char_val c \<and> char_val c \<le> 90 then char_of (char_val c + 32) else c)"

definition buffer_find_insensitive :: "buffer \<Rightarrow> string \<Rightarrow> int" where
  "buffer_find_insensitive b data =
    (if buf_size b < length data then - 1
     else find_pos (\<lambda>x y. tolower x = tolower y) (bytes_of b) data (buf_size b - length data + 1) 0)"

section \<open>Correctness\<close>

definition buffer_inv :: "buffer \<Rightarrow> bool" where
  "buffer_inv b \<longleftrightarrow> buf_size b = length (bytes_of b)"

lemma buffer_init_inv: "buffer_inv buffer_init" "bytes_of buffer_init = []"
  by (simp_all add: buffer_inv_def buffer_init_def bytes_of_def)

lemma buffer_add_ok:
  assumes "buffer_inv b"
  shows "\<exists>b'. buffer_add b data = Inr b' \<and> buffer_inv b' \<and> bytes_of b' = bytes_of b @ data"
  using assms
  by (cases b; cases "buf_data b")
    (auto simp: buffer_add_def buffer_inv_def bytes_of_def realloc_def Let_def write_at_def)

text \<open>The pattern stands at position \<open>i\<close>.\<close>

definition occurs_at :: "(char \<Rightarrow> char \<Rightarrow> bool) \<Rightarrow> string \<Rightarrow> string \<Rightarrow> nat \<Rightarrow> bool" where
  "occurs_at same d p i \<longleftrightarrow> i + length p \<le> length d \<and> (\<forall>j < length p. same (d ! (i + j)) (p ! j))"

lemma all_from_step:
  "j < n \<Longrightarrow> (\<forall>k. j \<le> k \<and> k < n \<longrightarrow> P k) \<longleftrightarrow> P j \<and> (\<forall>k. Suc j \<le> k \<and> k < n \<longrightarrow> P k)"
  using nat_less_le by (auto simp: Suc_le_eq)

lemma agree_length:
  "j \<le> length p \<Longrightarrow>
    agree same d p i j = length p \<longleftrightarrow> (\<forall>k. j \<le> k \<and> k < length p \<longrightarrow> same (d ! (i + k)) (p ! k))"
proof (induction same d p i j rule: agree.induct)
  case (1 same d p i j)
  show ?case
  proof (cases "j < length p")
    case False
    with 1 show ?thesis by (subst agree.simps) auto
  next
    case True
    show ?thesis
    proof (cases "same (d ! (i + j)) (p ! j)")
      case True
      with 1 \<open>j < length p\<close> have "agree same d p i j = length p \<longleftrightarrow>
          (\<forall>k. Suc j \<le> k \<and> k < length p \<longrightarrow> same (d ! (i + k)) (p ! k))"
        by (subst agree.simps) simp
      with True all_from_step [OF \<open>j < length p\<close>] show ?thesis
        by simp
    next
      case False
      with all_from_step [OF \<open>j < length p\<close>] \<open>j < length p\<close> show ?thesis
        by (subst agree.simps) simp
    qed
  qed
qed

lemma find_pos_spec:
  assumes "last_pos + length p \<le> length d + 1" and "length d < 2 ^ 31"
  shows "(find_pos same d p last_pos i = - 1 \<and> (\<forall>k. i \<le> k \<and> k < last_pos \<longrightarrow> \<not> occurs_at same d p k)) \<or>
    (\<exists>k. find_pos same d p last_pos i = int k \<and> i \<le> k \<and> k < last_pos \<and> occurs_at same d p k \<and>
      (\<forall>k'. i \<le> k' \<and> k' < k \<longrightarrow> \<not> occurs_at same d p k'))"
  using assms
proof (induction same d p last_pos i rule: find_pos.induct)
  case (1 same d p last_pos i)
  show ?case
  proof (cases "i < last_pos")
    case False
    then show ?thesis by (subst find_pos.simps) auto
  next
    case True
    have occ: "agree same d p i 0 = length p \<longleftrightarrow> occurs_at same d p i"
      using True 1 by (simp add: agree_length occurs_at_def)
    show ?thesis
    proof (cases "occurs_at same d p i")
      case occ': True
      have "int32 (int i) = int i"
        by (rule int32_self) (use True 1 in simp_all)
      then show ?thesis
        using True occ occ' by (intro disjI2 exI [of _ i]) (auto simp: find_pos.simps)
    next
      case no: False
      then have step: "find_pos same d p last_pos i = find_pos same d p last_pos (i + 1)"
        using True occ by (simp add: find_pos.simps [of same d p last_pos i])
      have "agree same d p i 0 \<noteq> length p"
        using occ no by simp
      from "1.IH" [OF True this "1.prems"] show ?thesis
      proof (elim disjE exE conjE)
        assume "find_pos same d p last_pos (i + 1) = - 1"
          and "\<forall>k. i + 1 \<le> k \<and> k < last_pos \<longrightarrow> \<not> occurs_at same d p k"
        with no all_from_step [OF True, of "\<lambda>k. \<not> occurs_at same d p k"] show ?thesis
          by (simp add: step)
      next
        fix k
        assume k: "find_pos same d p last_pos (i + 1) = int k" "i + 1 \<le> k" "k < last_pos"
          "occurs_at same d p k" "\<forall>k'. i + 1 \<le> k' \<and> k' < k \<longrightarrow> \<not> occurs_at same d p k'"
        have "i < k"
          using k(2) by simp
        with no k(5) all_from_step [of i k "\<lambda>k. \<not> occurs_at same d p k"] k(1-4) show ?thesis
          by (intro disjI2 exI [of _ k]) (simp add: step)
      qed
    qed
  qed
qed

text \<open>The first position of a pattern.\<close>

definition first_at :: "(char \<Rightarrow> char \<Rightarrow> bool) \<Rightarrow> string \<Rightarrow> string \<Rightarrow> nat \<Rightarrow> bool" where
  "first_at same d p i \<longleftrightarrow> occurs_at same d p i \<and> (\<forall>k < i. \<not> occurs_at same d p k)"

lemma find_result:
  assumes "buffer_inv b" and "buf_size b < 2 ^ 31"
    and "r = (if buf_size b < length p then - 1
      else find_pos same (bytes_of b) p (buf_size b - length p + 1) 0)"
  shows "(r = - 1 \<and> (\<forall>i. \<not> occurs_at same (bytes_of b) p i)) \<or>
    (\<exists>i. r = int i \<and> first_at same (bytes_of b) p i)"
proof (cases "buf_size b < length p")
  case True
  then show ?thesis
    using assms(1,3) by (auto simp: occurs_at_def buffer_inv_def)
next
  case False
  let ?last = "buf_size b - length p + 1"
  have bound: "\<not> occurs_at same (bytes_of b) p k" if "\<not> k < ?last" for k
    using that False assms(1) by (auto simp: occurs_at_def buffer_inv_def)
  have "?last + length p \<le> length (bytes_of b) + 1" "length (bytes_of b) < 2 ^ 31"
    using False assms(1,2) by (simp_all add: buffer_inv_def)
  from find_pos_spec [OF this, of same 0] False assms(3) bound show ?thesis
    unfolding first_at_def by auto
qed

text \<open>
  \<open>buffer_find\<close> and \<open>buffer_find_insensitive\<close> on a buffer below 2 GiB: the result is -1 exactly if
  the pattern does not occur (up to letter case for the second), and otherwise the position of its
  first occurrence.
\<close>

theorem buffer_find_correct:
  assumes "buffer_inv b" and "buf_size b < 2 ^ 31"
  shows "(if \<exists>i. occurs_at (=) (bytes_of b) p i
      then \<exists>i. buffer_find b p = int i \<and> first_at (=) (bytes_of b) p i
      else buffer_find b p = - 1) \<and>
    (if \<exists>i. occurs_at (\<lambda>x y. tolower x = tolower y) (bytes_of b) p i
      then \<exists>i. buffer_find_insensitive b p = int i \<and>
        first_at (\<lambda>x y. tolower x = tolower y) (bytes_of b) p i
      else buffer_find_insensitive b p = - 1)"
  using find_result [OF assms refl, of p "(=)", folded buffer_find_def]
    find_result [OF assms refl, of p "\<lambda>x y. tolower x = tolower y", folded buffer_find_insensitive_def]
  by (auto simp: first_at_def)

theorem buffer_find_correct_witness:
  "let b = \<lparr>buf_data = Some ''xCONTENT: 5'', buf_size = 11\<rparr> in
    (if \<exists>i. occurs_at (=) (bytes_of b) ''content: '' i
      then \<exists>i. buffer_find b ''content: '' = int i \<and> first_at (=) (bytes_of b) ''content: '' i
      else buffer_find b ''content: '' = - 1) \<and>
    (if \<exists>i. occurs_at (\<lambda>x y. tolower x = tolower y) (bytes_of b) ''content: '' i
      then \<exists>i. buffer_find_insensitive b ''content: '' = int i \<and>
        first_at (\<lambda>x y. tolower x = tolower y) (bytes_of b) ''content: '' i
      else buffer_find_insensitive b ''content: '' = - 1)"
  unfolding Let_def
  by (rule buffer_find_correct) (simp_all add: buffer_inv_def bytes_of_def)

end
