(* ===== verification/Http_Helpers.thy ===== *)
theory Http_Helpers
  imports Http_Buffer
begin

text \<open>
  The helpers of the HTTP clients, \<open>Teme/Tema3/helpers.c\<close> (the same file as \<open>Lab10/helpers.c\<close>):
  building a message line by line, sending a message over a stream that may accept part of it, and
  receiving a response that arrives in arbitrary pieces.

  The socket is a parameter: the list of the results its \<open>write\<close> or \<open>read\<close> calls give. \<open>error\<close> prints
  and calls \<open>exit(0)\<close>.
\<close>

definition BUFLEN :: nat where
  "BUFLEN = 4096"

definition LINELEN :: nat where
  "LINELEN = 1000"

definition crlf :: string where
  "crlf = [CHR 0x0D, CHR 0x0A]"

definition HEADER_TERMINATOR :: string where
  "HEADER_TERMINATOR = crlf @ crlf"

definition CONTENT_LENGTH :: string where
  "CONTENT_LENGTH = ''Content-Length: ''"

definition error :: "'a res" where
  "error = Inl (Exit 0)"

section \<open>Messages\<close>

text \<open>\<open>strcat\<close> into an array of \<open>cap\<close> characters.\<close>

definition strcat :: "nat \<Rightarrow> string \<Rightarrow> string \<Rightarrow> string res" where
  "strcat cap dst src =
    (if length dst + length src < cap then Inr (dst @ src) else Inl Out_Of_Bounds)"

definition compute_message :: "nat \<Rightarrow> string \<Rightarrow> string \<Rightarrow> string res" where
  "compute_message cap message line =
    rbind (strcat cap message line) (\<lambda>message. strcat cap message crlf)"

lemma compute_message_eq:
  "compute_message cap message line =
    (if length message + length line + 2 < cap then Inr (message @ line @ crlf) else Inl Out_Of_Bounds)"
  by (auto simp: compute_message_def strcat_def crlf_def)

section \<open>Sending\<close>

text \<open>
  The results of the \<open>write\<close> calls: negative is an error, otherwise the number of bytes taken. The
  result is the bytes handed over; \<open>None\<close> is a call that blocks for ever.
\<close>

fun send_loop :: "int list \<Rightarrow> string \<Rightarrow> int \<Rightarrow> string \<Rightarrow> (string \<times> int list) res option" where
  "send_loop [] message sent taken = None"
| "send_loop (bytes # ws) message sent taken =
     (let total = int (length message)
      in if bytes < 0 then Some error
         else if bytes = 0 then Some (Inr (taken, ws))
         else let taken' = taken @ take (nat bytes) (drop (nat sent) message); sent' = sent + bytes
              in if sent' < total then send_loop ws message sent' taken' else Some (Inr (taken', ws)))"

definition send_to_server :: "int list \<Rightarrow> string \<Rightarrow> (string \<times> int list) res option" where
  "send_to_server ws message = send_loop ws message 0 []"

text \<open>
  The documented behaviour of \<open>write\<close> on a stream: each call takes at least one byte and at most
  what it is offered.
\<close>

fun writes_ok :: "nat \<Rightarrow> int list \<Rightarrow> bool" where
  "writes_ok left [] \<longleftrightarrow> left = 0"
| "writes_ok left (w # ws) \<longleftrightarrow>
     left = 0 \<or> (0 < w \<and> w \<le> int left \<and> writes_ok (left - nat w) ws)"

lemma send_loop_complete:
  assumes "writes_ok (length message - sent) ws" and "sent < length message"
  shows "\<exists>ws'. send_loop ws message (int sent) (take sent message) = Some (Inr (message, ws'))"
  using assms
proof (induction ws arbitrary: sent)
  case (Cons w ws)
  then have w: "0 < w" "w \<le> int (length message - sent)" "writes_ok (length message - sent - nat w) ws"
    by auto
  define k where "k = nat w"
  have k: "0 < k" "k \<le> length message - sent" "w = int k" "writes_ok (length message - (sent + k)) ws"
    using w by (auto simp: k_def)
  have tk: "take sent message @ take k (drop sent message) = take (sent + k) message"
    by (simp add: take_add)
  show ?case
  proof (cases "sent + k < length message")
    case True
    with Cons.IH [OF k(4) True] k(1,3) tk show ?thesis
      by (simp add: Let_def)
  next
    case False
    with k tk show ?thesis
      by (simp add: Let_def)
  qed
qed simp

text \<open>
  Sending. However the stream splits a non-empty message (each \<open>write\<close> taking at least one byte
  and no more than offered), \<open>send_to_server\<close> returns after handing over exactly the message.
\<close>

theorem send_to_server_complete:
  assumes "writes_ok (length message) ws" and "message \<noteq> []"
  shows "\<exists>ws'. send_to_server ws message = Some (Inr (message, ws'))"
  using send_loop_complete [of message 0 ws] assms by (simp add: send_to_server_def)

theorem send_to_server_complete_witness:
  "\<exists>ws'. send_to_server [1, 3, 1, 9] ''hello'' = Some (Inr (''hello'', ws'))"
  by (rule send_to_server_complete) simp_all

section \<open>Receiving\<close>

datatype read_result = Read_Fail | Chunk string

text \<open>
  \<open>strtol\<close> on the bytes of a buffer without terminator: running over the end is an out-of-bounds
  read.
\<close>

definition strtol_mem :: "string \<Rightarrow> int res" where
  "strtol_mem s =
    (let t = dropWhile is_space s
     in if t = [] then Inl Out_Of_Bounds
        else let (neg, u) = (if hd t = CHR ''-'' then (True, tl t)
                             else if hd t = CHR ''+'' then (False, tl t) else (False, t));
                 ds = takeWhile is_digit u
             in if ds = u then Inl Out_Of_Bounds else Inr (long_val neg (dec_val ds)))"

text \<open>
  The first loop; an exhausted list of reads is the end of the stream. The results are the buffer,
  \<open>header_end\<close>, \<open>content_length\<close> and the reads left.
\<close>

fun receive_head :: "buffer \<Rightarrow> int \<Rightarrow> read_result list \<Rightarrow> (buffer \<times> int \<times> int \<times> read_result list) res" where
  "receive_head b header_end [] = Inr (b, header_end, 0, [])"
| "receive_head b header_end (Read_Fail # rs) = error"
| "receive_head b header_end (Chunk response # rs) =
     (let bytes = take BUFLEN response
      in if bytes = [] then Inr (b, header_end, 0, rs)
         else rbind (buffer_add b bytes) (\<lambda>b.
           let header_end = buffer_find b HEADER_TERMINATOR
           in if 0 \<le> header_end then
                (let header_end = header_end + int (length HEADER_TERMINATOR);
                     content_length_start = buffer_find_insensitive b CONTENT_LENGTH
                 in if content_length_start < 0 then receive_head b header_end rs
                    else rbind (strtol_mem (drop (nat content_length_start + length CONTENT_LENGTH) (bytes_of b)))
                      (\<lambda>n. Inr (b, header_end, int32 n, rs)))
              else receive_head b header_end rs))"

fun receive_body :: "u64 \<Rightarrow> buffer \<Rightarrow> read_result list \<Rightarrow> (buffer \<times> read_result list) res" where
  "receive_body tot b [] = Inr (b, [])"
| "receive_body tot b (r # rs) =
     (if of_nat (buf_size b) < tot then
        (case r of Read_Fail \<Rightarrow> error
         | Chunk response \<Rightarrow>
             let bytes = take BUFLEN response
             in if bytes = [] then Inr (b, rs)
                else rbind (buffer_add b bytes) (\<lambda>b. receive_body tot b rs))
      else Inr (b, r # rs))"

text \<open>The bytes of the result, with the terminator that is appended, and the reads left.\<close>

definition receive_from_server :: "read_result list \<Rightarrow> (string \<times> read_result list) res" where
  "receive_from_server rs =
    rbind (receive_head buffer_init 0 rs) (\<lambda>(b, header_end, content_length, rs).
    let total = of_int content_length + of_int header_end
    in rbind (receive_body total b rs) (\<lambda>(b, rs).
       rbind (buffer_add b [CHR 0x00]) (\<lambda>b. Inr (bytes_of b, rs))))"

section \<open>Independence of the pieces\<close>

lemma occurs_at_append: "occurs_at same a p i \<Longrightarrow> occurs_at same (a @ b) p i"
  by (auto simp: occurs_at_def nth_append)

lemma occurs_at_prefix:
  "occurs_at same (a @ b) p i \<Longrightarrow> i + length p \<le> length a \<Longrightarrow> occurs_at same a p i"
  by (auto simp: occurs_at_def nth_append)

lemma first_at_prefix:
  assumes "first_at same (a @ b) p i" and "i + length p \<le> length a"
  shows "first_at same a p i"
  using assms occurs_at_prefix occurs_at_append unfolding first_at_def by blast

lemma first_at_unique: "first_at same d p i \<Longrightarrow> first_at same d p j \<Longrightarrow> i = j"
  unfolding first_at_def by (metis nat_neq_iff)

lemma buffer_find_first:
  assumes "buffer_inv b" and "buf_size b < 2 ^ 31"
  shows "first_at (=) (bytes_of b) p i \<Longrightarrow> buffer_find b p = int i"
    and "(\<And>i. \<not> occurs_at (=) (bytes_of b) p i) \<Longrightarrow> buffer_find b p = - 1"
    and "first_at (\<lambda>x y. tolower x = tolower y) (bytes_of b) p i \<Longrightarrow> buffer_find_insensitive b p = int i"
proof -
  note 1 = find_result [OF assms refl, of p "(=)", folded buffer_find_def]
    and 2 = find_result [OF assms refl, of p "\<lambda>x y. tolower x = tolower y", folded buffer_find_insensitive_def]
  show "first_at (=) (bytes_of b) p i \<Longrightarrow> buffer_find b p = int i"
    using 1 first_at_unique by (auto simp: first_at_def)
  show "(\<And>i. \<not> occurs_at (=) (bytes_of b) p i) \<Longrightarrow> buffer_find b p = - 1"
    using 1 by (auto simp: first_at_def)
  show "first_at (\<lambda>x y. tolower x = tolower y) (bytes_of b) p i \<Longrightarrow> buffer_find_insensitive b p = int i"
    using 2 first_at_unique by (auto simp: first_at_def)
qed

lemma strtol_mem_show:
  assumes "n < 2 ^ 63" and "rest \<noteq> []" and "\<not> is_digit (hd rest)"
  shows "strtol_mem (show_nat n @ rest) = Inr (int n)"
proof -
  obtain c cs where cs: "show_nat n = c # cs"
    by (cases "show_nat n") auto
  have c: "is_digit c" "\<not> is_space c"
    using hd_show_nat [of n] by (simp_all add: cs)
  then have nosign: "c \<noteq> CHR ''-''" "c \<noteq> CHR ''+''"
    by (auto simp: is_digit_def char_val_def)
  have "takeWhile is_digit (show_nat n @ rest) = show_nat n"
    using assms(3) by (simp add: takeWhile_show_nat)
  then have "takeWhile is_digit (c # cs @ rest) = show_nat n"
    by (simp add: cs)
  moreover have "show_nat n \<noteq> c # cs @ rest"
    using assms(2) by (simp add: cs)
  moreover have ex: "\<exists>x \<in> set rest. \<not> is_digit x"
    using assms(2,3) by (intro bexI [of _ "hd rest"]) simp_all
  ultimately have "strtol_mem (c # cs @ rest) = Inr (long_val False (dec_val (show_nat n)))"
    unfolding strtol_mem_def using c nosign ex by (auto simp: Let_def simp del: takeWhile.simps dec_val_show_nat)
  moreover have "dec_val (c # cs) = n"
    using dec_val_show_nat [of n] by (simp add: cs)
  ultimately show ?thesis
    using assms(1) by (simp add: cs long_val_def min_def)
qed

text \<open>
  A complete response: a header with a first \<open>Content-Length\<close> field, its terminator, and a body of
  that length.
\<close>

definition http_response :: "string \<Rightarrow> string \<Rightarrow> string \<Rightarrow> string \<Rightarrow> string \<Rightarrow> bool" where
  "http_response resp hdr pre suf body \<longleftrightarrow>
    (\<exists>cl. length cl = length CONTENT_LENGTH \<and> hdr = pre @ cl @ show_nat (length body) @ suf) \<and>
    resp = hdr @ HEADER_TERMINATOR @ body \<and>
    first_at (=) resp HEADER_TERMINATOR (length hdr) \<and>
    first_at (\<lambda>x y. tolower x = tolower y) resp CONTENT_LENGTH (length pre) \<and>
    (suf = [] \<or> \<not> is_digit (hd suf)) \<and> length resp < 2 ^ 31 - 1"

lemma take_response:
  assumes "http_response resp hdr pre suf body" and "acc @ rest = resp"
    and "occurs_at (=) acc HEADER_TERMINATOR k"
  shows "\<exists>body1. acc = hdr @ HEADER_TERMINATOR @ body1"
    and "first_at (=) acc HEADER_TERMINATOR (length hdr)"
    and "first_at (\<lambda>x y. tolower x = tolower y) acc CONTENT_LENGTH (length pre)"
proof -
  have r: "resp = hdr @ HEADER_TERMINATOR @ body" "first_at (=) resp HEADER_TERMINATOR (length hdr)"
    "first_at (\<lambda>x y. tolower x = tolower y) resp CONTENT_LENGTH (length pre)"
    "length pre + length CONTENT_LENGTH \<le> length hdr"
    using assms(1) by (auto simp: http_response_def)
  have "occurs_at (=) resp HEADER_TERMINATOR k"
    using occurs_at_append [OF assms(3)] assms(2) by metis
  with r(2) have "length hdr \<le> k"
    unfolding first_at_def by (meson not_le_imp_less)
  moreover have "k + length HEADER_TERMINATOR \<le> length acc"
    using assms(3) by (simp add: occurs_at_def)
  ultimately have le: "length hdr + length HEADER_TERMINATOR \<le> length acc"
    by simp
  show "first_at (=) acc HEADER_TERMINATOR (length hdr)"
    by (rule first_at_prefix [where b = rest, OF _ le]) (use r(2) assms(2) in simp)
  show "first_at (\<lambda>x y. tolower x = tolower y) acc CONTENT_LENGTH (length pre)"
    by (rule first_at_prefix [where b = rest]) (use r(3,4) assms(2) le in simp_all)
  have "take (length hdr + length HEADER_TERMINATOR) (acc @ rest) = hdr @ HEADER_TERMINATOR"
    using r(1) assms(2) by simp
  then have "take (length hdr + length HEADER_TERMINATOR) acc = hdr @ HEADER_TERMINATOR"
    using le by simp
  then show "\<exists>body1. acc = hdr @ HEADER_TERMINATOR @ body1"
    by (metis append_assoc append_take_drop_id)
qed

lemma receive_head_ok:
  assumes resp: "http_response resp hdr pre suf body"
    and "buffer_inv b" and "bytes_of b @ concat cs = resp"
    and "\<forall>c \<in> set cs. c \<noteq> [] \<and> length c \<le> BUFLEN"
    and "\<And>k. \<not> occurs_at (=) (bytes_of b) HEADER_TERMINATOR k"
  shows "\<exists>b' cs'. receive_head b he (map Chunk cs @ later) =
      Inr (b', int (length hdr) + 4, int (length body), map Chunk cs' @ later) \<and>
    buffer_inv b' \<and> bytes_of b' @ concat cs' = resp \<and> set cs' \<subseteq> set cs"
  using assms(2-5)
proof (induction cs arbitrary: b he)
  case Nil
  have "occurs_at (=) resp HEADER_TERMINATOR (length hdr)"
    using resp unfolding http_response_def first_at_def by blast
  with Nil show ?case by simp
next
  case (Cons c cs)
  have c: "c \<noteq> []" "take BUFLEN c = c"
    using Cons.prems(3) by simp_all
  obtain b' where b': "buffer_add b c = Inr b'" "buffer_inv b'" "bytes_of b' = bytes_of b @ c"
    using buffer_add_ok [OF Cons.prems(1)] by blast
  have acc: "bytes_of b' @ concat cs = resp"
    using Cons.prems(2) b'(3) by simp
  have "length resp < 2 ^ 31 - 1"
    using resp unfolding http_response_def by blast
  then have len: "length resp < 2 ^ 31"
    by simp
  have size: "buf_size b' < 2 ^ 31"
    using b'(2) acc len by (auto simp: buffer_inv_def)
  show ?case
  proof (cases "\<exists>k. occurs_at (=) (bytes_of b') HEADER_TERMINATOR k")
    case False
    then have "buffer_find b' HEADER_TERMINATOR = - 1"
      using buffer_find_first(2) [OF b'(2) size] by blast
    then have "receive_head b he (map Chunk (c # cs) @ later) = receive_head b' (- 1) (map Chunk cs @ later)"
      using c b' by (simp add: Let_def)
    then show ?thesis
      using Cons.IH [OF b'(2) acc _ ] False Cons.prems(3) by fastforce
  next
    case True
    then obtain k where k: "occurs_at (=) (bytes_of b') HEADER_TERMINATOR k"
      by blast
    note tr = take_response [OF resp acc k]
    obtain body1 where body1: "bytes_of b' = hdr @ HEADER_TERMINATOR @ body1"
      using tr(1) by blast
    have find: "buffer_find b' HEADER_TERMINATOR = int (length hdr)"
      by (rule buffer_find_first(1) [OF b'(2) size tr(2)])
    have cl: "buffer_find_insensitive b' CONTENT_LENGTH = int (length pre)"
      by (rule buffer_find_first(3) [OF b'(2) size tr(3)])
    obtain cl' where hdr: "length cl' = length CONTENT_LENGTH" "hdr = pre @ cl' @ show_nat (length body) @ suf"
      and suf: "suf = [] \<or> \<not> is_digit (hd suf)" and blen: "length body < 2 ^ 31"
      using resp by (auto simp: http_response_def)
    have dropped: "drop (length pre + length CONTENT_LENGTH) (bytes_of b') =
        show_nat (length body) @ (suf @ HEADER_TERMINATOR @ body1)"
      using hdr by (simp add: body1)
    have nd: "\<not> is_digit (hd (suf @ HEADER_TERMINATOR @ body1))"
      using suf by (cases suf) (simp_all add: HEADER_TERMINATOR_def crlf_def is_digit_def char_val_def)
    have "strtol_mem (drop (length pre + length CONTENT_LENGTH) (bytes_of b')) = Inr (int (length body))"
      unfolding dropped by (rule strtol_mem_show)
        (use blen nd in \<open>simp_all add: HEADER_TERMINATOR_def crlf_def\<close>)
    moreover have "int32 (int (length body)) = int (length body)"
      using blen by (simp add: int32_self)
    ultimately have "receive_head b he (map Chunk (c # cs) @ later) =
        Inr (b', int (length hdr) + 4, int (length body), map Chunk cs @ later)"
      using c b' find cl by (simp add: Let_def) (simp add: HEADER_TERMINATOR_def crlf_def)
    then show ?thesis
      using b'(2) acc by (intro exI [of _ b'] exI [of _ cs]) auto
  qed
qed

lemma receive_body_ok:
  assumes "buffer_inv b" and "length (bytes_of b) + length (concat cs) = n" and "n < 2 ^ 64"
    and "\<forall>c \<in> set cs. c \<noteq> [] \<and> length c \<le> BUFLEN"
  shows "\<exists>b'. receive_body (of_nat n) b (map Chunk cs @ later) = Inr (b', later) \<and>
    buffer_inv b' \<and> bytes_of b' = bytes_of b @ concat cs"
  using assms
proof (induction cs arbitrary: b)
  case Nil
  then have "buf_size b = n"
    by (simp add: buffer_inv_def)
  with Nil show ?case
    by (cases later) auto
next
  case (Cons c cs)
  have c: "c \<noteq> []" "take BUFLEN c = c"
    using Cons.prems(4) by simp_all
  obtain b' where b': "buffer_add b c = Inr b'" "buffer_inv b'" "bytes_of b' = bytes_of b @ c"
    using buffer_add_ok [OF Cons.prems(1)] by blast
  have "buf_size b < n"
    using Cons.prems(1,2) c(1) by (auto simp: buffer_inv_def)
  then have lt: "(of_nat (buf_size b) :: u64) < of_nat n"
    using Cons.prems(3) by (simp add: word_less_nat_alt unat_of_nat)
  have "length (bytes_of b') + length (concat cs) = n"
    using Cons.prems(2) b'(3) by simp
  from Cons.IH [OF b'(2) this Cons.prems(3)] Cons.prems(4)
  show ?case
    using c b'(1,3) lt by (simp add: Let_def)
qed

lemma receive_from_server_whole:
  assumes "http_response resp hdr pre suf body" and "concat cs = resp"
    and "\<forall>c \<in> set cs. c \<noteq> [] \<and> length c \<le> BUFLEN"
  shows "receive_from_server (map Chunk cs @ later) = Inr (resp @ [CHR 0x00], later)"
proof -
  have "length resp < 2 ^ 31 - 1"
    using assms(1) unfolding http_response_def by blast
  moreover have "length resp = length hdr + 4 + length body"
    using assms(1) by (auto simp: http_response_def HEADER_TERMINATOR_def crlf_def)
  ultimately have len: "length resp < 2 ^ 31" "length resp = length hdr + 4 + length body"
    by simp_all
  have "bytes_of buffer_init @ concat cs = resp"
    using assms(2) by (simp add: buffer_init_inv)
  moreover have "\<not> occurs_at (=) (bytes_of buffer_init) HEADER_TERMINATOR k" for k
    by (simp add: occurs_at_def buffer_init_inv HEADER_TERMINATOR_def crlf_def)
  ultimately obtain b cs' where head: "receive_head buffer_init 0 (map Chunk cs @ later) =
      Inr (b, int (length hdr) + 4, int (length body), map Chunk cs' @ later)"
    "buffer_inv b" "bytes_of b @ concat cs' = resp" "set cs' \<subseteq> set cs"
    using receive_head_ok [OF assms(1) buffer_init_inv(1) _ assms(3), of 0 later] by blast
  have total: "of_int (int (length body)) + of_int (int (length hdr) + 4) = (of_nat (length resp) :: u64)"
    by (simp add: len(2))
  have "length (bytes_of b) + length (concat cs') = length resp"
    using head(3) by (metis length_append)
  then obtain b' where body: "receive_body (of_nat (length resp)) b (map Chunk cs' @ later) = Inr (b', later)"
      "buffer_inv b'" "bytes_of b' = resp"
  proof -
    have "length resp < 2 ^ 64" and "\<forall>c \<in> set cs'. c \<noteq> [] \<and> length c \<le> BUFLEN"
      using len(1) head(4) assms(3) by (simp, blast)
    then show ?thesis
      using receive_body_ok [OF head(2) \<open>length (bytes_of b) + length (concat cs') = length resp\<close>] head(3)
        that by metis
  qed
  obtain b2 where "buffer_add b' [CHR 0x00] = Inr b2" "bytes_of b2 = bytes_of b' @ [CHR 0x00]"
    using buffer_add_ok [OF body(2)] by blast
  with body(3) show ?thesis
    unfolding receive_from_server_def head(1) rbind_Inr prod.case Let_def total body(1) by simp
qed

text \<open>
  Receiving. A complete response with a \<open>Content-Length\<close> field is returned whole, followed by one
  terminating zero byte, however the stream cuts it into reads of 1 to 4096 bytes (the end of the
  header, the field or its number may be split), and nothing behind it is read.
\<close>

theorem receive_from_server_chunks:
  assumes "http_response resp hdr pre suf body" and "concat cs = resp"
    and "\<forall>c \<in> set cs. c \<noteq> [] \<and> length c \<le> BUFLEN"
  shows "receive_from_server (map Chunk cs @ later) = Inr (resp @ [CHR 0x00], later)"
  using assms by (rule receive_from_server_whole)

section \<open>Searching a C string\<close>

text \<open>\<open>strstr\<close>: the first position of a string, or \<open>None\<close> for \<open>NULL\<close>.\<close>

fun strstr :: "string \<Rightarrow> string \<Rightarrow> nat option" where
  "strstr [] p = (if p = [] then Some 0 else None)"
| "strstr (c # cs) p =
     (if take (length p) (c # cs) = p then Some 0 else map_option Suc (strstr cs p))"

text \<open>The characters of a C string in memory: those before the first zero byte.\<close>

definition c_string :: "string \<Rightarrow> string" where
  "c_string s = takeWhile (\<lambda>c. c \<noteq> CHR 0x00) s"

definition basic_extract_json_response :: "string \<Rightarrow> string option" where
  \<open>basic_extract_json_response str = map_option (\<lambda>i. drop i str) (strstr str ''{"'')\<close>

lemma strstr_Some:
  "strstr s p = Some i \<Longrightarrow> i + length p \<le> length s \<and> take (length p) (drop i s) = p"
proof (induction s arbitrary: i)
  case (Cons c cs)
  show ?case
  proof (cases "take (length p) (c # cs) = p")
    case True
    then have "length p \<le> length (c # cs)"
      by (metis length_take min.cobounded2 min.commute)
    with True Cons.prems show ?thesis by auto
  next
    case False
    with Cons show ?thesis by (auto split: if_splits)
  qed
qed (auto split: if_splits)

lemma strstr_append:
  assumes "\<And>k. k < length a \<Longrightarrow> take (length p) (drop k (a @ b)) \<noteq> p" and "take (length p) b = p"
  shows "strstr (a @ b) p = Some (length a)"
  using assms
proof (induction a)
  case Nil
  then show ?case by (cases b) auto
next
  case (Cons c a)
  have "take (length p) (c # a @ b) \<noteq> p"
    using Cons.prems(1) [of 0] by simp
  moreover have "strstr (a @ b) p = Some (length a)"
    using Cons.prems(1) [of "Suc k" for k] by (intro Cons.IH Cons.prems(2)) force
  ultimately show ?case by simp
qed

lemma strstr_first: "strstr d p = Some i \<Longrightarrow> first_at (=) d p i"
proof (induction d arbitrary: i)
  case (Cons c d)
  show ?case
  proof (cases "take (length p) (c # d) = p")
    case True
    then have "i = 0" "length p \<le> length (c # d)"
      using Cons.prems by (auto) (metis length_Cons length_take min.absorb_iff2 min.commute)
    moreover have "\<forall>j < length p. (c # d) ! j = p ! j"
      using True by (metis nth_take)
    ultimately show ?thesis
      by (simp add: first_at_def occurs_at_def)
  next
    case False
    then obtain k where k: "i = Suc k" "strstr d p = Some k"
      using Cons.prems by auto
    have no: "\<not> occurs_at (=) (c # d) p 0"
    proof
      assume "occurs_at (=) (c # d) p 0"
      then have "take (length p) (c # d) = p"
        by (auto simp: occurs_at_def list_eq_iff_nth_eq)
      with False show False by simp
    qed
    have shift: "occurs_at (=) (c # d) p (Suc n) \<longleftrightarrow> occurs_at (=) d p n" for n
      by (simp add: occurs_at_def)
    show ?thesis
      using Cons.IH [OF k(2)] no by (auto simp: first_at_def k(1) shift less_Suc_eq_0_disj)
  qed
qed (auto simp: first_at_def occurs_at_def split: if_splits)

lemma strstr_first_insensitive:
  assumes "strstr (map tolower d) (map tolower p) = Some i"
  shows "first_at (\<lambda>x y. tolower x = tolower y) d p i"
proof -
  have "occurs_at (=) (map tolower d) (map tolower p) k = occurs_at (\<lambda>x y. tolower x = tolower y) d p k" for k
    by (auto simp: occurs_at_def)
  with strstr_first [OF assms] show ?thesis
    by (simp add: first_at_def)
qed

section \<open>A concrete response\<close>

definition demo_header :: string where
  "demo_header = ''HTTP/1.1 200 OK'' @ crlf @ ''content-length: 2''"

definition demo_response :: string where
  "demo_response = demo_header @ HEADER_TERMINATOR @ ''hi''"

lemma upper_cl: "char_of (99 :: nat) = CHR ''c''" "char_of (108 :: nat) = CHR ''l''"
  by code_simp+

lemma demo_http_response: "http_response demo_response demo_header (''HTTP/1.1 200 OK'' @ crlf) [] ''hi''"
  unfolding http_response_def
proof (intro conjI exI [of _ "''content-length: ''"])
  show "first_at (=) demo_response HEADER_TERMINATOR (length demo_header)"
    by (rule strstr_first) (simp add: demo_response_def demo_header_def HEADER_TERMINATOR_def crlf_def)
  show "first_at (\<lambda>x y. tolower x = tolower y) demo_response CONTENT_LENGTH (length (''HTTP/1.1 200 OK'' @ crlf))"
    by (rule strstr_first_insensitive)
      (simp add: demo_response_def demo_header_def HEADER_TERMINATOR_def crlf_def CONTENT_LENGTH_def
        tolower_def char_val_def upper_cl)
  have "show_nat (length ''hi'') = ''2''"
    by code_simp
  then show "demo_header = (''HTTP/1.1 200 OK'' @ crlf) @ ''content-length: '' @ show_nat (length ''hi'') @ []"
    by (simp add: demo_header_def)
qed (simp_all add: CONTENT_LENGTH_def demo_response_def demo_header_def HEADER_TERMINATOR_def crlf_def)

theorem receive_from_server_chunks_witness:
  "receive_from_server (map Chunk [take 20 demo_response, take 17 (drop 20 demo_response), drop 37 demo_response] @ [Read_Fail]) =
    Inr (demo_response @ [CHR 0x00], [Read_Fail])"
  by (rule receive_from_server_chunks [OF demo_http_response])
    (simp_all add: demo_response_def demo_header_def HEADER_TERMINATOR_def crlf_def BUFLEN_def)

end
