(* ===== verification/Http_Client.thy ===== *)
theory Http_Client
  imports Http_Helpers
begin

text \<open>
  The command loop of the library client, \<open>Teme/Tema3/client.c\<close>. One iteration reads a command from
  the standard input and performs it: it may prompt for fields, open a connection, send a request
  and look into the response. The state is what \<open>main\<close> keeps between iterations: the arrays
  \<open>cookie\<close> and \<open>jwt\<close> (\<open>None\<close> while they have never been written), the two flags, the rest of the
  input, the connections still to come, and the output so far.

  A connection is the results of its \<open>write\<close> and \<open>read\<close> calls, or \<open>None\<close> when it cannot be opened.
\<close>

datatype event = Print string | Send string

record conn =
  conn_writes :: "int list"
  conn_reads :: "read_result list"

record client =
  cookie :: "string option"
  jwt :: "string option"
  jwtAccess :: int
  loggedIn :: int
  stdin :: string
  conns :: "conn option list"
  events :: "event list"

section \<open>Input, output and connections\<close>

definition print :: "string \<Rightarrow> client \<Rightarrow> client" where
  "print s st = st\<lparr>events := events st @ [Print s]\<rparr>"

text \<open>
  \<open>fgets\<close> into an array of 200 characters; at the end of the input the array, a local of the loop
  body, keeps indeterminate contents, which the code then reads.
\<close>

definition get_line :: "client \<Rightarrow> (string \<times> client) res" where
  "get_line st = (case fgets 200 (stdin st) of
       None \<Rightarrow> Inl Uninitialised
     | Some (line, rest) \<Rightarrow> Inr (c_string line, st\<lparr>stdin := rest\<rparr>))"

text \<open>A prompt, a line and \<open>line[strcspn(line, "\n")] = 0\<close>.\<close>

definition ask :: "string \<Rightarrow> client \<Rightarrow> (string \<times> client) res" where
  "ask prompt st =
    rbind (get_line (print prompt st)) (\<lambda>(line, st). Inr (takeWhile (\<lambda>c. c \<noteq> newline) line, st))"

definition connect :: "client \<Rightarrow> (conn \<times> client) res" where
  "connect st = (case conns st of Some c # cs \<Rightarrow> Inr (c, st\<lparr>conns := cs\<rparr>) | _ \<Rightarrow> error)"

text \<open>
  \<open>sprintf\<close> into an array of 500 characters, \<open>send_to_server\<close> and \<open>receive_from_server\<close>; the result is
  the bytes of the response with the terminator. A list of \<open>write\<close> results that ends before the
  message is sent counts as a failed \<open>write\<close>.
\<close>

definition sprintf500 :: "string \<Rightarrow> string res" where
  "sprintf500 s = (if length s < 500 then Inr s else Inl Out_Of_Bounds)"

definition exchange :: "conn \<Rightarrow> string \<Rightarrow> client \<Rightarrow> (string \<times> client) res" where
  "exchange c message st =
    (case send_to_server (conn_writes c) message of
       None \<Rightarrow> error
     | Some r \<Rightarrow> rbind r (\<lambda>(sent, _).
         rbind (receive_from_server (conn_reads c)) (\<lambda>(response, _).
         Inr (response, st\<lparr>events := events st @ [Send sent]\<rparr>))))"

text \<open>\<open>strncpy\<close> into an array of \<open>n\<close> characters, and reading such an array as a string.\<close>

definition strncpy :: "nat \<Rightarrow> string \<Rightarrow> string" where
  "strncpy n src = take n (src @ replicate n CHR 0x00)"

definition array_string :: "string option \<Rightarrow> string res" where
  "array_string a = (case a of None \<Rightarrow> Inl Uninitialised
     | Some s \<Rightarrow> if CHR 0x00 \<in> set s then Inr (c_string s) else Inl Out_Of_Bounds)"

definition starts_with :: "string \<Rightarrow> string \<Rightarrow> bool" where
  "starts_with s p \<longleftrightarrow> take (length p) s = p"

definition has_error :: "string \<Rightarrow> bool" where
  "has_error response \<longleftrightarrow> strstr (c_string response) ''error'' \<noteq> None"

section \<open>Requests\<close>

definition host_line :: string where
  "host_line = ''Host: 34.118.48.238'' @ crlf"

definition credentials :: "string \<Rightarrow> string \<Rightarrow> string" where
  \<open>credentials name pass = ''{"username":"'' @ name @ ''","password":"'' @ pass @ ''"}''\<close>

definition auth_request :: "string \<Rightarrow> string \<Rightarrow> string \<Rightarrow> string" where
  "auth_request url name pass =
    (let len = 29 + int (length pass) + int (length name)
     in ''POST '' @ url @ '' HTTP/1.1'' @ crlf @ host_line @
        ''Content-Type: application/json'' @ crlf @
        ''Content-Length: '' @ show_int len @ crlf @ crlf @ credentials name pass @ crlf)"

definition access_request :: "string \<Rightarrow> string" where
  "access_request ck = ''GET /api/v1/tema/library/access HTTP/1.1'' @ crlf @ host_line @
     ''Cookie: '' @ ck @ crlf @ crlf"

definition session_lines :: "string \<Rightarrow> string \<Rightarrow> string" where
  "session_lines token ck = ''Authorization: Bearer '' @ token @ crlf @ ''Cookie: '' @ ck @ crlf"

definition session_request :: "string \<Rightarrow> string \<Rightarrow> string \<Rightarrow> string \<Rightarrow> string" where
  "session_request verb url token ck =
     verb @ '' '' @ url @ '' HTTP/1.1'' @ crlf @ host_line @ session_lines token ck @ crlf"

definition book_payload :: "string \<Rightarrow> string \<Rightarrow> string \<Rightarrow> string \<Rightarrow> string \<Rightarrow> string" where
  \<open>book_payload title author genre publisher page_count =
    ''{"title":"'' @ title @ ''","author":"'' @ author @ ''","genre":"'' @ genre @
    ''","publisher":"'' @ publisher @ ''","page_count":'' @ show_int (atoi page_count) @ ''}''\<close>

definition book_length :: "string \<Rightarrow> string \<Rightarrow> string \<Rightarrow> string \<Rightarrow> string \<Rightarrow> int" where
  "book_length title author genre publisher page_count =
    21 + 45 + int (length title) + int (length author) + int (length genre) + int (length publisher) +
    int (length page_count)"

definition book_request :: "string \<Rightarrow> string \<Rightarrow> int \<Rightarrow> string \<Rightarrow> string" where
  "book_request token ck len payload =
    ''POST /api/v1/tema/library/books HTTP/1.1'' @ crlf @ host_line @
    ''Content-Type: application/json'' @ crlf @ session_lines token ck @
    ''Content-Length: '' @ show_int len @ crlf @ crlf @ payload @ crlf"

section \<open>Commands\<close>

definition do_register :: "client \<Rightarrow> client res" where
  "do_register st =
    rbind (connect st) (\<lambda>(c, st).
    rbind (ask ''username='' st) (\<lambda>(name, st).
    rbind (ask ''password='' st) (\<lambda>(pass, st).
    rbind (sprintf500 (auth_request ''/api/v1/tema/auth/register'' name pass)) (\<lambda>message.
    rbind (exchange c message st) (\<lambda>(response, st).
    Inr (if has_error response then print (''The username is already taken'' @ [newline]) st
         else print (''Register with success'' @ [newline]) st))))))"

text \<open>Lines 74 to 81: the cookie is the response from \<open>connect.sid\<close> to 20 characters before \<open>Date:\<close>.\<close>

definition store_cookie :: "string \<Rightarrow> client \<Rightarrow> client res" where
  "store_cookie response st =
    (case strstr (c_string response) ''connect.sid'' of
       None \<Rightarrow> Inr st
     | Some start_cookie \<Rightarrow>
         (case strstr (c_string response) ''Date:'' of
            None \<Rightarrow> Inl Null_Deref
          | Some end_cookie \<Rightarrow>
              if end_cookie < 20 then Inl Out_Of_Bounds
              else let response = response[end_cookie - 20 := CHR 0x00]
                   in Inr (print (''Login with success'' @ [newline])
                       (st\<lparr>cookie := Some (strncpy 200 (c_string (drop start_cookie response))),
                           loggedIn := 1\<rparr>))))"

definition do_login :: "client \<Rightarrow> client res" where
  "do_login st =
    rbind (connect st) (\<lambda>(c, st).
    rbind (ask ''username='' st) (\<lambda>(name, st).
    rbind (ask ''password='' st) (\<lambda>(pass, st).
    rbind (sprintf500 (auth_request ''/api/v1/tema/auth/login'' name pass)) (\<lambda>message.
    rbind (exchange c message st) (\<lambda>(response, st).
    if has_error response then Inr (print ''Credentialele sunt gresite'' st)
    else store_cookie response st)))))"

text \<open>Lines 100 to 106: the token is cut out of the body.\<close>

definition store_jwt :: "string \<Rightarrow> client \<Rightarrow> client res" where
  \<open>store_jwt response st =
    (case strstr (c_string response) ''"}'' of
       None \<Rightarrow> Inl Null_Deref
     | Some end_token \<Rightarrow>
         (let response = response[end_token := CHR 0x00]
          in case strstr (c_string response) ''{"token":'' of
               None \<Rightarrow> Inl Null_Deref
             | Some start_token \<Rightarrow>
                 if length response \<le> start_token + 10 then Inl Out_Of_Bounds
                 else Inr (print (''Enter library wtih success'' @ [newline])
                       (st\<lparr>jwt := Some (strncpy 300 (c_string (drop (start_token + 10) response))),
                           jwtAccess := 1\<rparr>))))\<close>

definition do_enter_library :: "client \<Rightarrow> client res" where
  "do_enter_library st =
    (if loggedIn st \<noteq> 1 then Inr (print (''Nu esti conectat'' @ [newline]) st)
     else rbind (connect st) (\<lambda>(c, st).
          rbind (array_string (cookie st)) (\<lambda>ck.
          rbind (sprintf500 (access_request ck)) (\<lambda>message.
          rbind (exchange c message st) (\<lambda>(response, st).
          if has_error response then Inr (print ''Unkown Error'' st) else store_jwt response st)))))"

text \<open>The guard of the library commands.\<close>

definition no_access :: "client \<Rightarrow> bool" where
  "no_access st \<longleftrightarrow> loggedIn st \<noteq> 1 \<or> jwtAccess st \<noteq> 1"

definition refuse :: "client \<Rightarrow> client" where
  "refuse st = print (''Nu esti conectat la librarie'' @ [newline]) st"

text \<open>A request with the token and the cookie, and its response.\<close>

definition session_exchange :: "conn \<Rightarrow> string \<Rightarrow> string \<Rightarrow> client \<Rightarrow> (string \<times> client) res" where
  "session_exchange c verb url st =
    rbind (array_string (jwt st)) (\<lambda>token.
    rbind (array_string (cookie st)) (\<lambda>ck.
    rbind (sprintf500 (session_request verb url token ck)) (\<lambda>message.
    exchange c message st)))"

text \<open>\<open>printf("%s\n", start_json)\<close>; passing a null pointer is an error.\<close>

definition print_json :: "string \<Rightarrow> client \<Rightarrow> client res" where
  \<open>print_json response st =
    (case strstr (c_string response) ''[{"'' of
       None \<Rightarrow> Inl Null_Deref
     | Some i \<Rightarrow> Inr (print (drop i (c_string response) @ [newline]) st))\<close>

definition do_get_books :: "client \<Rightarrow> client res" where
  "do_get_books st =
    (if no_access st then Inr (refuse st)
     else rbind (connect st) (\<lambda>(c, st).
          rbind (session_exchange c ''GET'' ''/api/v1/tema/library/books'' st) (\<lambda>(response, st).
          if has_error response then Inr (print (''Unkown Error'' @ [newline]) st)
          else print_json response st)))"

definition do_get_book :: "client \<Rightarrow> client res" where
  "do_get_book st =
    (if no_access st then Inr (refuse st)
     else rbind (ask ''id='' st) (\<lambda>(i, st).
          rbind (connect st) (\<lambda>(c, st).
          rbind (session_exchange c ''GET'' (''/api/v1/tema/library/books/'' @ i) st) (\<lambda>(response, st).
          if has_error response then Inr (print (''Cartea cu acest ID nu exista'' @ [newline]) st)
          else print_json response st))))"

definition do_add_book :: "client \<Rightarrow> client res" where
  "do_add_book st =
    (if no_access st then Inr (refuse st)
     else rbind (connect st) (\<lambda>(c, st).
          rbind (ask ''title='' st) (\<lambda>(title, st).
          rbind (ask ''author='' st) (\<lambda>(author, st).
          rbind (ask ''genre='' st) (\<lambda>(genre, st).
          rbind (ask ''publisher='' st) (\<lambda>(publisher, st).
          rbind (ask ''page_count='' st) (\<lambda>(page_count, st).
          rbind (sprintf500 (book_payload title author genre publisher page_count)) (\<lambda>payload.
          rbind (array_string (jwt st)) (\<lambda>token.
          rbind (array_string (cookie st)) (\<lambda>ck.
          rbind (sprintf500 (book_request token ck
                   (book_length title author genre publisher page_count) payload)) (\<lambda>message.
          rbind (exchange c message st) (\<lambda>(response, st).
          Inr (if has_error response then print ''Datele introduse sunt gresite'' st
               else print (''Book added with success'' @ [newline]) st)))))))))))))"

definition do_delete_book :: "client \<Rightarrow> client res" where
  "do_delete_book st =
    (if no_access st then Inr (refuse st)
     else rbind (ask ''id='' st) (\<lambda>(i, st).
          rbind (connect st) (\<lambda>(c, st).
          rbind (session_exchange c ''DELETE'' (''/api/v1/tema/library/books/'' @ i) st) (\<lambda>(response, st).
          Inr (if has_error response then print (''Cartea cu acest ID nu exista'' @ [newline]) st
               else print (''Cartea a fost stearsa cu success'' @ [newline]) st)))))"

definition do_logout :: "client \<Rightarrow> client res" where
  "do_logout st =
    (if no_access st then Inr (print (''Nu esti conectat'' @ [newline]) st)
     else rbind (connect st) (\<lambda>(c, st).
          rbind (session_exchange c ''GET'' ''/api/v1/tema/auth/logout'' st) (\<lambda>(response, st).
          let st = (if has_error response then print (''Unkown error'' @ [newline]) st
                    else print (''Logout with success'' @ [newline]) st)
          in Inr (st\<lparr>loggedIn := 0, jwtAccess := 0\<rparr>))))"

definition commands_list :: string where
  "commands_list = ''Commands list: register, login, enter_library, get_books, get_book, add_book, delete_book, logout, exit'' @ [newline]"

text \<open>One iteration; \<open>None\<close> is the \<open>exit\<close> command.\<close>

definition client_step :: "client \<Rightarrow> client option res" where
  "client_step st =
    rbind (get_line st) (\<lambda>(input, st).
      if starts_with input ''exit'' then Inr None
      else rbind (if starts_with input ''register'' then do_register st
        else if starts_with input ''login'' then do_login st
        else if starts_with input ''enter_library'' then do_enter_library st
        else if starts_with input ''get_books'' then do_get_books st
        else if starts_with input ''get_book'' then do_get_book st
        else if starts_with input ''add_book'' then do_add_book st
        else if starts_with input ''delete_book'' then do_delete_book st
        else if starts_with input ''logout'' then do_logout st
        else Inr (print commands_list (print (''Comand unkown'' @ [newline]) st))) (\<lambda>st. Inr (Some st)))"

text \<open>\<open>main\<close> before the loop.\<close>

definition client_init :: "string \<Rightarrow> conn option list \<Rightarrow> client" where
  "client_init input cs = print commands_list
    \<lparr>cookie = None, jwt = None, jwtAccess = 0, loggedIn = 0, stdin = input, conns = cs, events = []\<rparr>"

text \<open>The states the loop reaches.\<close>

inductive client_reach :: "string \<Rightarrow> conn option list \<Rightarrow> client \<Rightarrow> bool" for input cs where
  start: "client_reach input cs (client_init input cs)"
| step: "client_reach input cs st \<Longrightarrow> client_step st = Inr (Some st') \<Longrightarrow> client_reach input cs st'"

section \<open>The session\<close>

definition session :: "client \<Rightarrow> string option \<times> string option \<times> int \<times> int" where
  "session st = (cookie st, jwt st, jwtAccess st, loggedIn st)"

lemma session_print [simp]: "session (print s st) = session st"
  by (simp add: session_def print_def)

lemma print_simps [simp]:
  "cookie (print s st) = cookie st" "jwt (print s st) = jwt st" "jwtAccess (print s st) = jwtAccess st"
  "loggedIn (print s st) = loggedIn st" "stdin (print s st) = stdin st" "conns (print s st) = conns st"
  "events (print s st) = events st @ [Print s]"
  by (simp_all add: print_def)

lemma session_get_line: "get_line st = Inr (l, st') \<Longrightarrow> session st' = session st"
  by (auto simp: get_line_def session_def split: option.splits)

lemma session_ask: "ask p st = Inr (l, st') \<Longrightarrow> session st' = session st"
  by (auto simp: ask_def rbind_eq_Inr_iff dest!: session_get_line)

lemma session_connect: "connect st = Inr (c, st') \<Longrightarrow> session st' = session st"
  by (auto simp: connect_def session_def error_def split: list.splits option.splits)

lemma session_exchange_fields: "exchange c message st = Inr (r, st') \<Longrightarrow> session st' = session st"
  by (auto simp: exchange_def session_def error_def rbind_eq_Inr_iff split: option.splits)

lemma session_session_exchange: "session_exchange c v u st = Inr (r, st') \<Longrightarrow> session st' = session st"
  by (auto simp: session_exchange_def rbind_eq_Inr_iff dest: session_exchange_fields)

lemmas session_steps = session_get_line session_ask session_connect session_exchange_fields
  session_session_exchange

text \<open>
  The flags are 0 or 1; library access implies being logged in; and the array a flag stands for has
  been written in full.
\<close>

definition session_inv :: "client \<Rightarrow> bool" where
  "session_inv st \<longleftrightarrow> (case session st of (ck, token, access, logged) \<Rightarrow>
     (logged = 0 \<or> logged = 1) \<and> (access = 0 \<or> access = 1) \<and>
     (access = 1 \<longrightarrow> logged = 1) \<and>
     (logged = 1 \<longrightarrow> (\<exists>s. ck = Some s \<and> length s = 200)) \<and>
     (access = 1 \<longrightarrow> (\<exists>s. token = Some s \<and> length s = 300)))"

lemma session_inv_cong: "session st' = session st \<Longrightarrow> session_inv st' = session_inv st"
  by (simp add: session_inv_def)

lemma length_strncpy [simp]: "length (strncpy n s) = n"
  by (simp add: strncpy_def)

lemma session_inv_print [simp]: "session_inv (print s st) = session_inv st"
  by (simp add: session_inv_def)

lemma store_cookie_inv:
  "session_inv st \<Longrightarrow> store_cookie response st = Inr st' \<Longrightarrow> session_inv st'"
  by (auto simp: store_cookie_def session_inv_def session_def Let_def split: option.splits if_splits)

lemma store_jwt_inv:
  "session_inv st \<Longrightarrow> loggedIn st = 1 \<Longrightarrow> store_jwt response st = Inr st' \<Longrightarrow> session_inv st'"
  by (auto simp: store_jwt_def session_inv_def session_def Let_def split: option.splits if_splits)

text \<open>
  A command keeps the invariant if each of its steps does: \<open>keeps\<close> and \<open>keeps2\<close> state it for results
  without and with a value.
\<close>

definition keeps :: "(client \<Rightarrow> bool) \<Rightarrow> client res \<Rightarrow> bool" where
  "keeps P r \<longleftrightarrow> (\<forall>st'. r = Inr st' \<longrightarrow> P st')"

definition keeps2 :: "(client \<Rightarrow> bool) \<Rightarrow> ('a \<times> client) res \<Rightarrow> bool" where
  "keeps2 P r \<longleftrightarrow> (\<forall>a st'. r = Inr (a, st') \<longrightarrow> P st')"

definition of_session :: "(client \<Rightarrow> bool) \<Rightarrow> bool" where
  "of_session P \<longleftrightarrow> (\<forall>a b. session a = session b \<longrightarrow> P a = P b)"

lemma keeps_Inr: "P st \<Longrightarrow> keeps P (Inr st)"
  by (simp add: keeps_def)

lemma keeps_if: "(c \<Longrightarrow> keeps P x) \<Longrightarrow> (\<not> c \<Longrightarrow> keeps P y) \<Longrightarrow> keeps P (if c then x else y)"
  by simp

lemma keeps_bind:
  "keeps2 P r \<Longrightarrow> (\<And>a st. P st \<Longrightarrow> keeps Q (f a st)) \<Longrightarrow> keeps Q (rbind r (case_prod f))"
  by (auto simp: keeps_def keeps2_def rbind_eq_Inr_iff)

lemma keeps_bind_value: "(\<And>a. keeps Q (f a)) \<Longrightarrow> keeps Q (rbind (r :: string res) f)"
  by (auto simp: keeps_def rbind_eq_Inr_iff)

lemma keeps_steps:
  assumes "of_session P" and "P st"
  shows "keeps2 P (get_line st)" "keeps2 P (ask p st)" "keeps2 P (connect st)"
    "keeps2 P (exchange c msg st)" "keeps2 P (session_exchange c v u st)" "P (print t st)"
proof -
  have P: "P st'" if "session st' = session st" for st'
    using assms that unfolding of_session_def by blast
  show "keeps2 P (get_line st)" "keeps2 P (ask p st)" "keeps2 P (connect st)"
      "keeps2 P (exchange c msg st)" "keeps2 P (session_exchange c v u st)" "P (print t st)"
    using session_steps by (auto simp: keeps2_def intro!: P)
qed

lemma of_session_inv: "of_session session_inv" "of_session (\<lambda>st. session_inv st \<and> loggedIn st = 1)"
  by (auto simp: of_session_def session_inv_def session_def)

lemmas inv_bind = keeps_bind [where P = session_inv and Q = session_inv]
lemmas inv_steps = keeps_steps [OF of_session_inv(1)]
lemmas inv_steps_logged = keeps_steps [OF of_session_inv(2)]

lemma keeps_store_cookie: "session_inv st \<Longrightarrow> keeps session_inv (store_cookie r st)"
  by (simp add: keeps_def store_cookie_inv)

lemma keeps_store_jwt: "session_inv st \<and> loggedIn st = 1 \<Longrightarrow> keeps session_inv (store_jwt r st)"
  by (auto simp: keeps_def dest: store_jwt_inv)

lemma keeps_print_json: "session_inv st \<Longrightarrow> keeps session_inv (print_json r st)"
  by (auto simp: keeps_def print_json_def split: option.splits)

lemma do_register_inv: "session_inv st \<Longrightarrow> keeps session_inv (do_register st)"
  unfolding do_register_def
  by (intro inv_bind keeps_bind_value keeps_Inr inv_steps; simp)

lemma do_login_inv: "session_inv st \<Longrightarrow> keeps session_inv (do_login st)"
  unfolding do_login_def
  by (intro inv_bind keeps_bind_value keeps_if keeps_Inr inv_steps keeps_store_cookie; simp)

lemma do_enter_library_inv:
  assumes "session_inv st"
  shows "keeps session_inv (do_enter_library st)"
proof (cases "loggedIn st = 1")
  case True
  with assms have inv: "session_inv st \<and> loggedIn st = 1"
    by simp
  have "keeps session_inv (rbind (connect st) (\<lambda>(c, st).
      rbind (array_string (cookie st)) (\<lambda>ck.
      rbind (sprintf500 (access_request ck)) (\<lambda>message.
      rbind (exchange c message st) (\<lambda>(response, st).
      if has_error response then Inr (print ''Unkown Error'' st) else store_jwt response st)))))"
    by (rule keeps_bind [OF inv_steps_logged(3) [OF inv]], rule keeps_bind_value, rule keeps_bind_value,
        rule keeps_bind [OF inv_steps_logged(4)], assumption)
      (auto intro: keeps_if keeps_Inr keeps_store_jwt)
  with True show ?thesis
    by (simp add: do_enter_library_def)
next
  case False
  with assms show ?thesis
    by (simp add: do_enter_library_def keeps_Inr)
qed

lemma do_get_books_inv: "session_inv st \<Longrightarrow> keeps session_inv (do_get_books st)"
  unfolding do_get_books_def refuse_def
  by (intro inv_bind keeps_bind_value keeps_if keeps_Inr inv_steps keeps_print_json; simp)

lemma do_get_book_inv: "session_inv st \<Longrightarrow> keeps session_inv (do_get_book st)"
  unfolding do_get_book_def refuse_def
  by (intro inv_bind keeps_bind_value keeps_if keeps_Inr inv_steps keeps_print_json; simp)

lemma do_add_book_inv: "session_inv st \<Longrightarrow> keeps session_inv (do_add_book st)"
  unfolding do_add_book_def refuse_def
  by (intro inv_bind keeps_bind_value keeps_if keeps_Inr inv_steps; simp)

lemma do_delete_book_inv: "session_inv st \<Longrightarrow> keeps session_inv (do_delete_book st)"
  unfolding do_delete_book_def refuse_def
  by (intro inv_bind keeps_bind_value keeps_if keeps_Inr inv_steps; simp)

lemma do_logout_inv: "session_inv st \<Longrightarrow> keeps session_inv (do_logout st)"
  unfolding do_logout_def Let_def
  by (intro inv_bind keeps_bind_value keeps_if keeps_Inr inv_steps; simp)
    (auto simp: session_inv_def session_def)

lemmas command_inv = do_register_inv do_login_inv do_enter_library_inv do_get_books_inv do_get_book_inv
  do_add_book_inv do_delete_book_inv do_logout_inv

lemma client_step_inv:
  assumes "session_inv st" and "client_step st = Inr (Some st')"
  shows "session_inv st'"
proof -
  obtain input st1 where l: "get_line st = Inr (input, st1)"
    using assms(2) by (auto simp: client_step_def rbind_eq_Inr_iff)
  have inv: "session_inv st1"
    using session_inv_cong [OF session_get_line [OF l]] assms(1) by simp
  note k = command_inv [OF inv, unfolded keeps_def, rule_format]
  show ?thesis
    using assms(2) k inv by (auto simp: client_step_def l rbind_eq_Inr_iff split: if_splits)
qed

definition session_arrays :: "client \<Rightarrow> bool" where
  "session_arrays st \<longleftrightarrow> (jwtAccess st = 1 \<longrightarrow> loggedIn st = 1) \<and>
     (loggedIn st = 1 \<longrightarrow> array_string (cookie st) \<noteq> Inl Uninitialised) \<and>
     (jwtAccess st = 1 \<longrightarrow> array_string (jwt st) \<noteq> Inl Uninitialised)"

text \<open>
  C32. Session invariant. In every state the command loop reaches, for every input and every
  behaviour of the server: library access implies being logged in, a logged-in client has written
  its whole cookie array and one with library access its whole token array, so no request is built
  from an array that was never written.
\<close>

theorem client_session_invariant:
  assumes "client_reach input cs st"
  shows "session_arrays st"
proof -
  from assms have "session_inv st"
  proof induction
    case start
    show ?case by (simp add: client_init_def session_inv_def session_def)
  next
    case (step st st')
    then show ?case using client_step_inv by blast
  qed
  then show ?thesis
    by (auto simp: session_arrays_def session_inv_def session_def array_string_def split: if_splits)
qed

text \<open>A session that logs in.\<close>

definition demo_input :: string where
  "demo_input = ''login'' @ newline # ''u'' @ newline # ''p'' @ newline # []"

definition demo_conns :: "conn option list" where
  "demo_conns = [Some \<lparr>conn_writes = [500],
     conn_reads = [Chunk (''connect.sid=s3; Path=/; HttpOnly'' @ crlf @ ''Date:'')]\<rparr>]"

lemma demo_login:
  "case client_step (client_init demo_input demo_conns) of
    Inr (Some st) \<Rightarrow> loggedIn st = 1 \<and> cookie st \<noteq> None | _ \<Rightarrow> False"
  by code_simp

theorem client_session_invariant_witness:
  "\<exists>st. client_reach demo_input demo_conns st \<and> loggedIn st = 1 \<and> cookie st \<noteq> None \<and> session_arrays st"
proof -
  obtain st where st: "client_step (client_init demo_input demo_conns) = Inr (Some st)"
      "loggedIn st = 1" "cookie st \<noteq> None"
    using demo_login by (auto split: sum.splits option.splits)
  have "client_reach demo_input demo_conns st"
    by (rule client_reach.step [OF client_reach.start st(1)])
  with st client_session_invariant [OF this] show ?thesis
    by blast
qed

section \<open>Requests and responses\<close>

lemma c_string_append: "CHR 0x00 \<notin> set s \<Longrightarrow> c_string (s @ CHR 0x00 # r) = s"
  unfolding c_string_def by (induction s) auto

lemma c_string_whole: "CHR 0x00 \<notin> set s \<Longrightarrow> c_string s = s"
  unfolding c_string_def by (induction s) auto

text \<open>
  Access control. Without both flags set, each of the library commands and \<open>logout\<close>, typed on
  a line, only prints its refusal: no connection is opened, nothing is sent, the session stays, and
  exactly that line of input is consumed.
\<close>

theorem client_refuses_without_access:
  assumes "no_access st" and "cmd \<in> set [''get_books'', ''get_book'', ''add_book'', ''delete_book'', ''logout'']"
    and "stdin st = cmd @ newline # rest"
  shows "\<exists>msg. client_step st = Inr (Some (st\<lparr>stdin := rest, events := events st @ [Print msg]\<rparr>))"
proof -
  let ?st = "st\<lparr>stdin := rest\<rparr>"
  have cmd: "newline \<notin> set cmd \<and> CHR 0x00 \<notin> set cmd \<and> length cmd < 20"
    using assms(2) unfolding list.set insert_iff empty_iff by (elim disjE; simp)
  have "fgets 200 (cmd @ newline # rest) = Some (cmd @ [newline], rest)"
    by (rule fgets_line) (use cmd in auto)
  moreover have "c_string (cmd @ [newline]) = cmd @ [newline]"
    using cmd by (intro c_string_whole) simp
  ultimately have line: "get_line st = Inr (cmd @ [newline], ?st)"
    by (simp add: get_line_def assms(3))
  have na: "no_access ?st"
    using assms(1) by (simp add: no_access_def)
  have printed: "\<exists>msg. print t ?st = st\<lparr>stdin := rest, events := events st @ [Print msg]\<rparr>" for t
    by (intro exI [of _ t]) (simp add: print_def)
  note defs = client_step_def line rbind_Inr prod.case do_get_books_def do_get_book_def do_add_book_def
    do_delete_book_def do_logout_def refuse_def na if_True
  show ?thesis
    using assms(2) unfolding list.set insert_iff empty_iff
    by (elim disjE; simp only: defs; simp add: starts_with_def printed)
qed

theorem client_refuses_without_access_witness:
  "\<exists>msg. client_step (client_init (''add_book'' @ newline # ''exit'') []) =
    Inr (Some ((client_init (''add_book'' @ newline # ''exit'') [])\<lparr>stdin := ''exit'',
      events := events (client_init (''add_book'' @ newline # ''exit'') []) @ [Print msg]\<rparr>))"
  by (rule client_refuses_without_access) (simp_all add: no_access_def client_init_def)

text \<open>
  Content lengths. The length that \<open>register\<close> and \<open>login\<close> announce is the length of their JSON
  body, for all names and passwords. The one of \<open>add_book\<close> is the length of its body with the line
  end that follows it if the page count is a number as \<open>printf\<close> writes it, and otherwise off by the
  difference between the typed text and the printed number.
\<close>

theorem client_content_lengths:
  "(\<exists>head. auth_request url name pass = head @ ''Content-Length: '' @
      show_int (int (length (credentials name pass))) @ crlf @ crlf @ credentials name pass @ crlf) \<and>
   book_length title author genre publisher pages =
     int (length (book_payload title author genre publisher pages @ crlf)) +
     (int (length pages) - int (length (show_int (atoi pages))))"
proof
  have "29 + int (length pass) + int (length name) = int (length (credentials name pass))"
    by (simp add: credentials_def)
  then show "\<exists>head. auth_request url name pass = head @ ''Content-Length: '' @
      show_int (int (length (credentials name pass))) @ crlf @ crlf @ credentials name pass @ crlf"
    unfolding auth_request_def Let_def
    by (intro exI [of _ "''POST '' @ url @ '' HTTP/1.1'' @ crlf @ host_line @
        ''Content-Type: application/json'' @ crlf"]) simp
  show "book_length title author genre publisher pages =
     int (length (book_payload title author genre publisher pages @ crlf)) +
     (int (length pages) - int (length (show_int (atoi pages))))"
    by (simp add: book_length_def book_payload_def crlf_def)
qed

text \<open>
  Login. From a response that carries \<open>connect.sid\<close> before the 20 characters in front of
  \<open>Date:\<close> (the attributes \<open>; Path=/; HttpOnly\<close> and the line end), \<open>login\<close> stores exactly the cookie in
  between, up to 199 characters, and sets the flag; the stored array reads back as that string.
\<close>

lemma array_string_strncpy:
  assumes "CHR 0x00 \<notin> set s" and "length s < n"
  shows "array_string (Some (strncpy n s)) = Inr s"
proof -
  have "strncpy n s = s @ replicate (n - length s) CHR 0x00" "0 < n - length s"
    using assms(2) by (simp_all add: strncpy_def)
  then show ?thesis
    using assms(1) c_string_append [OF assms(1)]
    by (cases "n - length s") (auto simp: array_string_def)
qed

theorem login_stores_cookie:
  assumes "response = pre @ ck @ attrs @ ''Date:'' @ post @ [CHR 0x00]" and "length attrs = 20"
    and "CHR 0x00 \<notin> set (pre @ ck @ attrs @ ''Date:'' @ post)"
    and "strstr (pre @ ck @ attrs @ ''Date:'' @ post) ''connect.sid'' = Some (length pre)"
    and "strstr (pre @ ck @ attrs @ ''Date:'' @ post) ''Date:'' = Some (length (pre @ ck @ attrs))"
    and "length ck < 200"
  shows "\<exists>st'. store_cookie response st = Inr st' \<and> loggedIn st' = 1 \<and>
    array_string (cookie st') = Inr ck \<and> jwt st' = jwt st \<and> jwtAccess st' = jwtAccess st"
proof -
  let ?s = "pre @ ck @ attrs @ ''Date:'' @ post"
  have c: "c_string response = ?s"
    using c_string_append [OF assms(3), of "[]"] by (simp add: assms(1))
  obtain a as where attrs: "attrs = a # as"
    using assms(2) by (cases attrs) auto
  have upd: "response[length (pre @ ck @ attrs) - 20 := CHR 0x00] =
      pre @ ck @ CHR 0x00 # as @ ''Date:'' @ post @ [CHR 0x00]"
    using assms(2) by (simp add: assms(1) attrs list_update_append)
  have "c_string (ck @ CHR 0x00 # rest) = ck" for rest
    using assms(3) by (intro c_string_append) simp
  then have "c_string (drop (length pre) (response[length (pre @ ck @ attrs) - 20 := CHR 0x00])) = ck"
    unfolding upd by simp
  moreover have "array_string (Some (strncpy 200 ck)) = Inr ck"
    by (rule array_string_strncpy) (use assms(3,6) in auto)
  ultimately show ?thesis
    unfolding store_cookie_def c assms(4,5) using assms(2) by (simp add: Let_def)
qed

theorem login_stores_cookie_witness:
  "\<exists>st'. store_cookie (''Set-Cookie: '' @ ''connect.sid=s3cr3t'' @ (''; Path=/; HttpOnly'' @ crlf) @ ''Date:'' @ '' Mon'' @ [CHR 0x00])
      (client_init [] []) = Inr st' \<and> loggedIn st' = 1 \<and>
    array_string (cookie st') = Inr ''connect.sid=s3cr3t'' \<and> jwt st' = jwt (client_init [] []) \<and>
    jwtAccess st' = jwtAccess (client_init [] [])"
  by (rule login_stores_cookie [OF refl]) (simp_all add: crlf_def)

text \<open>
  Library access. From a response whose JSON part is the object with the single key \<open>token\<close>,
  \<open>enter_library\<close> stores exactly the token, up to 299 characters, and sets the flag; the stored array
  reads back as the token.
\<close>

theorem enter_library_stores_token:
  assumes \<open>response = pre @ ''{"token":"'' @ token @ ''"}'' @ post @ [CHR 0x00]\<close>
    and \<open>CHR 0x00 \<notin> set (pre @ ''{"token":"'' @ token @ ''"}'' @ post)\<close>
    and \<open>strstr (pre @ ''{"token":"'' @ token @ ''"}'' @ post) ''"}'' = Some (length (pre @ ''{"token":"'' @ token))\<close>
    and \<open>strstr (pre @ ''{"token":"'' @ token) ''{"token":'' = Some (length pre)\<close>
    and "length token < 300"
  shows "\<exists>st'. store_jwt response st = Inr st' \<and> jwtAccess st' = 1 \<and>
    array_string (jwt st') = Inr token \<and> cookie st' = cookie st \<and> loggedIn st' = loggedIn st"
proof -
  let ?s = \<open>pre @ ''{"token":"'' @ token @ ''"}'' @ post\<close> and ?t = \<open>pre @ ''{"token":"'' @ token\<close>
  have c: "c_string response = ?s"
    using c_string_append [OF assms(2), of "[]"] by (simp add: assms(1))
  have upd: \<open>response[length ?t := CHR 0x00] = ?t @ CHR 0x00 # ''}'' @ post @ [CHR 0x00]\<close>
    by (simp add: assms(1) list_update_append)
  have cut: "c_string (?t @ CHR 0x00 # rest) = ?t" "c_string (token @ CHR 0x00 # rest) = token" for rest
    using assms(2) by (intro c_string_append; simp)+
  have "drop (length pre + 10) (?t @ CHR 0x00 # rest) = token @ CHR 0x00 # rest" for rest
    by simp
  then have "c_string (drop (length pre + 10) (response[length ?t := CHR 0x00])) = token"
    unfolding upd by (simp only: cut)
  moreover have "array_string (Some (strncpy 300 token)) = Inr token"
    by (rule array_string_strncpy) (use assms(2,5) in auto)
  moreover have "strstr (c_string (response[length ?t := CHR 0x00])) ''{\"token\":'' = Some (length pre)"
    unfolding upd cut by (rule assms(4))
  moreover have "length pre + 10 < length (response[length ?t := CHR 0x00])"
    by (simp add: assms(1))
  ultimately show ?thesis
    unfolding store_jwt_def c assms(3) by (simp add: Let_def)
qed

theorem enter_library_stores_token_witness:
  \<open>\<exists>st'. store_jwt (''HTTP/1.1 200 OK'' @ ''{"token":"'' @ ''eyJh.x-y'' @ ''"}'' @ [] @ [CHR 0x00]) (client_init [] []) = Inr st' \<and>
    jwtAccess st' = 1 \<and> array_string (jwt st') = Inr ''eyJh.x-y'' \<and>
    cookie st' = cookie (client_init [] []) \<and> loggedIn st' = loggedIn (client_init [] [])\<close>
  by (rule enter_library_stores_token [OF refl]) simp_all

text \<open>
  The message array. \<open>register\<close> builds its request in an array of 500 characters. For a name and a
  password typed on two lines of at most 198 characters, it sends the request if together they have
  at most 350 characters, and otherwise writes outside the array.
\<close>

lemma length_show_nat_lower: "100 \<le> n \<Longrightarrow> 3 \<le> length (show_nat n)"
proof -
  assume n: "100 \<le> n"
  have "show_nat n = (show_nat (n div 10 div 10) @ [digit_char (n div 10 mod 10)]) @ [digit_char (n mod 10)]"
    using n by (subst show_nat.simps, subst show_nat.simps [of "n div 10"]) simp
  moreover have "show_nat (n div 10 div 10) \<noteq> []"
    by simp
  ultimately show ?thesis
    by (cases "show_nat (n div 10 div 10)") auto
qed

lemma length_register_request:
  "length (auth_request ''/api/v1/tema/auth/register'' name pass) =
    146 + length name + length pass + length (show_nat (29 + length name + length pass))"
proof -
  have "show_int (29 + int (length pass) + int (length name)) = show_nat (29 + length name + length pass)"
    by (simp add: show_int_def nat_add_distrib ac_simps)
  then show ?thesis
    by (simp add: auth_request_def credentials_def host_line_def crlf_def)
qed

lemma ask_line:
  assumes "stdin st = l @ newline # rest" and "newline \<notin> set l" and "CHR 0x00 \<notin> set l" and "length l \<le> 198"
  shows "ask p st = Inr (l, st\<lparr>stdin := rest, events := events st @ [Print p]\<rparr>)"
proof -
  have "fgets 200 (l @ newline # rest) = Some (l @ [newline], rest)"
    by (rule fgets_line) (use assms in auto)
  moreover have "c_string (l @ [newline]) = l @ [newline]"
    using assms(3) by (intro c_string_whole) simp
  moreover have "takeWhile (\<lambda>c. c \<noteq> newline) (l @ [newline]) = l"
    using assms(2) by (induction l) auto
  ultimately show ?thesis
    by (simp add: ask_def get_line_def assms(1) print_def)
qed

theorem register_message_array:
  assumes "conns st = Some c # cs" and "stdin st = name @ newline # pass @ newline # rest"
    and "newline \<notin> set (name @ pass)" and "CHR 0x00 \<notin> set (name @ pass)"
    and "length name \<le> 198" and "length pass \<le> 198"
    and "request = auth_request ''/api/v1/tema/auth/register'' name pass"
    and "st' = st\<lparr>conns := cs, stdin := rest,
      events := events st @ [Print ''username='', Print ''password='']\<rparr>"
  shows "do_register st =
    (if length name + length pass \<le> 350 then
       rbind (exchange c request st') (\<lambda>(response, st).
         Inr (print ((if has_error response then ''The username is already taken'' else ''Register with success'')
           @ [newline]) st))
     else Inl Out_Of_Bounds)"
proof -
  let ?st1 = "st\<lparr>conns := cs\<rparr>"
  let ?st2 = "?st1\<lparr>stdin := pass @ newline # rest, events := events st @ [Print ''username='']\<rparr>"
  have 1: "connect st = Inr (c, ?st1)"
    by (simp add: connect_def assms(1))
  have 2: "ask ''username='' ?st1 = Inr (name, ?st2)"
    using ask_line [of ?st1 name "pass @ newline # rest" "''username=''"] assms(2-5) by simp
  have 3: "ask ''password='' ?st2 = Inr (pass, st')"
    using ask_line [of ?st2 pass rest "''password=''"] assms(3,4,6,8) by simp
  have "length (show_nat (29 + length name + length pass)) \<le> 3"
    using length_show_nat [of "29 + length name + length pass" 3] assms(5,6) by simp
  moreover have "350 < length name + length pass \<Longrightarrow> 3 \<le> length (show_nat (29 + length name + length pass))"
    by (rule length_show_nat_lower) simp
  ultimately have "length request < 500 \<longleftrightarrow> length name + length pass \<le> 350"
    unfolding assms(7) length_register_request by linarith
  then have 4: "sprintf500 request = (if length name + length pass \<le> 350 then Inr request else Inl Out_Of_Bounds)"
    by (simp add: sprintf500_def)
  show ?thesis
    unfolding do_register_def 1 rbind_Inr prod.case 2 3 assms(7) [symmetric] 4
    by (simp add: if_distrib [where f = "\<lambda>t. print t _"] if_distrib [where f = "\<lambda>t. t @ _"] cong: if_cong)
qed

theorem register_message_array_witness:
  "do_register ((client_init (''ana'' @ newline # ''pw'' @ newline # ''exit'') [Some \<lparr>conn_writes = [7], conn_reads = []\<rparr>])) =
    (if length ''ana'' + length ''pw'' \<le> 350 then
       rbind (exchange \<lparr>conn_writes = [7], conn_reads = []\<rparr>
          (auth_request ''/api/v1/tema/auth/register'' ''ana'' ''pw'')
          ((client_init (''ana'' @ newline # ''pw'' @ newline # ''exit'') [Some \<lparr>conn_writes = [7], conn_reads = []\<rparr>])
            \<lparr>conns := [], stdin := ''exit'', events :=
              events (client_init (''ana'' @ newline # ''pw'' @ newline # ''exit'') [Some \<lparr>conn_writes = [7], conn_reads = []\<rparr>])
              @ [Print ''username='', Print ''password='']\<rparr>)) (\<lambda>(response, st).
         Inr (print ((if has_error response then ''The username is already taken'' else ''Register with success'')
           @ [newline]) st))
     else Inl Out_Of_Bounds)"
  by (rule register_message_array [OF _ _ _ _ _ _ refl refl]) (simp_all add: client_init_def)

end
