(* ===== verification/Http_Requests.thy ===== *)
theory Http_Requests
  imports Http_Helpers
begin

text \<open>
  The request builders of \<open>Lab10/requests.c\<close>, with their arrays of \<open>BUFLEN\<close> and \<open>LINELEN\<close>
  characters, and the client program \<open>Lab10/client.c\<close> that uses them: a fixed sequence of requests
  to a server and to a weather service.

  The arrays of strings are lists; a negative or too large count indexes outside them.
\<close>

section \<open>Building requests\<close>

text \<open>\<open>sprintf\<close> into an array of \<open>LINELEN\<close> characters.\<close>

definition set_line :: "string \<Rightarrow> string res" where
  "set_line s = (if length s < LINELEN then Inr s else Inl Out_Of_Bounds)"

definition add_line :: "string \<Rightarrow> string \<Rightarrow> string res" where
  "add_line message s = rbind (set_line s) (compute_message BUFLEN message)"

text \<open>The loop over the cookies, from index \<open>i\<close>, with \<open>n\<close> of them left.\<close>

fun cookie_loop :: "string list \<Rightarrow> nat \<Rightarrow> nat \<Rightarrow> string \<Rightarrow> string res" where
  "cookie_loop cookies i 0 line = Inr line"
| "cookie_loop cookies i (Suc n) line =
     (if i < length cookies then
        rbind (strcat LINELEN line (cookies ! i)) (\<lambda>line.
        rbind (strcat LINELEN line '';'') (\<lambda>line.
        cookie_loop cookies (Suc i) n line))
      else Inl Out_Of_Bounds)"

definition add_cookies :: "string list option \<Rightarrow> int \<Rightarrow> string \<Rightarrow> string res" where
  "add_cookies cookies cookies_count message = (case cookies of
       None \<Rightarrow> Inr message
     | Some cs \<Rightarrow>
         rbind (set_line ''Cookie: '') (\<lambda>line.
         rbind (cookie_loop cs 0 (nat cookies_count) line) (\<lambda>line.
         compute_message BUFLEN message line)))"

definition compute_get_request ::
  "string \<Rightarrow> string \<Rightarrow> string option \<Rightarrow> string list option \<Rightarrow> int \<Rightarrow> string res" where
  "compute_get_request host url query_params cookies cookies_count =
    rbind (add_line [] (case query_params of
        Some q \<Rightarrow> ''GET '' @ url @ ''?'' @ q @ '' HTTP/1.1''
      | None \<Rightarrow> ''GET '' @ url @ '' HTTP/1.1'')) (\<lambda>message.
    rbind (add_line message (''Host: '' @ host)) (\<lambda>message.
    rbind (add_cookies cookies cookies_count message) (\<lambda>message.
    compute_message BUFLEN message [])))"

text \<open>The loop over the body fields: the body so far and \<open>contentLen\<close>.\<close>

fun body_loop :: "string list \<Rightarrow> nat \<Rightarrow> nat \<Rightarrow> string \<Rightarrow> int \<Rightarrow> (string \<times> int) res" where
  "body_loop body_data i 0 body_data_buffer contentLen = Inr (body_data_buffer, contentLen)"
| "body_loop body_data i (Suc n) body_data_buffer contentLen =
     (if i < length body_data then
        rbind (set_line (body_data ! i)) (\<lambda>line.
        rbind (if 0 < n then strcat LINELEN line ''&'' else Inr line) (\<lambda>line.
        rbind (strcat LINELEN body_data_buffer line) (\<lambda>body_data_buffer.
        body_loop body_data (Suc i) n body_data_buffer
          (contentLen + int (length (body_data ! i)) + (if 0 < n then 1 else 0)))))
      else Inl Out_Of_Bounds)"

definition compute_post_request ::
  "string \<Rightarrow> string \<Rightarrow> string \<Rightarrow> string list \<Rightarrow> int \<Rightarrow> string list option \<Rightarrow> int \<Rightarrow> string res" where
  "compute_post_request host url content_type body_data body_data_fields_count cookies cookies_count =
    rbind (add_line [] (''POST '' @ url @ '' HTTP/1.1'')) (\<lambda>message.
    rbind (add_line message (''Host: '' @ host)) (\<lambda>message.
    rbind (add_line message (''Content-Type: '' @ content_type)) (\<lambda>message.
    rbind (body_loop body_data 0 (nat body_data_fields_count) [] 0) (\<lambda>(body_data_buffer, contentLen).
    rbind (add_line message (''Content-Length: '' @ show_int contentLen)) (\<lambda>message.
    rbind (add_cookies cookies cookies_count message) (\<lambda>message.
    rbind (compute_message BUFLEN message []) (\<lambda>message.
    compute_message BUFLEN message body_data_buffer)))))))"

section \<open>What they build\<close>

text \<open>The flds of a body, separated by ampersands, and a cookie line.\<close>

fun join_fields :: "string list \<Rightarrow> string" where
  "join_fields [] = []"
| "join_fields [f] = f"
| "join_fields (f # g # fs) = f @ ''&'' @ join_fields (g # fs)"

definition cookie_line :: "string list option \<Rightarrow> nat \<Rightarrow> string" where
  "cookie_line cookies n = (case cookies of None \<Rightarrow> []
     | Some cs \<Rightarrow> ''Cookie: '' @ concat (map (\<lambda>c. c @ '';'') (take n cs)) @ crlf)"

definition cookies_fit :: "string list option \<Rightarrow> nat \<Rightarrow> bool" where
  "cookies_fit cookies n = (case cookies of None \<Rightarrow> True
     | Some cs \<Rightarrow> n \<le> length cs \<and> length (''Cookie: '' @ concat (map (\<lambda>c. c @ '';'') (take n cs))) < LINELEN)"

lemma add_line_ok:
  "length s < LINELEN \<Longrightarrow> length message + length s + 2 < BUFLEN \<Longrightarrow>
    add_line message s = Inr (message @ s @ crlf)"
  by (simp add: add_line_def set_line_def compute_message_eq)

lemma cookie_loop_ok:
  assumes "i + n \<le> length cs"
    and "length (line @ concat (map (\<lambda>c. c @ '';'') (take n (drop i cs)))) < LINELEN"
  shows "cookie_loop cs i n line = Inr (line @ concat (map (\<lambda>c. c @ '';'') (take n (drop i cs))))"
  using assms
proof (induction cs i n line rule: cookie_loop.induct)
  case (2 cookies i n line)
  have d: "drop i cookies = cookies ! i # drop (Suc i) cookies"
    using "2.prems"(1) by (simp add: Cons_nth_drop_Suc)
  have 1: "strcat LINELEN line (cookies ! i) = Inr (line @ cookies ! i)"
    "strcat LINELEN (line @ cookies ! i) '';'' = Inr ((line @ cookies ! i) @ '';'')"
    using "2.prems"(2) by (simp_all add: strcat_def d)
  have "cookie_loop cookies (Suc i) n ((line @ cookies ! i) @ '';'') =
      Inr (((line @ cookies ! i) @ '';'') @ concat (map (\<lambda>c. c @ '';'') (take n (drop (Suc i) cookies))))"
    by (rule "2.IH") (use "2.prems" in \<open>auto simp: d\<close>)
  then show ?case
    using "2.prems"(1) 1 by (simp add: d)
qed simp

lemma add_cookies_ok:
  assumes "cookies_fit cookies n" and "length message + length (cookie_line cookies n) < BUFLEN"
  shows "add_cookies cookies (int n) message = Inr (message @ cookie_line cookies n)"
proof (cases cookies)
  case None
  then show ?thesis by (simp add: add_cookies_def cookie_line_def)
next
  case (Some cs)
  have "cookie_loop cs 0 n ''Cookie: '' = Inr (''Cookie: '' @ concat (map (\<lambda>c. c @ '';'') (take n (drop 0 cs))))"
    by (rule cookie_loop_ok) (use assms(1) Some in \<open>simp_all add: cookies_fit_def\<close>)
  then show ?thesis
    using assms(2) Some
    by (simp add: add_cookies_def set_line_def LINELEN_def compute_message_eq cookie_line_def crlf_def)
qed

lemma join_fields_Cons: "fs \<noteq> [] \<Longrightarrow> join_fields (f # fs) = f @ ''&'' @ join_fields fs"
  by (cases fs) auto

lemma body_loop_ok:
  assumes "i + n \<le> length flds"
    and "length body + length (join_fields (take n (drop i flds))) < LINELEN"
  shows "body_loop flds i n body len =
    Inr (body @ join_fields (take n (drop i flds)), len + int (length (join_fields (take n (drop i flds)))))"
  using assms
proof (induction flds i n body len rule: body_loop.induct)
  case (2 flds i n body len)
  have d: "drop i flds = flds ! i # drop (Suc i) flds"
    using "2.prems"(1) by (simp add: Cons_nth_drop_Suc)
  let ?rest = "take n (drop (Suc i) flds)"
  show ?case
  proof (cases n)
    case 0
    then show ?thesis
      using "2.prems" by (simp add: d set_line_def strcat_def)
  next
    case (Suc k)
    then have ne: "?rest \<noteq> []"
      using "2.prems"(1) by simp
    have j: "join_fields (take (Suc n) (drop i flds)) = flds ! i @ ''&'' @ join_fields ?rest"
      by (simp add: d join_fields_Cons [OF ne])
    have len: "length body + length (flds ! i) + 1 + length (join_fields ?rest) < LINELEN"
      using "2.prems"(2) by (simp add: j)
    have 1: "set_line (flds ! i) = Inr (flds ! i)" "strcat LINELEN (flds ! i) ''&'' = Inr (flds ! i @ ''&'')"
      "strcat LINELEN body (flds ! i @ ''&'') = Inr (body @ flds ! i @ ''&'')"
      using len by (simp_all add: set_line_def strcat_def)
    have "body_loop flds (Suc i) n (body @ flds ! i @ ''&'')
          (len + int (length (flds ! i)) + (if 0 < n then 1 else 0)) =
        Inr ((body @ flds ! i @ ''&'') @ join_fields ?rest,
          (len + int (length (flds ! i)) + (if 0 < n then 1 else 0)) + int (length (join_fields ?rest)))"
      using "2.prems"(1) len Suc by (intro "2.IH") simp_all
    moreover have "0 < n" "i < length flds"
      using Suc "2.prems"(1) by simp_all
    ultimately show ?thesis
      using 1 by (simp add: j del: take_Suc_conv_app_nth)
  qed
qed simp

text \<open>
  Requests. When the lines fit their arrays, \<open>compute_post_request\<close> builds a well-formed request:
  request line, host, content type, a content length that is the length of the body, the first
  \<open>n\<close> cookies each followed by a semicolon, an empty line, and the body, its fields joined by
  ampersands. \<open>compute_get_request\<close> builds the same without the body.
\<close>

theorem compute_requests_correct:
  assumes "body = join_fields (take k flds)" and "k \<le> length flds" and "length body < LINELEN"
    and "cookies_fit cookies n"
    and "length url + 14 < LINELEN" and "length host + 6 < LINELEN" and "length content_type + 14 < LINELEN"
    and "post = ''POST '' @ url @ '' HTTP/1.1'' @ crlf @ ''Host: '' @ host @ crlf @
      ''Content-Type: '' @ content_type @ crlf @ ''Content-Length: '' @ show_int (int (length body)) @ crlf @
      cookie_line cookies n @ crlf @ body @ crlf"
    and "length post < BUFLEN"
    and "get = ''GET '' @ url @ '' HTTP/1.1'' @ crlf @ ''Host: '' @ host @ crlf @ cookie_line cookies n @ crlf"
  shows "compute_post_request host url content_type flds (int k) cookies (int n) = Inr post \<and>
    compute_get_request host url None cookies (int n) = Inr get"
proof
  let ?l1 = "''POST '' @ url @ '' HTTP/1.1''" and ?l2 = "''Host: '' @ host" and ?l3 = "''Content-Type: '' @ content_type"
    and ?l4 = "''Content-Length: '' @ show_int (int (length body))"
  have total: "length url + length host + length content_type + length (show_int (int (length body))) +
      length (cookie_line cookies n) + length body + 62 < BUFLEN"
    using assms(9) by (simp add: assms(8) crlf_def)
  have digits: "length (show_int (int (length body))) + 16 < LINELEN"
    using length_show_int [of "int (length body)"] assms(3) by (simp add: LINELEN_def)
  have m1: "add_line [] ?l1 = Inr (?l1 @ crlf)"
    by (subst add_line_ok) (use assms(5) total in simp_all)
  have m2: "add_line m ?l2 = Inr (m @ ?l2 @ crlf)" if "length m + length host + 8 < BUFLEN" for m
    by (rule add_line_ok) (use assms(6) that in simp_all)
  have m3: "add_line m ?l3 = Inr (m @ ?l3 @ crlf)" if "length m + length content_type + 16 < BUFLEN" for m
    by (rule add_line_ok) (use assms(7) that in simp_all)
  have m4: "add_line m ?l4 = Inr (m @ ?l4 @ crlf)"
    if "length m + length (show_int (int (length body))) + 18 < BUFLEN" for m
    by (rule add_line_ok) (use digits that in simp_all)
  have mb: "body_loop flds 0 k [] 0 = Inr (body, int (length body))"
    using body_loop_ok [of 0 k flds "[]" 0] assms(1-3) by simp
  show "compute_post_request host url content_type flds (int k) cookies (int n) = Inr post"
    unfolding compute_post_request_def m1 rbind_Inr nat_int
    using total
    by (simp add: m2 m3 m4 mb crlf_def add_cookies_ok [OF assms(4)] compute_message_eq assms(8)
        del: append_Cons)
  have g1: "add_line [] (''GET '' @ url @ '' HTTP/1.1'') = Inr (''GET '' @ url @ '' HTTP/1.1'' @ crlf)"
    by (subst add_line_ok) (use assms(5) total in simp_all)
  show "compute_get_request host url None cookies (int n) = Inr get"
    unfolding compute_get_request_def option.case g1 rbind_Inr
    using total
    by (simp add: m2 crlf_def add_cookies_ok [OF assms(4)] compute_message_eq assms(10) del: append_Cons)
qed

theorem compute_requests_correct_witness:
  "let fs = [''username=student'', ''password=student'']; body = join_fields (take 2 fs);
       cs = Some [''connect.sid=1'']; url = ''/api/v1/auth/login''; host = ''34.118.48.238'';
       content_type = ''application/x-www-form-urlencoded'' in
    compute_post_request host url content_type fs (int 2) cs (int 1) = Inr (
      ''POST '' @ url @ '' HTTP/1.1'' @ crlf @ ''Host: '' @ host @ crlf @
      ''Content-Type: '' @ content_type @ crlf @ ''Content-Length: '' @ show_int (int (length body)) @ crlf @
      cookie_line cs 1 @ crlf @ body @ crlf) \<and>
    compute_get_request host url None cs (int 1) = Inr (
      ''GET '' @ url @ '' HTTP/1.1'' @ crlf @ ''Host: '' @ host @ crlf @ cookie_line cs 1 @ crlf)"
proof -
  have "show_int 33 = ''33''"
    by code_simp
  then show ?thesis
    unfolding Let_def
    by (intro compute_requests_correct [OF refl _ _ _ _ _ _ refl _ refl])
      (simp_all add: cookies_fit_def cookie_line_def LINELEN_def BUFLEN_def crlf_def)
qed

section \<open>The client program\<close>

record http_link =
  link_writes :: "int list"
  link_reads :: "read_result list"

text \<open>Sending a message on an open connection and receiving the response.\<close>

definition transact :: "http_link \<Rightarrow> string \<Rightarrow> (string \<times> http_link) res" where
  "transact c message =
    (case send_to_server (link_writes c) message of
       None \<Rightarrow> error
     | Some r \<Rightarrow> rbind r (\<lambda>(sent, ws).
         rbind (receive_from_server (link_reads c)) (\<lambda>(response, rs).
         Inr (response, \<lparr>link_writes = ws, link_reads = rs\<rparr>))))"

text \<open>A heap block that may have been freed, and reading a string in it from an offset.\<close>

definition read_block :: "string option \<Rightarrow> nat \<Rightarrow> string res" where
  "read_block blk i = (case blk of None \<Rightarrow> Inl Dangling_Pointer
     | Some s \<Rightarrow> if i < length s then Inr (c_string (drop i s)) else Inl Out_Of_Bounds)"

definition form :: string where
  "form = ''application/x-www-form-urlencoded''"

definition host_api :: string where
  "host_api = ''34.118.48.238''"

text \<open>Lines 68 to 70: 96 bytes of the response from \<open>connect.sid\<close>, in a zeroed array of 100.\<close>

definition api_key :: "string \<Rightarrow> string res" where
  "api_key response = (case strstr (c_string response) ''connect.sid'' of
       None \<Rightarrow> Inl Null_Deref
     | Some i \<Rightarrow> if i + 96 \<le> length response then Inr (take 96 (drop i response) @ replicate 4 CHR 0x00)
               else Inl Out_Of_Bounds)"

text \<open>Lines 102 and 103: the offset of the key in the response, which is cut two characters before its end.\<close>

definition weather_key :: "string \<Rightarrow> (nat \<times> string) res" where
  "weather_key response = (case basic_extract_json_response (c_string response) of
       None \<Rightarrow> Inl Null_Deref
     | Some json \<Rightarrow>
         (let i = length (c_string response) - length json + 8
          in rbind (read_block (Some response) i) (\<lambda>key.
             if length key < 2 then Inl Out_Of_Bounds
             else Inr (i, response[i + length key - 2 := CHR 0x00]))))"

text \<open>
  \<open>main\<close>: the responses printed. \<open>weatherKeyCookie\<close> points into \<open>response\<close>, which is freed in line 106
  and read through that pointer in line 112.
\<close>

definition lab10_main :: "http_link option \<Rightarrow> http_link option \<Rightarrow> string list res" where
  "lab10_main server weather = (case server of None \<Rightarrow> error | Some c \<Rightarrow>
    rbind (compute_get_request host_api ''/api/v1/dummy'' None None 0) (\<lambda>message.
    rbind (transact c message) (\<lambda>(r1, c).
    rbind (compute_post_request host_api ''/api/v1/dummy'' form [''key1=value1''] 1 None 0) (\<lambda>message.
    rbind (transact c message) (\<lambda>(r2, c).
    rbind (compute_post_request host_api ''/api/v1/auth/login'' form
             [''username=student'', ''password=student''] 2 None 0) (\<lambda>message.
    rbind (transact c message) (\<lambda>(r3, c).
    rbind (api_key r3) (\<lambda>apiKeyCookie.
    let cookies = Some [c_string apiKeyCookie] in
    rbind (compute_post_request host_api ''/api/v1/auth/login'' form
             [''username=student'', ''password=student''] 2 cookies 1) (\<lambda>message.
    rbind (transact c message) (\<lambda>(r4, c).
    rbind (compute_get_request host_api ''/api/v1/weather/key'' None cookies 1) (\<lambda>message.
    rbind (transact c message) (\<lambda>(r5, c).
    rbind (weather_key r5) (\<lambda>(weatherKeyCookie, _).
    let response = None in
    case weather of None \<Rightarrow> error | Some w \<Rightarrow>
    rbind (read_block response weatherKeyCookie) (\<lambda>key.
    rbind (if 21 + length key < 100 then Inr (''lat=45&lon=23&appid='' @ key) else Inl Out_Of_Bounds) (\<lambda>query_params.
    rbind (compute_get_request ''api.openweathermap.org'' ''/data/2.5/weather'' (Some query_params) None 0) (\<lambda>message.
    rbind (transact w message) (\<lambda>(r6, w).
    rbind (compute_get_request host_api ''/api/v1/auth/logout'' None cookies 1) (\<lambda>message.
    rbind (transact c message) (\<lambda>(r7, c).
    Inr (map c_string [r1, r2, r3, r4, r5, r6, r7]))))))))))))))))))))"

lemma rbind_Inl_all: "(\<And>a. r = Inr a \<Longrightarrow> \<exists>e. f a = Inl e) \<Longrightarrow> \<exists>e. rbind r f = Inl e"
  by (cases r) auto

text \<open>
  The client program never finishes normally: whatever the two servers answer, it stops with an
  error, at the latest when it reads the weather key through a pointer into the response it has
  freed.
\<close>

theorem lab10_main_fails: "\<exists>e. lab10_main server weather = Inl e"
proof (cases server)
  case None
  then show ?thesis by (simp add: lab10_main_def error_def)
next
  case (Some c)
  show ?thesis
    unfolding lab10_main_def Some option.case Let_def
    by (intro rbind_Inl_all; clarify)+
      (auto simp: read_block_def error_def split: option.splits)
qed

end
