(* ===== verification/Lab04_Router.thy ===== *)
theory Lab04_Router
  imports Router_Frames
begin

text \<open>
  The static router of \<open>Lab04\<close>: longest-prefix lookup by a linear scan, a static ARP table read from
  a file, and a loop that forwards IPv4 packets. The packet layout, the checksum and the textual
  hardware addresses are those of the other router (\<open>Lab04/skel.c\<close> has the same text for them). The
  routing table is read by \<open>read_rtable\<close>, which is only present as an object file, so the table is a
  parameter.
\<close>

section \<open>Longest prefix\<close>

text \<open>
  The loop of \<open>get_best_route\<close>, from index \<open>i\<close>. \<open>maskMax\<close> is an \<open>int\<close>, converted to unsigned in the
  comparison with a mask.
\<close>

fun best_route_loop :: "route_table_entry list \<Rightarrow> u32 \<Rightarrow> int \<Rightarrow> int \<Rightarrow> int \<Rightarrow> int" where
  "best_route_loop [] dest_ip i best maskMax = best"
| "best_route_loop (e # es) dest_ip i best maskMax =
     (if dest_ip AND rt_mask e = rt_prefix e \<and> of_int maskMax < rt_mask e
      then best_route_loop es dest_ip (i + 1) i (sint (rt_mask e))
      else best_route_loop es dest_ip (i + 1) best maskMax)"

definition best_route :: "route_table_entry list \<Rightarrow> u32 \<Rightarrow> route_table_entry option" where
  "best_route rt dest_ip =
    (let found = best_route_loop rt dest_ip 0 (- 1) 0
     in if found = - 1 then None else Some (rt ! nat found))"

text \<open>The entry the loop holds, as a fold over the entries.\<close>

definition better :: "u32 \<Rightarrow> route_table_entry option \<Rightarrow> route_table_entry \<Rightarrow> route_table_entry option" where
  "better d best e =
    (if d AND rt_mask e = rt_prefix e \<and> (case best of None \<Rightarrow> 0 | Some b \<Rightarrow> rt_mask b) < rt_mask e
     then Some e else best)"

lemma best_route_loop_fold:
  assumes "(best = - 1 \<and> maskMax = 0 \<and> held = None) \<or>
      (\<exists>b. 0 \<le> best \<and> best < i \<and> held = Some b \<and> rt ! nat best = b \<and> maskMax = sint (rt_mask b))"
    and "0 \<le> i" and "drop (nat i) rt = es"
  shows "(let found = best_route_loop es d i best maskMax
      in if found = - 1 then None else Some (rt ! nat found)) = foldl (better d) held es"
  using assms
proof (induction es arbitrary: i best maskMax held)
  case Nil
  then show ?case by auto
next
  case (Cons e es)
  have e: "rt ! nat i = e" "drop (nat (i + 1)) rt = es"
  proof -
    show "rt ! nat i = e"
      using Cons.prems(3) by (rule nth_via_drop)
    have "drop (nat (i + 1)) rt = tl (drop (nat i) rt)"
      using Cons.prems(2) by (simp add: nat_add_distrib drop_Suc flip: drop_tl)
    then show "drop (nat (i + 1)) rt = es"
      using Cons.prems(3) by simp
  qed
  have cmp: "of_int maskMax = (case held of None \<Rightarrow> 0 | Some b \<Rightarrow> rt_mask b)"
    using Cons.prems(1) by auto
  show ?case
  proof (cases "d AND rt_mask e = rt_prefix e \<and> of_int maskMax < rt_mask e")
    case True
    have "(let found = best_route_loop es d (i + 1) i (sint (rt_mask e))
        in if found = - 1 then None else Some (rt ! nat found)) = foldl (better d) (Some e) es"
      by (rule Cons.IH) (use e Cons.prems(2) in auto)
    moreover have "better d held e = Some e"
      using True unfolding better_def cmp by simp
    ultimately show ?thesis
      using True by simp
  next
    case False
    have "(let found = best_route_loop es d (i + 1) best maskMax
        in if found = - 1 then None else Some (rt ! nat found)) = foldl (better d) held es"
      by (rule Cons.IH) (use e Cons.prems in auto)
    moreover have "better d held e = held"
      using False unfolding better_def cmp by auto
    ultimately show ?thesis
      using False by auto
  qed
qed

lemma best_route_fold: "best_route rt d = foldl (better d) None rt"
  unfolding best_route_def by (rule best_route_loop_fold) auto

lemma foldl_better_held:
  "foldl (better d) (Some b) rt = Some r \<Longrightarrow>
    (r = b \<or> (r \<in> set rt \<and> matches d r)) \<and> rt_mask b \<le> rt_mask r \<and>
    (\<forall>e \<in> set rt. matches d e \<longrightarrow> rt_mask e \<le> rt_mask r)"
proof (induction rt arbitrary: b)
  case (Cons e rt)
  show ?case
  proof (cases "d AND rt_mask e = rt_prefix e \<and> rt_mask b < rt_mask e")
    case True
    then have "better d (Some b) e = Some e"
      by (simp add: better_def)
    with Cons.prems have "foldl (better d) (Some e) rt = Some r"
      by simp
    from Cons.IH [OF this] True show ?thesis
      by (auto simp: matches_def)
  next
    case False
    then have "better d (Some b) e = Some b"
      by (auto simp: better_def)
    with Cons.prems have "foldl (better d) (Some b) rt = Some r"
      by simp
    from Cons.IH [OF this] False show ?thesis
      by (auto simp: matches_def)
  qed
qed simp

lemma foldl_better_Some: "foldl (better d) (Some b) rt \<noteq> None"
  by (induction rt arbitrary: b) (auto simp: better_def)

lemma foldl_better:
  "(case foldl (better d) None rt of
      None \<Rightarrow> \<forall>e \<in> set rt. matches d e \<longrightarrow> rt_mask e = 0
    | Some r \<Rightarrow> r \<in> set rt \<and> matches d r \<and> (\<forall>e \<in> set rt. matches d e \<longrightarrow> rt_mask e \<le> rt_mask r))"
proof (induction rt)
  case (Cons e rt)
  show ?case
  proof (cases "d AND rt_mask e = rt_prefix e \<and> 0 < rt_mask e")
    case True
    then have "better d None e = Some e"
      by (simp add: better_def)
    with True show ?thesis
      using foldl_better_Some [of d e rt] foldl_better_held [of d e rt]
      by (auto simp: matches_def split: option.splits)
  next
    case False
    then have n: "better d None e = None" and z: "matches d e \<Longrightarrow> rt_mask e = 0"
      by (auto simp: better_def matches_def word_gt_0)
    from Cons n z show ?thesis
      by (auto split: option.splits)
  qed
qed simp

text \<open>
  The mask of a prefix length, as it is stored: in network byte order, on a little-endian machine.
\<close>

definition netmask :: "nat \<Rightarrow> u32" where
  "netmask k = htonl (- push_bit (32 - k) 1)"

lemma netmask_step: "k < 32 \<Longrightarrow> netmask k < netmask (Suc k)"
proof -
  have "\<forall>k < 32. netmask k < netmask (Suc k)"
    by code_simp
  then show "k < 32 \<Longrightarrow> netmask k < netmask (Suc k)"
    by blast
qed

lemma netmask_mono: "k \<le> l \<Longrightarrow> l \<le> 32 \<Longrightarrow> netmask k \<le> netmask l"
proof (induction l)
  case (Suc l)
  then show ?case
    using netmask_step [of l] by (cases "k = Suc l") auto
qed simp

lemma netmask_less_iff: "k \<le> 32 \<Longrightarrow> l \<le> 32 \<Longrightarrow> netmask k \<le> netmask l \<longleftrightarrow> k \<le> l"
  using netmask_mono [of k l] netmask_mono [of "Suc l" k] netmask_step [of l]
  by (metis Suc_le_eq leD le_neq_implies_less less_le_trans linorder_not_le)

lemma netmask_eq_0: "k \<le> 32 \<Longrightarrow> netmask k = 0 \<longleftrightarrow> k = 0"
proof -
  have z: "netmask 0 = 0"
    by code_simp
  show "k \<le> 32 \<Longrightarrow> netmask k = 0 \<longleftrightarrow> k = 0"
    using netmask_less_iff [of k 0] by (auto simp: z)
qed

lemma best_route_nonzero:
  assumes "best_route rt d = Some r"
  shows "rt_mask r \<noteq> 0"
proof
  assume z: "rt_mask r = 0"
  with assms have "\<forall>e \<in> set rt. matches d e \<longrightarrow> rt_mask e = 0"
    using foldl_better [of rt d] by (simp add: best_route_fold)
  then have "foldl (better d) None rt = None"
    by (induction rt) (auto simp: better_def matches_def)
  with assms show False
    by (simp add: best_route_fold)
qed


text \<open>
  C31. The lookup of the static router returns the longest prefix: when every mask of the table is the
  mask of a prefix length, the route found matches the destination, is an entry of the table and has
  the greatest prefix length among the matching entries; no route is found exactly when the matching
  entries all have length 0. In particular a default route is never used.
\<close>

theorem best_route_longest_prefix:
  assumes "\<forall>e \<in> set rt. bits e \<le> 32 \<and> rt_mask e = netmask (bits e)"
  shows "(\<forall>r. best_route rt d = Some r \<longrightarrow> r \<in> set rt \<and> matches d r \<and>
      (\<forall>e \<in> set rt. matches d e \<longrightarrow> bits e \<le> bits r)) \<and>
    (best_route rt d = None \<longleftrightarrow> (\<forall>e \<in> set rt. matches d e \<longrightarrow> bits e = 0))"
proof (cases "best_route rt d")
  case None
  then have "\<forall>e \<in> set rt. matches d e \<longrightarrow> rt_mask e = 0"
    using foldl_better [of rt d] by (simp add: best_route_fold)
  then have "\<forall>e \<in> set rt. matches d e \<longrightarrow> bits e = 0"
    using assms netmask_eq_0 by metis
  with None show ?thesis
    by simp
next
  case (Some r)
  then have r: "r \<in> set rt" "matches d r" "\<forall>e \<in> set rt. matches d e \<longrightarrow> rt_mask e \<le> rt_mask r"
    using foldl_better [of rt d] by (simp_all add: best_route_fold)
  have "bits e \<le> bits r" if "e \<in> set rt" and "matches d e" for e
  proof -
    have "netmask (bits e) \<le> netmask (bits r)"
      using r(1,3) assms that by metis
    then show ?thesis
      using r(1) assms that(1) by (simp add: netmask_less_iff)
  qed
  moreover have "bits r \<noteq> 0"
    using best_route_nonzero [OF Some] r(1) assms netmask_eq_0 [of "bits r"] by auto
  ultimately show ?thesis
    using Some r(1,2) by auto
qed

theorem best_route_longest_prefix_witness:
  "(let rt = [\<lparr>rt_prefix = 0x0000000A, rt_next_hop = 1, rt_mask = 0x000000FF, rt_interface = 0\<rparr>,
       \<lparr>rt_prefix = 0x0000010A, rt_next_hop = 2, rt_mask = 0x0000FFFF, rt_interface = 1\<rparr>];
     bits = (\<lambda>e. if rt_interface e = 0 then 8 else 16)
   in (\<forall>r. best_route rt 0x0503010A = Some r \<longrightarrow> r \<in> set rt \<and> matches 0x0503010A r \<and>
      (\<forall>e \<in> set rt. matches 0x0503010A e \<longrightarrow> bits e \<le> (bits r :: nat))) \<and>
    (best_route rt 0x0503010A = None \<longleftrightarrow> (\<forall>e \<in> set rt. matches 0x0503010A e \<longrightarrow> bits e = 0)))"
proof -
  have "netmask 8 = 0xFF" and "netmask 16 = 0xFFFF"
    by code_simp+
  then show ?thesis
    unfolding Let_def by (intro best_route_longest_prefix) simp
qed

end
