(* ===== verification/Lab04_Run.thy ===== *)
theory Lab04_Run
  imports Lab04_Router
begin

text \<open>
  The static router of \<open>Lab04\<close>, continued: the ARP table read from its file (\<open>parse_arp_table\<close> of
  \<open>skel.c\<close>), the four interfaces, and the loop of \<open>main\<close> in \<open>router.c\<close>. \<open>msg\<close> of \<open>Lab04/skel.h\<close> has
  the fields of the other router's \<open>packet\<close>, \<open>socket_receive_message\<close>, \<open>get_sock\<close>, \<open>hwaddr_aton\<close> and
  \<open>ip_checksum\<close> are the same text.
\<close>

section \<open>The ARP table\<close>

text \<open>
  \<open>inet_addr\<close>: one to four numbers separated by dots, each decimal, octal (leading 0) or hexadecimal
  (leading 0x). All but the last are single bytes, the last fills what remains of the address.
\<close>

fun digits_in :: "int \<Rightarrow> int \<Rightarrow> string \<Rightarrow> int \<times> string" where
  "digits_in base v [] = (v, [])"
| "digits_in base v (c # s) =
     (if 0 \<le> hex2num c \<and> hex2num c < base then digits_in base (base * v + hex2num c) s
      else (v, c # s))"

definition strtoul_0 :: "string \<Rightarrow> int \<times> string" where
  "strtoul_0 s =
    (if cur s = CHR ''0'' \<and> cur (tl s) \<in> {CHR ''x'', CHR ''X''} \<and> 0 \<le> hex2num (cur (tl (tl s)))
     then digits_in 16 0 (tl (tl s))
     else if cur s = CHR ''0'' then digits_in 8 0 s
     else digits_in 10 0 s)"

fun addr_parts :: "nat \<Rightarrow> string \<Rightarrow> int list option" where
  "addr_parts 0 s = None"
| "addr_parts (Suc n) s =
     (if \<not> is_digit (cur s) then None
      else let (v, r) = strtoul_0 s
           in if 0xffffffff < v then None
              else if cur r = CHR ''.'' then
                (if 255 < v then None else map_option ((#) v) (addr_parts n (tl r)))
              else if r = [] \<or> is_space (hd r) then Some [v] else None)"

definition parse_addr :: "string \<Rightarrow> u32 option" where
  "parse_addr s = (case addr_parts 4 s of
       Some [d] \<Rightarrow> Some (htonl (of_int d))
     | Some [a, d] \<Rightarrow> if d < 2 ^ 24 then Some (htonl (of_int (a * 2 ^ 24 + d))) else None
     | Some [a, b, d] \<Rightarrow>
         if d < 2 ^ 16 then Some (htonl (of_int (a * 2 ^ 24 + b * 2 ^ 16 + d))) else None
     | Some [a, b, c, d] \<Rightarrow>
         if d < 2 ^ 8 then Some (htonl (of_int (a * 2 ^ 24 + b * 2 ^ 16 + c * 2 ^ 8 + d))) else None
     | _ \<Rightarrow> None)"

definition inet_addr :: "string \<Rightarrow> u32" where
  "inet_addr s = (case parse_addr s of None \<Rightarrow> 0xffffffff | Some a \<Rightarrow> a)"

text \<open>
  One line: both words go to arrays of 50 characters; a word that is missing leaves its array
  unwritten.
\<close>

definition parse_arp_line :: "string \<Rightarrow> arp_entry res" where
  "parse_arp_line line = (case scan_s line of
       None \<Rightarrow> Inl Uninitialised
     | Some (ip_str, rest) \<Rightarrow>
         if 50 \<le> length ip_str then Inl Out_Of_Bounds
         else (case scan_s rest of
             None \<Rightarrow> Inl Uninitialised
           | Some (mac_str, _) \<Rightarrow>
               if 50 \<le> length mac_str then Inl Out_Of_Bounds
               else let (rc, bytes) = hwaddr_aton mac_str
                    in if rc < 0 then Inl (Exit 1)
                       else Inr \<lparr>ip = inet_addr ip_str, mac = bytes\<rparr>))"

text \<open>The loop; \<open>arp_table\<close> has room for 100 entries.\<close>

function parse_arp_lines :: "arp_entry list \<Rightarrow> string \<Rightarrow> arp_entry list res" where
  "parse_arp_lines tab s =
    (case fgets 100 s of None \<Rightarrow> Inr tab
     | Some (line, s') \<Rightarrow>
         rbind (parse_arp_line line) (\<lambda>e.
           if 100 \<le> length tab then Inl Out_Of_Bounds else parse_arp_lines (tab @ [e]) s'))"
  by pat_completeness auto

termination
  by (relation "measure (\<lambda>(tab, s). length s)") (auto dest: fgets_progress)

declare parse_arp_lines.simps [simp del]

definition parse_arp_table :: "string option \<Rightarrow> arp_entry list res" where
  "parse_arp_table file = (case file of None \<Rightarrow> Inl (Exit 1) | Some s \<Rightarrow> parse_arp_lines [] s)"

section \<open>The interfaces\<close>

definition STATIC_NUM_INTERFACES :: nat where
  "STATIC_NUM_INTERFACES = 4"

record static_router =
  sr_interfaces :: "int list"
  sr_rtable :: "route_table_entry list"
  sr_arp :: "arp_entry list"
  sr_buf :: packet

text \<open>The result of \<open>write\<close> is returned and ignored by \<open>main\<close>; the frame is what \<open>write\<close> is given.\<close>

definition static_send_packet :: "int list \<Rightarrow> int \<Rightarrow> packet \<Rightarrow> frame res" where
  "static_send_packet interfaces sockfd m =
    (if sockfd < 0 \<or> int (length interfaces) \<le> sockfd then Inl Out_Of_Bounds
     else if pkt_len m < 0 \<or> int (length (payload m)) < pkt_len m then Inl Out_Of_Bounds
     else Inr (interfaces ! nat sockfd, take (nat (pkt_len m)) (payload m)))"

text \<open>\<open>socket_send_message\<close>, which no other function calls; it stops the program on a write error.\<close>

definition socket_send_message :: "(int \<Rightarrow> u8 list \<Rightarrow> int) \<Rightarrow> int \<Rightarrow> packet \<Rightarrow> int res" where
  "socket_send_message write_result sockfd m =
    (let ret = write_result sockfd (take (nat (pkt_len m)) (payload m))
     in if ret = - 1 then Inl (Exit 1) else Inr ret)"

fun static_get_packet :: "readable list list \<Rightarrow> packet \<Rightarrow> (packet \<times> readable list list) option res" where
  "static_get_packet [] m = Inr None"
| "static_get_packet (sel # sels) m =
     rbind (scan_ready 0 (take STATIC_NUM_INTERFACES sel) m) (\<lambda>r. case r of
       None \<Rightarrow> static_get_packet sels m
     | Some m' \<Rightarrow> Inr (Some (m', sels)))"

text \<open>The name asked for in \<open>get_interface_mac\<close> has the socket's number in it, not the interface's.\<close>

definition static_interface_ip :: "net_env \<Rightarrow> int list \<Rightarrow> int \<Rightarrow> string res" where
  "static_interface_ip env interfaces interface =
    (if interface < 0 \<or> int (length interfaces) \<le> interface then Inl Out_Of_Bounds
     else Inr (inet_ntoa (ioctl_addr env (''r-'' @ show_nat (unat (of_int interface :: u32))))))"

definition static_interface_mac :: "net_env \<Rightarrow> int list \<Rightarrow> int \<Rightarrow> u8 list res" where
  "static_interface_mac env interfaces interface =
    (if interface < 0 \<or> int (length interfaces) \<le> interface then Inl Out_Of_Bounds
     else Inr (take 6 (ioctl_hwaddr env
       (''r-'' @ show_nat (unat (of_int (interfaces ! nat interface) :: u32))))))"

definition static_init :: "(string \<Rightarrow> int option) \<Rightarrow> int list res" where
  "static_init open_socket =
    rbind (get_sock open_socket ''r-0'') (\<lambda>s0.
    rbind (get_sock open_socket ''r-1'') (\<lambda>s1.
    rbind (get_sock open_socket ''r-2'') (\<lambda>s2.
    rbind (get_sock open_socket ''r-3'') (\<lambda>s3. Inr [s0, s1, s2, s3]))))"

section \<open>The loop\<close>

fun static_get_arp_entry :: "arp_entry list \<Rightarrow> u32 \<Rightarrow> arp_entry option" where
  "static_get_arp_entry [] a = None"
| "static_get_arp_entry (e # es) a = (if a = ip e then Some e else static_get_arp_entry es a)"

text \<open>
  The iteration after \<open>get_packet\<close>. \<open>memcpy\<close> from the entry and the access to \<open>route->interface\<close>
  happen whether or not the lookups found something.
\<close>

definition static_step :: "static_router \<Rightarrow> (static_router \<times> frame list) res" where
  "static_step st =
    (let b = payload (sr_buf st)
     in if ip_checksum 2 (block 14 20 b) \<noteq> 0 then Inr (st, [])
        else if ttl (ip_hdr b) \<le> 1 then Inr (st, [])
        else let route = best_route (sr_rtable st) (daddr (ip_hdr b));
                 b1 = update_ip b
             in case static_get_arp_entry (sr_arp st) (daddr (ip_hdr b1)) of
                  None \<Rightarrow> Inl Null_Deref
                | Some entry \<Rightarrow>
                    let m = (sr_buf st)\<lparr>payload := write_at 0 (mac entry) b1\<rparr>
                    in case route of
                         None \<Rightarrow> Inl Null_Deref
                       | Some r \<Rightarrow>
                           rbind (static_send_packet (sr_interfaces st) (rt_interface r) m) (\<lambda>f.
                             Inr (st\<lparr>sr_buf := m\<rparr>, [f])))"

lemma static_get_packet_progress:
  "static_get_packet sels p = Inr (Some (p', sels')) \<Longrightarrow> length sels' < length sels"
  by (induction sels) (auto simp: rbind_eq_Inr_iff split: option.splits)

function static_run ::
  "static_router \<Rightarrow> readable list list \<Rightarrow> frame list \<Rightarrow> (static_router \<times> frame list) res" where
  "static_run st sels out =
    (case static_get_packet sels (sr_buf st) of
       Inl e \<Rightarrow> Inl e
     | Inr None \<Rightarrow> Inr (st, out)
     | Inr (Some (p, sels')) \<Rightarrow>
         (case static_step (st\<lparr>sr_buf := p\<rparr>) of
            Inl e \<Rightarrow> Inl e
          | Inr (st', out') \<Rightarrow> static_run st' sels' (out @ out')))"
  by pat_completeness auto

termination
  by (relation "measure (\<lambda>(st, sels, out). length sels)") (auto dest: static_get_packet_progress)

declare static_run.simps [simp del]

text \<open>
  \<open>main\<close>, with the result of \<open>read_rtable\<close> (an object file), the contents of \<open>arp_table.txt\<close>, the
  initial contents of the buffer and the results of \<open>select\<close>.
\<close>

definition static_main ::
  "(string \<Rightarrow> int option) \<Rightarrow> route_table_entry list \<Rightarrow> string option \<Rightarrow> packet \<Rightarrow> readable list list \<Rightarrow>
    (static_router \<times> frame list) res" where
  "static_main open_socket rt file m0 sels =
    rbind (static_init open_socket) (\<lambda>socks.
    rbind (parse_arp_table file) (\<lambda>arp.
    static_run \<lparr>sr_interfaces = socks, sr_rtable = rt, sr_arp = arp, sr_buf = m0\<rparr> sels []))"

section \<open>Reading back an ARP table\<close>

definition render_arp :: "arp_entry list \<Rightarrow> string" where
  "render_arp es =
    concat (map (\<lambda>e. inet_ntoa (ip e) @ CHR '' '' # show_hwaddr (mac e) @ [newline]) es)"

lemma hex2num_is_digit: "is_digit c \<Longrightarrow> hex2num c = int (digit_val c) \<and> digit_val c < 10"
  by (auto simp: hex2num_def is_digit_def digit_val_def Let_def)

lemma digits_in_digits:
  assumes "\<forall>c \<in> set ds. is_digit c" and "r = [] \<or> hd r = CHR ''.''"
  shows "digits_in 10 (int v) (ds @ r) = (int (foldl (\<lambda>v c. 10 * v + digit_val c) v ds), r)"
  using assms(1)
proof (induction ds arbitrary: v)
  case Nil
  have "hex2num CHR ''.'' = - 1"
    by code_simp
  then show ?case
    using assms(2) by (cases r) auto
next
  case (Cons c ds)
  then have c: "hex2num c = int (digit_val c)" "digit_val c < 10"
    using hex2num_is_digit by auto
  have "digits_in 10 (int v) ((c # ds) @ r) = digits_in 10 (int (10 * v + digit_val c)) (ds @ r)"
    using c by simp
  also have "\<dots> = (int (foldl (\<lambda>v c. 10 * v + digit_val c) (10 * v + digit_val c) ds), r)"
    by (rule Cons.IH) (use Cons.prems in simp)
  finally show ?case by simp
qed

lemma strtoul_0_show_nat:
  assumes r: "r = [] \<or> hd r = CHR ''.''"
  shows "strtoul_0 (show_nat n @ r) = (int n, r)"
proof -
  have nx: "cur r \<noteq> CHR ''x'' \<and> cur r \<noteq> CHR ''X''"
    using r by (cases r) (auto simp: cur_def)
  have dot: "hex2num CHR ''.'' = - 1" "hex2num CHR ''0'' = 0"
    by code_simp+
  show ?thesis
  proof (cases "n = 0")
    case True
    then have "show_nat n = [CHR ''0'']"
      by (subst show_nat.simps) (simp add: digit_char_def, code_simp)
    with True r dot nx show ?thesis
      by (cases r) (auto simp: strtoul_0_def cur_def)
  next
    case False
    then have "cur (show_nat n @ r) \<noteq> CHR ''0''"
      using hd_show_nat_0 [of n] by (cases "show_nat n") (auto simp: cur_def)
    moreover have "digits_in 10 0 (show_nat n @ r) = (int n, r)"
      using digits_in_digits [of "show_nat n" r 0] show_nat_digits [of n] r dec_val_show_nat [of n]
      by (simp add: dec_val_def)
    ultimately show ?thesis
      by (simp add: strtoul_0_def)
  qed
qed

lemma addr_parts_dot:
  assumes "n < 256"
  shows "addr_parts (Suc k) (show_nat n @ CHR ''.'' # r) = map_option ((#) (int n)) (addr_parts k r)"
proof -
  have "is_digit (cur (show_nat n @ CHR ''.'' # r))"
    using hd_show_nat [of n] by (cases "show_nat n") (auto simp: cur_def)
  with assms show ?thesis
    by (simp add: strtoul_0_show_nat) (simp add: cur_def)
qed

lemma addr_parts_end:
  assumes "n < 256"
  shows "addr_parts (Suc k) (show_nat n) = Some [int n]"
proof -
  have "is_digit (cur (show_nat n))"
    using hd_show_nat [of n] by (cases "show_nat n") (auto simp: cur_def)
  moreover have "strtoul_0 (show_nat n) = (int n, [])"
    using strtoul_0_show_nat [of "[]" n] by simp
  ultimately show ?thesis
    using assms by (simp add: cur_def)
qed

lemma of_int_mk32:
  "of_int (int (unat a) * 2 ^ 24 + int (unat b) * 2 ^ 16 + int (unat c) * 2 ^ 8 + int (unat d)) =
    mk32 a b c d"
proof -
  have "mk32 a b c d = of_int (int (unat (mk32 a b c d)))"
    by simp
  then show ?thesis
    unfolding unat_mk32 by simp
qed

lemma parse_addr_inet_ntoa: "parse_addr (inet_ntoa a) = Some a"
proof -
  let ?b = "\<lambda>i. byte32 i a"
  have lt: "unat (?b i) < 256" for i
    by (rule unat_bound8)
  have lt3: "uint (?b 3) < 256"
  proof -
    have "int (unat (?b 3)) < 256"
      using lt [of 3] by linarith
    then show ?thesis by simp
  qed
  have "addr_parts 4 (inet_ntoa a) =
      Some [int (unat (?b 0)), int (unat (?b 1)), int (unat (?b 2)), int (unat (?b 3))]"
    using lt by (simp add: inet_ntoa_def dotted_def numeral_eq_Suc addr_parts_dot addr_parts_end
        del: addr_parts.simps)
  then have "parse_addr (inet_ntoa a) = Some (htonl (mk32 (?b 0) (?b 1) (?b 2) (?b 3)))"
    using lt3 unfolding parse_addr_def by (simp only: of_int_mk32 [symmetric]) simp
  then show ?thesis
    by (simp add: htonl_def)
qed

lemma inet_addr_inet_ntoa: "inet_addr (inet_ntoa a) = a"
  by (simp add: inet_addr_def parse_addr_inet_ntoa)

lemma hex_digit_no_space:
  assumes "d < 16"
  shows "\<not> is_space (hex_digit d)" and "hex_digit d \<noteq> newline"
proof -
  have "0 \<le> hex2num (hex_digit d)"
    using hex2num_digit [OF assms] by simp
  then have "hex2num (hex_digit d) \<noteq> - 1"
    by linarith
  moreover have "is_space c \<Longrightarrow> hex2num c = - 1" for c
    by (auto simp: is_space_def hex2num_def Let_def)
  ultimately show "\<not> is_space (hex_digit d)"
    by blast
  then show "hex_digit d \<noteq> newline"
    by auto
qed

lemma show_hwaddr_props:
  "\<forall>c \<in> set (show_hwaddr bs). \<not> is_space c" "length (show_hwaddr bs) \<le> 3 * length bs"
  "bs \<noteq> [] \<Longrightarrow> show_hwaddr bs \<noteq> []"
proof -
  have colon: "\<not> is_space CHR '':''"
    by code_simp
  show "\<forall>c \<in> set (show_hwaddr bs). \<not> is_space c"
    by (induction bs rule: show_hwaddr.induct)
      (auto simp: show_byte_def hex_digit_no_space nibbles colon)
  show "length (show_hwaddr bs) \<le> 3 * length bs"
    by (induction bs rule: show_hwaddr.induct) (auto simp: show_byte_def)
  show "bs \<noteq> [] \<Longrightarrow> show_hwaddr bs \<noteq> []"
    by (induction bs rule: show_hwaddr.induct) (auto simp: show_byte_def)
qed

lemma parse_arp_line_render:
  assumes "length (mac e) = 6"
  shows "parse_arp_line (inet_ntoa (ip e) @ CHR '' '' # show_hwaddr (mac e) @ [newline]) = Inr e"
proof -
  have ne: "mac e \<noteq> []"
    using assms by auto
  have "scan_s (inet_ntoa (ip e) @ CHR '' '' # show_hwaddr (mac e) @ [newline]) =
      Some (inet_ntoa (ip e), CHR '' '' # show_hwaddr (mac e) @ [newline])"
    by (rule scan_s_token) (simp_all add: inet_ntoa_props)
  moreover have "scan_s (CHR '' '' # show_hwaddr (mac e) @ [newline]) =
      Some (show_hwaddr (mac e), [newline])"
    unfolding scan_s_skip [OF is_space_blank(1)]
    by (rule scan_s_token) (simp_all add: show_hwaddr_props ne)
  moreover have "length (inet_ntoa (ip e)) < 50" "length (show_hwaddr (mac e)) < 50"
    using inet_ntoa_props(3) [of "ip e"] show_hwaddr_props(2) [of "mac e"] assms by simp_all
  ultimately show ?thesis
    using assms by (simp add: parse_arp_line_def hwaddr_aton_show inet_addr_inet_ntoa not_le)
qed

lemma fgets_render_arp:
  assumes "length (mac e) = 6"
  shows "fgets 100 ((inet_ntoa (ip e) @ CHR '' '' # show_hwaddr (mac e)) @ newline # r) =
    Some ((inet_ntoa (ip e) @ CHR '' '' # show_hwaddr (mac e)) @ [newline], r)"
proof (rule fgets_line)
  have nl: "c \<noteq> newline" if "\<not> is_space c" for c
    using that by auto
  show "\<forall>c \<in> set (inet_ntoa (ip e) @ CHR '' '' # show_hwaddr (mac e)). c \<noteq> newline"
    using inet_ntoa_props(1) [of "ip e"] show_hwaddr_props(1) [of "mac e"] nl by auto
  show "length (inet_ntoa (ip e) @ CHR '' '' # show_hwaddr (mac e)) + 1 < 100"
    using inet_ntoa_props(3) [of "ip e"] show_hwaddr_props(2) [of "mac e"] assms by simp
qed

lemma parse_arp_lines_render:
  assumes "\<forall>e \<in> set es. length (mac e) = 6" and "length tab + length es \<le> 100"
  shows "parse_arp_lines tab (render_arp es) = Inr (tab @ es)"
  using assms
proof (induction es arbitrary: tab)
  case Nil
  then show ?case
    by (subst parse_arp_lines.simps) (simp add: render_arp_def fgets_def)
next
  case (Cons e es)
  have e: "length (mac e) = 6"
    using Cons.prems(1) by simp
  have "parse_arp_lines tab (render_arp (e # es)) = parse_arp_lines (tab @ [e]) (render_arp es)"
    using Cons.prems(2) fgets_render_arp [OF e, of "render_arp es"] parse_arp_line_render [OF e]
    by (subst parse_arp_lines.simps) (simp add: render_arp_def)
  also have "\<dots> = Inr (tab @ e # es)"
    using Cons.IH [of "tab @ [e]"] Cons.prems by simp
  finally show ?case .
qed

text \<open>
  Reading back the static ARP table: on the file with one line \<open>address hwaddr\<close> for each of at
  most 100 entries, \<open>parse_arp_table\<close> succeeds and stores exactly these entries in order, addresses
  in network byte order.
\<close>

theorem parse_arp_table_render:
  assumes "\<forall>e \<in> set es. length (mac e) = 6" and "length es \<le> 100"
  shows "parse_arp_table (Some (render_arp es)) = Inr es"
  using parse_arp_lines_render [OF assms(1), of "[]"] assms(2) by (simp add: parse_arp_table_def)

theorem parse_arp_table_render_witness:
  "parse_arp_table (Some (render_arp [\<lparr>ip = 0x0200A8C0, mac = [2, 0, 0, 0xAB, 9, 1]\<rparr>])) =
    Inr [\<lparr>ip = 0x0200A8C0, mac = [2, 0, 0, 0xAB, 9, 1]\<rparr>]"
  by (rule parse_arp_table_render) simp_all

end
