(* ===== verification/Lab04_Props.thy ===== *)
theory Lab04_Props
  imports Lab04_Run Router_Props
begin

text \<open>
  What one iteration of the static router does with the frame in its buffer, on every branch, and the
  run of the whole program on a sequence of frames.
\<close>

lemma static_step_discard:
  assumes "ip_checksum 2 (block 14 20 (payload (sr_buf st))) \<noteq> 0 \<or> ttl (ip_hdr (payload (sr_buf st))) \<le> 1"
  shows "static_step st = Inr (st, [])"
  using assms by (auto simp: static_step_def Let_def)

lemma static_step_valid:
  assumes "34 \<le> length (payload (sr_buf st))"
    and "ip_checksum 2 (block 14 20 (payload (sr_buf st))) = 0" and "\<not> ttl (ip_hdr (payload (sr_buf st))) \<le> 1"
  shows "static_step st =
    (case (static_get_arp_entry (sr_arp st) (daddr (ip_hdr (payload (sr_buf st)))),
        best_route (sr_rtable st) (daddr (ip_hdr (payload (sr_buf st))))) of
       (Some entry, Some r) \<Rightarrow>
         (let m = (sr_buf st)\<lparr>payload := write_at 0 (mac entry) (update_ip (payload (sr_buf st)))\<rparr>
          in rbind (static_send_packet (sr_interfaces st) (rt_interface r) m) (\<lambda>f.
               Inr (st\<lparr>sr_buf := m\<rparr>, [f])))
     | _ \<Rightarrow> Inl Null_Deref)"
  using assms by (auto simp: static_step_def Let_def daddr_update_ip split: option.splits)

lemma static_get_arp_entry_mem: "static_get_arp_entry es a = Some e \<Longrightarrow> e \<in> set es \<and> ip e = a"
  by (induction es) (auto split: if_splits)

lemma best_route_mem: "best_route rt d = Some r \<Longrightarrow> r \<in> set rt \<and> matches d r"
  using foldl_better [of rt d] by (simp add: best_route_fold)

text \<open>
  C30. The static router, on every branch. A frame whose IP header has a wrong checksum or a TTL of at
  most 1 is dropped without effect (the comment in the source asks for a TTL of at least 1 only). Any
  other frame is sent on the interface of the longest matching prefix, with the destination hardware
  address of the ARP entry, the TTL one less, a checksum that verifies and no other change, the source
  hardware address included (the comment in the source asks to update both); and if the table has no
  matching route, or no ARP entry for the destination address itself (not for the next hop), the
  program reads through a null pointer.
\<close>

theorem static_router_forwards:
  assumes "length (payload (sr_buf st)) = MAX_LEN" "0 \<le> pkt_len (sr_buf st)" "pkt_len (sr_buf st) \<le> int MAX_LEN"
    and "\<forall>e \<in> set (sr_arp st). length (mac e) = 6"
    and "\<forall>r \<in> set (sr_rtable st). 0 \<le> rt_interface r \<and> rt_interface r < int (length (sr_interfaces st))"
  shows "let b = payload (sr_buf st); h = ip_hdr b;
      entry = static_get_arp_entry (sr_arp st) (daddr h); route = best_route (sr_rtable st) (daddr h)
    in (ip_checksum 2 (block 14 20 b) \<noteq> 0 \<or> ttl h \<le> 1 \<longrightarrow> static_step st = Inr (st, [])) \<and>
      (ip_checksum 2 (block 14 20 b) = 0 \<and> 1 < ttl h \<longrightarrow>
        (if entry = None \<or> route = None then static_step st = Inl Null_Deref
         else \<exists>b'. static_step st = Inr (st\<lparr>sr_buf := (sr_buf st)\<lparr>payload := b'\<rparr>\<rparr>,
               [(sr_interfaces st ! nat (rt_interface (the route)), take (nat (pkt_len (sr_buf st))) b')]) \<and>
             length b' = MAX_LEN \<and>
             block 0 6 b' = mac (the entry) \<and> block 6 8 b' = block 6 8 b \<and> drop 34 b' = drop 34 b \<and>
             ip_hdr b' = h\<lparr>ttl := ttl h - 1, check := check (ip_hdr b')\<rparr> \<and>
             ip_checksum 2 (block 14 20 b') = 0))"
proof -
  let ?b = "payload (sr_buf st)" and ?h = "ip_hdr (payload (sr_buf st))"
  let ?entry = "static_get_arp_entry (sr_arp st) (daddr ?h)" and ?route = "best_route (sr_rtable st) (daddr ?h)"
  have len: "34 \<le> length ?b"
    using assms(1) by (simp add: MAX_LEN_def)
  show ?thesis
  proof (cases "ip_checksum 2 (block 14 20 ?b) \<noteq> 0 \<or> ttl ?h \<le> 1")
    case True
    then show ?thesis
      using static_step_discard [of st] by (auto simp: Let_def not_less)
  next
    case False
    then have step: "static_step st = (case (?entry, ?route) of (Some entry, Some r) \<Rightarrow>
         (let m = (sr_buf st)\<lparr>payload := write_at 0 (mac entry) (update_ip ?b)\<rparr>
          in rbind (static_send_packet (sr_interfaces st) (rt_interface r) m) (\<lambda>f. Inr (st\<lparr>sr_buf := m\<rparr>, [f])))
       | _ \<Rightarrow> Inl Null_Deref)"
      using static_step_valid [OF len] by blast
    show ?thesis
    proof (cases "?entry = None \<or> ?route = None")
      case True
      then show ?thesis
        using False step by (auto simp: Let_def split: option.splits)
    next
      case found: False
      then obtain e r where er: "?entry = Some e" "?route = Some r"
        by auto
      have e: "length (mac e) = 6"
        using static_get_arp_entry_mem [OF er(1)] assms(4) by blast
      have r: "0 \<le> rt_interface r" "rt_interface r < int (length (sr_interfaces st))"
        using best_route_mem [OF er(2)] assms(5) by auto
      define b' where "b' = write_at 0 (mac e) (update_ip ?b)"
      have wl: "length b' = MAX_LEN"
        using e update_ip_props(1) [OF len] assms(1) by (simp add: b'_def MAX_LEN_def)
      have "static_step st = Inr (st\<lparr>sr_buf := (sr_buf st)\<lparr>payload := b'\<rparr>\<rparr>,
          [(sr_interfaces st ! nat (rt_interface r), take (nat (pkt_len (sr_buf st))) b')])"
        using step er r wl assms(2,3) by (simp add: static_send_packet_def Let_def b'_def)
      moreover have "length b' = MAX_LEN"
        by (rule wl)
      moreover note edited_frame [OF len e, folded b'_def]
      ultimately show ?thesis
        using False er by (auto simp: Let_def)
    qed
  qed
qed

theorem static_router_forwards_witness:
  "let st = \<lparr>sr_interfaces = [3, 4, 5, 6], sr_rtable = [demo_route], sr_arp = [demo_arp],
        sr_buf = demo_packet (udp_frame 64 0x65CD)\<rparr> in
    let b = payload (sr_buf st); h = ip_hdr b;
      entry = static_get_arp_entry (sr_arp st) (daddr h); route = best_route (sr_rtable st) (daddr h)
    in (ip_checksum 2 (block 14 20 b) \<noteq> 0 \<or> ttl h \<le> 1 \<longrightarrow> static_step st = Inr (st, [])) \<and>
      (ip_checksum 2 (block 14 20 b) = 0 \<and> 1 < ttl h \<longrightarrow>
        (if entry = None \<or> route = None then static_step st = Inl Null_Deref
         else \<exists>b'. static_step st = Inr (st\<lparr>sr_buf := (sr_buf st)\<lparr>payload := b'\<rparr>\<rparr>,
               [(sr_interfaces st ! nat (rt_interface (the route)), take (nat (pkt_len (sr_buf st))) b')]) \<and>
             length b' = MAX_LEN \<and>
             block 0 6 b' = mac (the entry) \<and> block 6 8 b' = block 6 8 b \<and> drop 34 b' = drop 34 b \<and>
             ip_hdr b' = h\<lparr>ttl := ttl h - 1, check := check (ip_hdr b')\<rparr> \<and>
             ip_checksum 2 (block 14 20 b') = 0))"
  unfolding Let_def [of "\<lparr>sr_interfaces = _, sr_rtable = _, sr_arp = _, sr_buf = _\<rparr>"]
  by (rule static_router_forwards)
    (simp_all add: demo_packet_def demo_route_def demo_arp_def MAX_LEN_def)

end
