(* ===== verification/Emulator_Queue.thy ===== *)
theory Emulator_Queue
  imports Fifo_Spec Cell_Store
begin

text \<open>
  The message queue of the link emulator, \<open>Lab02/link_emulator/queue.c\<close> (the same code in
  \<open>Lab03/link_emulator/queue.c\<close>): elements enter at \<open>first\<close> and leave at \<open>last\<close>; every entry points
  to the entry that entered after it (\<open>prev\<close>, here the cell's \<open>nxt\<close>), and \<open>size\<close> counts them.
\<close>

record equeue =
  esize :: int
  efirst :: ptr
  elast :: ptr

definition create_queue :: "'a store \<Rightarrow> 'a store \<times> equeue" where
  "create_queue st = (st, \<lparr>esize = 0, efirst = None, elast = None\<rparr>)"

definition enqueue :: "'a store \<times> equeue \<Rightarrow> 'a \<Rightarrow> ('a store \<times> equeue) res" where
  "enqueue s m =
    (let (st, q) = s; (t, st1) = alloc \<lparr>element = m, nxt = None\<rparr> st
     in if efirst q = None
        then (if elast q \<noteq> None then Inl Assert_Failed
              else Inr (st1, q\<lparr>efirst := Some t, elast := Some t, esize := esize q + 1\<rparr>))
        else rbind (deref st1 (efirst q)) (\<lambda>(a, c).
             Inr (put_cell a (c\<lparr>nxt := Some t\<rparr>) st1,
                  q\<lparr>efirst := Some t, esize := esize q + 1\<rparr>)))"

definition dequeue :: "'a store \<times> equeue \<Rightarrow> ('a option \<times> ('a store \<times> equeue)) res" where
  "dequeue s =
    (let (st, q) = s
     in if efirst q = None
        then (if esize q = 0 then Inr (None, s) else Inl Assert_Failed)
        else if efirst q = elast q
        then rbind (deref st (efirst q)) (\<lambda>(_, f).
             if nxt f \<noteq> None then Inl Assert_Failed
             else rbind (deref st (elast q)) (\<lambda>(a, c).
                  Inr (Some (element c), (free_cell a st,
                    q\<lparr>efirst := None, elast := None, esize := esize q - 1\<rparr>))))
        else rbind (deref st (elast q)) (\<lambda>(a, c).
             Inr (Some (element c), (free_cell a st,
               q\<lparr>elast := nxt c, esize := esize q - 1\<rparr>))))"

text \<open>\<open>destroy_queue\<close> is \<open>assert(0)\<close>.\<close>

definition destroy_queue :: "'a store \<times> equeue \<Rightarrow> unit res" where
  "destroy_queue s = Inl Assert_Failed"

definition equeue_repr :: "'a store \<times> equeue \<Rightarrow> 'a list \<Rightarrow> bool" where
  "equeue_repr s xs \<longleftrightarrow>
    (\<exists>as. wf_store (fst s) \<and> chain (fst s) (elast (snd s)) as xs None \<and>
      efirst (snd s) = (if as = [] then None else Some (last as)) \<and>
      esize (snd s) = int (length xs))"

lemma create_queue_repr: "wf_store st \<Longrightarrow> equeue_repr (create_queue st) []"
  by (auto simp: equeue_repr_def create_queue_def intro!: exI [of _ "[]"])

lemma equeue_repr_unique: "equeue_repr s xs \<Longrightarrow> equeue_repr s ys \<Longrightarrow> xs = ys"
  unfolding equeue_repr_def using chain_unique by blast

lemma equeue_repr_size: "equeue_repr (st, q) xs \<Longrightarrow> esize q = int (length xs)"
  by (auto simp: equeue_repr_def)

lemma enqueue_repr:
  assumes "equeue_repr s xs"
  shows "\<exists>s'. enqueue s x = Inr s' \<and> equeue_repr s' (xs @ [x])"
proof -
  obtain st q where s: "s = (st, q)"
    by force
  from assms s obtain as where wf: "wf_store st" and ch: "chain st (elast q) as xs None"
    and fi: "efirst q = (if as = [] then None else Some (last as))" and sz: "esize q = int (length xs)"
    by (auto simp: equeue_repr_def)
  let ?new = "\<lparr>element = x, nxt = None\<rparr>"
  obtain b st1 where al: "alloc ?new st = (b, st1)"
    by force
  have wf1: "wf_store st1"
    by (rule wf_alloc [OF wf al])
  have ch1: "chain st1 (elast q) as xs None"
    by (rule chain_alloc [OF wf ch al])
  have b: "cells st1 b = Some ?new" "b \<notin> set as"
    using al wf chain_allocated [OF ch, of b] by (auto simp: alloc_def wf_store_def)
  show ?thesis
  proof (cases "as = []")
    case True
    then show ?thesis
      using wf1 b ch fi sz
      by (auto simp: enqueue_def s al equeue_repr_def intro!: exI [of _ "[b]"])
  next
    case False
    then obtain as' a where as: "as = as' @ [a]"
      by (metis append_butlast_last_id)
    with fi have fa: "efirst q = Some a"
      by simp
    from as obtain c where c: "cells st1 a = Some c"
      using chain_allocated [OF ch1, of a] by auto
    let ?st2 = "put_cell a (c\<lparr>nxt := Some b\<rparr>) st1"
    have "enqueue s x = Inr (?st2, q\<lparr>efirst := Some b, esize := esize q + 1\<rparr>)"
      using c by (simp add: enqueue_def s al fa deref_def)
    moreover have "chain ?st2 (elast q) (as @ [b]) (xs @ [x]) None"
      using chain_link_last [OF ch1 [unfolded as] b(1) _ _ c] b(2) by (simp add: as)
    then have "equeue_repr (?st2, q\<lparr>efirst := Some b, esize := esize q + 1\<rparr>) (xs @ [x])"
      using wf_put_cell [OF wf1 c] sz by (auto simp: equeue_repr_def intro!: exI [of _ "as @ [b]"])
    ultimately show ?thesis
      by blast
  qed
qed

lemma dequeue_repr:
  assumes "equeue_repr s (x # xs)"
  shows "\<exists>s'. dequeue s = Inr (Some x, s') \<and> equeue_repr s' xs"
proof -
  obtain st q where s: "s = (st, q)"
    by force
  from assms s obtain as where wf: "wf_store st" and ch: "chain st (elast q) as (x # xs) None"
    and fi: "efirst q = (if as = [] then None else Some (last as))"
    and sz: "esize q = int (length (x # xs))"
    by (auto simp: equeue_repr_def)
  from ch obtain a as' c where as: "as = a # as'" "elast q = Some a" "cells st a = Some c"
      "element c = x" "chain st (nxt c) as' xs None"
    by (cases as) auto
  have dist: "a \<notin> set as'"
    using chain_distinct [OF ch] as(1) by simp
  then have ch': "chain (free_cell a st) (nxt c) as' xs None"
    using as(5) by (simp add: free_cell_def chain_update_other)
  note wf' = wf_free_cell [OF wf, of a]
  show ?thesis
  proof (cases "as' = []")
    case True
    then show ?thesis
      using as fi sz wf' by (auto simp: dequeue_def s deref_def equeue_repr_def)
  next
    case False
    then have "efirst q \<noteq> elast q" and "efirst q = Some (last as')"
      using fi as(1,2) dist last_in_set [of as'] by auto
    then have "dequeue s = Inr (Some x, (free_cell a st, q\<lparr>elast := nxt c, esize := esize q - 1\<rparr>))"
      using as by (simp add: dequeue_def s deref_def)
    moreover have "equeue_repr (free_cell a st, q\<lparr>elast := nxt c, esize := esize q - 1\<rparr>) xs"
      using ch' wf' False sz \<open>efirst q = Some (last as')\<close>
      by (auto simp: equeue_repr_def intro!: exI [of _ as'])
    ultimately show ?thesis
      by blast
  qed
qed

lemma dequeue_empty: "equeue_repr s [] \<Longrightarrow> dequeue s = Inr (None, s)"
  by (auto simp: equeue_repr_def dequeue_def split: prod.splits elim: chain.elims)

text \<open>The client's view of \<open>dequeue\<close> on a queue it knows to be non-empty.\<close>

definition dequeue_some :: "'a store \<times> equeue \<Rightarrow> ('a \<times> ('a store \<times> equeue)) res" where
  "dequeue_some s = rbind (dequeue s) (\<lambda>(m, s').
     case m of None \<Rightarrow> Inl Null_Deref | Some x \<Rightarrow> Inr (x, s'))"

lemma dequeue_some_repr:
  "equeue_repr s (x # xs) \<Longrightarrow> \<exists>s'. dequeue_some s = Inr (x, s') \<and> equeue_repr s' xs"
  using dequeue_repr [of s x xs] by (auto simp: dequeue_some_def)

interpretation eq: fifo enqueue dequeue_some equeue_repr
  by unfold_locales (fact enqueue_repr dequeue_some_repr equeue_repr_unique)+

text \<open>
  The link emulator's queue refines the same first-in first-out queue: no assertion of \<open>queue.c\<close>
  fails, no dead entry is used, the outputs are those of a list, and \<open>size\<close> is its length.
\<close>

theorem emulator_queue_refines_fifo:
  assumes "equeue_repr s xs" and "spec_run xs ops = Some (out, ys)"
  shows "\<exists>st q. impl_run enqueue dequeue_some s ops = Inr (out, (st, q)) \<and>
    equeue_repr (st, q) ys \<and> esize q = int (length ys)"
  using eq.run_refines [OF assms] equeue_repr_size by fastforce

theorem emulator_queue_refines_fifo_witness:
  "\<exists>st q. impl_run enqueue dequeue_some (create_queue empty_store) [Enq (7::nat), Enq 8, Deq] =
    Inr ([None, None, Some 7], (st, q)) \<and> equeue_repr (st, q) [8] \<and> esize q = int (length [8 :: nat])"
  by (rule emulator_queue_refines_fifo [OF create_queue_repr]) simp_all

end
