(* ===== verification/Link_Lib.thy ===== *)
theory Link_Lib
  imports Emulator_Queue Routing
begin

text \<open>
  The library the clients of the link emulator use, \<open>link_emulator/lib.c\<close> and \<open>lib.h\<close> (the same code
  in \<open>Lab02\<close> and \<open>Lab03\<close>): a UDP socket bound to any port, one remote address, and messages that are
  sent and received whole, as the \<open>sizeof(msg)\<close> bytes of the struct.

  The results of \<open>socket\<close>, \<open>bind\<close>, \<open>sendto\<close> and \<open>recvfrom\<close> are arguments. A datagram is the message it
  carries with its source address; the peers of the emulator send no datagrams of another size.
\<close>

definition MSGSIZE :: nat where
  "MSGSIZE = 1400"

record msg =
  msg_len :: int
  msg_data :: "u8 list"

definition msg_ok :: "msg \<Rightarrow> bool" where
  "msg_ok m \<longleftrightarrow> length (msg_data m) = MSGSIZE"

text \<open>An Internet address, in network byte order; all zero after \<open>memset\<close>.\<close>

record sockaddr =
  sin_family :: u16
  sin_port :: u16
  sin_addr :: u32

definition zero_addr :: sockaddr where
  "zero_addr = \<lparr>sin_family = 0, sin_port = 0, sin_addr = 0\<rparr>"

definition AF_INET :: u16 where
  "AF_INET = 2"

text \<open>The globals of \<open>lib.c\<close>; the poll set is filled and never used.\<close>

record endpoint =
  addr_local :: sockaddr
  addr_remote :: sockaddr
  ep_socket :: int
  poll_fd :: "int option"

definition set_local_port :: "int \<Rightarrow> endpoint \<Rightarrow> endpoint" where
  "set_local_port port ep =
    ep\<lparr>addr_local := zero_addr\<lparr>sin_family := AF_INET, sin_port := htons (of_int port),
      sin_addr := htonl 0\<rparr>\<rparr>"

definition set_remote :: "string \<Rightarrow> int \<Rightarrow> endpoint \<Rightarrow> endpoint res" where
  "set_remote ip_str port ep =
    (case inet_aton ip_str of
       Inl _ \<Rightarrow> Inl (Exit 1)
     | Inr a \<Rightarrow> Inr (ep\<lparr>addr_remote := zero_addr\<lparr>sin_family := AF_INET, sin_port := htons (of_int port),
         sin_addr := a\<rparr>\<rparr>))"

record datagram =
  dg_socket :: int
  dg_dest :: sockaddr
  dg_msg :: msg

definition send_message :: "endpoint \<Rightarrow> msg \<Rightarrow> datagram" where
  "send_message ep m = \<lparr>dg_socket = ep_socket ep, dg_dest = addr_remote ep, dg_msg = m\<rparr>"

text \<open>
  The result of \<open>recvfrom\<close>: \<open>None\<close> is an error, with result -1 and the message unchanged; otherwise the
  number of bytes and the message.
\<close>

definition recv_message :: "msg option \<Rightarrow> msg \<Rightarrow> int \<times> msg" where
  "recv_message r ret = (case r of None \<Rightarrow> (- 1, ret) | Some m \<Rightarrow> (int (MSGSIZE + 4), m))"

text \<open>
  \<open>init\<close>: the descriptor \<open>socket\<close> returns (\<open>None\<close> for an error), whether \<open>bind\<close> fails, and the
  indeterminate contents \<open>garbage\<close> of the local variable that is sent to announce the client.
\<close>

definition lib_init ::
  "int option \<Rightarrow> bool \<Rightarrow> msg \<Rightarrow> string \<Rightarrow> int \<Rightarrow> (endpoint \<times> datagram) res" where
  "lib_init sock bind_fails garbage remote port = (case sock of
       None \<Rightarrow> Inl (Exit 1)
     | Some s \<Rightarrow>
         rbind (set_remote remote port
             (set_local_port 0 \<lparr>addr_local = zero_addr, addr_remote = zero_addr, ep_socket = s, poll_fd = None\<rparr>))
           (\<lambda>ep. if bind_fails then Inl (Exit 1)
             else let ep' = ep\<lparr>poll_fd := Some s\<rparr> in Inr (ep', send_message ep' garbage)))"

lemma lib_init_remote:
  assumes "lib_init sock False garbage (inet_ntoa a) port = Inr (ep, d)"
  shows "sock = Some (ep_socket ep) \<and> sin_addr (addr_remote ep) = a \<and>
    sin_port (addr_remote ep) = htons (of_int port) \<and> dg_dest d = addr_remote ep"
  using assms
  by (auto simp: lib_init_def set_remote_def set_local_port_def inet_aton_inet_ntoa send_message_def Let_def
      split: option.splits)

end
