(* ===== verification/Link_Emulator.thy ===== *)
theory Link_Emulator
  imports Link_Lib
begin

text \<open>
  The link emulator, \<open>link_emulator/link.c\<close>: three threads that share the message buffer. The
  forwarding thread receives on socket 1, drops or corrupts at random and puts messages in the buffer;
  the scheduler moves them from the buffer to the queue of messages in flight at the rate of the link
  and sends them on socket 2 when their delay has passed; the reverse thread copies from socket 2 to
  socket 1. \<open>Lab02\<close> and \<open>Lab03\<close> have the same code except for the corruption of a byte.

  Each thread is cut into steps at the points where it takes the lock or blocks, and a step is a
  function on the shared state; a run is any interleaving of steps. Clock readings, random numbers
  and received datagrams are arguments of the steps. Both queues are linked lists with their own cell
  store; the messages are owned by the queue that holds them.
\<close>

section \<open>State\<close>

record msg_in_flight =
  mif_m :: msg
  finish_time :: u64

record link_cfg =
  serialization_delay :: int
  delay :: int
  loss :: int
  corrupt :: int

definition default_cfg :: link_cfg where
  "default_cfg = \<lparr>serialization_delay = 1000, delay = 1000, loss = 0, corrupt = 0\<rparr>"

definition BUFFER_SIZE :: int where
  "BUFFER_SIZE = 1000"

text \<open>
  Where the scheduler is: at the head of its loop, after reading \<open>stuff\<close>, before locking to check that
  the buffer is empty, waiting on the condition variable. Where the forwarding thread is: receiving,
  about to check for overflow, about to lock and enqueue.
\<close>

datatype sched_pc = Sched_Top | Sched_Stuff int bool | Sched_Check | Sched_Blocked

datatype fwd_pc = Fwd_Recv | Fwd_Check msg | Fwd_Put msg

record link =
  lbuffer :: "msg store \<times> equeue"
  in_flight :: "msg_in_flight store \<times> equeue"
  idle_time :: int
  link_up1 :: bool
  link_up2 :: bool
  remote_addr1 :: sockaddr
  remote_addr2 :: sockaddr
  sched :: sched_pc
  fwd :: fwd_pc

text \<open>What an observer sees: a \<open>usleep\<close>, messages entering and leaving the buffer, messages sent.\<close>

datatype event =
    Accepted msg
  | Dropped msg
  | Launched int msg
  | Sent2 int sockaddr msg
  | Sent1 sockaddr msg
  | Slept int

section \<open>Sockets\<close>

text \<open>\<open>recvfrom\<close> fails with \<open>None\<close>. The datagram that brings a link up is discarded (\<open>goto a\<close>).\<close>

datatype received = Receive_Failed | Receive_Again | Received msg

definition receive_message1 :: "(sockaddr \<times> msg) option \<Rightarrow> link \<Rightarrow> received \<times> link" where
  "receive_message1 r s =
    (if \<not> link_up1 s
     then (case r of None \<Rightarrow> (Receive_Failed, s)
           | Some (a, _) \<Rightarrow> (Receive_Again, s\<lparr>remote_addr1 := a, link_up1 := True\<rparr>))
     else (case r of None \<Rightarrow> (Receive_Failed, s) | Some (_, m) \<Rightarrow> (Received m, s)))"

definition receive_message2 :: "(sockaddr \<times> msg) option \<Rightarrow> link \<Rightarrow> received \<times> link" where
  "receive_message2 r s =
    (if \<not> link_up2 s
     then (case r of None \<Rightarrow> (Receive_Failed, s)
           | Some (a, _) \<Rightarrow> (Receive_Again, s\<lparr>remote_addr2 := a, link_up2 := True\<rparr>))
     else (case r of None \<Rightarrow> (Receive_Failed, s) | Some (_, m) \<Rightarrow> (Received m, s)))"

text \<open>Sending while the link is down prints a warning and sends to the zero address.\<close>

definition send_message1 :: "link \<Rightarrow> msg \<Rightarrow> event" where
  "send_message1 s m = Sent1 (remote_addr1 s) m"

definition send_message2 :: "int \<Rightarrow> link \<Rightarrow> msg \<Rightarrow> event" where
  "send_message2 crt_time s m = Sent2 crt_time (remote_addr2 s) m"

text \<open>The local addresses and descriptors, from the results of the two \<open>socket\<close> and \<open>bind\<close> calls.\<close>

definition local_addr :: "int \<Rightarrow> sockaddr" where
  "local_addr port = \<lparr>sin_family = AF_INET, sin_port = htons (of_int port), sin_addr = htonl 0\<rparr>"

definition init_sockets ::
  "int option \<Rightarrow> bool \<Rightarrow> int option \<Rightarrow> bool \<Rightarrow> ((int \<times> sockaddr) \<times> (int \<times> sockaddr)) res" where
  "init_sockets sock1 bind_fails1 sock2 bind_fails2 = (case sock1 of
       None \<Rightarrow> Inl (Exit 1)
     | Some s1 \<Rightarrow>
         if bind_fails1 then Inl (Exit 1)
         else (case sock2 of
             None \<Rightarrow> Inl (Exit 1)
           | Some s2 \<Rightarrow>
               if bind_fails2 then Inl (Exit 1)
               else Inr ((s1, local_addr 10000), (s2, local_addr 10001))))"

text \<open>\<open>now\<close>, from the fields of the \<open>timeval\<close>; \<open>crt_time\<close> is the same value as a \<open>long long\<close>.\<close>

definition now :: "int \<times> int \<Rightarrow> u64" where
  "now b = (case b of (tv_sec, tv_usec) \<Rightarrow> of_int tv_sec * 1000000 + of_int tv_usec)"

section \<open>The scheduler\<close>

text \<open>
  The inner loop: send what is due. The comparison is one of unsigned numbers. The other threads do
  not touch the queue in flight. \<open>None\<close> is a loop that does not end.
\<close>

partial_function (option) send_due ::
  "int \<Rightarrow> link \<Rightarrow> event list \<Rightarrow> (link \<times> event list) res option" where
  "send_due crt_time s out =
    (if esize (snd (in_flight s)) > 0
     then (case deref (fst (in_flight s)) (elast (snd (in_flight s))) of
         Inl e \<Rightarrow> Some (Inl e)
       | Inr (_, c) \<Rightarrow>
           if of_int crt_time < finish_time (element c) then Some (Inr (s, out))
           else (case dequeue (in_flight s) of
               Inl e \<Rightarrow> Some (Inl e)
             | Inr (mif, q) \<Rightarrow>
                 (case mif of None \<Rightarrow> Some (Inl (Exit 1))
                  | Some d \<Rightarrow>
                      send_due crt_time (s\<lparr>in_flight := q\<rparr>) (out @ [send_message2 crt_time s (mif_m d)]))))
     else Some (Inr (s, out)))"

text \<open>From reading the clock to reading \<open>stuff\<close>.\<close>

definition sched_top :: "int \<times> int \<Rightarrow> link \<Rightarrow> (link \<times> event list) res option" where
  "sched_top clock s =
    (let crt_time = sint (now clock)
     in map_option (\<lambda>r. rbind r (\<lambda>(s', out).
          Inr (s'\<lparr>sched := Sched_Stuff crt_time (0 < esize (snd (lbuffer s')))\<rparr>, out)))
        (send_due crt_time s []))"

text \<open>Moving one message from the buffer to the link.\<close>

definition launch :: "link_cfg \<Rightarrow> int \<Rightarrow> bool \<Rightarrow> link \<Rightarrow> (link \<times> event list) res" where
  "launch cfg crt_time stuff s =
    (if stuff \<and> idle_time s \<le> crt_time
     then rbind (dequeue (lbuffer s)) (\<lambda>(m, q).
          case m of None \<Rightarrow> Inl Assert_Failed
          | Some m' \<Rightarrow>
              rbind (enqueue (in_flight s) \<lparr>mif_m = m',
                  finish_time = of_int (crt_time + serialization_delay cfg + delay cfg)\<rparr>) (\<lambda>fl.
                Inr (s\<lparr>idle_time := crt_time + serialization_delay cfg, lbuffer := q, in_flight := fl\<rparr>,
                  [Launched crt_time m'])))
     else Inr (s, []))"

definition wait_times :: "int \<Rightarrow> link \<Rightarrow> (int \<times> int) res" where
  "wait_times crt_time s =
    (if esize (snd (in_flight s)) > 0
     then rbind (deref (fst (in_flight s)) (elast (snd (in_flight s)))) (\<lambda>(_, c).
          Inr (idle_time s - crt_time, sint (finish_time (element c) - of_int crt_time)))
     else Inr (idle_time s - crt_time, 0))"

definition wait_time :: "int \<Rightarrow> int \<Rightarrow> int" where
  "wait_time wait_time_idle wait_time_send =
    (let w = (if wait_time_idle > 0 then wait_time_idle else 0)
     in if wait_time_send > 0 \<and> wait_time_send < w then wait_time_send else w)"

text \<open>From the test of \<open>stuff\<close> to the sleep, or to the lock that protects the wait.\<close>

definition sched_launch :: "link_cfg \<Rightarrow> int \<Rightarrow> bool \<Rightarrow> link \<Rightarrow> (link \<times> event list) res" where
  "sched_launch cfg crt_time stuff s =
    rbind (launch cfg crt_time stuff s) (\<lambda>(s', out).
    rbind (wait_times crt_time s') (\<lambda>(idle, send).
      if idle > 0 \<or> send > 0 then Inr (s'\<lparr>sched := Sched_Top\<rparr>, out @ [Slept (wait_time idle send)])
      else Inr (s'\<lparr>sched := Sched_Check\<rparr>, out)))"

text \<open>Under the lock: the assertion, and the wait.\<close>

definition sched_check :: "link \<Rightarrow> link res" where
  "sched_check s =
    (if esize (snd (lbuffer s)) \<noteq> 0 then Inl Assert_Failed else Inr (s\<lparr>sched := Sched_Blocked\<rparr>))"

section \<open>The forwarding threads\<close>

text \<open>
  The corruption of a byte, with the random numbers it draws. The byte is chosen within the length
  field of the message, whatever the size of the array: \<open>x % y\<close> is an error for 0 and has the sign
  of \<open>x\<close>. \<open>Lab02\<close> writes a random byte, \<open>Lab03\<close> flips a random bit.
\<close>

definition corrupt_pos :: "nat \<Rightarrow> msg \<Rightarrow> nat res" where
  "corrupt_pos r m =
    (if msg_len m = 0 then Inl Division_By_Zero
     else let i = nat (int r mod \<bar>msg_len m\<bar>)
          in if length (msg_data m) \<le> i then Inl Out_Of_Bounds else Inr i)"

definition corrupt_byte :: "nat \<Rightarrow> nat \<Rightarrow> msg \<Rightarrow> msg res" where
  "corrupt_byte r r' m =
    rbind (corrupt_pos r m) (\<lambda>i. Inr (m\<lparr>msg_data := (msg_data m)[i := of_nat (r' mod 128)]\<rparr>))"

definition corrupt_bit :: "nat \<Rightarrow> nat \<Rightarrow> msg \<Rightarrow> msg res" where
  "corrupt_bit r r' m =
    rbind (corrupt_pos r m) (\<lambda>i.
      Inr (m\<lparr>msg_data := (msg_data m)[i := msg_data m ! i XOR push_bit (r' mod 8) 1]\<rparr>))"

type_synonym corruption = "nat \<Rightarrow> nat \<Rightarrow> msg \<Rightarrow> msg res"

text \<open>The three steps of the loop of \<open>run_forwarding\<close>.\<close>

definition fwd_recv :: "(sockaddr \<times> msg) option \<Rightarrow> link \<Rightarrow> link res" where
  "fwd_recv r s = (case receive_message1 r s of
       (Receive_Failed, _) \<Rightarrow> Inl (Exit 1)
     | (Receive_Again, s') \<Rightarrow> Inr s'
     | (Received m, s') \<Rightarrow> Inr (s'\<lparr>fwd := Fwd_Check m\<rparr>))"

definition fwd_check ::
  "corruption \<Rightarrow> link_cfg \<Rightarrow> nat \<times> nat \<times> nat \<times> nat \<Rightarrow> msg \<Rightarrow> link \<Rightarrow> (link \<times> event list) res" where
  "fwd_check corr cfg rands m s =
    (case rands of (r_loss, r_corrupt, r_pos, r_val) \<Rightarrow>
      let overflow = BUFFER_SIZE \<le> esize (snd (lbuffer s))
      in if overflow \<or> int (r_loss mod 100) < loss cfg
         then Inr (s\<lparr>fwd := Fwd_Recv\<rparr>, [Dropped m])
         else rbind (if int (r_corrupt mod 100) < corrupt cfg then corr r_pos r_val m else Inr m) (\<lambda>m'.
              Inr (s\<lparr>fwd := Fwd_Put m'\<rparr>, [])))"

text \<open>Enqueuing and signalling, under the lock; the signal wakes the scheduler if it waits.\<close>

definition fwd_put :: "msg \<Rightarrow> link \<Rightarrow> (link \<times> event list) res" where
  "fwd_put m s =
    rbind (enqueue (lbuffer s) m) (\<lambda>q.
      Inr (s\<lparr>lbuffer := q, fwd := Fwd_Recv,
        sched := (if sched s = Sched_Blocked then Sched_Top else sched s)\<rparr>, [Accepted m]))"

definition reverse_forward :: "(sockaddr \<times> msg) option \<Rightarrow> link \<Rightarrow> (link \<times> event list) res" where
  "reverse_forward r s = (case receive_message2 r s of
       (Receive_Failed, _) \<Rightarrow> Inl (Exit 1)
     | (Receive_Again, s') \<Rightarrow> Inr (s', [])
     | (Received m, s') \<Rightarrow> Inr (s', [send_message1 s' m]))"

section \<open>Interleaving\<close>

text \<open>
  A step of one of the threads with its inputs; \<open>None\<close> if the thread is elsewhere or its loop does not
  end. A condition variable may wake up without a signal.
\<close>

datatype action =
    Do_Top "int \<times> int"
  | Do_Launch
  | Do_Check
  | Do_Wake
  | Do_Recv "(sockaddr \<times> msg) option"
  | Do_Forward "nat \<times> nat \<times> nat \<times> nat"
  | Do_Put
  | Do_Reverse "(sockaddr \<times> msg) option"

fun link_act :: "corruption \<Rightarrow> link_cfg \<Rightarrow> action \<Rightarrow> link \<Rightarrow> (link \<times> event list) res option" where
  "link_act corr cfg (Do_Top clock) s = (if sched s = Sched_Top then sched_top clock s else None)"
| "link_act corr cfg Do_Launch s =
     (case sched s of Sched_Stuff t stuff \<Rightarrow> Some (sched_launch cfg t stuff s) | _ \<Rightarrow> None)"
| "link_act corr cfg Do_Check s =
     (if sched s = Sched_Check then Some (rbind (sched_check s) (\<lambda>s'. Inr (s', []))) else None)"
| "link_act corr cfg Do_Wake s =
     (if sched s = Sched_Blocked then Some (Inr (s\<lparr>sched := Sched_Top\<rparr>, [])) else None)"
| "link_act corr cfg (Do_Recv r) s =
     (if fwd s = Fwd_Recv then Some (rbind (fwd_recv r s) (\<lambda>s'. Inr (s', []))) else None)"
| "link_act corr cfg (Do_Forward rands) s =
     (case fwd s of Fwd_Check m \<Rightarrow> Some (fwd_check corr cfg rands m s) | _ \<Rightarrow> None)"
| "link_act corr cfg Do_Put s =
     (case fwd s of Fwd_Put m \<Rightarrow> Some (fwd_put m s) | _ \<Rightarrow> None)"
| "link_act corr cfg (Do_Reverse r) s = Some (reverse_forward r s)"

text \<open>\<open>main\<close> after \<open>init_sockets\<close>: an empty buffer, and the threads at their beginning.\<close>

definition link_init :: link where
  "link_init = \<lparr>lbuffer = create_queue empty_store, in_flight = create_queue empty_store, idle_time = 0,
     link_up1 = False, link_up2 = False, remote_addr1 = zero_addr, remote_addr2 = zero_addr,
     sched = Sched_Top, fwd = Fwd_Recv\<rparr>"

inductive link_run :: "corruption \<Rightarrow> link_cfg \<Rightarrow> link \<Rightarrow> event list \<Rightarrow> bool"
  for corr :: corruption and cfg :: link_cfg
where
  run_init: "link_run corr cfg link_init []"
| run_step: "link_run corr cfg s tr \<Longrightarrow> link_act corr cfg a s = Some (Inr (s', out)) \<Longrightarrow>
    link_run corr cfg s' (tr @ out)"

text \<open>A given list of steps, for concrete runs.\<close>

fun link_acts :: "corruption \<Rightarrow> link_cfg \<Rightarrow> action list \<Rightarrow> link \<Rightarrow> (link \<times> event list) res option" where
  "link_acts corr cfg [] s = Some (Inr (s, []))"
| "link_acts corr cfg (a # as) s =
     (case link_act corr cfg a s of
        None \<Rightarrow> None
      | Some (Inl e) \<Rightarrow> Some (Inl e)
      | Some (Inr (s', out)) \<Rightarrow>
          map_option (\<lambda>r. rbind r (\<lambda>(t, out'). Inr (t, out @ out'))) (link_acts corr cfg as s'))"


text \<open>The threads of the two programs.\<close>

definition lab02_step :: "link_cfg \<Rightarrow> action \<Rightarrow> link \<Rightarrow> (link \<times> event list) res option" where
  "lab02_step = link_act corrupt_byte"

definition lab03_step :: "link_cfg \<Rightarrow> action \<Rightarrow> link \<Rightarrow> (link \<times> event list) res option" where
  "lab03_step = link_act corrupt_bit"

end
