(* ===== verification/Link_Props.thy ===== *)
theory Link_Props
  imports Link_Emulator
begin

text \<open>
  What the link emulator guarantees in every interleaving of its threads: the steps of the scheduler
  on the lists its two queues represent, and the invariant that relates a trace to these lists (order,
  capacity, rate and delay).
\<close>

declare split_paired_Ex [simp del]

section \<open>The steps on the represented lists\<close>

lemma equeue_head:
  assumes "equeue_repr q (x # xs)"
  obtains a c where "deref (fst q) (elast (snd q)) = Inr (a, c)" and "element c = x"
proof -
  from assms obtain as where "chain (fst q) (elast (snd q)) as (x # xs) None"
    by (auto simp: equeue_repr_def)
  then obtain a as' c where "elast (snd q) = Some a" "cells (fst q) a = Some c" "element c = x"
    by (cases as) auto
  then show thesis
    using that by (simp add: deref_def)
qed

lemma equeue_size: "equeue_repr q xs \<Longrightarrow> esize (snd q) = int (length xs)"
  by (cases q) (simp add: equeue_repr_size)

lemma equeue_size_pos: "equeue_repr q xs \<Longrightarrow> 0 < esize (snd q) \<longleftrightarrow> xs \<noteq> []"
  by (simp add: equeue_size)

abbreviation due :: "int \<Rightarrow> msg_in_flight \<Rightarrow> bool" where
  "due t d \<equiv> \<not> (of_int t < finish_time d)"

abbreviation sent :: "int \<Rightarrow> link \<Rightarrow> msg_in_flight \<Rightarrow> event" where
  "sent t s d \<equiv> Sent2 t (remote_addr2 s) (mif_m d)"

lemma send_due_repr:
  assumes "equeue_repr (in_flight s) fl"
  shows "\<exists>q. send_due t s out =
      Some (Inr (s\<lparr>in_flight := q\<rparr>, out @ map (sent t s) (takeWhile (due t) fl))) \<and>
    equeue_repr q (dropWhile (due t) fl)"
  using assms
proof (induction fl arbitrary: s out)
  case Nil
  then have "send_due t s out = Some (Inr (s\<lparr>in_flight := in_flight s\<rparr>, out))"
    by (subst send_due.simps) (simp add: equeue_size)
  with Nil show ?case
    by (intro exI [of _ "in_flight s"]) simp
next
  case (Cons d fl)
  obtain a c where c: "deref (fst (in_flight s)) (elast (snd (in_flight s))) = Inr (a, c)" "element c = d"
    by (rule equeue_head [OF Cons.prems])
  show ?case
  proof (cases "due t d")
    case True
    obtain q where q: "dequeue (in_flight s) = Inr (Some d, q)" "equeue_repr q fl"
      using dequeue_repr [OF Cons.prems] by blast
    have "send_due t s out = send_due t (s\<lparr>in_flight := q\<rparr>) (out @ [sent t s d])"
      using c q True Cons.prems
      by (subst send_due.simps) (simp add: equeue_size_pos send_message2_def)
    with Cons.IH [of "s\<lparr>in_flight := q\<rparr>" "out @ [sent t s d]"] q(2) True show ?thesis
      by auto
  next
    case False
    then have "send_due t s out = Some (Inr (s\<lparr>in_flight := in_flight s\<rparr>, out))"
      using c Cons.prems by (subst send_due.simps) (simp add: equeue_size_pos)
    with False Cons.prems show ?thesis
      by (intro exI [of _ "in_flight s"]) simp
  qed
qed

lemma sched_top_repr:
  assumes "equeue_repr (lbuffer s) bf" and "equeue_repr (in_flight s) fl" and "t = sint (now clock)"
  shows "\<exists>q. sched_top clock s =
      Some (Inr (s\<lparr>in_flight := q, sched := Sched_Stuff t (bf \<noteq> [])\<rparr>,
        map (sent t s) (takeWhile (due t) fl))) \<and>
    equeue_repr q (dropWhile (due t) fl)"
  using send_due_repr [OF assms(2), of t "[]"] assms(1,3)
  by (auto simp: sched_top_def Let_def equeue_size_pos)

abbreviation mk_flight :: "link_cfg \<Rightarrow> int \<Rightarrow> msg \<Rightarrow> msg_in_flight" where
  "mk_flight cfg t m \<equiv>
    \<lparr>mif_m = m, finish_time = of_int (t + serialization_delay cfg + delay cfg)\<rparr>"

lemma launch_repr:
  assumes "equeue_repr (lbuffer s) (m # bf)" and "equeue_repr (in_flight s) fl"
    and "stuff" and "idle_time s \<le> t"
  shows "\<exists>q fq. launch cfg t stuff s =
      Inr (s\<lparr>idle_time := t + serialization_delay cfg, lbuffer := q, in_flight := fq\<rparr>, [Launched t m]) \<and>
    equeue_repr q bf \<and> equeue_repr fq (fl @ [mk_flight cfg t m])"
proof -
  obtain q where q: "dequeue (lbuffer s) = Inr (Some m, q)" "equeue_repr q bf"
    using dequeue_repr [OF assms(1)] by blast
  obtain fq where fq: "enqueue (in_flight s) (mk_flight cfg t m) = Inr fq"
      "equeue_repr fq (fl @ [mk_flight cfg t m])"
    using enqueue_repr [OF assms(2)] by blast
  from q fq assms(3,4) show ?thesis
    by (intro exI [of _ q] exI [of _ fq]) (simp add: launch_def)
qed

lemma wait_times_total:
  "equeue_repr (in_flight s) fl \<Longrightarrow>
    \<exists>send. wait_times t s = Inr (idle_time s - t, send) \<and> (fl = [] \<longrightarrow> send = 0)"
proof (cases fl)
  case (Cons d ds)
  assume "equeue_repr (in_flight s) fl"
  then show ?thesis
    unfolding Cons by (elim equeue_head) (simp add: wait_times_def)
qed (simp add: wait_times_def equeue_size)

lemma sched_launch_repr:
  assumes "equeue_repr (lbuffer s) bf" and "equeue_repr (in_flight s) fl" and "stuff \<longrightarrow> bf \<noteq> []"
  shows "\<exists>s' slept. sched_launch cfg t stuff s =
      Inr (s', (if stuff \<and> idle_time s \<le> t then [Launched t (hd bf)] else []) @ slept) \<and>
    (slept = [] \<and> sched s' = Sched_Check \<or> (\<exists>w. slept = [Slept w]) \<and> sched s' = Sched_Top) \<and>
    fwd s' = fwd s \<and>
    equeue_repr (lbuffer s') (if stuff \<and> idle_time s \<le> t then tl bf else bf) \<and>
    equeue_repr (in_flight s') (if stuff \<and> idle_time s \<le> t then fl @ [mk_flight cfg t (hd bf)] else fl) \<and>
    idle_time s' = (if stuff \<and> idle_time s \<le> t then t + serialization_delay cfg else idle_time s) \<and>
    (t < idle_time s' \<longrightarrow> sched s' = Sched_Top) \<and>
    (idle_time s' \<le> t \<and> fl = [] \<and> \<not> (stuff \<and> idle_time s \<le> t) \<longrightarrow> sched s' = Sched_Check)"
proof -
  let ?go = "stuff \<and> idle_time s \<le> t"
  obtain s1 out where s1: "launch cfg t stuff s = Inr (s1, out)" "fwd s1 = fwd s"
    "out = (if ?go then [Launched t (hd bf)] else [])"
    "equeue_repr (lbuffer s1) (if ?go then tl bf else bf)"
    "equeue_repr (in_flight s1) (if ?go then fl @ [mk_flight cfg t (hd bf)] else fl)"
    "idle_time s1 = (if ?go then t + serialization_delay cfg else idle_time s)"
  proof (cases ?go)
    case True
    then have "equeue_repr (lbuffer s) (hd bf # tl bf)"
      using assms(1,3) by simp
    with launch_repr [OF this assms(2), of stuff t cfg] True show thesis
      by (auto intro: that)
  next
    case False
    then show thesis
      using assms(1,2) by (auto simp: launch_def intro: that)
  qed
  obtain send where w: "wait_times t s1 = Inr (idle_time s1 - t, send)"
      "(if ?go then fl @ [mk_flight cfg t (hd bf)] else fl) = [] \<longrightarrow> send = 0"
    using wait_times_total [OF s1(5), of t] by auto
  show ?thesis
  proof (cases "idle_time s1 - t > 0 \<or> send > 0")
    case True
    then show ?thesis
      using s1 w
      by (intro exI [of _ "s1\<lparr>sched := Sched_Top\<rparr>"] exI [of _ "[Slept (wait_time (idle_time s1 - t) send)]"])
        (auto simp: sched_launch_def)
  next
    case False
    then show ?thesis
      using s1 w
      by (intro exI [of _ "s1\<lparr>sched := Sched_Check\<rparr>"] exI [of _ "[]"]) (auto simp: sched_launch_def)
  qed
qed

section \<open>The invariant\<close>

text \<open>The messages a trace accepts, puts on the link and delivers, the latter two with their times.\<close>

definition accepted :: "event list \<Rightarrow> msg list" where
  "accepted tr = concat (map (\<lambda>e. case e of Accepted m \<Rightarrow> [m] | _ \<Rightarrow> []) tr)"

definition launched :: "event list \<Rightarrow> (int \<times> msg) list" where
  "launched tr = concat (map (\<lambda>e. case e of Launched t m \<Rightarrow> [(t, m)] | _ \<Rightarrow> []) tr)"

definition delivered :: "event list \<Rightarrow> (int \<times> msg) list" where
  "delivered tr = concat (map (\<lambda>e. case e of Sent2 t _ m \<Rightarrow> [(t, m)] | _ \<Rightarrow> []) tr)"

lemma trace_append [simp]:
  "accepted (tr @ tr') = accepted tr @ accepted tr'"
  "launched (tr @ tr') = launched tr @ launched tr'"
  "delivered (tr @ tr') = delivered tr @ delivered tr'"
  by (simp_all add: accepted_def launched_def delivered_def)

lemma trace_Nil [simp]: "accepted [] = []" "launched [] = []" "delivered [] = []"
  by (simp_all add: accepted_def launched_def delivered_def)

lemma trace_Cons [simp]:
  "accepted (e # tr) = (case e of Accepted m \<Rightarrow> [m] | _ \<Rightarrow> []) @ accepted tr"
  "launched (e # tr) = (case e of Launched t m \<Rightarrow> [(t, m)] | _ \<Rightarrow> []) @ launched tr"
  "delivered (e # tr) = (case e of Sent2 t _ m \<Rightarrow> [(t, m)] | _ \<Rightarrow> []) @ delivered tr"
  by (simp_all add: accepted_def launched_def delivered_def)

lemma trace_sent [simp]:
  "accepted (map (sent t s) ds) = []"
  "launched (map (sent t s) ds) = []"
  "delivered (map (sent t s) ds) = map (\<lambda>d. (t, mif_m d)) ds"
  by (induction ds) (auto simp: accepted_def launched_def delivered_def)

text \<open>What is in flight are the launched messages not delivered yet, with their times.\<close>

definition pending :: "link_cfg \<Rightarrow> event list \<Rightarrow> msg_in_flight list" where
  "pending cfg tr = map (\<lambda>(t, m). mk_flight cfg t m) (drop (length (delivered tr)) (launched tr))"

definition link_inv :: "link_cfg \<Rightarrow> link \<Rightarrow> event list \<Rightarrow> msg list \<Rightarrow> bool" where
  "link_inv cfg s tr bf \<longleftrightarrow>
    equeue_repr (lbuffer s) bf \<and> equeue_repr (in_flight s) (pending cfg tr) \<and>
    accepted tr = map snd (launched tr) @ bf \<and>
    length (delivered tr) \<le> length (launched tr) \<and>
    (\<forall>i < length (delivered tr). snd (delivered tr ! i) = snd (launched tr ! i) \<and>
      (of_int (fst (launched tr ! i) + serialization_delay cfg + delay cfg) :: u64) \<le>
        of_int (fst (delivered tr ! i))) \<and>
    (\<forall>i. Suc i < length (launched tr) \<longrightarrow>
      fst (launched tr ! i) + serialization_delay cfg \<le> fst (launched tr ! Suc i)) \<and>
    (launched tr \<noteq> [] \<longrightarrow> idle_time s = fst (last (launched tr)) + serialization_delay cfg) \<and>
    int (length bf) \<le> BUFFER_SIZE \<and>
    (\<forall>m. fwd s = Fwd_Put m \<longrightarrow> int (length bf) < BUFFER_SIZE) \<and>
    (\<forall>t. sched s = Sched_Stuff t True \<longrightarrow> bf \<noteq> [])"

lemma link_inv_init: "link_inv cfg link_init [] []"
  by (simp add: link_inv_def link_init_def create_queue_repr BUFFER_SIZE_def pending_def)

text \<open>Steps that leave the queues alone and emit nothing the invariant speaks of.\<close>

lemma link_inv_other:
  assumes "link_inv cfg s tr bf" and "lbuffer s' = lbuffer s" and "in_flight s' = in_flight s"
    and "idle_time s' = idle_time s"
    and "accepted out = []" "launched out = []" "delivered out = []"
    and "\<And>m. fwd s' = Fwd_Put m \<Longrightarrow> fwd s = Fwd_Put m \<or> int (length bf) < BUFFER_SIZE"
    and "\<And>t. sched s' = Sched_Stuff t True \<Longrightarrow> sched s = Sched_Stuff t True"
  shows "link_inv cfg s' (tr @ out) bf"
  using assms unfolding link_inv_def pending_def by auto

lemma link_inv_put:
  assumes "link_inv cfg s tr bf" and "fwd s = Fwd_Put m" and "fwd_put m s = Inr (s', out)"
  shows "link_inv cfg s' (tr @ out) (bf @ [m])"
proof -
  have r: "equeue_repr (lbuffer s) bf"
    using assms(1) by (simp add: link_inv_def)
  obtain q where q: "enqueue (lbuffer s) m = Inr q" "equeue_repr q (bf @ [m])"
    using enqueue_repr [OF r] by blast
  have "s' = s\<lparr>lbuffer := q, fwd := Fwd_Recv,
      sched := (if sched s = Sched_Blocked then Sched_Top else sched s)\<rparr>" "out = [Accepted m]"
    using assms(3) q(1) by (simp_all add: fwd_put_def)
  then show ?thesis
    using assms(1,2) q(2) unfolding link_inv_def pending_def by auto
qed

lemma takeWhile_due: "i < length (takeWhile P xs) \<Longrightarrow> P (xs ! i)"
  by (metis nth_mem set_takeWhileD takeWhile_nth)

lemma link_inv_top:
  assumes inv: "link_inv cfg s tr bf" and step: "sched_top clock s = Some (Inr (s', out))"
  shows "link_inv cfg s' (tr @ out) bf"
proof -
  let ?t = "sint (now clock)" and ?n = "length (delivered tr)"
  let ?fl = "pending cfg tr"
  let ?k = "length (takeWhile (due ?t) ?fl)"
  have r: "equeue_repr (lbuffer s) bf" "equeue_repr (in_flight s) ?fl"
    using inv by (simp_all add: link_inv_def)
  obtain q where q: "s' = s\<lparr>in_flight := q, sched := Sched_Stuff ?t (bf \<noteq> [])\<rparr>"
      "out = map (sent ?t s) (takeWhile (due ?t) ?fl)" "equeue_repr q (dropWhile (due ?t) ?fl)"
    using sched_top_repr [OF r refl, of clock] step by auto
  have n: "?n \<le> length (launched tr)"
    using inv by (simp add: link_inv_def)
  have fl: "?fl ! i = mk_flight cfg (fst (launched tr ! (?n + i))) (snd (launched tr ! (?n + i)))"
    if "i < length ?fl" for i
    using that n by (simp add: pending_def case_prod_beta)
  have k: "?k \<le> length ?fl"
    by (rule length_takeWhile_le)
  have deliv: "delivered out = map (\<lambda>d. (?t, mif_m d)) (take ?k ?fl)"
    by (simp add: q(2) takeWhile_eq_take [symmetric])
  have len: "length (delivered (tr @ out)) = ?n + ?k"
    using k by (simp add: deliv)
  have pend: "pending cfg (tr @ out) = dropWhile (due ?t) ?fl"
    using q(2) by (simp add: pending_def [of _ "tr @ out"] len dropWhile_eq_drop)
      (simp add: pending_def drop_map add.commute)
  have late: "snd (delivered (tr @ out) ! i) = snd (launched tr ! i) \<and>
      (of_int (fst (launched tr ! i) + serialization_delay cfg + delay cfg) :: u64) \<le>
        of_int (fst (delivered (tr @ out) ! i))" if i: "i < ?n + ?k" for i
  proof (cases "i < ?n")
    case True
    then show ?thesis
      using inv by (simp add: deliv nth_append link_inv_def)
  next
    case False
    then obtain j where j: "i = ?n + j" "j < ?k"
      using i by (metis add_diff_inverse_nat nat_add_left_cancel_less)
    have d: "due ?t (?fl ! j)"
      by (rule takeWhile_due [OF j(2)])
    have "delivered (tr @ out) ! i = (?t, mif_m (?fl ! j))"
      using j k by (simp add: deliv nth_append)
    then show ?thesis
      using d j k fl [of j] by (simp add: not_less)
  qed
  have "length (launched tr) - ?n = length ?fl"
    by (simp add: pending_def)
  then have "?n + ?k \<le> length (launched tr)"
    using k n by linarith
  moreover have "launched out = []" "accepted out = []"
    by (simp_all add: q(2))
  ultimately show ?thesis
    using inv q(1,3) late len pend unfolding link_inv_def by simp
qed

lemma link_inv_launch:
  assumes inv: "link_inv cfg s tr bf" and pc: "sched s = Sched_Stuff t stuff"
    and step: "sched_launch cfg t stuff s = Inr (s', out)"
  shows "\<exists>bf'. link_inv cfg s' (tr @ out) bf'"
proof -
  let ?go = "stuff \<and> idle_time s \<le> t"
  have r: "equeue_repr (lbuffer s) bf" "equeue_repr (in_flight s) (pending cfg tr)"
    and ne: "stuff \<longrightarrow> bf \<noteq> []"
    using inv pc by (auto simp: link_inv_def)
  obtain slept where s': "out = (if ?go then [Launched t (hd bf)] else []) @ slept"
    "slept = [] \<and> sched s' = Sched_Check \<or> (\<exists>w. slept = [Slept w]) \<and> sched s' = Sched_Top"
    "fwd s' = fwd s" "equeue_repr (lbuffer s') (if ?go then tl bf else bf)"
    "equeue_repr (in_flight s')
      (if ?go then pending cfg tr @ [mk_flight cfg t (hd bf)] else pending cfg tr)"
    "idle_time s' = (if ?go then t + serialization_delay cfg else idle_time s)"
    using sched_launch_repr [OF r ne, of cfg t] step by auto
  have silent: "accepted slept = []" "launched slept = []" "delivered slept = []"
    using s'(2) by auto
  show ?thesis
  proof (cases ?go)
    case False
    then have "link_inv cfg s' (tr @ out) bf"
      using inv s' silent unfolding link_inv_def pending_def by auto
    then show ?thesis ..
  next
    case go: True
    with ne obtain m bf' where bf: "bf = m # bf'"
      by (cases bf) auto
    let ?L = "launched tr" and ?n = "length (delivered tr)"
    have out: "accepted out = []" "launched out = [(t, m)]" "delivered out = []"
      using s'(1) go silent bf by simp_all
    have n: "?n \<le> length ?L"
      using inv by (simp add: link_inv_def)
    have pend: "pending cfg (tr @ out) = pending cfg tr @ [mk_flight cfg t m]"
      using n out by (simp add: pending_def)
    have rate: "fst ((?L @ [(t, m)]) ! i) + serialization_delay cfg \<le> fst ((?L @ [(t, m)]) ! Suc i)"
      if i: "Suc i < length (?L @ [(t, m)])" for i
    proof (cases "Suc i < length ?L")
      case True
      then show ?thesis
        using inv by (simp add: nth_append link_inv_def)
    next
      case False
      with i have i': "Suc i = length ?L" by simp
      then have ne: "?L \<noteq> []" by auto
      then have "idle_time s = fst (last ?L) + serialization_delay cfg"
        using inv by (simp add: link_inv_def)
      moreover have "(?L @ [(t, m)]) ! i = last ?L"
        using i' ne by (simp add: nth_append last_conv_nth flip: i')
      moreover have "(?L @ [(t, m)]) ! Suc i = (t, m)"
        by (simp add: i')
      ultimately show ?thesis
        using go by simp
    qed
    have late: "\<forall>i < ?n. snd (delivered tr ! i) = snd ((?L @ [(t, m)]) ! i) \<and>
        (of_int (fst ((?L @ [(t, m)]) ! i) + serialization_delay cfg + delay cfg) :: u64) \<le>
          of_int (fst (delivered tr ! i))"
      using inv n unfolding link_inv_def by (simp add: nth_append)
    have "link_inv cfg s' (tr @ out) bf'"
      unfolding link_inv_def
      using inv [unfolded link_inv_def] s'(2-6) go bf out pend n rate late by auto
    then show ?thesis ..
  qed
qed

lemma link_inv_fwd:
  assumes inv: "link_inv cfg s tr bf" and pc: "fwd s = Fwd_Check m"
    and step: "fwd_check corr cfg rands m s = Inr (s', out)"
  shows "link_inv cfg s' (tr @ out) bf"
proof (rule link_inv_other [OF inv])
  have size: "esize (snd (lbuffer s)) = int (length bf)"
    using inv by (simp add: link_inv_def equeue_size)
  from step show "lbuffer s' = lbuffer s" "in_flight s' = in_flight s" "idle_time s' = idle_time s"
    "accepted out = []" "launched out = []" "delivered out = []"
    by (auto simp: fwd_check_def Let_def rbind_eq_Inr_iff split: if_splits prod.splits)
  from step show "fwd s = Fwd_Put m' \<or> int (length bf) < BUFFER_SIZE" if "fwd s' = Fwd_Put m'" for m'
    using that size by (auto simp: fwd_check_def Let_def rbind_eq_Inr_iff split: if_splits prod.splits)
  from step show "sched s = Sched_Stuff t True" if "sched s' = Sched_Stuff t True" for t
    using that by (auto simp: fwd_check_def Let_def rbind_eq_Inr_iff split: if_splits prod.splits)
qed

lemma receive_frame:
  assumes "receive_message1 r s = (x, s') \<or> receive_message2 r s = (x, s')"
  shows "lbuffer s' = lbuffer s" "in_flight s' = in_flight s" "idle_time s' = idle_time s"
    "sched s' = sched s" "fwd s' = fwd s"
  using assms
  by (auto simp: receive_message1_def receive_message2_def split: if_splits option.splits prod.splits)

lemma link_inv_recv:
  assumes inv: "link_inv cfg s tr bf" and "fwd s = Fwd_Recv" and step: "fwd_recv r s = Inr s'"
  shows "link_inv cfg s' (tr @ []) bf"
proof (rule link_inv_other [OF inv])
  obtain x s1 where x: "receive_message1 r s = (x, s1)"
    by force
  note frame = receive_frame [OF disjI1 [OF x]]
  have "s' = s1 \<or> (\<exists>m. s' = s1\<lparr>fwd := Fwd_Check m\<rparr>)"
    using step x by (cases x) (auto simp: fwd_recv_def)
  then show "lbuffer s' = lbuffer s" "in_flight s' = in_flight s" "idle_time s' = idle_time s"
    "\<And>m. fwd s' = Fwd_Put m \<Longrightarrow> fwd s = Fwd_Put m \<or> int (length bf) < BUFFER_SIZE"
    "\<And>t. sched s' = Sched_Stuff t True \<Longrightarrow> sched s = Sched_Stuff t True"
    using frame by auto
qed simp_all

lemma link_inv_reverse:
  assumes inv: "link_inv cfg s tr bf" and step: "reverse_forward r s = Inr (s', out)"
  shows "link_inv cfg s' (tr @ out) bf"
proof (rule link_inv_other [OF inv])
  obtain x s1 where x: "receive_message2 r s = (x, s1)"
    by force
  note frame = receive_frame [OF disjI2 [OF x]]
  have "s' = s1 \<and> (out = [] \<or> (\<exists>m. out = [send_message1 s1 m]))"
    using step x by (cases x) (auto simp: reverse_forward_def)
  then show "lbuffer s' = lbuffer s" "in_flight s' = in_flight s" "idle_time s' = idle_time s"
    "accepted out = []" "launched out = []" "delivered out = []"
    "\<And>m. fwd s' = Fwd_Put m \<Longrightarrow> fwd s = Fwd_Put m \<or> int (length bf) < BUFFER_SIZE"
    "\<And>t. sched s' = Sched_Stuff t True \<Longrightarrow> sched s = Sched_Stuff t True"
    using frame by (auto simp: send_message1_def)
qed

text \<open>Every step of every thread keeps the invariant.\<close>

lemma link_act_inv:
  assumes "link_inv cfg s tr bf" and "link_act corr cfg a s = Some (Inr (s', out))"
  shows "\<exists>bf'. link_inv cfg s' (tr @ out) bf'"
proof (cases a)
  case (Do_Top clock)
  then show ?thesis
    using assms(2) link_inv_top [OF assms(1), of clock s' out] by (auto split: if_splits)
next
  case Do_Launch
  then show ?thesis
    using assms(2) link_inv_launch [OF assms(1)] by (auto split: sched_pc.splits)
next
  case Do_Check
  then have "out = [] \<and> s' = s\<lparr>sched := Sched_Blocked\<rparr>"
    using assms(2) by (auto simp: sched_check_def split: if_splits)
  then have "link_inv cfg s' (tr @ out) bf"
    by (intro link_inv_other [OF assms(1)]) auto
  then show ?thesis ..
next
  case Do_Wake
  then have "out = [] \<and> s' = s\<lparr>sched := Sched_Top\<rparr>"
    using assms(2) by (auto split: if_splits)
  then have "link_inv cfg s' (tr @ out) bf"
    by (intro link_inv_other [OF assms(1)]) auto
  then show ?thesis ..
next
  case (Do_Recv r)
  then have "fwd s = Fwd_Recv" "fwd_recv r s = Inr s'" "out = []"
    using assms(2) by (auto simp: rbind_eq_Inr_iff split: if_splits)
  with link_inv_recv [OF assms(1)] show ?thesis
    by blast
next
  case (Do_Forward rands)
  then show ?thesis
    using assms(2) by (auto split: fwd_pc.splits dest: link_inv_fwd [OF assms(1)])
next
  case Do_Put
  then show ?thesis
    using assms(2) link_inv_put [OF assms(1)] by (auto split: fwd_pc.splits)
next
  case (Do_Reverse r)
  then show ?thesis
    using assms(2) link_inv_reverse [OF assms(1)] by auto
qed

lemma link_run_inv: "link_run corr cfg s tr \<Longrightarrow> \<exists>bf. link_inv cfg s tr bf"
proof (induction rule: link_run.induct)
  case run_init
  then show ?case using link_inv_init by blast
next
  case (run_step s tr a s' out)
  then show ?case using link_act_inv by blast
qed


section \<open>Order, capacity and timing\<close>

lemma link_run_order:
  assumes "link_run corr cfg s tr"
  shows "\<exists>bf fl. equeue_repr (lbuffer s) bf \<and> equeue_repr (in_flight s) fl \<and>
    accepted tr = map snd (delivered tr) @ map mif_m fl @ bf \<and> int (length bf) \<le> BUFFER_SIZE"
proof -
  obtain bf where inv: "link_inv cfg s tr bf"
    using link_run_inv [OF assms] by blast
  let ?n = "length (delivered tr)"
  have n: "?n \<le> length (launched tr)" "\<And>i. i < ?n \<Longrightarrow> snd (delivered tr ! i) = snd (launched tr ! i)"
    using inv by (simp_all add: link_inv_def)
  have "map snd (delivered tr) = map snd (take ?n (launched tr))"
    by (rule nth_equalityI) (simp_all add: n min_absorb2)
  moreover have "map mif_m (pending cfg tr) = map snd (drop ?n (launched tr))"
    by (simp add: pending_def case_prod_beta)
  ultimately have "map snd (launched tr) = map snd (delivered tr) @ map mif_m (pending cfg tr)"
    by (metis append_take_drop_id map_append)
  with inv have "accepted tr = map snd (delivered tr) @ map mif_m (pending cfg tr) @ bf"
    by (simp add: link_inv_def)
  with inv show ?thesis
    unfolding link_inv_def by blast
qed

text \<open>
  C4. Every interleaving of the three threads of the link emulator keeps the messages in order: the
  accepted messages are exactly those delivered so far, then those in flight, then those in the
  buffer; nothing is lost, duplicated or overtaken after acceptance, and the buffer never holds more
  than \<open>BUFFER_SIZE\<close> messages.
\<close>

theorem link_keeps_order:
  assumes "link_run corr cfg s tr"
  shows "\<exists>bf fl. equeue_repr (lbuffer s) bf \<and> equeue_repr (in_flight s) fl \<and>
    accepted tr = map snd (delivered tr) @ map mif_m fl @ bf \<and> int (length bf) \<le> BUFFER_SIZE"
  using assms by (rule link_run_order)

text \<open>The first steps of a concrete run: the link comes up and one message is received and accepted.\<close>

definition demo_msg :: "nat \<Rightarrow> msg" where
  "demo_msg n = \<lparr>msg_len = 3, msg_data = of_nat n # replicate 1399 0\<rparr>"

definition demo_steps :: "msg \<Rightarrow> action list" where
  "demo_steps m = [Do_Recv (Some (local_addr 9, demo_msg 0)), Do_Recv (Some (local_addr 9, m)),
     Do_Forward (50, 50, 0, 0), Do_Put]"

lemma link_acts_run:
  assumes "link_run corr cfg s tr" and "link_acts corr cfg as s = Some (Inr (s', out))"
  shows "link_run corr cfg s' (tr @ out)"
  using assms
proof (induction as arbitrary: s tr out)
  case (Cons a as)
  obtain s1 o1 o2 where s1: "link_act corr cfg a s = Some (Inr (s1, o1))"
      "link_acts corr cfg as s1 = Some (Inr (s', o2))" "out = o1 @ o2"
    using Cons.prems(2) by (auto simp: rbind_eq_Inr_iff split: option.splits sum.splits)
  with Cons.IH [OF run_step [OF Cons.prems(1) s1(1)] s1(2)] show ?case
    by simp
qed simp

lemma accept_run:
  "\<exists>s. link_acts corr default_cfg (demo_steps m) link_init = Some (Inr (s, [Accepted m])) \<and>
    sched s = Sched_Top \<and> fwd s = Fwd_Recv \<and> equeue_repr (lbuffer s) [m] \<and>
    equeue_repr (in_flight s) [] \<and> idle_time s = 0 \<and> link_up1 s"
proof -
  obtain q where q: "enqueue (create_queue empty_store) m = Inr q"
      "equeue_repr q [m]"
    using enqueue_repr [OF create_queue_repr [OF wf_empty_store]] by fastforce
  have z: "esize (snd (create_queue empty_store)) = 0"
    by (simp add: create_queue_def)
  let ?s1 = "link_init\<lparr>remote_addr1 := local_addr 9, link_up1 := True\<rparr>"
  let ?s2 = "?s1\<lparr>fwd := Fwd_Check m\<rparr>"
  let ?s3 = "?s1\<lparr>fwd := Fwd_Put m\<rparr>"
  let ?s4 = "?s1\<lparr>lbuffer := q\<rparr>"
  have "link_act corr default_cfg (Do_Recv (Some (local_addr 9, demo_msg 0))) link_init = Some (Inr (?s1, []))"
    by (simp add: link_init_def fwd_recv_def receive_message1_def)
  moreover have "link_act corr default_cfg (Do_Recv (Some (local_addr 9, m))) ?s1 = Some (Inr (?s2, []))"
    by (simp add: link_init_def fwd_recv_def receive_message1_def)
  moreover have "link_act corr default_cfg (Do_Forward (50, 50, 0, 0)) ?s2 = Some (Inr (?s3, []))"
    by (simp add: link_init_def fwd_check_def z default_cfg_def BUFFER_SIZE_def)
  moreover have "link_act corr default_cfg Do_Put ?s3 = Some (Inr (?s4, [Accepted m]))"
    using q(1) by (simp add: link_init_def fwd_put_def)
  ultimately have "link_acts corr default_cfg (demo_steps m) link_init =
      Some (Inr (?s4, [Accepted m]))"
    by (simp add: demo_steps_def del: link_act.simps)
  then show ?thesis
    using q(2) create_queue_repr [OF wf_empty_store]
    by (intro exI [of _ ?s4]) (simp add: link_init_def)
qed

lemma accept_reachable:
  obtains s where "link_run corr default_cfg s [Accepted m]"
    and "sched s = Sched_Top" and "fwd s = Fwd_Recv" and "equeue_repr (lbuffer s) [m]"
    and "equeue_repr (in_flight s) []" and "idle_time s = 0" and "link_up1 s"
    and "link_acts corr default_cfg (demo_steps m) link_init = Some (Inr (s, [Accepted m]))"
  using accept_run [of corr m] link_acts_run [OF run_init] by fastforce

lemma demo_reachable:
  obtains s where "link_run corr default_cfg s [Accepted (demo_msg 65)]"
    and "sched s = Sched_Top" and "fwd s = Fwd_Recv" and "equeue_repr (lbuffer s) [demo_msg 65]"
    and "equeue_repr (in_flight s) []" and "idle_time s = 0" and "link_up1 s"
    and "link_acts corr default_cfg (demo_steps (demo_msg 65)) link_init =
      Some (Inr (s, [Accepted (demo_msg 65)]))"
  by (rule accept_reachable)

theorem link_keeps_order_witness:
  "\<exists>s. link_run corrupt_bit default_cfg s [Accepted (demo_msg 65)] \<and>
    (\<exists>bf fl. equeue_repr (lbuffer s) bf \<and> equeue_repr (in_flight s) fl \<and>
      accepted [Accepted (demo_msg 65)] =
        map snd (delivered [Accepted (demo_msg 65)]) @ map mif_m fl @ bf \<and>
      int (length bf) \<le> BUFFER_SIZE)"
proof -
  obtain s where "link_run corrupt_bit default_cfg s [Accepted (demo_msg 65)]"
    by (rule demo_reachable)
  with link_keeps_order [OF this] show ?thesis
    by blast
qed

end
