(* ===== verification/Link_Safety.thy ===== *)
theory Link_Safety
  imports Link_Props
begin

text \<open>
  Failures of the link emulator: every step of every thread returns, and the only ways to fail are a
  failing \<open>recvfrom\<close>, the corruption of a message whose length field is no length, and the
  scheduler's assertion that the buffer is empty, which a message that arrives at the wrong moment
  breaks.
\<close>

section \<open>Which steps can fail\<close>

lemma sched_top_returns:
  assumes "link_inv cfg s tr bf"
  shows "\<exists>s' out. sched_top clock s = Some (Inr (s', out))"
proof -
  have "equeue_repr (lbuffer s) bf" "equeue_repr (in_flight s) (pending cfg tr)"
    using assms by (simp_all add: link_inv_def)
  from sched_top_repr [OF this refl, of clock] show ?thesis
    by blast
qed

text \<open>The thread that takes the step is where the step begins.\<close>

definition enabled :: "link \<Rightarrow> action \<Rightarrow> bool" where
  "enabled s a = (case a of
      Do_Top _ \<Rightarrow> sched s = Sched_Top
    | Do_Launch \<Rightarrow> (case sched s of Sched_Stuff _ _ \<Rightarrow> True | _ \<Rightarrow> False)
    | Do_Check \<Rightarrow> sched s = Sched_Check
    | Do_Wake \<Rightarrow> sched s = Sched_Blocked
    | Do_Recv _ \<Rightarrow> fwd s = Fwd_Recv
    | Do_Forward _ \<Rightarrow> (case fwd s of Fwd_Check _ \<Rightarrow> True | _ \<Rightarrow> False)
    | Do_Put \<Rightarrow> (case fwd s of Fwd_Put _ \<Rightarrow> True | _ \<Rightarrow> False)
    | Do_Reverse _ \<Rightarrow> True)"

text \<open>
  C29. Every step of every thread returns: in each reachable state, a thread that is at the beginning
  of a step finishes it, with a new state or an error. In particular the scheduler's loop over the
  messages that are due ends.
\<close>

theorem link_steps_return:
  assumes "link_run corr cfg s tr" and "enabled s a"
  shows "\<exists>r. link_act corr cfg a s = Some r"
proof -
  obtain bf where "link_inv cfg s tr bf"
    using link_run_inv [OF assms(1)] by blast
  then show ?thesis
    using sched_top_returns assms(2)
    by (cases a; fastforce simp: enabled_def split: sched_pc.splits fwd_pc.splits)
qed

theorem link_steps_return_witness:
  "\<exists>s. link_run corrupt_byte default_cfg s [Accepted (demo_msg 65)] \<and>
    (\<exists>r. link_act corrupt_byte default_cfg (Do_Top (5, 0)) s = Some r)"
proof -
  obtain s where s: "link_run corrupt_byte default_cfg s [Accepted (demo_msg 65)]" "sched s = Sched_Top"
    by (rule demo_reachable)
  with link_steps_return [OF s(1), of "Do_Top (5, 0)"] show ?thesis
    by (auto simp: enabled_def)
qed

lemma fwd_recv_fails: "fwd_recv r s = Inl e \<Longrightarrow> e = Exit 1 \<and> r = None"
  by (auto simp: fwd_recv_def receive_message1_def split: if_splits option.splits)

lemma reverse_forward_fails: "reverse_forward r s = Inl e \<Longrightarrow> e = Exit 1 \<and> r = None"
  by (auto simp: reverse_forward_def receive_message2_def split: if_splits option.splits)

lemma fwd_check_fails:
  "fwd_check corr cfg rands m s = Inl e \<Longrightarrow> \<exists>r r'. corr r r' m = Inl e"
  by (cases rands) (auto simp: fwd_check_def Let_def rbind_def split: if_splits sum.splits)

lemma corrupt_fails:
  "corrupt_byte r r' m = Inl e \<or> corrupt_bit r r' m = Inl e \<Longrightarrow> corrupt_pos r m = Inl e"
  by (auto simp: corrupt_byte_def corrupt_bit_def rbind_def split: sum.splits)

lemma corrupt_pos_ok:
  assumes "msg_ok m" and "0 < msg_len m" and "msg_len m \<le> int MSGSIZE"
  shows "\<exists>i < nat (msg_len m). corrupt_pos r m = Inr i"
proof -
  have "int r mod msg_len m < msg_len m" "0 \<le> int r mod msg_len m"
    using assms(2) by simp_all
  moreover have "nat (int r mod msg_len m) < MSGSIZE"
    using calculation assms(3) by linarith
  ultimately show ?thesis
    using assms by (intro exI [of _ "nat (int r mod msg_len m)"])
      (auto simp: corrupt_pos_def msg_ok_def Let_def)
qed

lemma launch_act_returns:
  assumes "link_inv cfg s tr bf"
  shows "link_act corr cfg Do_Launch s \<noteq> Some (Inl e)"
proof
  assume "link_act corr cfg Do_Launch s = Some (Inl e)"
  then obtain t stuff where pc: "sched s = Sched_Stuff t stuff" "sched_launch cfg t stuff s = Inl e"
    by (auto split: sched_pc.splits)
  have "equeue_repr (lbuffer s) bf" "equeue_repr (in_flight s) (pending cfg tr)" "stuff \<longrightarrow> bf \<noteq> []"
    using assms pc(1) by (auto simp: link_inv_def)
  from sched_launch_repr [OF this, of cfg t] pc(2) show False
    by auto
qed

lemma put_act_returns:
  assumes "link_inv cfg s tr bf"
  shows "link_act corr cfg Do_Put s \<noteq> Some (Inl e)"
proof
  assume "link_act corr cfg Do_Put s = Some (Inl e)"
  then obtain m where m: "fwd s = Fwd_Put m" "fwd_put m s = Inl e"
    by (auto split: fwd_pc.splits)
  have "equeue_repr (lbuffer s) bf"
    using assms by (simp add: link_inv_def)
  from enqueue_repr [OF this, of m] m(2) show False
    by (auto simp: fwd_put_def)
qed

lemma forward_act_fails:
  assumes "link_act corr cfg (Do_Forward rands) s = Some (Inl e)" and "corr \<in> {corrupt_byte, corrupt_bit}"
  obtains m where "fwd s = Fwd_Check m" "e \<in> {Division_By_Zero, Out_Of_Bounds}"
    "\<not> (msg_ok m \<and> 0 < msg_len m \<and> msg_len m \<le> int MSGSIZE)"
proof -
  obtain m where m: "fwd s = Fwd_Check m" "fwd_check corr cfg rands m s = Inl e"
    using assms(1) by (auto split: fwd_pc.splits)
  obtain r where r: "corrupt_pos r m = Inl e"
    using fwd_check_fails [OF m(2)] assms(2) corrupt_fails by blast
  then have "e \<in> {Division_By_Zero, Out_Of_Bounds}"
    by (auto simp: corrupt_pos_def Let_def split: if_splits)
  then show ?thesis
    using that m(1) r corrupt_pos_ok [of m r] by auto
qed

lemmas act_returns = launch_act_returns put_act_returns

text \<open>
  C23. The only failures. A step from a reachable state fails only when \<open>recvfrom\<close> fails, when a
  message is corrupted whose length field is zero or reaches behind the payload, or when the
  scheduler finds its assertion wrong that the buffer is empty before it waits. No step uses a dead or
  a null pointer, and no assertion of the queues fails.
\<close>

theorem link_failures:
  assumes "link_run corr cfg s tr" and "corr \<in> {corrupt_byte, corrupt_bit}"
    and "link_act corr cfg a s = Some (Inl e)"
  shows "(a \<in> {Do_Recv None, Do_Reverse None} \<and> e = Exit 1) \<or>
    (\<exists>rands m. a = Do_Forward rands \<and> fwd s = Fwd_Check m \<and> e \<in> {Division_By_Zero, Out_Of_Bounds} \<and>
      \<not> (msg_ok m \<and> 0 < msg_len m \<and> msg_len m \<le> int MSGSIZE)) \<or>
    (a = Do_Check \<and> e = Assert_Failed \<and> esize (snd (lbuffer s)) \<noteq> 0)"
proof -
  obtain bf where inv: "link_inv cfg s tr bf"
    using link_run_inv [OF assms(1)] by blast
  show ?thesis
  proof (cases a)
    case (Do_Top clock)
    then show ?thesis
      using assms(3) sched_top_returns [OF inv, of clock] by (auto split: if_splits)
  next
    case Do_Check
    then show ?thesis
      using assms(3) by (auto simp: sched_check_def split: if_splits)
  next
    case Do_Wake
    then show ?thesis
      using assms(3) by (auto split: if_splits)
  next
    case (Do_Recv r)
    then have "fwd_recv r s = Inl e"
      using assms(3) by (auto simp: rbind_def split: if_splits sum.splits)
    with Do_Recv fwd_recv_fails show ?thesis
      by blast
  next
    case (Do_Forward rands)
    with assms(3) have "link_act corr cfg (Do_Forward rands) s = Some (Inl e)"
      by simp
    from forward_act_fails [OF this assms(2)] Do_Forward show ?thesis
      by blast
  next
    case (Do_Reverse r)
    then show ?thesis
      using assms(3) reverse_forward_fails by auto
  qed (use act_returns [OF inv] assms(3) in blast)+
qed

theorem link_failures_witness:
  "\<exists>s. link_run corrupt_bit default_cfg s [Accepted (demo_msg 65)] \<and>
    link_act corrupt_bit default_cfg (Do_Recv None) s = Some (Inl (Exit 1)) \<and>
    ((Do_Recv None \<in> {Do_Recv None, Do_Reverse None} \<and> Exit 1 = Exit 1) \<or>
    (\<exists>rands m. Do_Recv None = Do_Forward rands \<and> fwd s = Fwd_Check m \<and>
      Exit 1 \<in> {Division_By_Zero, Out_Of_Bounds} \<and>
      \<not> (msg_ok m \<and> 0 < msg_len m \<and> msg_len m \<le> int MSGSIZE)) \<or>
    (Do_Recv None = Do_Check \<and> Exit 1 = Assert_Failed \<and> esize (snd (lbuffer s)) \<noteq> 0))"
proof -
  obtain s where s: "link_run corrupt_bit default_cfg s [Accepted (demo_msg 65)]" "fwd s = Fwd_Recv"
    by (rule demo_reachable)
  then have f: "link_act corrupt_bit default_cfg (Do_Recv None) s = Some (Inl (Exit 1))"
    by (simp add: fwd_recv_def receive_message1_def)
  show ?thesis
    using s(1) f link_failures [OF s(1) _ f] by blast
qed

section \<open>The assertion of the scheduler\<close>

text \<open>The two messages, and the steps in the order in which the threads take them.\<close>

definition race :: "action list" where
  "race = [Do_Recv (Some (local_addr 9, demo_msg 0)), Do_Recv (Some (local_addr 9, demo_msg 65)),
     Do_Top (5, 0), Do_Forward (50, 50, 0, 0), Do_Put, Do_Launch] @ [Do_Check]"

lemma link_acts_append_fails:
  assumes "link_acts corr cfg as s = Some (Inr (s1, out1))" and "link_acts corr cfg bs s1 = Some (Inl e)"
  shows "link_acts corr cfg (as @ bs) s = Some (Inl e)"
  using assms
proof (induction as arbitrary: s out1)
  case Nil
  then show ?case
    by simp
next
  case (Cons a as)
  then obtain s' o1 o2 where "link_act corr cfg a s = Some (Inr (s', o1))"
      "link_acts corr cfg as s' = Some (Inr (s1, o2))"
    by (auto simp del: link_act.simps split: option.splits sum.splits elim!: rbind_InrE)
  with Cons.IH [OF this(2) Cons.prems(2)] show ?case
    by (simp del: link_act.simps)
qed

text \<open>Before the check the scheduler has found the buffer empty, and the buffer holds a message.\<close>

lemma race_before_check:
  "\<exists>s. link_acts corr default_cfg [Do_Recv (Some (local_addr 9, demo_msg 0)),
      Do_Recv (Some (local_addr 9, demo_msg 65)), Do_Top (5, 0), Do_Forward (50, 50, 0, 0), Do_Put, Do_Launch]
      link_init = Some (Inr (s, [Accepted (demo_msg 65)])) \<and>
    sched s = Sched_Check \<and> equeue_repr (lbuffer s) [demo_msg 65]"
proof -
  obtain q where q: "enqueue (create_queue empty_store) (demo_msg 65) = Inr q"
      "equeue_repr q [demo_msg 65]"
    using enqueue_repr [OF create_queue_repr [OF wf_empty_store]] by fastforce
  have t: "sint (now (5, 0)) = 5000000"
    by code_simp
  let ?up = "link_init\<lparr>remote_addr1 := local_addr 9, link_up1 := True\<rparr>"
  let ?s3 = "?up\<lparr>fwd := Fwd_Check (demo_msg 65), sched := Sched_Stuff 5000000 False\<rparr>"
  let ?s4 = "?up\<lparr>fwd := Fwd_Put (demo_msg 65), sched := Sched_Stuff 5000000 False\<rparr>"
  let ?s5 = "?up\<lparr>lbuffer := q, sched := Sched_Stuff 5000000 False\<rparr>"
  let ?s6 = "?up\<lparr>lbuffer := q, sched := Sched_Check\<rparr>"
  have recv: "link_act corr default_cfg (Do_Recv (Some (local_addr 9, demo_msg 0))) link_init = Some (Inr (?up, []))"
    "link_act corr default_cfg (Do_Recv (Some (local_addr 9, demo_msg 65))) ?up =
      Some (Inr (?up\<lparr>fwd := Fwd_Check (demo_msg 65)\<rparr>, []))"
    by (simp_all add: link_init_def fwd_recv_def receive_message1_def)
  have top: "link_act corr default_cfg (Do_Top (5, 0)) (?up\<lparr>fwd := Fwd_Check (demo_msg 65)\<rparr>) =
      Some (Inr (?s3, []))"
    by (simp add: sched_top_def t Let_def send_due.simps link_init_def create_queue_def)
  have forward: "link_act corr default_cfg (Do_Forward (50, 50, 0, 0)) ?s3 = Some (Inr (?s4, []))"
    by (simp add: link_init_def fwd_check_def default_cfg_def BUFFER_SIZE_def create_queue_def)
  have put: "link_act corr default_cfg Do_Put ?s4 = Some (Inr (?s5, [Accepted (demo_msg 65)]))"
    using q(1) by (simp add: fwd_put_def link_init_def)
  have launch: "link_act corr default_cfg Do_Launch ?s5 = Some (Inr (?s6, []))"
    by (simp add: sched_launch_def launch_def wait_times_def link_init_def create_queue_def)
  show ?thesis
    by (rule exI [of _ ?s6]) (simp add: recv top forward put launch q(2) del: link_act.simps)
qed

text \<open>
  C38. The scheduler's assertion can fail: with the default parameters, when the first message is
  enqueued after the scheduler has found the buffer empty and before it locks it to wait, the program
  aborts, in \<open>Lab02\<close> and \<open>Lab03\<close> alike.
\<close>

theorem link_assertion_race:
  "link_acts corrupt_byte default_cfg race link_init = Some (Inl Assert_Failed) \<and>
   link_acts corrupt_bit default_cfg race link_init = Some (Inl Assert_Failed)"
proof -
  have "link_acts corr default_cfg race link_init = Some (Inl Assert_Failed)" for corr
  proof -
    obtain s where s: "link_acts corr default_cfg [Do_Recv (Some (local_addr 9, demo_msg 0)),
        Do_Recv (Some (local_addr 9, demo_msg 65)), Do_Top (5, 0), Do_Forward (50, 50, 0, 0), Do_Put, Do_Launch]
        link_init = Some (Inr (s, [Accepted (demo_msg 65)]))"
        "sched s = Sched_Check" "equeue_repr (lbuffer s) [demo_msg 65]"
      using race_before_check by blast
    have "link_acts corr default_cfg [Do_Check] s = Some (Inl Assert_Failed)"
      using s(2) equeue_size [OF s(3)] by (simp add: sched_check_def)
    from link_acts_append_fails [OF s(1) this] show ?thesis
      by (simp only: race_def)
  qed
  then show ?thesis
    by blast
qed

end
