(* ===== verification/Link_Main.thy ===== *)
theory Link_Main
  imports Link_Emulator
begin

text \<open>
  The command line of the link emulator: \<open>split_param\<close>, the conversion of the values and the start
  of the threads (\<open>main\<close>), and the calibration loop \<open>guess_hz\<close> of a debug build.
\<close>

section \<open>Parameters\<close>

text \<open>
  The local array \<open>c\<close> of 100 characters, unwritten at first, and the string that starts it: reading
  an unwritten element or past the end is an error.
\<close>

type_synonym chars = "char option list"

fun array_string :: "chars \<Rightarrow> string res" where
  "array_string [] = Inl Out_Of_Bounds"
| "array_string (None # cs) = Inl Uninitialised"
| "array_string (Some c # cs) =
     (if c = CHR 0x00 then Inr [] else rbind (array_string cs) (\<lambda>s. Inr (c # s)))"

definition to_lower :: "char \<Rightarrow> char" where
  "to_lower c = (if 65 \<le> char_val c \<and> char_val c \<le> 90 then char_of (char_val c + 32) else c)"

definition strcasecmp_eq :: "string \<Rightarrow> string \<Rightarrow> bool" where
  "strcasecmp_eq a b \<longleftrightarrow> map to_lower a = map to_lower b"

definition SPEED :: int where "SPEED = 1"
definition DELAY :: int where "DELAY = 2"
definition LOSS :: int where "LOSS = 3"
definition CORRUPT :: int where "CORRUPT = 4"

definition param_type :: "string \<Rightarrow> int option" where
  "param_type c =
    (if strcasecmp_eq c ''speed'' then Some SPEED
     else if strcasecmp_eq c ''delay'' then Some DELAY
     else if strcasecmp_eq c ''loss'' then Some LOSS
     else if strcasecmp_eq c ''corrupt'' then Some CORRUPT
     else None)"

text \<open>
  The loop over the characters, with \<open>t\<close>, \<open>crt\<close>, the array and \<open>*type\<close>; the outer \<open>None\<close> is the
  return of -1. After the name the same array is filled again from its start.
\<close>

fun split_loop ::
  "string \<Rightarrow> bool \<Rightarrow> nat \<Rightarrow> chars \<Rightarrow> int option \<Rightarrow> (chars \<times> int option) option res" where
  "split_loop [] t crt c type = Inr (Some (c, type))"
| "split_loop (p # ps) t crt c type =
     (if 100 \<le> crt then Inl Out_Of_Bounds
      else if t \<and> p = CHR ''=''
      then (let c' = c[crt := Some CHR 0x00]
            in rbind (array_string c') (\<lambda>name. case param_type name of
                 None \<Rightarrow> Inr None
               | Some ty \<Rightarrow> split_loop ps False 0 c' (Some ty)))
      else split_loop ps t (Suc crt) (c[crt := Some p]) type)"

text \<open>
  The conversion of the value is \<open>atof\<close>; floating point numbers and the conversions of \<open>main\<close> from
  \<open>double\<close> to \<open>int\<close> are an argument.
\<close>

record 'd float_ops =
  atof :: "string \<Rightarrow> 'd"
  to_serialization :: "'d \<Rightarrow> int"
  to_micros :: "'d \<Rightarrow> int"
  to_percent :: "'d \<Rightarrow> int"

definition split_param :: "'d float_ops \<Rightarrow> string \<Rightarrow> (int option \<times> 'd) option res" where
  "split_param ops p =
    rbind (split_loop p True 0 (replicate 100 None) None) (\<lambda>r. case r of
      None \<Rightarrow> Inr None
    | Some (c, type) \<Rightarrow> rbind (array_string c) (\<lambda>s. Inr (Some (type, atof ops s))))"

text \<open>One argument of \<open>main\<close>; \<open>None\<close> is the usage message and the return of -1.\<close>

definition set_param :: "'d float_ops \<Rightarrow> string \<Rightarrow> link_cfg \<Rightarrow> link_cfg option res" where
  "set_param ops arg cfg =
    rbind (split_param ops arg) (\<lambda>r. case r of
      None \<Rightarrow> Inr None
    | Some (None, _) \<Rightarrow> Inl Uninitialised
    | Some (Some type, value) \<Rightarrow>
        Inr (Some
          (if type = SPEED then cfg\<lparr>serialization_delay := to_serialization ops value\<rparr>
           else if type = DELAY then cfg\<lparr>delay := to_micros ops value\<rparr>
           else if type = LOSS then cfg\<lparr>loss := to_percent ops value\<rparr>
           else if type = CORRUPT then cfg\<lparr>corrupt := to_percent ops value\<rparr>
           else cfg)))"

fun set_params :: "'d float_ops \<Rightarrow> string list \<Rightarrow> link_cfg \<Rightarrow> link_cfg option res" where
  "set_params ops [] cfg = Inr (Some cfg)"
| "set_params ops (arg # argv) cfg =
     rbind (set_param ops arg cfg) (\<lambda>r. case r of
       None \<Rightarrow> Inr None | Some cfg' \<Rightarrow> set_params ops argv cfg')"

text \<open>
  \<open>main\<close>: the parameters, the sockets, the empty buffer and the two threads, whose creation must
  succeed; the result is the configuration and the state in which the threads start to run.
\<close>

definition link_main ::
  "'d float_ops \<Rightarrow> string list \<Rightarrow> int option \<Rightarrow> bool \<Rightarrow> int option \<Rightarrow> bool \<Rightarrow> bool \<times> bool \<Rightarrow>
    (link_cfg \<times> link) option res" where
  "link_main ops argv sock1 bind_fails1 sock2 bind_fails2 thread_fails =
    rbind (set_params ops argv default_cfg) (\<lambda>r. case r of
      None \<Rightarrow> Inr None
    | Some cfg \<Rightarrow>
        rbind (init_sockets sock1 bind_fails1 sock2 bind_fails2) (\<lambda>_.
          if fst thread_fails \<or> snd thread_fails then Inl Assert_Failed
          else Inr (Some (cfg, link_init))))"

text \<open>
  \<open>guess_hz\<close>: the average error of a sleep, from the clock readings before and after each of twice 100
  sleeps; the division truncates towards zero. The first error is printed, the second printed and
  returned.
\<close>

definition average_error :: "(u64 \<times> u64) list \<Rightarrow> int \<Rightarrow> int" where
  "average_error readings target =
    (let diff = foldl (\<lambda>diff (a, b). diff + (sint b - sint a)) 0 readings; n = int (length readings)
     in sint (of_int (sgn diff * (\<bar>diff\<bar> div n) - target) :: u32))"

definition guess_hz :: "(u64 \<times> u64) list \<Rightarrow> (u64 \<times> u64) list \<Rightarrow> int \<times> int" where
  "guess_hz readings100 readings1000 =
    (average_error (take 100 readings100) 100, average_error (take 100 readings1000) 1000)"

section \<open>What \<open>split_param\<close> makes of a parameter\<close>

lemma list_update_prefix:
  "length xs = n \<Longrightarrow> ys \<noteq> [] \<Longrightarrow> (xs @ ys)[n := y] = (xs @ [y]) @ tl ys"
  by (cases ys) (simp_all add: list_update_append)

lemma split_loop_fill:
  assumes "t \<longrightarrow> CHR ''='' \<notin> set w" and "length w + length pre \<le> 100"
    and "length w \<le> length rest" and "length pre + length rest = 100"
  shows "split_loop (w @ ps) t (length pre) (pre @ rest) type =
    split_loop ps t (length pre + length w) (pre @ map Some w @ drop (length w) rest) type"
  using assms
proof (induction w arbitrary: pre rest)
  case (Cons a w)
  then obtain r rest' where rest: "rest = r # rest'"
    by (cases rest) auto
  have "split_loop ((a # w) @ ps) t (length pre) (pre @ rest) type =
      split_loop (w @ ps) t (length (pre @ [Some a])) ((pre @ [Some a]) @ rest') type"
    using Cons.prems by (auto simp: rest)
  also have "\<dots> = split_loop ps t (length (pre @ [Some a]) + length w)
      ((pre @ [Some a]) @ map Some w @ drop (length w) rest') type"
    by (rule Cons.IH) (use Cons.prems in \<open>auto simp: rest\<close>)
  finally show ?case
    by (simp add: rest)
qed simp

lemma array_string_terminated:
  "CHR 0x00 \<notin> set w \<Longrightarrow> array_string (map Some w @ Some CHR 0x00 # cs) = Inr w"
  by (induction w) auto

text \<open>
  What \<open>split_param\<close> returns for \<open>name=value\<close>: the type of the name and the number that starts the
  value followed by the tail of the name, because the value overwrites the name in the same array
  without a terminator of its own (so \<open>loss=12\<close> is read as \<open>12ss\<close>). This holds for every name of at
  most 98 characters and every value no longer than the name; an unknown name is an error.
\<close>

theorem split_param_value:
  assumes "CHR ''='' \<notin> set name" "CHR 0x00 \<notin> set name" "CHR 0x00 \<notin> set value"
    and "length name < 99" "length value \<le> length name"
  shows "split_param ops (name @ CHR ''='' # value) =
    Inr (case param_type name of None \<Rightarrow> None
         | Some type \<Rightarrow> Some (Some type, atof ops (value @ drop (length value) name)))"
proof -
  let ?rest = "replicate (99 - length name) (None :: char option)"
  let ?named = "map Some name @ Some CHR 0x00 # ?rest"
  have fill: "split_loop (name @ CHR ''='' # value) True 0 (replicate 100 None) None =
      split_loop (CHR ''='' # value) True (length name) (map Some name @ replicate (100 - length name) None) None"
    using split_loop_fill [of True name "[]" "replicate 100 None" "CHR ''='' # value" None] assms
    by simp
  have "100 - length name = Suc (99 - length name)"
    using assms(4) by simp
  then have named: "(map Some name @ replicate (100 - length name) None)[length name := Some CHR 0x00] = ?named"
    by (simp add: list_update_append)
  have again: "split_loop value False 0 ?named ty = Inr (Some (map Some value @ drop (length value) ?named, ty))" for ty
    using split_loop_fill [of False "value" "[]" ?named "[]" ty] assms(4,5) by simp
  have "CHR 0x00 \<notin> set (value @ drop (length value) name)"
    using assms(2,3) by (auto dest: in_set_dropD)
  note str = array_string_terminated [OF this, of ?rest, unfolded map_append append_assoc]
  have "split_loop (name @ CHR ''='' # value) True 0 (replicate 100 None) None =
      Inr (case param_type name of None \<Rightarrow> None
        | Some ty \<Rightarrow> Some (map Some (value @ drop (length value) name) @ Some CHR 0x00 # ?rest, Some ty))"
    unfolding fill using assms(4,5)
    by (simp add: named array_string_terminated [OF assms(2)] Let_def again drop_map
        split: option.split)
  then show ?thesis
    by (simp add: split_param_def str split: option.split)
qed

theorem split_param_value_witness:
  "split_param \<lparr>atof = length, to_serialization = int, to_micros = int, to_percent = int\<rparr>
      (''loss'' @ CHR ''='' # ''12'') =
    Inr (case param_type ''loss'' of None \<Rightarrow> None
      | Some type \<Rightarrow> Some (Some type,
          atof \<lparr>atof = length, to_serialization = int, to_micros = int, to_percent = int\<rparr>
            (''12'' @ drop (length ''12'') ''loss'')))"
  by (rule split_param_value) simp_all

end
