(* ===== verification/File_Transfer.thy ===== *)
theory File_Transfer
  imports Link_Lib
begin

text \<open>
  The two programs of \<open>Lab02\<close> that copy a file over the link, \<open>send.c\<close> and \<open>recv.c\<close>: the sender
  announces the name and the size, then sends the file in messages of at most 1399 bytes, each after
  the reply to the one before; the receiver writes what it gets until the announced size is used up.

  The replies and messages a program receives are a list (\<open>None\<close> a failing \<open>recvfrom\<close>); a program that
  asks for more than the list holds is \<open>Waiting\<close>; one that runs for ever is \<open>Looping\<close>. \<open>printf\<close> of a payload reads up to its terminator.
\<close>

section \<open>The sender\<close>

definition send_file_name :: string where
  "send_file_name = ''send.txt''"

text \<open>The first message: 12 bytes of \<open>name size\<close>, the terminator included.\<close>

definition announce :: "int \<Rightarrow> u8 list \<Rightarrow> msg" where
  "announce inputFileSize payload =
    (let s = take 11 (send_file_name @ CHR '' '' # show_int inputFileSize)
     in \<lparr>msg_len = int (length s) + 1, msg_data = put_string s payload\<rparr>)"

text \<open>What the sender says about a reply.\<close>

datatype reply_note = Got_Ack | No_Ack | Receive_Error

definition note_reply :: "msg option \<Rightarrow> reply_note res" where
  "note_reply r = (case r of
       None \<Rightarrow> Inr Receive_Error
     | Some m \<Rightarrow> rbind (string_of (msg_data m)) (\<lambda>s. Inr (if s = ''ACK'' then Got_Ack else No_Ack)))"

text \<open>
  The loop over the rest of the file, with the payload of \<open>t\<close>: after the first pass it is all zero
  (\<open>memset\<close>), in the first it is what the reply left there.
\<close>

function send_chunks ::
  "u8 list \<Rightarrow> u8 list \<Rightarrow> msg option list \<Rightarrow> (msg list \<times> reply_note list \<times> proc_end) res" where
  "send_chunks file payload replies =
    (if file = [] then Inr ([], [], Returned 0)
     else let chunk = take (MSGSIZE - 1) file;
              t = \<lparr>msg_len = int (length chunk), msg_data = write_at 0 chunk payload\<rparr>
          in case replies of
               [] \<Rightarrow> Inr ([t], [], Waiting)
             | r # rs \<Rightarrow>
                 rbind (note_reply r) (\<lambda>n.
                 rbind (send_chunks (drop (MSGSIZE - 1) file) (replicate MSGSIZE 0) rs) (\<lambda>(ts, ns, e).
                 Inr (t # ts, n # ns, e))))"
  by pat_completeness auto

termination
  by (relation "measure (\<lambda>(file, _, _). length file)") (auto simp: MSGSIZE_def)

declare send_chunks.simps [simp del]

text \<open>
  \<open>main\<close> of \<open>send.c\<close> after \<open>init\<close>; \<open>garbage\<close> is the payload of \<open>t\<close>. If the file cannot be opened
  (\<open>None\<close>) the size is -1 and every \<open>read\<close> fails, which the loop reports for ever. Reads of an open
  file do not fail.
\<close>

definition send_main ::
  "u8 list option \<Rightarrow> u8 list \<Rightarrow> msg option list \<Rightarrow> (msg list \<times> reply_note list \<times> proc_end) res" where
  "send_main file garbage replies =
    (let t = announce (case file of None \<Rightarrow> - 1 | Some bs \<Rightarrow> int (length bs)) garbage
     in case replies of
          [] \<Rightarrow> Inr ([t], [], Waiting)
        | r # rs \<Rightarrow>
            rbind (note_reply r) (\<lambda>n.
            rbind (case file of
                None \<Rightarrow> Inr ([], [], Looping)
              | Some bs \<Rightarrow> send_chunks bs (case r of None \<Rightarrow> msg_data t | Some m \<Rightarrow> msg_data m) rs)
              (\<lambda>(ts, ns, e). Inr (t # ts, n # ns, e))))"

section \<open>The receiver\<close>

text \<open>\<open>write\<close> appends the first \<open>len\<close> bytes of the payload; a negative length writes nothing.\<close>

fun receive_chunks ::
  "msg \<Rightarrow> int \<Rightarrow> u8 list \<Rightarrow> msg option list \<Rightarrow> (u8 list \<times> msg list \<times> proc_end) res" where
  "receive_chunks s outputFileSize out [] =
     Inr (out, [], if outputFileSize = 0 then Returned 0 else Waiting)"
| "receive_chunks s outputFileSize out (r # rs) =
     (if outputFileSize = 0 then Inr (out, [], Returned 0)
      else case r of
        None \<Rightarrow> Inr (out, [], Returned (- 1))
      | Some m \<Rightarrow>
          rbind (string_of (msg_data m)) (\<lambda>_.
            if int (length (msg_data m)) < msg_len m then Inl Out_Of_Bounds
            else rbind (receive_chunks s (outputFileSize - msg_len m)
                (out @ take (nat (msg_len m)) (msg_data m)) rs) (\<lambda>(out', acks, e).
              Inr (out', s # acks, e))))"

definition ack_msg :: msg where
  "ack_msg = \<lparr>msg_len = 4, msg_data = put_string ''ACK'' (replicate MSGSIZE 0)\<rparr>"

text \<open>\<open>sscanf\<close> with \<open>%s %d\<close>: a name of at most 1399 characters, then a number.\<close>

definition scan_announce :: "string \<Rightarrow> int res" where
  "scan_announce s = (case scan_s s of
       None \<Rightarrow> Inl Uninitialised
     | Some (name, r) \<Rightarrow>
         if MSGSIZE \<le> length name then Inl Out_Of_Bounds
         else (case scan_d r of None \<Rightarrow> Inl Uninitialised | Some (n, _) \<Rightarrow> Inr n))"

text \<open>
  \<open>main\<close> of \<open>recv.c\<close> after \<open>init\<close>: the bytes written from the start of the output file (which is not
  truncated), the replies, and how it ends.
\<close>

definition recv_main :: "msg option list \<Rightarrow> (u8 list \<times> msg list \<times> proc_end) res" where
  "recv_main msgs = (case msgs of
       [] \<Rightarrow> Inr ([], [], Waiting)
     | None # _ \<Rightarrow> Inr ([], [], Returned (- 1))
     | Some r # rs \<Rightarrow>
         rbind (string_of (msg_data r)) (\<lambda>p.
         rbind (scan_announce p) (\<lambda>outputFileSize.
         rbind (receive_chunks ack_msg outputFileSize [] rs) (\<lambda>(out, acks, e).
         Inr (out, ack_msg # acks, e)))))"

section \<open>Copying a file\<close>

text \<open>The bytes of the file a message carries, and what the sender's messages have in common.\<close>

definition msg_chunk :: "msg \<Rightarrow> u8 list" where
  "msg_chunk m = take (nat (msg_len m)) (msg_data m)"

definition chunk_ok :: "msg \<Rightarrow> bool" where
  "chunk_ok m \<longleftrightarrow> 0 < msg_len m \<and> msg_len m < int MSGSIZE \<and> length (msg_data m) = MSGSIZE \<and>
    msg_data m ! (MSGSIZE - 1) = 0"

lemma note_ack: "note_reply (Some ack_msg) = Inr Got_Ack"
  by (simp add: note_reply_def ack_msg_def string_of_put MSGSIZE_def)

lemma ack_data: "length (msg_data ack_msg) = MSGSIZE" "msg_data ack_msg ! (MSGSIZE - 1) = 0"
  by (simp_all add: ack_msg_def put_string_def MSGSIZE_def bytes_of_def nth_write_at)

lemma chunk_written:
  assumes "length payload = MSGSIZE" "payload ! (MSGSIZE - 1) = 0" "file \<noteq> []"
  shows "chunk_ok \<lparr>msg_len = int (length (take (MSGSIZE - 1) file)),
      msg_data = write_at 0 (take (MSGSIZE - 1) file) payload\<rparr>"
    and "msg_chunk \<lparr>msg_len = int (length (take (MSGSIZE - 1) file)),
      msg_data = write_at 0 (take (MSGSIZE - 1) file) payload\<rparr> = take (MSGSIZE - 1) file"
proof -
  have len: "length (take (MSGSIZE - 1) file) \<le> MSGSIZE - 1" "0 < MSGSIZE"
    by (simp_all add: MSGSIZE_def)
  then have "write_at 0 (take (MSGSIZE - 1) file) payload ! (MSGSIZE - 1) = 0"
    using assms(1,2) by (subst nth_write_at) auto
  moreover have "int (length (take (MSGSIZE - 1) file)) < int MSGSIZE"
    using len by linarith
  moreover have "0 < length (take (MSGSIZE - 1) file)"
    using assms(3) by (simp add: MSGSIZE_def)
  moreover have "length (write_at 0 (take (MSGSIZE - 1) file) payload) = MSGSIZE"
    using assms(1) len by simp
  ultimately show "chunk_ok \<lparr>msg_len = int (length (take (MSGSIZE - 1) file)),
      msg_data = write_at 0 (take (MSGSIZE - 1) file) payload\<rparr>"
    unfolding chunk_ok_def by (auto simp only: msg.select_convs of_nat_0_less_iff)
  show "msg_chunk \<lparr>msg_len = int (length (take (MSGSIZE - 1) file)),
      msg_data = write_at 0 (take (MSGSIZE - 1) file) payload\<rparr> = take (MSGSIZE - 1) file"
    unfolding msg_chunk_def by (simp only: msg.select_convs nat_int) (simp add: write_at_def min_def)
qed

lemma send_chunks_acked:
  assumes "length payload = MSGSIZE" "payload ! (MSGSIZE - 1) = 0" "length file \<le> k * (MSGSIZE - 1)"
  shows "\<exists>msgs. send_chunks file payload (replicate (length msgs) (Some ack_msg)) =
      Inr (msgs, replicate (length msgs) Got_Ack, Returned 0) \<and>
    (\<forall>m \<in> set msgs. chunk_ok m) \<and> concat (map msg_chunk msgs) = file \<and>
    (MSGSIZE - 1 \<le> length file \<longrightarrow> msgs \<noteq> [] \<and> msg_len (hd msgs) = int (MSGSIZE - 1)) \<and>
    (length file < MSGSIZE - 1 \<longrightarrow> length msgs \<le> 1) \<and> (file = [] \<longrightarrow> msgs = [])"
  using assms
proof (induction k arbitrary: "file" payload)
  case 0
  then show ?case
    by (intro exI [of _ "[]"]) (simp add: send_chunks.simps, simp add: MSGSIZE_def)
next
  case (Suc k)
  show ?case
  proof (cases "file = []")
    case True
    then show ?thesis
      by (intro exI [of _ "[]"]) (simp add: send_chunks.simps, simp add: MSGSIZE_def)
  next
    case False
    let ?t = "\<lparr>msg_len = int (length (take (MSGSIZE - 1) file)),
      msg_data = write_at 0 (take (MSGSIZE - 1) file) payload\<rparr>"
    have "length (drop (MSGSIZE - 1) file) \<le> k * (MSGSIZE - 1)"
      using Suc.prems(3) by simp
    moreover have "length (replicate MSGSIZE (0 :: u8)) = MSGSIZE" "replicate MSGSIZE (0 :: u8) ! (MSGSIZE - 1) = 0"
      by (simp_all add: MSGSIZE_def)
    ultimately obtain msgs where msgs:
      "send_chunks (drop (MSGSIZE - 1) file) (replicate MSGSIZE 0) (replicate (length msgs) (Some ack_msg)) =
        Inr (msgs, replicate (length msgs) Got_Ack, Returned 0)"
      "\<forall>m \<in> set msgs. chunk_ok m" "concat (map msg_chunk msgs) = drop (MSGSIZE - 1) file"
      "drop (MSGSIZE - 1) file = [] \<longrightarrow> msgs = []"
      using Suc.IH by metis
    have "send_chunks file payload (replicate (length (?t # msgs)) (Some ack_msg)) =
        Inr (?t # msgs, replicate (length (?t # msgs)) Got_Ack, Returned 0)"
      using False msgs(1) by (subst send_chunks.simps) (simp add: Let_def note_ack)
    moreover have "\<forall>m \<in> set (?t # msgs). chunk_ok m"
      using chunk_written(1) [OF Suc.prems(1,2) False] msgs(2) by simp
    moreover have "concat (map msg_chunk (?t # msgs)) = file"
      unfolding list.map concat.simps chunk_written(2) [OF Suc.prems(1,2) False] msgs(3)
      by simp
    ultimately show ?thesis
      using msgs(4) False by (intro exI [of _ "?t # msgs"]) auto
  qed
qed

section \<open>The receiver on the sender's messages\<close>

lemma string_of_chunk: "chunk_ok m \<Longrightarrow> \<exists>s. string_of (msg_data m) = Inr s"
  unfolding chunk_ok_def string_of_def
  by (metis MSGSIZE_def diff_less nth_mem zero_less_numeral zero_less_one)

lemma length_msg_chunk: "chunk_ok m \<Longrightarrow> int (length (msg_chunk m)) = msg_len m"
  by (auto simp: chunk_ok_def msg_chunk_def)

lemma receive_chunks_Cons:
  assumes "chunk_ok m" and "sz \<noteq> 0"
  shows "receive_chunks s sz out (Some m # rs) =
    rbind (receive_chunks s (sz - msg_len m) (out @ msg_chunk m) rs) (\<lambda>(out', acks, e).
      Inr (out', s # acks, e))"
proof -
  obtain p where "string_of (msg_data m) = Inr p"
    using string_of_chunk [OF assms(1)] by blast
  with assms show ?thesis
    by (simp add: chunk_ok_def msg_chunk_def)
qed

lemma receive_chunks_past:
  assumes "\<forall>m \<in> set msgs. chunk_ok m" and "sz < 0"
  shows "receive_chunks s sz out (map Some msgs) =
    Inr (out @ concat (map msg_chunk msgs), replicate (length msgs) s, Waiting)"
  using assms
proof (induction msgs arbitrary: sz out)
  case (Cons m msgs)
  have "0 < msg_len m"
    using Cons.prems(1) by (simp add: chunk_ok_def)
  then have "receive_chunks s (sz - msg_len m) (out @ msg_chunk m) (map Some msgs) =
      Inr ((out @ msg_chunk m) @ concat (map msg_chunk msgs), replicate (length msgs) s, Waiting)"
    using Cons.prems by (intro Cons.IH) auto
  with Cons.prems show ?case
    by (simp add: receive_chunks_Cons del: receive_chunks.simps)
qed simp

lemma receive_chunks_exact:
  assumes "\<forall>m \<in> set msgs. chunk_ok m" and "sz = int (length (concat (map msg_chunk msgs)))"
  shows "receive_chunks s sz out (map Some msgs) =
    Inr (out @ concat (map msg_chunk msgs), replicate (length msgs) s, Returned 0)"
  using assms
proof (induction msgs arbitrary: sz out)
  case (Cons m msgs)
  have m: "0 < msg_len m" "int (length (msg_chunk m)) = msg_len m"
    using Cons.prems(1) length_msg_chunk [of m] by (auto simp: chunk_ok_def)
  then have "receive_chunks s (sz - msg_len m) (out @ msg_chunk m) (map Some msgs) =
      Inr ((out @ msg_chunk m) @ concat (map msg_chunk msgs), replicate (length msgs) s, Returned 0)"
    using Cons.prems by (intro Cons.IH) auto
  moreover have "sz \<noteq> 0"
    using Cons.prems(2) m by auto
  ultimately show ?case
    using Cons.prems(1) by (simp add: receive_chunks_Cons del: receive_chunks.simps)
qed simp

section \<open>The announced size\<close>

lemma announce_string:
  assumes "length garbage = MSGSIZE"
  shows "string_of (msg_data (announce n garbage)) = Inr (send_file_name @ CHR '' '' # take 2 (show_int n))"
    and "scan_announce (send_file_name @ CHR '' '' # take 2 (show_int n)) =
      (case scan_d (take 2 (show_int n)) of None \<Rightarrow> Inl Uninitialised | Some (v, _) \<Rightarrow> Inr v)"
proof -
  have cut: "take 11 (send_file_name @ CHR '' '' # show_int n) = send_file_name @ CHR '' '' # take 2 (show_int n)"
    by (simp add: send_file_name_def)
  have nz: "c \<noteq> CHR 0x00" if "c \<in> set (show_int n)" for c
    using that show_nat_digits by (fastforce simp: show_int_def is_digit_def char_val_def split: if_splits)
  then have "CHR 0x00 \<notin> set (send_file_name @ CHR '' '' # take 2 (show_int n))"
    by (auto simp: send_file_name_def dest: in_set_takeD)
  moreover have "length (send_file_name @ CHR '' '' # take 2 (show_int n)) < length garbage"
    by (simp add: assms MSGSIZE_def send_file_name_def)
  ultimately show "string_of (msg_data (announce n garbage)) =
      Inr (send_file_name @ CHR '' '' # take 2 (show_int n))"
    unfolding announce_def Let_def cut msg.select_convs by (rule string_of_put)
  have "scan_s (send_file_name @ CHR '' '' # take 2 (show_int n)) =
      Some (send_file_name, CHR '' '' # take 2 (show_int n))"
    by (rule scan_s_token) (simp_all add: send_file_name_def is_space_def char_val_def)
  then show "scan_announce (send_file_name @ CHR '' '' # take 2 (show_int n)) =
      (case scan_d (take 2 (show_int n)) of None \<Rightarrow> Inl Uninitialised | Some (v, _) \<Rightarrow> Inr v)"
    by (simp add: scan_announce_def scan_d_skip MSGSIZE_def send_file_name_def)
qed

text \<open>The two digits that remain of a size of three or more are neither 0 nor more than 99.\<close>

lemma take2_show_nat: "10 \<le> n \<Longrightarrow> \<exists>k. 10 \<le> k \<and> k < 100 \<and> take 2 (show_nat n) = show_nat k"
proof (induction n rule: show_nat.induct)
  case (1 n)
  show ?case
  proof (cases "n < 100")
    case True
    then show ?thesis
      using 1 length_show_nat [of n 2] by (intro exI [of _ n]) simp
  next
    case False
    then have "10 \<le> n div 10"
      by (simp add: less_eq_div_iff_mult_less_eq)
    then obtain k where k: "10 \<le> k" "k < 100" "take 2 (show_nat (n div 10)) = show_nat k"
      using 1 False by auto
    have "show_nat k = show_nat (k div 10) @ [digit_char (k mod 10)]"
      using k(1) by (subst show_nat.simps) simp
    then have "2 \<le> length (show_nat k)"
      by (cases "show_nat (k div 10)") auto
    then have "2 \<le> length (show_nat (n div 10))"
      using k(3) by (metis length_take min.cobounded1 order_trans)
    then have "take 2 (show_nat n) = take 2 (show_nat (n div 10))"
      using False by (subst show_nat.simps) simp
    with k show ?thesis
      by auto
  qed
qed

lemma announced_size:
  assumes "n < 2 ^ 31"
  shows "\<exists>v. scan_announce (send_file_name @ CHR '' '' # take 2 (show_int (int n))) = Inr v \<and>
    (n < 100 \<longrightarrow> v = int n) \<and> (100 \<le> n \<longrightarrow> 0 < v \<and> v < 100)"
proof -
  let ?ds = "take 2 (show_nat n)"
  have shown: "show_int (int n) = show_nat n"
    by (simp add: show_int_def)
  have scan: "scan_announce (send_file_name @ CHR '' '' # take 2 (show_int (int n))) =
      (case scan_d ?ds of None \<Rightarrow> Inl Uninitialised | Some (v, _) \<Rightarrow> Inr v)"
    using announce_string(2) [of "replicate MSGSIZE 0" "int n"] by (simp add: shown)
  show ?thesis
  proof (cases "n < 100")
    case True
    then have "?ds = show_int (int n)"
      using length_show_nat [of n 2] by (simp add: shown)
    moreover have "scan_d (show_int (int n) @ []) = Some (int n, [])"
      by (rule scan_d_show_int) (use True in auto)
    ultimately show ?thesis
      using scan True by simp
  next
    case False
    have two: "\<exists>k. 10 \<le> k \<and> k < 100 \<and> ?ds = show_nat k"
      using False by (intro take2_show_nat) simp
    then obtain k where k: "10 \<le> k" "k < 100" "?ds = show_int (int k)"
      by (auto simp: show_int_def)
    have "scan_d (show_int (int k) @ []) = Some (int k, [])"
      by (rule scan_d_show_int) (use k in auto)
    with scan k False show ?thesis
      by simp
  qed
qed

lemma first_chunk_long:
  assumes "\<forall>m \<in> set msgs. chunk_ok m" and "concat (map msg_chunk msgs) = file"
    and "MSGSIZE - 1 \<le> length file \<longrightarrow> msgs \<noteq> [] \<and> msg_len (hd msgs) = int (MSGSIZE - 1)"
    and "length file < MSGSIZE - 1 \<longrightarrow> length msgs \<le> 1" and "100 \<le> length file"
  shows "100 \<le> msg_len (hd msgs)"
proof (cases "MSGSIZE - 1 \<le> length file")
  case True
  with assms(3) show ?thesis
    by (simp add: MSGSIZE_def)
next
  case False
  with assms(2,4,5) obtain m where "msgs = [m]"
    by (cases msgs) auto
  with assms(1,2,5) length_msg_chunk [of m] show ?thesis
    by auto
qed

lemma file_chunks:
  assumes "length garbage = MSGSIZE" and "length file < 2 ^ 31"
  shows "\<exists>msgs. send_chunks file (msg_data ack_msg) (replicate (length msgs) (Some ack_msg)) =
      Inr (msgs, replicate (length msgs) Got_Ack, Returned 0) \<and>
    (\<forall>m \<in> set msgs. chunk_ok m) \<and> concat (map msg_chunk msgs) = file \<and>
    recv_main (map Some (announce (int (length file)) garbage # msgs)) =
      Inr (file, replicate (Suc (length msgs)) ack_msg, if length file < 100 then Returned 0 else Waiting)"
proof -
  let ?n = "length file" and ?t = "announce (int (length file)) garbage"
  have "length file \<le> length file * (MSGSIZE - 1)"
    by (simp add: MSGSIZE_def)
  from send_chunks_acked [OF ack_data this] obtain msgs where msgs:
    "send_chunks file (msg_data ack_msg) (replicate (length msgs) (Some ack_msg)) =
      Inr (msgs, replicate (length msgs) Got_Ack, Returned 0)"
    "\<forall>m \<in> set msgs. chunk_ok m" "concat (map msg_chunk msgs) = file"
    "MSGSIZE - 1 \<le> length file \<longrightarrow> msgs \<noteq> [] \<and> msg_len (hd msgs) = int (MSGSIZE - 1)"
    "length file < MSGSIZE - 1 \<longrightarrow> length msgs \<le> 1"
    by blast
  obtain v where v: "scan_announce (send_file_name @ CHR '' '' # take 2 (show_int (int ?n))) = Inr v"
      "?n < 100 \<longrightarrow> v = int ?n" "100 \<le> ?n \<longrightarrow> 0 < v \<and> v < 100"
    using announced_size [OF assms(2)] by blast
  have recv: "receive_chunks ack_msg v [] (map Some msgs) =
      Inr (file, replicate (length msgs) ack_msg, if ?n < 100 then Returned 0 else Waiting)"
  proof (cases "?n < 100")
    case True
    then show ?thesis
      using receive_chunks_exact [OF msgs(2), of v ack_msg "[]"] msgs(3) v(2) by simp
  next
    case False
    then obtain m ms where m: "msgs = m # ms"
      using msgs(3) by (cases msgs) auto
    have "100 \<le> msg_len m"
      using first_chunk_long [OF msgs(2-5)] False m by simp
    then have "receive_chunks ack_msg (v - msg_len m) ([] @ msg_chunk m) (map Some ms) =
        Inr (([] @ msg_chunk m) @ concat (map msg_chunk ms), replicate (length ms) ack_msg, Waiting)"
      using msgs(2) v(3) False by (intro receive_chunks_past) (auto simp: m)
    then show ?thesis
      using msgs(2,3) v(3) False by (simp add: m receive_chunks_Cons del: receive_chunks.simps)
  qed
  have "recv_main (map Some (?t # msgs)) = Inr (file, replicate (Suc (length msgs)) ack_msg,
      if ?n < 100 then Returned 0 else Waiting)"
    using recv announce_string(1) [OF assms(1)] v(1) by (simp add: recv_main_def)
  with msgs(1-3) show ?thesis
    by blast
qed

text \<open>
  C14. Copying a file over a link that delivers every message and every reply. For every file of less
  than \<open>2 ^ 31\<close> bytes the sender gets an acknowledgement for each message and returns, and the receiver
  writes exactly the bytes of the file; but it returns only for files of less than 100 bytes: the
  announcement is cut to two digits of the size, and for longer files the receiver waits for ever.
\<close>

theorem file_transfer:
  assumes "length garbage = MSGSIZE" and "length file < 2 ^ 31"
  shows "\<exists>msgs. send_main (Some file) garbage (replicate (length msgs) (Some ack_msg)) =
      Inr (msgs, replicate (length msgs) Got_Ack, Returned 0) \<and>
    recv_main (map Some msgs) = Inr (file, replicate (length msgs) ack_msg,
      if length file < 100 then Returned 0 else Waiting)"
proof -
  obtain msgs where "send_chunks file (msg_data ack_msg) (replicate (length msgs) (Some ack_msg)) =
      Inr (msgs, replicate (length msgs) Got_Ack, Returned 0)"
    "recv_main (map Some (announce (int (length file)) garbage # msgs)) =
      Inr (file, replicate (Suc (length msgs)) ack_msg, if length file < 100 then Returned 0 else Waiting)"
    using file_chunks [OF assms] by blast
  then show ?thesis
    by (intro exI [of _ "announce (int (length file)) garbage # msgs"]) (simp add: send_main_def Let_def note_ack)
qed

theorem file_transfer_witness:
  "\<exists>msgs. send_main (Some (replicate 150 7)) (replicate MSGSIZE 1) (replicate (length msgs) (Some ack_msg)) =
      Inr (msgs, replicate (length msgs) Got_Ack, Returned 0) \<and>
    recv_main (map Some msgs) = Inr (replicate 150 7, replicate (length msgs) ack_msg,
      if length (replicate 150 (7 :: u8)) < 100 then Returned 0 else Waiting)"
  by (rule file_transfer) simp_all

end
