(* ===== verification/Parity_Echo.thy ===== *)
theory Parity_Echo
  imports Link_Emulator
begin

text \<open>
  The two programs of \<open>Lab03\<close>, \<open>send.c\<close> and \<open>recv.c\<close>: the sender sends batches of five messages of
  four bytes and awaits five replies, the receiver answers each of 100 messages with the message
  itself and a parity in its length field, which the sender recomputes to decide on a retransmission.

  Messages and replies a program receives are a list (\<open>None\<close> a failing \<open>recvfrom\<close>); when it asks for
  more it waits. Which \<open>sendto\<close> calls fail is a predicate on messages. A file that cannot be opened
  (\<open>None\<close>) makes \<open>read\<close> return -1.
\<close>

datatype ending = Exits int | Waits

definition COUNT :: nat where
  "COUNT = 100"

definition BITSNR :: nat where
  "BITSNR = 8"

text \<open>\<open>strlen\<close> of a payload; the first zero byte may lie outside the array.\<close>

definition payload_strlen :: "msg \<Rightarrow> nat res" where
  "payload_strlen m =
    (if 0 \<in> set (msg_data m) then Inr (length (takeWhile (\<lambda>b. b \<noteq> 0) (msg_data m)))
     else Inl Out_Of_Bounds)"

text \<open>The two loops: characters are signed, and are extended to \<open>int\<close> before the bits are masked.\<close>

definition parity_byte :: "u32 \<Rightarrow> u8 \<Rightarrow> u32" where
  "parity_byte parity b = foldl (\<lambda>p j. p XOR (push_bit j 1 AND scast b)) parity [0..<BITSNR]"

definition parity_of :: "u8 list \<Rightarrow> u32" where
  "parity_of bs = foldl parity_byte 0 bs"

section \<open>The receiver\<close>

definition answer :: "msg \<Rightarrow> msg res" where
  "answer r = rbind (payload_strlen r) (\<lambda>n.
     Inr (r\<lparr>msg_len := sint (parity_of (take n (msg_data r)))\<rparr>))"

fun answer_loop ::
  "(msg \<Rightarrow> bool) \<Rightarrow> nat \<Rightarrow> msg option list \<Rightarrow> (msg list \<times> ending) res" where
  "answer_loop send_fails 0 msgs = Inr ([], Exits 0)"
| "answer_loop send_fails (Suc n) [] = Inr ([], Waits)"
| "answer_loop send_fails (Suc n) (None # msgs) = Inr ([], Exits (- 1))"
| "answer_loop send_fails (Suc n) (Some r # msgs) =
     rbind (answer r) (\<lambda>ack.
       if send_fails ack then Inr ([], Exits (- 1))
       else rbind (answer_loop send_fails n msgs) (\<lambda>(acks, e). Inr (ack # acks, e)))"

definition receiver_main :: "(msg \<Rightarrow> bool) \<Rightarrow> msg option list \<Rightarrow> (msg list \<times> ending) res" where
  "receiver_main send_fails msgs = answer_loop send_fails COUNT msgs"

section \<open>The sender\<close>

definition next_message :: "u8 list option \<Rightarrow> msg \<times> u8 list option" where
  "next_message f = (case f of
       None \<Rightarrow> (\<lparr>msg_len = - 1, msg_data = replicate MSGSIZE 0\<rparr>, None)
     | Some bs \<Rightarrow>
         (\<lparr>msg_len = int (length (take 4 bs)), msg_data = write_at 0 (take 4 bs) (replicate MSGSIZE 0)\<rparr>,
          Some (drop 4 bs)))"

text \<open>
  The first inner loop: the messages sent, the last one, the rest of the file, and whether all could
  be sent.
\<close>

fun send_batch ::
  "(msg \<Rightarrow> bool) \<Rightarrow> nat \<Rightarrow> msg \<Rightarrow> u8 list option \<Rightarrow> msg list \<times> msg \<times> u8 list option \<times> bool" where
  "send_batch send_fails 0 t f = ([], t, f, True)"
| "send_batch send_fails (Suc n) t f =
     (let (t', f') = next_message f
      in if send_fails t' then ([], t', f', False)
         else (let (ts, last_t, rest, ok) = send_batch send_fails n t' f'
               in (t' # ts, last_t, rest, ok)))"

text \<open>
  One reply: its parity is compared with its length field; the bytes of the last message sent are
  copied over its string, and the length of the result becomes the length of that message. The result
  says whether the reply is right.
\<close>

definition check_reply :: "msg \<Rightarrow> msg \<Rightarrow> (bool \<times> msg) res" where
  "check_reply t p =
    rbind (payload_strlen p) (\<lambda>n.
      let parity = parity_of (take n (msg_data p));
          p' = p\<lparr>msg_data := write_at 0 (take n (msg_data t)) (msg_data p)\<rparr>
      in rbind (payload_strlen p') (\<lambda>n'.
         Inr (sint parity = msg_len p, t\<lparr>msg_len := int n'\<rparr>)))"

text \<open>The second inner loop: the retransmissions, \<open>t\<close>, the replies left, and the end if it comes.\<close>

fun await_replies ::
  "nat \<Rightarrow> msg \<Rightarrow> msg option list \<Rightarrow> (msg list \<times> msg \<times> msg option list \<times> ending option) res" where
  "await_replies 0 t rs = Inr ([], t, rs, None)"
| "await_replies (Suc n) t [] = Inr ([], t, [], Some Waits)"
| "await_replies (Suc n) t (None # rs) = Inr ([], t, rs, Some (Exits (- 1)))"
| "await_replies (Suc n) t (Some p # rs) =
     rbind (check_reply t p) (\<lambda>(ok, t').
     rbind (await_replies n t' rs) (\<lambda>(ts, t'', rs', e).
       Inr (if ok then ts else t' # ts, t'', rs', e)))"

fun send_rounds ::
  "(msg \<Rightarrow> bool) \<Rightarrow> nat \<Rightarrow> msg \<Rightarrow> u8 list option \<Rightarrow> msg option list \<Rightarrow> (msg list \<times> ending) res" where
  "send_rounds send_fails 0 t f rs = Inr ([], Exits 0)"
| "send_rounds send_fails (Suc n) t f rs =
     (let (ts, t', f', ok) = send_batch send_fails 5 t f
      in if \<not> ok then Inr (ts, Exits (- 1))
         else rbind (await_replies 5 t' rs) (\<lambda>(again, t'', rs', e).
           case e of
             Some e' \<Rightarrow> Inr (ts @ again, e')
           | None \<Rightarrow>
               rbind (send_rounds send_fails n t'' f' rs') (\<lambda>(more_ts, e').
                 Inr (ts @ again @ more_ts, e'))))"

text \<open>\<open>main\<close> of \<open>send.c\<close> after \<open>init\<close>; its argument is printed as a number.\<close>

definition sender_main ::
  "(msg \<Rightarrow> bool) \<Rightarrow> string list \<Rightarrow> msg \<Rightarrow> u8 list option \<Rightarrow> msg option list \<Rightarrow> (msg list \<times> ending) res"
where
  "sender_main send_fails argv t f rs =
    (if argv = [] then Inl Null_Deref else send_rounds send_fails COUNT t f rs)"

section \<open>The parity\<close>

lemma parity_bits: "foldl (\<lambda>p j. p XOR (push_bit j 1 AND w)) p [0..<n] = p XOR take_bit n w"
  for w :: u32
proof (induction n)
  case (Suc n)
  have "take_bit n w XOR (push_bit n 1 AND w) = take_bit (Suc n) w"
    by (rule bit_word_eqI) (auto simp: bit_simps less_Suc_eq)
  with Suc show ?case
    by (simp add: xor.assoc)
qed simp

lemma parity_byte_xor: "parity_byte p b = p XOR ucast b"
proof -
  have "take_bit 8 (scast b :: u32) = ucast b"
  proof (rule bit_word_eqI)
    fix n :: nat
    show "bit (take_bit 8 (scast b :: u32)) n = bit (ucast b :: u32) n" if "n < LENGTH(32)"
      using that by (cases "n = 7") (auto simp: bit_simps min_def dest: bit_imp_le_length)
  qed
  then show ?thesis
    unfolding parity_byte_def BITSNR_def parity_bits by simp
qed

lemma foldl_parity: "foldl parity_byte p bs = p XOR foldl parity_byte 0 bs"
proof (induction bs arbitrary: p)
  case (Cons b bs)
  show ?case
    unfolding foldl_Cons by (subst Cons, subst (2) Cons) (simp add: parity_byte_xor xor.assoc)
qed simp

lemma parity_of_simps [simp]: "parity_of [] = 0" "parity_of (b # bs) = ucast b XOR parity_of bs"
  unfolding parity_of_def foldl_Cons
  by (simp, subst foldl_parity, simp only: parity_byte_xor xor.left_neutral)

lemma parity_of_split: "parity_of (bs @ cs) = parity_of bs XOR parity_of cs"
  by (induction bs) (simp_all add: xor.assoc)

lemma xor_eq_zero: "a XOR b = 0 \<Longrightarrow> a = b" for a b :: u32
proof -
  assume z: "a XOR b = 0"
  have "a = (a XOR b) XOR b"
    by (simp add: xor.assoc)
  then show "a = b"
    by (simp add: z)
qed

text \<open>
  The parity of \<open>Lab03\<close> detects a flipped bit: it is the exclusive or of all bytes, so changing one
  byte changes it, and it fits the eight low bits of the length field.
\<close>

theorem parity_detects_byte:
  assumes "i < length bs" and "bs ! i \<noteq> b"
  shows "parity_of (bs[i := b]) \<noteq> parity_of bs \<and> parity_of bs < 256"
proof -
  have s: "bs = take i bs @ bs ! i # drop (Suc i) bs"
    using assms(1) by (rule id_take_nth_drop)
  have u: "bs[i := b] = take i bs @ b # drop (Suc i) bs"
    using assms(1) by (rule upd_conv_take_nth_drop)
  have inj: "(ucast (bs ! i) :: u32) \<noteq> ucast b"
    using assms(2) by (metis ucast_ucast_byte)
  have old: "parity_of bs = parity_of (take i bs) XOR (ucast (bs ! i) XOR parity_of (drop (Suc i) bs))"
    using arg_cong [OF s, of parity_of] unfolding parity_of_split parity_of_simps .
  have new: "parity_of (bs[i := b]) = parity_of (take i bs) XOR (ucast b XOR parity_of (drop (Suc i) bs))"
    unfolding u parity_of_split parity_of_simps ..
  have "parity_of (bs[i := b]) XOR parity_of bs = ucast b XOR ucast (bs ! i)"
    unfolding old new by (rule bit_word_eqI) (auto simp: bit_simps)
  also have "\<dots> \<noteq> 0"
    using inj xor_eq_zero by metis
  finally have ne: "parity_of (bs[i := b]) \<noteq> parity_of bs"
    by auto
  have low: "take_bit 8 (parity_of cs) = parity_of cs" for cs
  proof (induction cs)
    case (Cons c cs)
    have "take_bit 8 (ucast c :: u32) = ucast c"
      by (rule bit_word_eqI) (auto simp: bit_simps dest: bit_imp_le_length)
    with Cons show ?case
      by (simp add: take_bit_xor)
  qed simp
  have "unat (parity_of bs) < 256"
  proof -
    have "unat (take_bit 8 (parity_of bs)) < 2 ^ 8"
      unfolding unsigned_take_bit_eq by (rule take_bit_nat_less_exp)
    then show ?thesis
      using low [of bs] by simp
  qed
  with ne show ?thesis
    by (simp add: word_less_nat_alt)
qed

theorem parity_detects_byte_witness:
  "parity_of ([1, 2, 3][1 := 6]) \<noteq> parity_of [1, 2, 3] \<and> parity_of [1, 2, 3] < 256"
  by (rule parity_detects_byte) simp_all

section \<open>The protocol\<close>

lemma strlen_overwritten:
  assumes "payload_strlen p = Inr n"
  shows "\<exists>n'. payload_strlen (p\<lparr>msg_data := write_at 0 (take n ds) (msg_data p)\<rparr>) = Inr n'"
proof -
  have z: "0 \<in> set (msg_data p)" and n: "n = length (takeWhile (\<lambda>b. b \<noteq> 0) (msg_data p))"
    using assms by (auto simp: payload_strlen_def split: if_splits)
  have "0 \<in> set (drop n (msg_data p))"
  proof -
    have "dropWhile (\<lambda>b. b \<noteq> 0) (msg_data p) \<noteq> []"
      using z by (auto simp: dropWhile_eq_Nil_conv)
    then have "hd (drop n (msg_data p)) = 0" "drop n (msg_data p) \<noteq> []"
      using hd_dropWhile [of "\<lambda>b. b \<noteq> 0" "msg_data p"] z by (auto simp: n dropWhile_eq_drop [symmetric])
    then show ?thesis
      by (metis list.set_sel(1))
  qed
  then have "0 \<in> set (drop (length (take n ds)) (msg_data p))"
    using set_drop_subset_set_drop [of "length (take n ds)" n "msg_data p"] by auto
  then have "0 \<in> set (write_at 0 (take n ds) (msg_data p))"
    by (simp add: write_at_def)
  then show ?thesis
    by (simp add: payload_strlen_def)
qed

text \<open>A reply the sender accepts, whatever it sent last.\<close>

definition accepted_reply :: "msg \<Rightarrow> bool" where
  "accepted_reply p \<longleftrightarrow> (\<forall>t. \<exists>t'. check_reply t p = Inr (True, t'))"

lemma answer_accepted: "answer r = Inr p \<Longrightarrow> accepted_reply p"
proof -
  assume "answer r = Inr p"
  then obtain n where n: "payload_strlen r = Inr n"
      "p = r\<lparr>msg_len := sint (parity_of (take n (msg_data r)))\<rparr>"
    by (auto simp: answer_def rbind_eq_Inr_iff)
  then have p: "payload_strlen p = Inr n" "sint (parity_of (take n (msg_data p))) = msg_len p"
    by (simp_all add: payload_strlen_def split: if_splits)
  have "\<exists>t'. check_reply t p = Inr (True, t')" for t
  proof -
    obtain n' where "payload_strlen (p\<lparr>msg_data := write_at 0 (take n (msg_data t)) (msg_data p)\<rparr>) = Inr n'"
      using strlen_overwritten [OF p(1)] by blast
    with p show ?thesis
      by (simp add: check_reply_def)
  qed
  then show "accepted_reply p"
    unfolding accepted_reply_def by blast
qed

lemma answer_loop_accepted:
  assumes "answer_loop send_fails n msgs = Inr (acks, e)"
  shows "length acks \<le> n \<and> (\<forall>p \<in> set acks. accepted_reply p)"
  using assms
proof (induction send_fails n msgs arbitrary: acks e rule: answer_loop.induct)
  case (4 send_fails n r msgs)
  from "4.prems" obtain ack where ack: "answer r = Inr ack"
    by (auto simp: rbind_eq_Inr_iff)
  show ?case
  proof (cases "send_fails ack")
    case True
    with ack "4.prems" show ?thesis by simp
  next
    case False
    with ack "4.prems" obtain acks' where acks: "answer_loop send_fails n msgs = Inr (acks', e)"
        "acks = ack # acks'"
      by (auto simp: rbind_eq_Inr_iff)
    from "4.IH" [OF False acks(1)] answer_accepted [OF ack] show ?thesis
      by (simp add: acks(2))
  qed
qed auto

text \<open>The messages of a file, in order.\<close>

fun file_messages :: "nat \<Rightarrow> u8 list option \<Rightarrow> msg list" where
  "file_messages 0 f = []"
| "file_messages (Suc n) f = fst (next_message f) # file_messages n (snd (next_message f))"

fun file_rest :: "nat \<Rightarrow> u8 list option \<Rightarrow> u8 list option" where
  "file_rest 0 f = f"
| "file_rest (Suc n) f = file_rest n (snd (next_message f))"

lemma length_file_messages [simp]: "length (file_messages n f) = n"
  by (induction n arbitrary: f) auto

lemma file_messages_add: "file_messages (a + b) f = file_messages a f @ file_messages b (file_rest a f)"
  by (induction a arbitrary: f) auto

lemma send_batch_all:
  "\<exists>t'. send_batch (\<lambda>_. False) n t f = (file_messages n f, t', file_rest n f, True)"
proof (induction n arbitrary: t f)
  case (Suc n)
  obtain m f' where m: "next_message f = (m, f')"
    by force
  obtain t' where "send_batch (\<lambda>_. False) n m f' = (file_messages n f', t', file_rest n f', True)"
    using Suc.IH by blast
  with m show ?case by simp
qed simp

lemma await_accepted:
  assumes "\<forall>p \<in> set ps. accepted_reply p"
  shows "\<exists>t'. await_replies n t (map Some ps) =
    (if n \<le> length ps then Inr ([], t', map Some (drop n ps), None) else Inr ([], t', [], Some Waits))"
  using assms
proof (induction n arbitrary: t ps)
  case (Suc n)
  show ?case
  proof (cases ps)
    case Nil
    then show ?thesis by auto
  next
    case (Cons p qs)
    then obtain t1 where "check_reply t p = Inr (True, t1)"
      using Suc.prems unfolding accepted_reply_def by (meson list.set_intros(1))
    moreover obtain t' where "await_replies n t1 (map Some qs) =
      (if n \<le> length qs then Inr ([], t', map Some (drop n qs), None) else Inr ([], t', [], Some Waits))"
      using Suc.IH [of qs t1] Suc.prems by (auto simp: Cons)
    ultimately show ?thesis
      by (auto simp: Cons)
  qed
qed simp

lemma send_rounds_waits:
  assumes "\<forall>p \<in> set ps. accepted_reply p" and "length ps < 5 * n"
  shows "send_rounds (\<lambda>_. False) n t f (map Some ps) =
    Inr (file_messages (5 * (length ps div 5 + 1)) f, Waits)"
  using assms
proof (induction n arbitrary: t f ps)
  case (Suc n)
  obtain t1 where b: "send_batch (\<lambda>_. False) 5 t f = (file_messages 5 f, t1, file_rest 5 f, True)"
    using send_batch_all by blast
  obtain t2 where a: "await_replies 5 t1 (map Some ps) =
    (if 5 \<le> length ps then Inr ([], t2, map Some (drop 5 ps), None) else Inr ([], t2, [], Some Waits))"
    using await_accepted [OF Suc.prems(1)] by blast
  show ?case
  proof (cases "5 \<le> length ps")
    case True
    have "send_rounds (\<lambda>_. False) n t2 (file_rest 5 f) (map Some (drop 5 ps)) =
        Inr (file_messages (5 * (length (drop 5 ps) div 5 + 1)) (file_rest 5 f), Waits)"
      using Suc.prems True by (intro Suc.IH) (auto dest: in_set_dropD)
    moreover have "5 * (length ps div 5 + 1) = 5 + 5 * (length (drop 5 ps) div 5 + 1)"
      using True by (simp add: le_div_geq)
    then have "file_messages (5 * (length ps div 5 + 1)) f =
        file_messages 5 f @ file_messages (5 * (length (drop 5 ps) div 5 + 1)) (file_rest 5 f)"
      by (simp only: file_messages_add)
    ultimately show ?thesis
      using True b a by simp
  next
    case False
    then show ?thesis
      using b a by simp
  qed
qed simp

text \<open>
  C39. The protocol of \<open>Lab03\<close> never retransmits and never finishes: whatever messages the link
  delivers to the receiver, however it corrupted them, the sender accepts each of the receiver's
  answers, because the receiver computes the parity of the message it got; it sends the messages of
  its file, each once, and then waits for ever, because it wants 500 replies and the receiver gives at
  most 100.
\<close>

theorem lab03_never_retransmits:
  assumes "receiver_main (\<lambda>_. False) msgs = Inr (acks, e)" and "argv \<noteq> []"
  shows "sender_main (\<lambda>_. False) argv t f (map Some acks) =
    Inr (file_messages (5 * (length acks div 5 + 1)) f, Waits) \<and> length acks \<le> 100"
proof -
  have "length acks \<le> COUNT \<and> (\<forall>p \<in> set acks. accepted_reply p)"
    using answer_loop_accepted [of "\<lambda>_. False" COUNT msgs acks e] assms(1) by (simp add: receiver_main_def)
  then have acks: "length acks \<le> 100" "\<forall>p \<in> set acks. accepted_reply p"
    by (simp_all add: COUNT_def)
  have "send_rounds (\<lambda>_. False) COUNT t f (map Some acks) =
      Inr (file_messages (5 * (length acks div 5 + 1)) f, Waits)"
    by (rule send_rounds_waits) (use acks in \<open>simp_all add: COUNT_def\<close>)
  then show ?thesis
    using assms(2) acks(1) by (simp add: sender_main_def)
qed

theorem lab03_never_retransmits_witness:
  "let acks = [\<lparr>msg_len = 65, msg_data = [65, 0]\<rparr>] in
    sender_main (\<lambda>_. False) [''5''] \<lparr>msg_len = 0, msg_data = []\<rparr> (Some [1, 2, 3, 4]) (map Some acks) =
      Inr (file_messages (5 * (length acks div 5 + 1)) (Some [1, 2, 3, 4]), Waits) \<and> length acks \<le> 100"
proof -
  have "sint (parity_of [65]) = 65"
    by code_simp
  then have a: "answer \<lparr>msg_len = 4, msg_data = [65, 0]\<rparr> = Inr \<lparr>msg_len = 65, msg_data = [65, 0]\<rparr>"
    by (simp add: answer_def payload_strlen_def del: parity_of_simps)
  have count: "COUNT = Suc (Suc 98)"
    by (simp add: COUNT_def)
  have step: "answer_loop (\<lambda>_. False) (Suc (Suc n)) [Some \<lparr>msg_len = 4, msg_data = [65, 0]\<rparr>] =
      Inr ([\<lparr>msg_len = 65, msg_data = [65, 0]\<rparr>], Waits)" for n
    by (simp add: a)
  have "receiver_main (\<lambda>_. False) [Some \<lparr>msg_len = 4, msg_data = [65, 0]\<rparr>] =
      Inr ([\<lparr>msg_len = 65, msg_data = [65, 0]\<rparr>], Waits)"
    unfolding receiver_main_def count by (rule step)
  from lab03_never_retransmits [OF this] show ?thesis
    by (simp add: Let_def)
qed

end
