(* ===== verification/Pubsub_Server.thy ===== *)
theory Pubsub_Server
  imports Byte_Order C_Strings "HOL-Library.AList"
begin

text \<open>
  The publish-subscribe server of \<open>Teme/Tema2/server.cpp\<close>: datagrams on a UDP socket are messages on a
  topic, TCP clients subscribe to topics, and the server forwards each message to the connected
  subscribers of its topic and stores it for the disconnected ones that asked for it.

  The three global tables are association lists (an \<open>unordered_map\<close> has at most one entry per key and
  no order of its own). What \<open>select\<close>, \<open>accept\<close> and \<open>recv\<close> report is the argument of a step, which
  calls of \<open>send\<close> fail a predicate.
\<close>

definition BUF_LEN :: nat where
  "BUF_LEN = 1600"

definition TOPIC_SIZE :: nat where
  "TOPIC_SIZE = 50"

text \<open>
  \<open>struct subscriber\<close> in its two uses: an entry of the table of clients, and an entry of the list of a
  topic, of which only the client and the flag are set and read.
\<close>

record subscriber =
  connected :: bool
  sub_fd :: int
  packets :: "string list"

record subscription =
  clientID :: string
  SF :: bool

record client_data =
  ip_client_tcp :: string
  port_client_tcp :: u16
  client_ID :: string

record server =
  clientsConnected :: "(int \<times> client_data) list"
  topics :: "(string \<times> subscription list) list"
  subscribers :: "(string \<times> subscriber) list"
  read_fds :: "int list"

text \<open>What the server does to the outside: messages to a descriptor, closed descriptors, its log.\<close>

datatype action = Send_To int string | Close_Fd int | Log string

section \<open>Messages\<close>

text \<open>
  \<open>fixed << setprecision(p)\<close> of \<open>1.0 * n / pow(10, p)\<close> for a 32-bit \<open>n\<close>: the digits of \<open>n\<close> with a point
  before the last \<open>p\<close>, because the rounding errors of the division are far below half a unit of the
  last digit printed.
\<close>

definition pad_digits :: "nat \<Rightarrow> nat \<Rightarrow> string" where
  "pad_digits p n = replicate (p - length (show_nat n)) CHR ''0'' @ show_nat n"

definition show_fixed :: "nat \<Rightarrow> nat \<Rightarrow> string" where
  "show_fixed p n =
    (if p = 0 then show_nat n
     else show_nat (n div 10 ^ p) @ CHR ''.'' # pad_digits p (n mod 10 ^ p))"

record udp_packet =
  pkt_type :: string
  pkt_payload :: string
  pkt_topic :: string

text \<open>
  \<open>processUdpPacket\<close> on the 1600 bytes of \<open>buf\<close>; \<open>None\<close> is an invalid packet. \<open>strtok\<close> without
  delimiters gives the whole string, or a null pointer if it is empty.
\<close>

definition payload_of :: "u8 list \<Rightarrow> (string \<times> string) option res" where
  "payload_of buf =
    (let kind = buf ! TOPIC_SIZE; sign = buf ! (TOPIC_SIZE + 1)
     in if kind = 0 then
          (let n = unat (htonl (load32 (TOPIC_SIZE + 2) buf))
           in Inr (Some (''INT'', (if sign = 1 then [CHR ''-''] else []) @ show_nat n)))
        else if kind = 1 then
          Inr (Some (''SHORT_REAL'', show_fixed 2 (unat (htons (load16 (TOPIC_SIZE + 1) buf)))))
        else if kind = 2 then
          (let n = unat (htonl (load32 (TOPIC_SIZE + 2) buf)); p = unat (buf ! (TOPIC_SIZE + 6))
           in Inr (Some (''FLOAT'', (if sign = 1 then [CHR ''-''] else []) @ show_fixed p n)))
        else if kind = 3 then
          rbind (string_of (drop (TOPIC_SIZE + 1) buf)) (\<lambda>s. Inr (Some (''STRING'', s)))
        else Inr None)"

definition processUdpPacket :: "u8 list \<Rightarrow> udp_packet option res" where
  "processUdpPacket buf =
    rbind (payload_of buf) (\<lambda>p. case p of
      None \<Rightarrow> Inr None
    | Some (ty, s) \<Rightarrow>
        rbind (string_of (buf[TOPIC_SIZE := 0])) (\<lambda>topic.
          if topic = [] then Inl Null_Deref
          else Inr (Some \<lparr>pkt_type = ty, pkt_payload = s, pkt_topic = topic\<rparr>)))"

text \<open>The line for the clients; the port is printed as it is stored, in network byte order.\<close>

definition message_for :: "string \<Rightarrow> u16 \<Rightarrow> udp_packet \<Rightarrow> string" where
  "message_for udpIp port d =
    udpIp @ CHR '':'' # show_nat (unat port) @ '' - '' @ pkt_topic d @ '' - '' @ pkt_type d @ '' - '' @
    pkt_payload d @ [newline]"

text \<open>A received block in the cleared buffer.\<close>

definition in_buf :: "u8 list \<Rightarrow> u8 list" where
  "in_buf bytes = take BUF_LEN bytes @ replicate (BUF_LEN - length bytes) 0"

section \<open>The handlers\<close>

text \<open>\<open>exit\<close> on the standard input: every client is told and its connection closed.\<close>

fun close_all :: "(int \<Rightarrow> string \<Rightarrow> bool) \<Rightarrow> (int \<times> client_data) list \<Rightarrow> action list res" where
  "close_all send_fails [] = Inr []"
| "close_all send_fails ((fd, d) # cs) =
     (if send_fails fd ('';EXIT;'' @ [newline]) then Inl (Exit 1)
      else rbind (close_all send_fails cs) (\<lambda>acts.
        Inr (Send_To fd ('';EXIT;'' @ [newline]) # Close_Fd fd # acts)))"

definition is_exit :: "string \<Rightarrow> bool" where
  "is_exit line \<longleftrightarrow> line = ''exit'' @ [newline]"

text \<open>A message to the subscriptions of its topic, in order.\<close>

fun deliver ::
  "(int \<Rightarrow> string \<Rightarrow> bool) \<Rightarrow> string \<Rightarrow> subscription list \<Rightarrow> (string \<times> subscriber) list \<Rightarrow>
    ((string \<times> subscriber) list \<times> action list) res" where
  "deliver send_fails text [] subs = Inr (subs, [])"
| "deliver send_fails text (n # ns) subs =
     (case map_of subs (clientID n) of
        None \<Rightarrow> deliver send_fails text ns subs
      | Some c \<Rightarrow>
          let subs' = (if \<not> connected c \<and> SF n
                       then AList.update (clientID n) (c\<lparr>packets := packets c @ [text]\<rparr>) subs else subs)
          in if connected c
             then (if send_fails (sub_fd c) text then Inl (Exit 1)
                   else rbind (deliver send_fails text ns subs') (\<lambda>(subs'', acts).
                     Inr (subs'', Send_To (sub_fd c) text # acts)))
             else deliver send_fails text ns subs')"

definition handle_udp ::
  "(int \<Rightarrow> string \<Rightarrow> bool) \<Rightarrow> string \<Rightarrow> u16 \<Rightarrow> u8 list \<Rightarrow> server \<Rightarrow> (server \<times> action list) res" where
  "handle_udp send_fails udpIp port bytes st =
    rbind (processUdpPacket (in_buf bytes)) (\<lambda>p. case p of
      None \<Rightarrow> Inr (st, [])
    | Some d \<Rightarrow>
        (case map_of (topics st) (pkt_topic d) of
           None \<Rightarrow> Inr (st, [])
         | Some ns \<Rightarrow>
             rbind (deliver send_fails (message_for udpIp port d) ns (subscribers st)) (\<lambda>(subs, acts).
               Inr (st\<lparr>subscribers := subs\<rparr>, acts))))"

text \<open>Sending what was stored.\<close>

fun send_stored :: "(int \<Rightarrow> string \<Rightarrow> bool) \<Rightarrow> int \<Rightarrow> string list \<Rightarrow> action list res" where
  "send_stored send_fails fd [] = Inr []"
| "send_stored send_fails fd (p # ps) =
     (if send_fails fd p then Inl (Exit 1)
      else rbind (send_stored send_fails fd ps) (\<lambda>acts. Inr (Send_To fd p # acts)))"

text \<open>
  A new connection on \<open>newfd\<close> whose first bytes are the client's name. The descriptor is watched from
  now on even when the name is taken.
\<close>

definition handle_connect ::
  "(int \<Rightarrow> string \<Rightarrow> bool) \<Rightarrow> int \<Rightarrow> string \<Rightarrow> u16 \<Rightarrow> u8 list \<Rightarrow> server \<Rightarrow> (server \<times> action list) res"
where
  "handle_connect send_fails newfd tcpIp port bytes st =
    rbind (string_of (in_buf bytes)) (\<lambda>name.
      let st1 = st\<lparr>read_fds := List.insert newfd (read_fds st)\<rparr>;
          taken = (case map_of (subscribers st) name of None \<Rightarrow> False | Some c \<Rightarrow> connected c)
      in if taken
         then (if send_fails newfd ('';ID_EXISTS;'' @ [newline]) then Inl (Exit 1)
               else Inr (st1, [Log (''Client '' @ name @ '' already connected.'' @ [newline]),
                 Send_To newfd ('';ID_EXISTS;'' @ [newline])]))
         else
           let con = \<lparr>ip_client_tcp = tcpIp, port_client_tcp = port, client_ID = name\<rparr>;
               c = (case map_of (subscribers st) name of
                      Some c \<Rightarrow> c\<lparr>connected := True, sub_fd := newfd\<rparr>
                    | None \<Rightarrow> \<lparr>connected = True, sub_fd = newfd, packets = []\<rparr>);
               log = Log (''New client '' @ name @ '' connected from '' @ tcpIp @ CHR '':'' #
                 show_nat (unat (htons port)) @ ''.'' @ [newline])
           in rbind (send_stored send_fails newfd (packets c)) (\<lambda>acts.
                Inr (st1\<lparr>clientsConnected := AList.update newfd con (clientsConnected st),
                  subscribers := AList.update name (c\<lparr>packets := []\<rparr>) (subscribers st)\<rparr>, log # acts)))"

text \<open>The command words: \<open>%s\<close> into arrays of 16 and 51 characters.\<close>

definition scan_word :: "nat \<Rightarrow> string \<Rightarrow> (string \<times> string) res" where
  "scan_word room s = (case scan_s s of
       None \<Rightarrow> Inl Uninitialised
     | Some (w, r) \<Rightarrow> if room \<le> length w then Inl Out_Of_Bounds else Inr (w, r))"

text \<open>\<open>erase(begin() + i)\<close> with the descriptor \<open>i\<close> as the index.\<close>

definition erase_at :: "int \<Rightarrow> 'a list \<Rightarrow> 'a list res" where
  "erase_at i xs =
    (if i < 0 \<or> int (length xs) \<le> i then Inl Out_Of_Bounds
     else Inr (take (nat i) xs @ drop (Suc (nat i)) xs))"

definition handle_unsubscribe :: "int \<Rightarrow> string \<Rightarrow> server \<Rightarrow> server res" where
  "handle_unsubscribe i cmd st =
    rbind (scan_word 16 cmd) (\<lambda>(junk, r).
    rbind (scan_word 51 r) (\<lambda>(topicStr, _).
      case map_of (topics st) topicStr of
        None \<Rightarrow> Inr st
      | Some ns \<Rightarrow>
          (case map_of (clientsConnected st) i of
             None \<Rightarrow> Inr st
           | Some con \<Rightarrow>
               if client_ID con \<in> set (map clientID ns)
               then rbind (erase_at i ns) (\<lambda>ns'.
                 Inr (st\<lparr>topics := AList.update topicStr ns' (topics st)\<rparr>))
               else Inr st)))"

text \<open>
  The flag of a client that is already subscribed is set in the loop's copy of the entry, which has
  no effect on the list.
\<close>

definition handle_subscribe :: "int \<Rightarrow> string \<Rightarrow> server \<Rightarrow> server res" where
  "handle_subscribe i cmd st =
    rbind (scan_word 16 cmd) (\<lambda>(junk, r).
    rbind (scan_word 51 r) (\<lambda>(topicStr, r').
      case scan_d r' of
        None \<Rightarrow> Inl Uninitialised
      | Some (SFInt, _) \<Rightarrow>
          (case map_of (clientsConnected st) i of
             None \<Rightarrow> Inr st
           | Some con \<Rightarrow>
               let entry = \<lparr>clientID = client_ID con, SF = (SFInt \<noteq> 0)\<rparr>
               in (case map_of (topics st) topicStr of
                     Some ns \<Rightarrow>
                       if client_ID con \<in> set (map clientID ns) then Inr st
                       else Inr (st\<lparr>topics := AList.update topicStr (ns @ [entry]) (topics st)\<rparr>)
                   | None \<Rightarrow> Inr (st\<lparr>topics := AList.update topicStr [entry] (topics st)\<rparr>)))))"

text \<open>
  Data from a client, or the end of its stream (no bytes). The access \<open>clientsConnected[i]\<close> creates an
  entry without a name if there is none; then the descriptor stays watched.
\<close>

definition no_data :: client_data where
  "no_data = \<lparr>ip_client_tcp = [], port_client_tcp = 0, client_ID = []\<rparr>"

definition handle_tcp :: "int \<Rightarrow> u8 list \<Rightarrow> server \<Rightarrow> (server \<times> action list) res" where
  "handle_tcp i bytes st =
    (if bytes = [] then
       (let con = (case map_of (clientsConnected st) i of None \<Rightarrow> no_data | Some con \<Rightarrow> con)
        in if client_ID con \<noteq> [] then
             (let subs = (case map_of (subscribers st) (client_ID con) of
                      None \<Rightarrow> subscribers st
                    | Some c \<Rightarrow> AList.update (client_ID con) (c\<lparr>connected := False\<rparr>) (subscribers st))
              in Inr (st\<lparr>subscribers := subs, clientsConnected := AList.delete i (clientsConnected st),
                   read_fds := removeAll i (read_fds st)\<rparr>,
                 [Log (''Client '' @ client_ID con @ '' disconnected.'' @ [newline]), Close_Fd i]))
           else Inr (st\<lparr>clientsConnected := AList.update i con (clientsConnected st)\<rparr>, []))
     else if starts_with ''unsubscribe'' (in_buf bytes) then
       rbind (string_of (in_buf bytes)) (\<lambda>cmd.
       rbind (handle_unsubscribe i cmd st) (\<lambda>st'. Inr (st', [])))
     else if starts_with ''subscribe'' (in_buf bytes) then
       rbind (string_of (in_buf bytes)) (\<lambda>cmd.
       rbind (handle_subscribe i cmd st) (\<lambda>st'. Inr (st', [])))
     else Inr (st, []))"

section \<open>The loop\<close>

text \<open>What one ready descriptor gives; \<open>select\<close> reports them in increasing order.\<close>

datatype input =
    Udp string u16 "u8 list"
  | Connect int string u16 "u8 list"
  | Tcp int "u8 list"
  | Failed

definition handle_input ::
  "(int \<Rightarrow> string \<Rightarrow> bool) \<Rightarrow> input \<Rightarrow> server \<Rightarrow> (server \<times> action list) res" where
  "handle_input send_fails x st = (case x of
       Udp udpIp port bytes \<Rightarrow> handle_udp send_fails udpIp port bytes st
     | Connect newfd tcpIp port bytes \<Rightarrow> handle_connect send_fails newfd tcpIp port bytes st
     | Tcp i bytes \<Rightarrow> if i \<in> set (read_fds st) then handle_tcp i bytes st else Inr (st, [])
     | Failed \<Rightarrow> Inl (Exit 1))"

fun handle_inputs ::
  "(int \<Rightarrow> string \<Rightarrow> bool) \<Rightarrow> input list \<Rightarrow> server \<Rightarrow> (server \<times> action list) res" where
  "handle_inputs send_fails [] st = Inr (st, [])"
| "handle_inputs send_fails (x # xs) st =
     rbind (handle_input send_fails x st) (\<lambda>(st', acts).
     rbind (handle_inputs send_fails xs st') (\<lambda>(st'', acts'). Inr (st'', acts @ acts')))"

text \<open>
  The iterations, each with the line typed (if any) and the ready descriptors. The result says
  whether \<open>exit\<close> ended the loop.
\<close>

fun server_loop ::
  "(int \<Rightarrow> string \<Rightarrow> bool) \<Rightarrow> (string option \<times> input list) list \<Rightarrow> server \<Rightarrow>
    (server \<times> action list \<times> bool) res" where
  "server_loop send_fails [] st = Inr (st, [], False)"
| "server_loop send_fails ((line, xs) # sels) st =
     (if (case line of None \<Rightarrow> False | Some l \<Rightarrow> is_exit l)
      then rbind (close_all send_fails (clientsConnected st)) (\<lambda>acts. Inr (st, acts, True))
      else rbind (handle_inputs send_fails xs st) (\<lambda>(st', acts).
           rbind (server_loop send_fails sels st') (\<lambda>(st'', acts', ended).
             Inr (st'', acts @ acts', ended))))"

text \<open>
  \<open>main\<close>: the port, the sockets (\<open>None\<close> when one of the calls that prepare it fails), and the loop
  over the three first descriptors.
\<close>

definition server_main ::
  "(int \<Rightarrow> string \<Rightarrow> bool) \<Rightarrow> string list \<Rightarrow> int option \<Rightarrow> int option \<Rightarrow>
    (string option \<times> input list) list \<Rightarrow> (server \<times> action list \<times> bool) res" where
  "server_main send_fails argv tcp udp sels =
    (if argv = [] \<or> atoi (hd argv) = 0 then Inl (Exit 1)
     else case (tcp, udp) of
       (Some sockTcp, Some sockUDP) \<Rightarrow>
         server_loop send_fails sels
           \<lparr>clientsConnected = [], topics = [], subscribers = [], read_fds = [0, sockTcp, sockUDP]\<rparr>
     | _ \<Rightarrow> Inl (Exit 1))"

end
