(* ===== verification/Pubsub_Props.thy ===== *)
theory Pubsub_Props
  imports Pubsub_Server
begin

text \<open>
  What the publish-subscribe server does with a message, what it keeps for the clients that are away
  and gives them when they come back, the invariant of its tables, and what its two commands do.
  Sending succeeds throughout (a failing \<open>send\<close> ends the program).
\<close>

abbreviation sends_ok :: "int \<Rightarrow> string \<Rightarrow> bool" where
  "sends_ok \<equiv> \<lambda>_ _. False"

section \<open>Delivering a message\<close>

text \<open>What a message does to one client, and the sends it causes.\<close>

definition stored_for :: "subscription list \<Rightarrow> string \<Rightarrow> string \<Rightarrow> subscriber \<Rightarrow> subscriber" where
  "stored_for ns text name c =
    (if \<not> connected c \<and> (\<exists>n \<in> set ns. clientID n = name \<and> SF n)
     then c\<lparr>packets := packets c @ [text]\<rparr> else c)"

definition sends_for :: "subscription list \<Rightarrow> string \<Rightarrow> (string \<times> subscriber) list \<Rightarrow> action list" where
  "sends_for ns text subs =
    concat (map (\<lambda>n. case map_of subs (clientID n) of
        None \<Rightarrow> [] | Some c \<Rightarrow> if connected c then [Send_To (sub_fd c) text] else []) ns)"

lemma deliver_result:
  assumes "distinct (map clientID ns)"
  shows "\<exists>subs'. deliver sends_ok text ns subs = Inr (subs', sends_for ns text subs) \<and>
    (\<forall>name. map_of subs' name = map_option (stored_for ns text name) (map_of subs name))"
  using assms
proof (induction ns arbitrary: subs)
  case Nil
  have "map_option (stored_for [] text name) (map_of subs name) = map_of subs name" for name
    by (cases "map_of subs name") (simp_all add: stored_for_def)
  then show ?case
    by (simp add: sends_for_def)
next
  case (Cons n ns)
  have other: "n' \<in> set ns \<Longrightarrow> clientID n' \<noteq> clientID n" for n'
    using Cons.prems by (simp add: image_iff) metis
  show ?case
  proof (cases "map_of subs (clientID n)")
    case None
    obtain subs' where "deliver sends_ok text ns subs = Inr (subs', sends_for ns text subs)"
        "\<forall>name. map_of subs' name = map_option (stored_for ns text name) (map_of subs name)"
      using Cons.IH [of subs] Cons.prems by auto
    moreover have "map_option (stored_for ns text name) (map_of subs name) =
        map_option (stored_for (n # ns) text name) (map_of subs name)" for name
      using None by (cases "map_of subs name") (auto simp: stored_for_def)
    ultimately show ?thesis
      using None by (simp add: sends_for_def)
  next
    case (Some c)
    let ?subs = "if \<not> connected c \<and> SF n
      then AList.update (clientID n) (c\<lparr>packets := packets c @ [text]\<rparr>) subs else subs"
    have upd: "map_of ?subs name = (if name = clientID n then Some (stored_for [n] text name c)
        else map_of subs name)" for name
      using Some by (auto simp: update_conv' stored_for_def)
    have same: "sends_for ns text ?subs = sends_for ns text subs"
      unfolding sends_for_def by (rule arg_cong [where f = concat], rule map_cong)
        (auto simp: upd other)
    obtain subs' where ih: "deliver sends_ok text ns ?subs = Inr (subs', sends_for ns text subs)"
        "\<forall>name. map_of subs' name = map_option (stored_for ns text name) (map_of ?subs name)"
      using Cons.IH [of ?subs] Cons.prems same by auto
    have "map_of subs' name = map_option (stored_for (n # ns) text name) (map_of subs name)" for name
    proof (cases "name = clientID n")
      case True
      with other have "\<not> (\<exists>n' \<in> set ns. clientID n' = name \<and> SF n')"
        by blast
      then show ?thesis
        using ih(2) Some True by (simp add: upd) (simp add: stored_for_def)
    next
      case False
      then show ?thesis
        using ih(2) by (cases "map_of subs name") (auto simp: upd stored_for_def)
    qed
    moreover have "deliver sends_ok text (n # ns) subs = Inr (subs', sends_for (n # ns) text subs)"
      using ih(1) Some by (cases "connected c"; cases "SF n"; simp add: Let_def sends_for_def)
    ultimately show ?thesis
      by blast
  qed
qed

text \<open>
  Publishing. A valid message on a topic with subscriptions is sent once to each connected
  subscriber of the topic, in the order of the subscriptions, and to nobody else; it is stored, after
  what was stored before, for exactly those disconnected subscribers that asked for it; nothing else
  changes.
\<close>

theorem server_publishes:
  assumes "processUdpPacket (in_buf bytes) = Inr (Some d)"
    and "map_of (topics st) (pkt_topic d) = Some ns" and "distinct (map clientID ns)"
  shows "\<exists>subs. handle_input sends_ok (Udp udpIp port bytes) st =
      Inr (st\<lparr>subscribers := subs\<rparr>, sends_for ns (message_for udpIp port d) (subscribers st)) \<and>
    (\<forall>name. map_of subs name =
      map_option (stored_for ns (message_for udpIp port d) name) (map_of (subscribers st) name))"
  using deliver_result [OF assms(3), of "message_for udpIp port d" "subscribers st"] assms(1,2)
  by (auto simp: handle_input_def handle_udp_def)

section \<open>The invariant of the tables\<close>

text \<open>
  A topic has one subscription per client; a connected subscriber has an open connection with its
  name, and a named connection belongs to a connected subscriber with that descriptor.
\<close>

definition server_ok :: "server \<Rightarrow> bool" where
  "server_ok st \<longleftrightarrow>
    (\<forall>t ns. map_of (topics st) t = Some ns \<longrightarrow> distinct (map clientID ns)) \<and>
    (\<forall>name c. map_of (subscribers st) name = Some c \<and> connected c \<longrightarrow>
      (\<exists>con. map_of (clientsConnected st) (sub_fd c) = Some con \<and> client_ID con = name)) \<and>
    (\<forall>fd con. map_of (clientsConnected st) fd = Some con \<and> client_ID con \<noteq> [] \<longrightarrow>
      (\<exists>c. map_of (subscribers st) (client_ID con) = Some c \<and> connected c \<and> sub_fd c = fd))"

lemma server_okI:
  assumes "\<And>t ns. map_of (topics st) t = Some ns \<Longrightarrow> distinct (map clientID ns)"
    and "\<And>name c. map_of (subscribers st) name = Some c \<Longrightarrow> connected c \<Longrightarrow>
      \<exists>con. map_of (clientsConnected st) (sub_fd c) = Some con \<and> client_ID con = name"
    and "\<And>fd con. map_of (clientsConnected st) fd = Some con \<Longrightarrow> client_ID con \<noteq> [] \<Longrightarrow>
      \<exists>c. map_of (subscribers st) (client_ID con) = Some c \<and> connected c \<and> sub_fd c = fd"
  shows "server_ok st"
  using assms unfolding server_ok_def by blast

lemma server_okD:
  assumes "server_ok st"
  shows "map_of (topics st) t = Some ns \<Longrightarrow> distinct (map clientID ns)"
    and "map_of (subscribers st) name = Some c \<Longrightarrow> connected c \<Longrightarrow>
      \<exists>con. map_of (clientsConnected st) (sub_fd c) = Some con \<and> client_ID con = name"
    and "map_of (clientsConnected st) fd = Some con \<Longrightarrow> client_ID con \<noteq> [] \<Longrightarrow>
      \<exists>c. map_of (subscribers st) (client_ID con) = Some c \<and> connected c \<and> sub_fd c = fd"
  using assms unfolding server_ok_def by blast+

text \<open>\<open>accept\<close> returns a descriptor that is not in use.\<close>

definition fresh_input :: "server \<Rightarrow> input \<Rightarrow> bool" where
  "fresh_input st x \<longleftrightarrow>
    (case x of Connect newfd _ _ _ \<Rightarrow> map_of (clientsConnected st) newfd = None | _ \<Rightarrow> True)"

lemma stored_for_simps [simp]:
  "connected (stored_for ns text name c) = connected c" "sub_fd (stored_for ns text name c) = sub_fd c"
  by (simp_all add: stored_for_def)

lemma handle_udp_ok:
  assumes "server_ok st" and "handle_udp sends_ok udpIp port bytes st = Inr (st', acts)"
  shows "server_ok st'"
proof -
  obtain p where p: "processUdpPacket (in_buf bytes) = Inr p"
    using assms(2) by (auto simp: handle_udp_def rbind_eq_Inr_iff)
  show ?thesis
  proof (cases "\<exists>d ns. p = Some d \<and> map_of (topics st) (pkt_topic d) = Some ns")
    case True
    then obtain d ns where d: "p = Some d" "map_of (topics st) (pkt_topic d) = Some ns"
      by blast
    have "distinct (map clientID ns)"
      using assms(1) d(2) by (auto simp: server_ok_def)
    from deliver_result [OF this, of "message_for udpIp port d" "subscribers st"]
    obtain subs where subs: "st' = st\<lparr>subscribers := subs\<rparr>"
      "\<forall>name. map_of subs name =
        map_option (stored_for ns (message_for udpIp port d) name) (map_of (subscribers st) name)"
      using assms(2) p d by (auto simp: handle_udp_def)
    then show ?thesis
      using assms(1) unfolding server_ok_def by fastforce
  next
    case False
    then have "st' = st"
      using assms(2) p by (auto simp: handle_udp_def split: option.splits)
    with assms(1) show ?thesis by simp
  qed
qed

lemma handle_connect_ok:
  assumes ok: "server_ok st" and "map_of (clientsConnected st) newfd = None"
    and step: "handle_connect sends_ok newfd tcpIp port bytes st = Inr (st', acts)"
  shows "server_ok st'"
proof -
  obtain name where name: "string_of (in_buf bytes) = Inr name"
    using step by (auto simp: handle_connect_def rbind_eq_Inr_iff)
  show ?thesis
  proof (cases "\<exists>c. map_of (subscribers st) name = Some c \<and> connected c")
    case True
    then have "st' = st\<lparr>read_fds := List.insert newfd (read_fds st)\<rparr>"
      using step name by (auto simp: handle_connect_def Let_def)
    with ok show ?thesis
      by (simp add: server_ok_def)
  next
    case False
    then obtain con c where st': "clientsConnected st' = AList.update newfd con (clientsConnected st)"
      "subscribers st' = AList.update name c (subscribers st)" "topics st' = topics st"
      "client_ID con = name" "connected c" "sub_fd c = newfd"
      using step name
      by (auto simp: handle_connect_def Let_def rbind_eq_Inr_iff split: option.splits)
    have cc: "map_of (clientsConnected st') fd =
        (if fd = newfd then Some con else map_of (clientsConnected st) fd)" for fd
      by (simp add: st' update_conv')
    have subs: "map_of (subscribers st') x = (if x = name then Some c else map_of (subscribers st) x)" for x
      by (simp add: st' update_conv')
    show ?thesis
    proof (rule server_okI)
      show "distinct (map clientID ns)" if "map_of (topics st') t = Some ns" for t ns
        using server_okD(1) [OF ok] that by (simp add: st')
    next
      fix x c' assume x: "map_of (subscribers st') x = Some c'" "connected c'"
      show "\<exists>con. map_of (clientsConnected st') (sub_fd c') = Some con \<and> client_ID con = x"
      proof (cases "x = name")
        case True
        then show ?thesis
          using x subs [of name] st'(4-6) cc [of newfd] by auto
      next
        case other: False
        then obtain con' where "map_of (clientsConnected st) (sub_fd c') = Some con'" "client_ID con' = x"
          using server_okD(2) [OF ok] x by (auto simp: subs)
        then show ?thesis
          using assms(2) by (auto simp: cc)
      qed
    next
      fix fd con' assume fd: "map_of (clientsConnected st') fd = Some con'" "client_ID con' \<noteq> []"
      show "\<exists>c. map_of (subscribers st') (client_ID con') = Some c \<and> connected c \<and> sub_fd c = fd"
      proof (cases "fd = newfd")
        case True
        then show ?thesis
          using fd cc [of newfd] st'(4-6) subs [of name] by auto
      next
        case other: False
        then obtain c' where "map_of (subscribers st) (client_ID con') = Some c'" "connected c'" "sub_fd c' = fd"
          using server_okD(3) [OF ok] fd by (auto simp: cc)
        then show ?thesis
          using False by (auto simp: subs)
      qed
    qed
  qed
qed

lemma handle_unsubscribe_cases:
  assumes "handle_unsubscribe i cmd st = Inr st'"
  shows "st' = st \<or> (\<exists>t ns k. map_of (topics st) t = Some ns \<and>
    st' = st\<lparr>topics := AList.update t (take k ns @ drop (Suc k) ns) (topics st)\<rparr>)"
proof -
  obtain j r t r' where w: "scan_word 16 cmd = Inr (j, r)" "scan_word 51 r = Inr (t, r')"
    using assms by (auto simp: handle_unsubscribe_def elim!: rbind_InrE)
  show ?thesis
  proof (cases "\<exists>ns con. map_of (topics st) t = Some ns \<and> map_of (clientsConnected st) i = Some con \<and>
      client_ID con \<in> set (map clientID ns)")
    case True
    then obtain ns con where "map_of (topics st) t = Some ns" "map_of (clientsConnected st) i = Some con"
        "client_ID con \<in> set (map clientID ns)"
      by blast
    then show ?thesis
      using assms by (auto simp: handle_unsubscribe_def w erase_at_def split: if_splits)
  next
    case False
    then have "st' = st"
      using assms by (auto simp: handle_unsubscribe_def w split: option.splits if_splits)
    then show ?thesis ..
  qed
qed

lemma handle_subscribe_cases:
  assumes "handle_subscribe i cmd st = Inr st'"
  shows "st' = st \<or> (\<exists>t ns n. st' = st\<lparr>topics := AList.update t (ns @ [n]) (topics st)\<rparr> \<and>
    (ns = [] \<or> map_of (topics st) t = Some ns \<and> clientID n \<notin> set (map clientID ns)))"
proof -
  obtain j r t r' where w: "scan_word 16 cmd = Inr (j, r)" "scan_word 51 r = Inr (t, r')"
    using assms by (auto simp: handle_subscribe_def elim!: rbind_InrE)
  show ?thesis
  proof (cases "\<exists>con v q. map_of (clientsConnected st) i = Some con \<and> scan_d r' = Some (v, q)")
    case False
    then have "st' = st"
      using assms by (auto simp: handle_subscribe_def w split: option.splits prod.splits)
    then show ?thesis ..
  next
    case True
    then obtain con v q where cv: "map_of (clientsConnected st) i = Some con" "scan_d r' = Some (v, q)"
      by blast
    let ?n = "\<lparr>clientID = client_ID con, SF = (v \<noteq> 0)\<rparr>"
    show ?thesis
    proof (cases "map_of (topics st) t")
      case None
      then have "st' = st\<lparr>topics := AList.update t ([] @ [?n]) (topics st)\<rparr>"
        using assms by (simp add: handle_subscribe_def w cv)
      then show ?thesis by blast
    next
      case (Some ns)
      then have "st' = st \<or> (st' = st\<lparr>topics := AList.update t (ns @ [?n]) (topics st)\<rparr> \<and>
          clientID ?n \<notin> set (map clientID ns))"
        using assms by (simp add: handle_subscribe_def w cv split: if_splits)
      with Some show ?thesis by blast
    qed
  qed
qed

lemma handle_commands_ok:
  assumes ok: "server_ok st"
    and "handle_unsubscribe i cmd st = Inr st' \<or> handle_subscribe i cmd st = Inr st'"
  shows "server_ok st'"
proof -
  have "st' = st \<or> (\<exists>t ns. st' = st\<lparr>topics := AList.update t ns (topics st)\<rparr> \<and> distinct (map clientID ns))"
    using assms(2)
  proof
    assume "handle_unsubscribe i cmd st = Inr st'"
    from handle_unsubscribe_cases [OF this] show ?thesis
    proof (elim disjE exE conjE)
      fix t ns k
      assume ns: "map_of (topics st) t = Some ns"
        "st' = st\<lparr>topics := AList.update t (take k ns @ drop (Suc k) ns) (topics st)\<rparr>"
      have "distinct (take k (map clientID ns) @ drop (Suc k) (map clientID ns))"
        using server_okD(1) [OF ok ns(1)] by (auto simp: set_take_disj_set_drop_if_distinct)
      then have "distinct (map clientID (take k ns @ drop (Suc k) ns))"
        by (simp add: take_map drop_map)
      with ns(2) show ?thesis by blast
    qed simp
  next
    assume "handle_subscribe i cmd st = Inr st'"
    from handle_subscribe_cases [OF this] show ?thesis
    proof (elim disjE exE conjE)
      fix t ns n
      assume ns: "map_of (topics st) t = Some ns" "clientID n \<notin> set (map clientID ns)"
        "st' = st\<lparr>topics := AList.update t (ns @ [n]) (topics st)\<rparr>"
      then have "distinct (map clientID (ns @ [n]))"
        using server_okD(1) [OF ok ns(1)] by simp
      with ns(3) show ?thesis by blast
    qed (simp, fastforce)
  qed
  then show ?thesis
    using ok by (auto simp: server_ok_def update_conv' split: if_splits)
qed

lemma handle_tcp_ok:
  assumes ok: "server_ok st" and step: "handle_tcp i bytes st = Inr (st', acts)"
  shows "server_ok st'"
proof (cases "bytes = []")
  case False
  then have "st' = st \<or> (\<exists>cmd. handle_unsubscribe i cmd st = Inr st' \<or> handle_subscribe i cmd st = Inr st')"
    using step by (auto simp: handle_tcp_def rbind_eq_Inr_iff split: if_splits)
  with ok handle_commands_ok show ?thesis
    by blast
next
  case True
  show ?thesis
  proof (cases "map_of (clientsConnected st) i")
    case None
    then have "st' = st\<lparr>clientsConnected := AList.update i no_data (clientsConnected st)\<rparr>"
      using step True by (simp add: handle_tcp_def no_data_def)
    with ok None show ?thesis
      unfolding server_ok_def by (auto simp: update_conv' no_data_def) fastforce+
  next
    case (Some con)
    show ?thesis
    proof (cases "client_ID con = []")
      case True
      then have "st' = st\<lparr>clientsConnected := AList.update i con (clientsConnected st)\<rparr>"
        using step \<open>bytes = []\<close> Some by (simp add: handle_tcp_def)
      with ok Some show ?thesis
        unfolding server_ok_def by (auto simp: update_conv' map_upd_triv)
    next
      case False
      obtain c where c: "map_of (subscribers st) (client_ID con) = Some c" "connected c" "sub_fd c = i"
        using ok Some False unfolding server_ok_def by blast
      have st': "topics st' = topics st" "clientsConnected st' = AList.delete i (clientsConnected st)"
        "subscribers st' = AList.update (client_ID con) (c\<lparr>connected := False\<rparr>) (subscribers st)"
        using step True Some False c by (auto simp: handle_tcp_def Let_def)
      have cc: "map_of (clientsConnected st') fd = (if fd = i then None else map_of (clientsConnected st) fd)" for fd
        by (simp add: st' delete_conv')
      have subs: "map_of (subscribers st') name =
          (if name = client_ID con then Some (c\<lparr>connected := False\<rparr>) else map_of (subscribers st) name)" for name
        by (simp add: st' update_conv')
      have "\<exists>con'. map_of (clientsConnected st') (sub_fd c') = Some con' \<and> client_ID con' = name"
        if asm: "map_of (subscribers st') name = Some c'" "connected c'" for name c'
      proof -
        have n: "name \<noteq> client_ID con" "map_of (subscribers st) name = Some c'"
          using asm by (auto simp: subs split: if_splits)
        then obtain con' where con': "map_of (clientsConnected st) (sub_fd c') = Some con'" "client_ID con' = name"
          using ok asm(2) unfolding server_ok_def by blast
        with n(1) Some have "sub_fd c' \<noteq> i"
          by auto
        with con' show ?thesis by (simp add: cc)
      qed
      moreover have "\<exists>c'. map_of (subscribers st') (client_ID con') = Some c' \<and> connected c' \<and> sub_fd c' = fd"
        if asm: "map_of (clientsConnected st') fd = Some con'" "client_ID con' \<noteq> []" for fd con'
      proof -
        have fd: "fd \<noteq> i" "map_of (clientsConnected st) fd = Some con'"
          using asm(1) by (auto simp: cc split: if_splits)
        then obtain c' where c': "map_of (subscribers st) (client_ID con') = Some c'" "connected c'" "sub_fd c' = fd"
          using ok asm(2) unfolding server_ok_def by blast
        with c fd(1) have "client_ID con' \<noteq> client_ID con"
          by auto
        with c' show ?thesis by (simp add: subs)
      qed
      ultimately show ?thesis
        using ok unfolding server_ok_def by (simp add: st'(1))
    qed
  qed
qed

lemma handle_input_ok:
  assumes "server_ok st" and "fresh_input st x" and "handle_input sends_ok x st = Inr (st', acts)"
  shows "server_ok st'"
proof (cases x)
  case (Udp udpIp port bytes)
  then show ?thesis
    using assms(1,3) handle_udp_ok by (simp add: handle_input_def)
next
  case (Connect newfd tcpIp port bytes)
  then show ?thesis
    using assms handle_connect_ok by (simp add: handle_input_def fresh_input_def)
next
  case (Tcp i bytes)
  then show ?thesis
    using assms(1,3) handle_tcp_ok by (simp add: handle_input_def split: if_splits)
next
  case Failed
  then show ?thesis
    using assms(3) by (simp add: handle_input_def)
qed

text \<open>The reachable states of the server, every connection on a new descriptor.\<close>

inductive server_reach :: "server \<Rightarrow> bool" where
  reach_init: "server_reach \<lparr>clientsConnected = [], topics = [], subscribers = [], read_fds = [0, t, u]\<rparr>"
| reach_input: "server_reach st \<Longrightarrow> fresh_input st x \<Longrightarrow> handle_input sends_ok x st = Inr (st', acts) \<Longrightarrow>
    server_reach st'"

lemma server_reach_ok: "server_reach st \<Longrightarrow> server_ok st"
proof (induction rule: server_reach.induct)
  case (reach_init t u)
  then show ?case by (simp add: server_ok_def)
next
  case (reach_input st x st' acts)
  then show ?case using handle_input_ok by blast
qed

text \<open>
  C11. The tables of the server agree in every reachable state: each topic has at most one
  subscription per client, every connected subscriber has an open connection with its name at its
  descriptor, and every named connection belongs to exactly that subscriber.
\<close>

theorem server_invariant:
  assumes "server_reach st"
  shows "server_ok st"
  using assms by (rule server_reach_ok)

section \<open>Storing and forwarding\<close>

text \<open>What is sent to one descriptor, and the line of a datagram.\<close>

definition sent_to :: "int \<Rightarrow> action list \<Rightarrow> string list" where
  "sent_to fd acts = concat (map (\<lambda>a. case a of Send_To f s \<Rightarrow> if f = fd then [s] else [] | _ \<Rightarrow> []) acts)"

definition udp_text :: "string \<times> u16 \<times> u8 list \<Rightarrow> string" where
  "udp_text u = (case u of (udpIp, port, bytes) \<Rightarrow>
     (case processUdpPacket (in_buf bytes) of Inr (Some d) \<Rightarrow> message_for udpIp port d | _ \<Rightarrow> []))"

abbreviation udp_input :: "string \<times> u16 \<times> u8 list \<Rightarrow> input" where
  "udp_input u \<equiv> Udp (fst u) (fst (snd u)) (snd (snd u))"

text \<open>A datagram on a topic the client has subscribed to with the store-and-forward flag.\<close>

definition wanted :: "server \<Rightarrow> string \<Rightarrow> string \<times> u16 \<times> u8 list \<Rightarrow> bool" where
  "wanted st name u \<longleftrightarrow> (\<exists>d ns. processUdpPacket (in_buf (snd (snd u))) = Inr (Some d) \<and>
     map_of (topics st) (pkt_topic d) = Some ns \<and> (\<exists>n \<in> set ns. clientID n = name \<and> SF n))"

lemma sent_to_append [simp]: "sent_to fd (as @ bs) = sent_to fd as @ sent_to fd bs"
  by (simp add: sent_to_def)

lemma sent_to_Cons [simp]:
  "sent_to fd [] = []"
  "sent_to fd (a # as) = (case a of Send_To f s \<Rightarrow> if f = fd then [s] else [] | _ \<Rightarrow> []) @ sent_to fd as"
  by (simp_all add: sent_to_def)

lemma sends_for_other:
  assumes "server_ok st" and "map_of (clientsConnected st) fd = None"
  shows "sent_to fd (sends_for ns text (subscribers st)) = []"
proof -
  have "sub_fd c \<noteq> fd" if "map_of (subscribers st) name = Some c" "connected c" for name c
    using server_okD(2) [OF assms(1) that] assms(2) by auto
  then show ?thesis
    by (induction ns) (auto simp: sends_for_def sent_to_def split: option.splits)
qed

lemma udp_inputs_stored:
  assumes "server_ok st" and "map_of (clientsConnected st) fd = None"
    and "map_of (subscribers st) name = Some c" and "\<not> connected c"
    and "\<forall>u \<in> set us. wanted st name u"
  shows "\<exists>st' acts. handle_inputs sends_ok (map udp_input us) st = Inr (st', acts) \<and>
    server_ok st' \<and> clientsConnected st' = clientsConnected st \<and> sent_to fd acts = [] \<and>
    map_of (subscribers st') name = Some (c\<lparr>packets := packets c @ map udp_text us\<rparr>)"
  using assms
proof (induction us arbitrary: st c)
  case Nil
  then show ?case by (simp add: sent_to_def)
next
  case (Cons u us)
  obtain d ns where d: "processUdpPacket (in_buf (snd (snd u))) = Inr (Some d)"
      "map_of (topics st) (pkt_topic d) = Some ns" "\<exists>n \<in> set ns. clientID n = name \<and> SF n"
    using Cons.prems(5) by (auto simp: wanted_def)
  have line: "message_for (fst u) (fst (snd u)) d = udp_text u"
    using d(1) by (cases u) (simp add: udp_text_def)
  obtain subs where subs: "handle_udp sends_ok (fst u) (fst (snd u)) (snd (snd u)) st =
        Inr (st\<lparr>subscribers := subs\<rparr>, sends_for ns (udp_text u) (subscribers st))"
      "\<forall>x. map_of subs x = map_option (stored_for ns (udp_text u) x) (map_of (subscribers st) x)"
    using deliver_result [OF server_okD(1) [OF Cons.prems(1) d(2)], of "udp_text u" "subscribers st"] d(1,2)
    by (auto simp: handle_udp_def line)
  let ?st1 = "st\<lparr>subscribers := subs\<rparr>" and ?c1 = "c\<lparr>packets := packets c @ [udp_text u]\<rparr>"
  have ok1: "server_ok ?st1"
    by (rule handle_udp_ok [OF Cons.prems(1) subs(1)])
  have c1: "map_of (subscribers ?st1) name = Some ?c1"
    using subs(2) Cons.prems(3,4) d(3) by (simp add: stored_for_def)
  have "\<forall>v \<in> set us. wanted ?st1 name v"
    using Cons.prems(5) by (simp add: wanted_def)
  then obtain st' acts where st': "handle_inputs sends_ok (map udp_input us) ?st1 = Inr (st', acts)"
      "server_ok st'" "clientsConnected st' = clientsConnected st" "sent_to fd acts = []"
      "map_of (subscribers st') name = Some (?c1\<lparr>packets := packets ?c1 @ map udp_text us\<rparr>)"
    using Cons.IH [OF ok1 _ c1] Cons.prems(2,4) by auto
  then show ?case
    using subs(1) sends_for_other [OF Cons.prems(1,2)]
    by (auto simp: handle_input_def)
qed

lemma send_stored_all: "send_stored sends_ok fd ps = Inr (map (Send_To fd) ps)"
  by (induction ps) auto

lemma sent_to_stored: "sent_to fd (map (Send_To fd) ps) = ps"
  by (induction ps) (auto simp: sent_to_def)

text \<open>
  C33. Store and forward. Messages that arrive on topics a disconnected client has subscribed to with
  the flag set are kept, and when the client connects again under its name, its new connection gets
  what was stored before and then these messages, each once and in order of arrival, and nothing else;
  then nothing is stored for it any more.
\<close>

theorem server_stores_and_forwards:
  assumes "server_reach st" and "map_of (subscribers st) name = Some c" and "\<not> connected c"
    and "\<forall>u \<in> set us. wanted st name u"
    and "map_of (clientsConnected st) newfd = None" and "string_of (in_buf hello) = Inr name"
  shows "\<exists>st' acts c'. handle_inputs sends_ok (map udp_input us @ [Connect newfd tcpIp port hello]) st =
      Inr (st', acts) \<and>
    sent_to newfd acts = packets c @ map udp_text us \<and>
    map_of (subscribers st') name = Some c' \<and> connected c' \<and> sub_fd c' = newfd \<and> packets c' = []"
proof -
  have ok: "server_ok st"
    using assms(1) by (rule server_reach_ok)
  obtain st1 acts where st1: "handle_inputs sends_ok (map udp_input us) st = Inr (st1, acts)"
    "sent_to newfd acts = []"
    "map_of (subscribers st1) name = Some (c\<lparr>packets := packets c @ map udp_text us\<rparr>)"
    using udp_inputs_stored [OF ok assms(5,2,3,4)] by blast
  have app: "handle_inputs sends_ok (xs @ [y]) s = rbind (handle_inputs sends_ok xs s) (\<lambda>(s', as).
      rbind (handle_input sends_ok y s') (\<lambda>(s'', bs). Inr (s'', as @ bs)))" for xs y s
    by (induction xs arbitrary: s) (auto simp: rbind_def split: sum.splits prod.splits)
  show ?thesis
    using st1 assms(3,6)
    by (simp add: app handle_input_def handle_connect_def Let_def send_stored_all update_conv'
        sent_to_stored del: map_append)
qed

section \<open>The commands\<close>

text \<open>
  What the two commands do to a client that is subscribed. \<open>unsubscribe\<close> on the connection with
  descriptor \<open>i\<close> removes the subscription at index \<open>i\<close> of the topic, whoever's it is, and erases behind
  the end of the list when there are no more than \<open>i\<close> subscriptions; \<open>subscribe\<close> with another flag
  changes nothing.
\<close>

theorem server_commands:
  assumes "map_of (clientsConnected st) i = Some con" and "map_of (topics st) t = Some ns"
    and "client_ID con \<in> set (map clientID ns)" and "0 \<le> i"
    and "scan_word 16 cmd = Inr (w, r)" and "scan_word 51 r = Inr (t, r')" and "scan_d r' = Some (v, r'')"
  shows "handle_unsubscribe i cmd st =
      (if int (length ns) \<le> i then Inl Out_Of_Bounds
       else Inr (st\<lparr>topics := AList.update t (take (nat i) ns @ drop (Suc (nat i)) ns) (topics st)\<rparr>)) \<and>
    handle_subscribe i cmd st = Inr st"
  using assms by (auto simp: handle_unsubscribe_def handle_subscribe_def erase_at_def Let_def)

section \<open>Concrete runs\<close>

definition demo_datagram :: "u8 list" where
  "demo_datagram = bytes_of ''t'' @ replicate 49 0 @ [3] @ bytes_of ''hi''"

definition demo_server :: "int \<Rightarrow> server" where
  "demo_server i =
    \<lparr>clientsConnected = [(i, \<lparr>ip_client_tcp = ''1.2.3.4'', port_client_tcp = 7, client_ID = ''C1''\<rparr>)],
     topics = [(''t'', [\<lparr>clientID = ''C1'', SF = True\<rparr>])],
     subscribers = [(''C1'', \<lparr>connected = True, sub_fd = i, packets = []\<rparr>)], read_fds = [i, 0, 3, 4]\<rparr>"

lemma demo_packet_processed:
  "processUdpPacket (in_buf demo_datagram) = Inr (Some \<lparr>pkt_type = ''STRING'', pkt_payload = ''hi'', pkt_topic = ''t''\<rparr>)"
  by code_simp

theorem server_publishes_witness:
  "\<exists>subs. handle_input sends_ok (Udp ''9.9.9.9'' 5 demo_datagram) (demo_server 5) =
      Inr ((demo_server 5)\<lparr>subscribers := subs\<rparr>,
        sends_for [\<lparr>clientID = ''C1'', SF = True\<rparr>]
          (message_for ''9.9.9.9'' 5 \<lparr>pkt_type = ''STRING'', pkt_payload = ''hi'', pkt_topic = ''t''\<rparr>)
          (subscribers (demo_server 5))) \<and>
    (\<forall>name. map_of subs name = map_option
      (stored_for [\<lparr>clientID = ''C1'', SF = True\<rparr>]
        (message_for ''9.9.9.9'' 5 \<lparr>pkt_type = ''STRING'', pkt_payload = ''hi'', pkt_topic = ''t''\<rparr>) name)
      (map_of (subscribers (demo_server 5)) name))"
  by (rule server_publishes [OF demo_packet_processed]) (simp_all add: demo_server_def)

lemma scan_one: "scan_d '' 1'' = Some (1, [])"
proof -
  have "show_int 1 = ''1''"
    by code_simp
  then show ?thesis
    using scan_d_show_int [of 1 "[]"] by (simp add: scan_d_skip is_space_def char_val_def)
qed

lemma demo_reach: "server_reach (demo_server 5)"
proof -
  let ?s0 = "\<lparr>clientsConnected = [], topics = [], subscribers = [], read_fds = [0, 3, 4]\<rparr>"
  let ?s1 = "(demo_server 5)\<lparr>topics := []\<rparr>"
  have "handle_input sends_ok (Connect 5 ''1.2.3.4'' 7 (bytes_of ''C1'')) ?s0 = Inr (?s1,
      [Log (''New client C1 connected from 1.2.3.4:1792.'' @ [newline])])"
    by code_simp
  then have 1: "server_reach ?s1"
    by (rule reach_input [OF reach_init, rotated]) (simp add: fresh_input_def)
  have "starts_with ''unsubscribe'' (in_buf (bytes_of ''subscribe t 1'')) = False"
    "starts_with ''subscribe'' (in_buf (bytes_of ''subscribe t 1'')) = True"
    "string_of (in_buf (bytes_of ''subscribe t 1'')) = Inr ''subscribe t 1''"
    "scan_word 16 ''subscribe t 1'' = Inr (''subscribe'', '' t 1'')"
    "scan_word 51 '' t 1'' = Inr (''t'', '' 1'')"
    by code_simp+
  then have "handle_input sends_ok (Tcp 5 (bytes_of ''subscribe t 1'')) ?s1 = Inr (demo_server 5, [])"
    by (simp add: handle_input_def handle_tcp_def handle_subscribe_def scan_one demo_server_def)
  then show ?thesis
    by (rule reach_input [OF 1, rotated]) (simp add: fresh_input_def)
qed

definition demo_away :: server where
  "demo_away = \<lparr>clientsConnected = [], topics = [(''t'', [\<lparr>clientID = ''C1'', SF = True\<rparr>])],
     subscribers = [(''C1'', \<lparr>connected = False, sub_fd = 5, packets = []\<rparr>)], read_fds = [0, 3, 4]\<rparr>"

lemma demo_away_reach: "server_reach demo_away"
proof -
  have "handle_input sends_ok (Tcp 5 []) (demo_server 5) =
      Inr (demo_away, [Log (''Client C1 disconnected.'' @ [newline]), Close_Fd 5])"
    by code_simp
  then show ?thesis
    by (rule reach_input [OF demo_reach, rotated]) (simp add: fresh_input_def)
qed

theorem server_invariant_witness: "server_ok (demo_server 5)"
  using server_invariant [OF demo_reach] .

theorem server_stores_and_forwards_witness:
  "\<exists>st' acts c'. handle_inputs sends_ok
      (map udp_input [(''9.9.9.9'', 5, demo_datagram)] @ [Connect 6 ''1.2.3.4'' 8 (bytes_of ''C1'')]) demo_away =
      Inr (st', acts) \<and>
    sent_to 6 acts = packets \<lparr>connected = False, sub_fd = 5, packets = []\<rparr> @
      map udp_text [(''9.9.9.9'', 5, demo_datagram)] \<and>
    map_of (subscribers st') ''C1'' = Some c' \<and> connected c' \<and> sub_fd c' = 6 \<and> packets c' = []"
proof (rule server_stores_and_forwards [OF demo_away_reach])
  show "string_of (in_buf (bytes_of ''C1'')) = Inr ''C1''"
    by code_simp
  show "\<forall>u \<in> set [(''9.9.9.9'', 5, demo_datagram)]. wanted demo_away ''C1'' u"
    by (simp add: wanted_def demo_packet_processed) (simp add: demo_away_def)
qed (simp_all add: demo_away_def)

theorem server_commands_witness:
  "handle_unsubscribe 5 ''unsubscribe t 1'' (demo_server 5) =
      (if int (length [\<lparr>clientID = ''C1'', SF = True\<rparr>]) \<le> 5 then Inl Out_Of_Bounds
       else Inr ((demo_server 5)\<lparr>topics := AList.update ''t''
         (take (nat 5) [\<lparr>clientID = ''C1'', SF = True\<rparr>] @ drop (Suc (nat 5)) [\<lparr>clientID = ''C1'', SF = True\<rparr>])
         (topics (demo_server 5))\<rparr>)) \<and>
    handle_subscribe 5 ''unsubscribe t 1'' (demo_server 5) = Inr (demo_server 5)"
proof (rule server_commands [where con = "\<lparr>ip_client_tcp = ''1.2.3.4'', port_client_tcp = 7, client_ID = ''C1''\<rparr>"])
  show "scan_word 16 ''unsubscribe t 1'' = Inr (''unsubscribe'', '' t 1'')"
    "scan_word 51 '' t 1'' = Inr (''t'', '' 1'')"
    by code_simp+
  show "scan_d '' 1'' = Some (1, [])"
    by (rule scan_one)
qed (simp_all add: demo_server_def)

end
