(* ===== verification/Bank_Server.thy ===== *)
theory Bank_Server
  imports Pubsub_Server
begin

text \<open>
  The account server and its client, \<open>Partial/server.cpp\<close> and \<open>Partial/client.cpp\<close>: each datagram is
  a textual command (\<open>CONNECT\<close>, \<open>send_to\<close>, \<open>show_sum\<close>, \<open>get\<close>, \<open>exit\<close>) on the table of users, answered
  by a datagram to its sender. The buffer, its size and \<open>%s\<close> into an array are those of the
  publish-subscribe server (the same \<open>utils.h\<close>).

  The table is an association list. An iterator that \<open>find\<close> returns for a missing user is dereferenced
  by some commands; that is the error \<open>Null_Deref\<close>. Amounts are 32-bit integers that wrap around.
\<close>

record user =
  money :: int
  isConnected :: bool

type_synonym users = "(string \<times> user) list"

definition wrap32 :: "int \<Rightarrow> int" where
  "wrap32 i = sint (of_int i :: u32)"

section \<open>The server\<close>

text \<open>The words and numbers of a command; a missing one leaves its variable unwritten.\<close>

definition scan_amount :: "string \<Rightarrow> (int \<times> string) res" where
  "scan_amount s = (case scan_d s of None \<Rightarrow> Inl Uninitialised | Some (v, r) \<Rightarrow> Inr (v, r))"

definition find_user :: "string \<Rightarrow> users \<Rightarrow> user res" where
  "find_user name us = (case map_of us name of None \<Rightarrow> Inl Null_Deref | Some u \<Rightarrow> Inr u)"

definition do_connect :: "string \<Rightarrow> users \<Rightarrow> (users \<times> string list) res" where
  "do_connect buf us =
    rbind (scan_word 50 buf) (\<lambda>(junk, r).
    rbind (scan_word 50 r) (\<lambda>(name, _).
      case map_of us name of
        None \<Rightarrow> Inr (AList.update name \<lparr>money = 0, isConnected = True\<rparr> us, [])
      | Some u \<Rightarrow>
          if isConnected u then Inr (us, ['';USER_EXISTS;'' @ [newline]])
          else Inr (AList.update name \<lparr>money = money u, isConnected = True\<rparr> us, [])))"

text \<open>\<open>sum\<close> starts as 0 and keeps this value if no number follows.\<close>

definition do_send_to :: "string \<Rightarrow> users \<Rightarrow> (users \<times> string list) res" where
  "do_send_to buf us =
    rbind (scan_word 50 buf) (\<lambda>(junk, r).
    rbind (scan_word 50 r) (\<lambda>(name, r').
      let amount = (case scan_d r' of None \<Rightarrow> 0 | Some (v, _) \<Rightarrow> v)
      in case map_of us name of
           None \<Rightarrow> Inr (us, ['';MONEY_NOSENT;'' @ [newline]])
         | Some u \<Rightarrow>
             Inr (AList.update name \<lparr>money = wrap32 (money u + amount), isConnected = isConnected u\<rparr> us,
               ['';MONEY_SENT;'' @ [newline]])))"

definition do_show_sum :: "string \<Rightarrow> users \<Rightarrow> (users \<times> string list) res" where
  "do_show_sum buf us =
    rbind (scan_word 50 buf) (\<lambda>(junk, r).
    rbind (scan_word 50 r) (\<lambda>(name, _).
    rbind (find_user name us) (\<lambda>u. Inr (us, ['';SHOW_SUM '' @ show_int (money u)]))))"

definition do_get :: "string \<Rightarrow> users \<Rightarrow> (users \<times> string list) res" where
  "do_get buf us =
    rbind (scan_word 50 buf) (\<lambda>(junk, r).
    rbind (scan_amount r) (\<lambda>(amount, r').
    rbind (scan_word 50 r') (\<lambda>(name, _).
    rbind (find_user name us) (\<lambda>u.
      if money u < amount then Inr (us, ['';GET_ERROR;'' @ [newline]])
      else Inr (AList.update name \<lparr>money = wrap32 (money u - amount), isConnected = isConnected u\<rparr> us,
        ['';GET_MONEY '' @ show_int amount])))))"

definition do_exit :: "string \<Rightarrow> users \<Rightarrow> (users \<times> string list) res" where
  "do_exit buf us =
    rbind (scan_word 50 buf) (\<lambda>(junk, r).
    rbind (scan_word 50 r) (\<lambda>(name, _).
    rbind (find_user name us) (\<lambda>u.
      Inr (AList.update name \<lparr>money = money u, isConnected = False\<rparr> us, []))))"

text \<open>One datagram: the new table and the answers to its sender.\<close>

definition bank_step :: "u8 list \<Rightarrow> users \<Rightarrow> (users \<times> string list) res" where
  "bank_step bytes us =
    (let buf = in_buf bytes
     in if starts_with ''CONNECT'' buf then rbind (string_of buf) (\<lambda>s. do_connect s us)
        else if starts_with ''send_to'' buf then rbind (string_of buf) (\<lambda>s. do_send_to s us)
        else if starts_with ''show_sum'' buf then rbind (string_of buf) (\<lambda>s. do_show_sum s us)
        else if starts_with ''get'' buf then rbind (string_of buf) (\<lambda>s. do_get s us)
        else if starts_with ''exit'' buf then rbind (string_of buf) (\<lambda>s. do_exit s us)
        else Inr (us, []))"

text \<open>
  The loop: in each iteration the line typed, if any, and the datagram with its sender, if any
  (the inner \<open>None\<close> is a failing \<open>recvfrom\<close>). The answers come with the address they go to.
\<close>

fun bank_loop ::
  "(string option \<times> ('a \<times> u8 list) option option) list \<Rightarrow> users \<Rightarrow> (users \<times> ('a \<times> string) list) res"
where
  "bank_loop [] us = Inr (us, [])"
| "bank_loop ((line, dg) # sels) us =
     (if (case line of None \<Rightarrow> False | Some l \<Rightarrow> is_exit l) then Inr (us, [])
      else case dg of
        None \<Rightarrow> bank_loop sels us
      | Some None \<Rightarrow> Inl (Exit 1)
      | Some (Some (a, bytes)) \<Rightarrow>
          rbind (bank_step bytes us) (\<lambda>(us', replies).
          rbind (bank_loop sels us') (\<lambda>(us'', out). Inr (us'', map (Pair a) replies @ out))))"

text \<open>\<open>main\<close>: the port is the first argument; the results of \<open>socket\<close> and \<open>bind\<close> are not checked.\<close>

definition bank_main ::
  "string list \<Rightarrow> (string option \<times> ('a \<times> u8 list) option option) list \<Rightarrow>
    (users \<times> ('a \<times> string) list) res" where
  "bank_main argv sels =
    (if argv = [] \<or> atoi (hd argv) = 0 then Inl (Exit 1) else bank_loop sels [])"

section \<open>The client\<close>

datatype bank_action = To_Bank string | Say string

text \<open>An answer of the server; the flag says whether the client goes on.\<close>

definition show_amount :: "string \<Rightarrow> string \<Rightarrow> (bank_action list \<times> bool) res" where
  "show_amount text buf =
    rbind (scan_word 100 buf) (\<lambda>(junk, r).
      Inr ([Say (text @ show_int (case scan_d r of None \<Rightarrow> 0 | Some (v, _) \<Rightarrow> v) @ [newline])], True))"

definition bank_answer :: "u8 list \<Rightarrow> (bank_action list \<times> bool) res" where
  "bank_answer bytes =
    (let buf = in_buf bytes; say = (\<lambda>s. [Say (s @ [newline])])
     in if starts_with '';USER_EXISTS;'' buf
        then Inr (say ''Exista deja un user conectat cu acest ID'', False)
        else if starts_with '';MONEY_SENT;'' buf then Inr (say ''Banii au fost trimisi cu success'', True)
        else if starts_with '';MONEY_NOSENT;'' buf
        then Inr (say ''Nu exista userul pentru care ai vrut sa trimiti banii'', True)
        else if starts_with '';SHOW_SUM'' buf
        then rbind (string_of buf) (show_amount ''Suma din cont este: '')
        else if starts_with '';GET_ERROR;'' buf
        then Inr (say ''Suma de bani din cont este prea mica'', True)
        else if starts_with '';GET_MONEY'' buf
        then rbind (string_of buf) (show_amount ''Ai primit suma: '')
        else Inr ([], \<not> starts_with '';EXIT;'' buf))"

text \<open>\<open>sprintf\<close> into the array that is sent.\<close>

definition to_bank :: "string \<Rightarrow> bool \<Rightarrow> (bank_action list \<times> bool) res" where
  "to_bank s go = (if BUF_LEN \<le> length s then Inl Out_Of_Bounds else Inr ([To_Bank s], go))"

text \<open>A line typed, without its newline; \<open>name\<close> is the first argument of the program.\<close>

definition bank_command :: "string \<Rightarrow> string \<Rightarrow> (bank_action list \<times> bool) res" where
  "bank_command name line =
    (let buf = takeWhile (\<lambda>c. c \<noteq> newline) line
     in if take 7 buf = ''send_to'' then
          rbind (scan_word 50 buf) (\<lambda>(junk, r).
          rbind (scan_word 50 r) (\<lambda>(to, r').
          rbind (scan_word 50 r') (\<lambda>(sumx, _).
            Inr (if to = name then [Say (''Nu iti poti trimite bani tie'' @ [newline])]
              else if atoi sumx = 0 then [Say (''sum is not a number'' @ [newline])]
              else [To_Bank buf], True))))
        else if take 8 buf = ''show_sum'' then to_bank (''show_sum '' @ name) True
        else if take 3 buf = ''get'' then
          rbind (scan_word 50 buf) (\<lambda>(junk, r).
          rbind (scan_word 50 r) (\<lambda>(sumx, _).
            if atoi sumx = 0 then Inr ([Say (''sum is not a number'' @ [newline])], True)
            else to_bank (buf @ CHR '' '' # name) True))
        else if take 4 buf = ''exit'' then to_bank (''exit '' @ name) False
        else Inr ([Say (''Comanda nu exista'' @ [newline])], True))"

fun bank_client_loop ::
  "string \<Rightarrow> (u8 list option \<times> string option) list \<Rightarrow> (bank_action list \<times> bool) res" where
  "bank_client_loop name [] = Inr ([], True)"
| "bank_client_loop name ((dg, typed) # sels) =
     rbind (case dg of None \<Rightarrow> Inr ([], True) | Some bytes \<Rightarrow> bank_answer bytes) (\<lambda>(acts, go).
       if \<not> go then Inr (acts, False)
       else rbind (case typed of None \<Rightarrow> Inr ([], True) | Some line \<Rightarrow> bank_command name line) (\<lambda>(acts', go').
         if \<not> go' then Inr (acts @ acts', False)
         else rbind (bank_client_loop name sels) (\<lambda>(acts'', go''). Inr (acts @ acts' @ acts'', go''))))"

text \<open>
  \<open>main\<close>: one argument passes the check, but the second is read. The results of \<open>socket\<close> and
  \<open>connect\<close> are arguments.
\<close>

definition bank_client_main ::
  "string list \<Rightarrow> bool \<Rightarrow> bool \<Rightarrow> (u8 list option \<times> string option) list \<Rightarrow> (bank_action list \<times> bool) res"
where
  "bank_client_main argv open_fails connect_fails sels =
    (case argv of
       [] \<Rightarrow> Inl (Exit 1)
     | [_] \<Rightarrow> Inl Null_Deref
     | name # port # _ \<Rightarrow>
         if atoi port = 0 \<or> open_fails \<or> connect_fails then Inl (Exit 1)
         else if BUF_LEN \<le> length (''CONNECT '' @ name) then Inl Out_Of_Bounds
         else rbind (bank_client_loop name sels) (\<lambda>(acts, go).
           Inr (To_Bank (''CONNECT '' @ name) # acts, go)))"

end
