(* ===== verification/Pubsub_Client.thy ===== *)
theory Pubsub_Client
  imports Pubsub_Server
begin

text \<open>
  The subscriber of \<open>Teme/Tema2/subscriber.cpp\<close>: it sends its name, then prints the lines of the
  server and passes on the commands typed. The stream from the server is the list of bytes not yet
  received; at its end \<open>recv\<close> no longer returns a byte.
\<close>

datatype client_action = Send_Server string | Print_Out string | Print_Err string

text \<open>
  Reading a line byte by byte: it ends with a newline (which does not end it as its first byte), with
  the stream, or with the buffer. The result is the bytes stored and the rest of the stream.
\<close>

fun read_message :: "nat \<Rightarrow> u8 list \<Rightarrow> u8 list \<times> u8 list" where
  "read_message bufPtr [] = ([], [])"
| "read_message bufPtr (b # bs) =
     (if BUF_LEN \<le> bufPtr then ([], b # bs)
      else if 0 < bufPtr \<and> b = 10 then ([b], bs)
      else (let (l, r) = read_message (Suc bufPtr) bs in (b # l, r)))"

text \<open>What the client does with it; the flag says whether it goes on.\<close>

definition handle_message :: "u8 list \<Rightarrow> (client_action list \<times> bool) res" where
  "handle_message bytes =
    (if starts_with '';ID_EXISTS;'' (in_buf bytes)
     then Inr ([Print_Err (''ID already exists'' @ [newline])], False)
     else if starts_with '';EXIT;'' (in_buf bytes) then Inr ([], False)
     else rbind (string_of (in_buf bytes)) (\<lambda>s. Inr ([Print_Out s], True)))"

text \<open>A command typed; \<open>None\<close> is the end of the input, which leaves the buffer empty.\<close>

definition handle_command :: "(string \<Rightarrow> bool) \<Rightarrow> string option \<Rightarrow> (client_action list \<times> bool) res" where
  "handle_command send_fails line =
    (case line of
       None \<Rightarrow> Inr ([], True)
     | Some cmd \<Rightarrow>
         if take 9 cmd = ''subscribe''
         then (if send_fails cmd then Inl (Exit 1)
               else Inr ([Send_Server cmd, Print_Out (''Subscribed to topic.'' @ [newline])], True))
         else if take 11 cmd = ''unsubscribe''
         then (if send_fails cmd then Inl (Exit 1)
               else Inr ([Send_Server cmd, Print_Out (''Unsubscribed from topic.'' @ [newline])], True))
         else Inr ([], take 4 cmd \<noteq> ''exit''))"

text \<open>One iteration: whether the socket is ready, and the line typed if the input is.\<close>

fun client_loop ::
  "(string \<Rightarrow> bool) \<Rightarrow> (bool \<times> string option option) list \<Rightarrow> u8 list \<Rightarrow> (client_action list \<times> bool) res"
where
  "client_loop send_fails [] stream = Inr ([], True)"
| "client_loop send_fails ((ready, typed) # sels) stream =
     (let (m, stream') = (if ready then read_message 0 stream else ([], stream))
      in rbind (if ready then handle_message m else Inr ([], True)) (\<lambda>(acts, go).
         if \<not> go then Inr (acts, False)
         else rbind (case typed of None \<Rightarrow> Inr ([], True) | Some line \<Rightarrow> handle_command send_fails line)
           (\<lambda>(acts', go').
             if \<not> go' then Inr (acts @ acts', False)
             else rbind (client_loop send_fails sels stream') (\<lambda>(acts'', go'').
               Inr (acts @ acts' @ acts'', go'')))))"

text \<open>
  \<open>main\<close>: the arguments are the name, the address and the port; the socket must open and connect.
\<close>

definition client_main ::
  "(string \<Rightarrow> bool) \<Rightarrow> string list \<Rightarrow> bool \<Rightarrow> bool \<Rightarrow> (bool \<times> string option option) list \<Rightarrow> u8 list \<Rightarrow>
    (client_action list \<times> bool) res" where
  "client_main send_fails argv open_fails connect_fails sels stream =
    (case argv of
       name # addr # port # _ \<Rightarrow>
         if atoi port = 0 \<or> open_fails \<or> connect_fails then Inl (Exit 1)
         else if BUF_LEN \<le> length name then Inl Out_Of_Bounds
         else if send_fails name then Inl (Exit 1)
         else rbind (client_loop send_fails sels stream) (\<lambda>(acts, go).
           Inr (Send_Server name # acts, go))
     | _ \<Rightarrow> Inl (Exit 1))"

section \<open>Printing the server's lines\<close>

text \<open>A line as the server sends it, and none of its two control lines.\<close>

definition text_line :: "string \<Rightarrow> bool" where
  "text_line s \<longleftrightarrow> (\<exists>c cs. s = c # cs @ [newline] \<and> newline \<notin> set cs \<and> c \<noteq> CHR '';'') \<and>
    CHR 0x00 \<notin> set s \<and> length s < BUF_LEN"

lemma byte_newline: "(of_nat (char_val c) :: u8) = 10 \<longleftrightarrow> c = newline"
  using char_byte_eq [of c newline] by (simp add: char_val_def)

lemma read_message_line:
  assumes "newline \<notin> set cs" and "0 < k" and "k + length cs < BUF_LEN"
  shows "read_message k (bytes_of (cs @ [newline]) @ rest) = (bytes_of (cs @ [newline]), rest)"
  using assms
proof (induction cs arbitrary: k)
  case Nil
  then show ?case by (simp add: bytes_of_def byte_newline)
next
  case (Cons c cs)
  then have "read_message (Suc k) (bytes_of (cs @ [newline]) @ rest) = (bytes_of (cs @ [newline]), rest)"
    by auto
  with Cons.prems show ?case
    by (auto simp: bytes_of_def byte_newline)
qed

lemma string_of_in_buf:
  assumes "CHR 0x00 \<notin> set s" and "length s < BUF_LEN"
  shows "string_of (in_buf (bytes_of s)) = Inr s"
proof -
  have "replicate (BUF_LEN - length s) 0 = (0 :: u8) # replicate (BUF_LEN - Suc (length s)) 0"
    using assms(2) by (simp add: Suc_diff_Suc flip: replicate_Suc)
  then have "in_buf (bytes_of s) = put_string s (replicate BUF_LEN 0)"
    using assms(2) by (simp add: in_buf_def put_string_def write_at_def)
  then show ?thesis
    using assms by (simp add: string_of_put)
qed

lemma line_handled:
  assumes "text_line s"
  shows "read_message 0 (bytes_of s @ rest) = (bytes_of s, rest)"
    and "handle_message (bytes_of s) = Inr ([Print_Out s], True)"
proof -
  obtain c cs where s: "s = c # cs @ [newline]" "newline \<notin> set cs" "c \<noteq> CHR '';''"
    using assms by (auto simp: text_line_def)
  have len: "length s < BUF_LEN" and nz: "CHR 0x00 \<notin> set s"
    using assms by (auto simp: text_line_def)
  show "read_message 0 (bytes_of s @ rest) = (bytes_of s, rest)"
    using read_message_line [OF s(2), of 1 rest] len s(1) by simp
  have "hd (in_buf (bytes_of s)) = of_nat (char_val c)"
    using len by (simp add: s(1) in_buf_def)
  moreover have "in_buf (bytes_of s) \<noteq> []"
    using len by (simp add: s(1) in_buf_def)
  ultimately have "\<not> starts_with (CHR '';'' # w) (in_buf (bytes_of s))" for w
    using char_byte_eq [of c "CHR '';''"] s(3) by (cases "in_buf (bytes_of s)") (auto simp: starts_with_def)
  then show "handle_message (bytes_of s) = Inr ([Print_Out s], True)"
    using string_of_in_buf [OF nz len] by (simp add: handle_message_def)
qed

text \<open>
  The subscriber prints what the server sends: however the lines of the server follow each other
  in the stream, each pass of the loop prints one of them, whole and in order, as long as they are
  text lines of less than 1600 characters that do not start with a semicolon.
\<close>

theorem client_prints_lines:
  assumes "\<forall>s \<in> set ls. text_line s"
  shows "client_loop send_fails (replicate (length ls) (True, None)) (concat (map bytes_of ls)) =
    Inr (map Print_Out ls, True)"
  using assms
proof (induction ls)
  case (Cons s ls)
  then have "text_line s"
    by simp
  note line_handled [OF this]
  with Cons show ?case
    by simp
qed simp

theorem client_prints_lines_witness:
  "let ls = [''ab'' @ [newline], ''c'' @ [newline]] in
    client_loop (\<lambda>_. False) (replicate (length ls) (True, None)) (concat (map bytes_of ls)) =
      Inr (map Print_Out ls, True)"
  unfolding Let_def
  by (rule client_prints_lines) (simp add: text_line_def BUF_LEN_def)

end
