(* ===== verification/Bank_Ledger.thy ===== *)
theory Bank_Ledger
  imports Bank_Server Pubsub_Client
begin

text \<open>
  What the account server promises, as a specification on the history of its answers: no table of
  users, only the list of the commands so far with the answer to each. Which users are known and
  which are online, and the balance of each, are read off this history; the server of
  \<open>Bank_Server\<close> gives the answers that the history determines, in every run.
\<close>

section \<open>Commands and their texts\<close>

datatype bank_cmd =
    Connect_As string
  | Send_To string int
  | Show_Sum string
  | Get_Sum int string
  | Leave string

fun cmd_user :: "bank_cmd \<Rightarrow> string" where
  "cmd_user (Connect_As n) = n"
| "cmd_user (Send_To n v) = n"
| "cmd_user (Show_Sum n) = n"
| "cmd_user (Get_Sum v n) = n"
| "cmd_user (Leave n) = n"

text \<open>The datagrams, as the client writes them.\<close>

fun command_text :: "bank_cmd \<Rightarrow> string" where
  "command_text (Connect_As n) = ''CONNECT '' @ n"
| "command_text (Send_To n v) = ''send_to '' @ n @ '' '' @ show_int v"
| "command_text (Show_Sum n) = ''show_sum '' @ n"
| "command_text (Get_Sum v n) = ''get '' @ show_int v @ '' '' @ n"
| "command_text (Leave n) = ''exit '' @ n"

definition int32 :: "int \<Rightarrow> bool" where
  "int32 v \<longleftrightarrow> - (2 ^ 31) \<le> v \<and> v < 2 ^ 31"

definition name_ok :: "string \<Rightarrow> bool" where
  "name_ok n \<longleftrightarrow> n \<noteq> [] \<and> length n < 50 \<and> (\<forall>c \<in> set n. \<not> is_space c \<and> c \<noteq> CHR 0x00)"

definition cmd_ok :: "bank_cmd \<Rightarrow> bool" where
  "cmd_ok c \<longleftrightarrow> name_ok (cmd_user c) \<and>
    (case c of Send_To n v \<Rightarrow> int32 v | Get_Sum v n \<Rightarrow> int32 v | _ \<Rightarrow> True)"

section \<open>The history\<close>

type_synonym history = "(bank_cmd \<times> string list) list"

text \<open>A user is known once it has connected, and online until it leaves.\<close>

definition known :: "history \<Rightarrow> string \<Rightarrow> bool" where
  "known h n \<longleftrightarrow> Connect_As n \<in> fst ` set h"

definition online :: "history \<Rightarrow> string \<Rightarrow> bool" where
  "online h n = foldl (\<lambda>on (c, r). if c = Connect_As n then True else if c = Leave n then False else on) False h"

text \<open>
  What an answered command adds to the balance of \<open>n\<close>: the amount sent to \<open>n\<close>, less the amount paid
  out to \<open>n\<close>.
\<close>

fun booked :: "string \<Rightarrow> bank_cmd \<times> string list \<Rightarrow> int" where
  "booked n (Send_To m v, r) = (if m = n \<and> r = ['';MONEY_SENT;'' @ [newline]] then v else 0)"
| "booked n (Get_Sum v m, r) = (if m = n \<and> r \<noteq> ['';GET_ERROR;'' @ [newline]] then - v else 0)"
| "booked n _ = 0"

definition balance :: "history \<Rightarrow> string \<Rightarrow> int" where
  "balance h n = wrap32 (sum_list (map (booked n) h))"

text \<open>The answer to a command after the history \<open>h\<close>; \<open>None\<close> is the access to a user that is not there.\<close>

fun answer_to :: "history \<Rightarrow> bank_cmd \<Rightarrow> string list option" where
  "answer_to h (Connect_As n) = Some (if online h n then ['';USER_EXISTS;'' @ [newline]] else [])"
| "answer_to h (Send_To n v) =
     Some [(if known h n then '';MONEY_SENT;'' else '';MONEY_NOSENT;'') @ [newline]]"
| "answer_to h (Show_Sum n) =
     (if known h n then Some ['';SHOW_SUM '' @ show_int (balance h n)] else None)"
| "answer_to h (Get_Sum v n) =
     (if \<not> known h n then None
      else if balance h n < v then Some ['';GET_ERROR;'' @ [newline]]
      else Some ['';GET_MONEY '' @ show_int v])"
| "answer_to h (Leave n) = (if known h n then Some [] else None)"

fun answers_to :: "history \<Rightarrow> bank_cmd list \<Rightarrow> history option" where
  "answers_to h [] = Some h"
| "answers_to h (c # cs) = Option.bind (answer_to h c) (\<lambda>r. answers_to (h @ [(c, r)]) cs)"

lemma history_simps [simp]:
  "\<not> known [] n" "\<not> online [] n" "sum_list (map (booked n) []) = 0"
  "known (h @ [(c, r)]) n \<longleftrightarrow> known h n \<or> c = Connect_As n"
  "online (h @ [(c, r)]) n = (if c = Connect_As n then True else if c = Leave n then False else online h n)"
  by (auto simp: known_def online_def)

lemma wrap32_add: "wrap32 (wrap32 a + b) = wrap32 (a + b)"
  by (simp add: wrap32_def)

lemma wrap32_0 [simp]: "wrap32 0 = 0"
  by (simp add: wrap32_def)

lemma balance_snoc: "balance (h @ [x]) n = wrap32 (balance h n + booked n x)"
  by (simp add: balance_def wrap32_add)

lemma wrap32_balance [simp]: "wrap32 (balance h n) = balance h n"
  using wrap32_add [of "sum_list (map (booked n) h)" 0] by (simp add: balance_def)

section \<open>Parsing the texts\<close>

lemma scan_word_token:
  assumes "\<forall>c \<in> set w. \<not> is_space c" and "w \<noteq> []" and "length w < room" and "r = [] \<or> is_space (hd r)"
  shows "scan_word room (w @ r) = Inr (w, r)"
  using assms by (simp add: scan_word_def scan_s_token)

lemma scan_word_skip: "is_space c \<Longrightarrow> scan_word room (c # s) = scan_word room s"
  by (simp add: scan_word_def scan_s_skip)

lemma space_space [simp]: "is_space CHR '' ''"
  by (simp add: is_space_def char_val_def)

lemma scan_name:
  "name_ok n \<Longrightarrow> r = [] \<or> is_space (hd r) \<Longrightarrow> scan_word 50 (CHR '' '' # n @ r) = Inr (n, r)"
  unfolding name_ok_def by (subst scan_word_skip) (simp_all add: scan_word_token)

lemma scan_amount_show:
  "int32 v \<Longrightarrow> r = [] \<or> is_space (hd r) \<Longrightarrow> scan_d (CHR '' '' # show_int v @ r) = Some (v, r)"
proof -
  assume "int32 v" and r: "r = [] \<or> is_space (hd r)"
  from r have "r = [] \<or> \<not> is_digit (hd r)"
    by (auto simp: is_space_def is_digit_def)
  with \<open>int32 v\<close> show ?thesis
    by (simp add: scan_d_skip scan_d_show_int int32_def)
qed

lemma scan_command_word:
  assumes "w \<in> {''CONNECT'', ''send_to'', ''show_sum'', ''get'', ''exit''}"
  shows "scan_word 50 (w @ CHR '' '' # r) = Inr (w, CHR '' '' # r)"
  by (rule scan_word_token) (use assms in \<open>auto simp: is_space_def char_val_def\<close>)

lemma command_text_chars:
  assumes "cmd_ok c"
  shows "CHR 0x00 \<notin> set (command_text c)" and "length (command_text c) < BUF_LEN"
proof -
  have "CHR 0x00 \<notin> set (show_nat n)" for n
    using show_nat_digits [of n] by (force simp: is_digit_def char_val_def)
  then have "CHR 0x00 \<notin> set (show_int v)" for v
    by (simp add: show_int_def)
  then show "CHR 0x00 \<notin> set (command_text c)"
    using assms by (cases c) (auto simp: cmd_ok_def name_ok_def)
  have "length (show_int v) \<le> 11" if "int32 v" for v
    using that length_show_int by (simp add: int32_def)
  then show "length (command_text c) < BUF_LEN"
    using assms by (cases c) (force simp: cmd_ok_def name_ok_def BUF_LEN_def)+
qed

lemma starts_with_text:
  assumes "length s < BUF_LEN"
  shows "starts_with w (in_buf (bytes_of s)) \<longleftrightarrow>
    take (length w) (bytes_of s @ replicate (BUF_LEN - length s) 0) = bytes_of w"
  using assms by (simp add: starts_with_def in_buf_def)

text \<open>The server recognises the five commands.\<close>

lemma bank_step_command:
  assumes "cmd_ok c"
  shows "bank_step (bytes_of (command_text c)) us =
    (let s = command_text c in case c of
       Connect_As n \<Rightarrow> do_connect s us
     | Send_To n v \<Rightarrow> do_send_to s us
     | Show_Sum n \<Rightarrow> do_show_sum s us
     | Get_Sum v n \<Rightarrow> do_get s us
     | Leave n \<Rightarrow> do_exit s us)"
proof -
  note chars = command_text_chars [OF assms]
  note start = starts_with_text [OF chars(2)]
  have s: "string_of (in_buf (bytes_of (command_text c))) = Inr (command_text c)"
    using chars by (rule string_of_in_buf)
  show ?thesis
    unfolding bank_step_def Let_def s start by (cases c) (simp_all add: char_byte_eq)
qed

section \<open>The server keeps the books\<close>

text \<open>The table holds what the history says; nothing is booked for a user that never connected.\<close>

definition keeps :: "history \<Rightarrow> users \<Rightarrow> bool" where
  "keeps h us \<longleftrightarrow> (\<forall>n. \<not> known h n \<longrightarrow> balance h n = 0) \<and>
    (\<forall>n. map_of us n =
      (if known h n then Some \<lparr>money = balance h n, isConnected = online h n\<rparr> else None))"

lemma online_known: "online h n \<Longrightarrow> known h n"
  by (induction h rule: rev_induct) (auto split: if_splits)

lemma keeps_Nil [simp]: "keeps [] []"
  by (simp add: keeps_def balance_def wrap32_def)

text \<open>How one answered command changes what the history says of a user.\<close>

lemma keeps_same:
  assumes "keeps h us" and "\<forall>n. booked n (c, r) = 0" and "\<forall>n. c \<noteq> Connect_As n" and "\<forall>n. c \<noteq> Leave n"
  shows "keeps (h @ [(c, r)]) us"
  using assms by (simp add: keeps_def balance_snoc)

lemma keeps_booked:
  assumes "keeps h us" and "known h n" and "\<forall>m. booked m (c, r) = (if m = n then v else 0)"
    and "\<forall>n. c \<noteq> Connect_As n" and "\<forall>n. c \<noteq> Leave n"
  shows "keeps (h @ [(c, r)])
    (AList.update n \<lparr>money = wrap32 (balance h n + v), isConnected = online h n\<rparr> us)"
  using assms by (auto simp: keeps_def balance_snoc update_conv')

lemma keeps_connect:
  assumes "keeps h us"
  shows "keeps (h @ [(Connect_As n, r)])
    (AList.update n \<lparr>money = balance h n, isConnected = True\<rparr> us)"
  using assms by (auto simp: keeps_def balance_snoc update_conv')

lemma keeps_connect_again:
  assumes "keeps h us" and "online h n"
  shows "keeps (h @ [(Connect_As n, r)]) us"
  using assms online_known [OF assms(2)] by (auto simp: keeps_def balance_snoc)

lemma keeps_leave:
  assumes "keeps h us" and "known h n"
  shows "keeps (h @ [(Leave n, r)]) (AList.update n \<lparr>money = balance h n, isConnected = False\<rparr> us)"
  using assms by (auto simp: keeps_def balance_snoc update_conv')

text \<open>The answer of the server, and the table after it.\<close>

definition answers_well :: "history \<Rightarrow> bank_cmd \<Rightarrow> (users \<times> string list) res \<Rightarrow> bool" where
  "answers_well h c res \<longleftrightarrow> (case answer_to h c of
     None \<Rightarrow> res = Inl Null_Deref
   | Some r \<Rightarrow> \<exists>us'. res = Inr (us', r) \<and> keeps (h @ [(c, r)]) us')"

lemma do_connect_well:
  assumes "keeps h us" and "name_ok n"
  shows "answers_well h (Connect_As n) (do_connect (''CONNECT '' @ n) us)"
proof -
  have scan: "scan_word 50 (''CONNECT '' @ n) = Inr (''CONNECT'', '' '' @ n)"
    using scan_command_word [of "''CONNECT''" n] by simp
  have name: "scan_word 50 ('' '' @ n) = Inr (n, [])"
    using scan_name [OF assms(2), of "[]"] by simp
  show ?thesis
    using assms(1) online_known [of h n] keeps_connect [OF assms(1)] keeps_connect_again [OF assms(1)]
    unfolding do_connect_def scan rbind_Inr prod.case name
    by (auto simp: answers_well_def keeps_def)
qed

lemma do_send_to_well:
  assumes "keeps h us" and "name_ok n" and "int32 v"
  shows "answers_well h (Send_To n v) (do_send_to (''send_to '' @ n @ '' '' @ show_int v) us)"
proof -
  let ?r = "'' '' @ show_int v"
  have scan: "scan_word 50 (''send_to '' @ n @ ?r) = Inr (''send_to'', '' '' @ n @ ?r)"
    using scan_command_word [of "''send_to''" "n @ ?r"] by simp
  have name: "scan_word 50 ('' '' @ n @ ?r) = Inr (n, ?r)"
    using scan_name [OF assms(2), of ?r] by simp
  have sum: "scan_d ?r = Some (v, [])"
    using scan_amount_show [OF assms(3), of "[]"] by simp
  have find: "map_of us n = (if known h n then Some \<lparr>money = balance h n, isConnected = online h n\<rparr> else None)"
    using assms(1) by (simp add: keeps_def)
  show ?thesis
  proof (cases "known h n")
    case True
    then show ?thesis
      using keeps_booked [OF assms(1) True, of "Send_To n v" "['';MONEY_SENT;'' @ [newline]]" v]
      unfolding do_send_to_def scan rbind_Inr prod.case name sum find
      by (simp add: answers_well_def)
  next
    case False
    then show ?thesis
      using keeps_same [OF assms(1), of "Send_To n v" "['';MONEY_NOSENT;'' @ [newline]]"]
      unfolding do_send_to_def scan rbind_Inr prod.case name sum find
      by (simp add: answers_well_def)
  qed
qed

lemma find_user_keeps:
  assumes "keeps h us"
  shows "find_user n us =
    (if known h n then Inr \<lparr>money = balance h n, isConnected = online h n\<rparr> else Inl Null_Deref)"
  using assms by (simp add: keeps_def find_user_def)

lemma do_show_sum_well:
  assumes "keeps h us" and "name_ok n"
  shows "answers_well h (Show_Sum n) (do_show_sum (''show_sum '' @ n) us)"
proof -
  have scan: "scan_word 50 (''show_sum '' @ n) = Inr (''show_sum'', '' '' @ n)"
    using scan_command_word [of "''show_sum''" n] by simp
  have name: "scan_word 50 ('' '' @ n) = Inr (n, [])"
    using scan_name [OF assms(2), of "[]"] by simp
  show ?thesis
    using keeps_same [OF assms(1), of "Show_Sum n"]
    unfolding do_show_sum_def scan rbind_Inr prod.case name find_user_keeps [OF assms(1)]
    by (simp add: answers_well_def)
qed

lemma do_get_well:
  assumes "keeps h us" and "name_ok n" and "int32 v"
  shows "answers_well h (Get_Sum v n) (do_get (''get '' @ show_int v @ '' '' @ n) us)"
proof -
  let ?r = "'' '' @ n"
  have scan: "scan_word 50 (''get '' @ show_int v @ ?r) = Inr (''get'', '' '' @ show_int v @ ?r)"
    using scan_command_word [of "''get''" "show_int v @ ?r"] by simp
  have sum: "scan_amount ('' '' @ show_int v @ ?r) = Inr (v, ?r)"
    using scan_amount_show [OF assms(3), of ?r] by (simp add: scan_amount_def)
  have name: "scan_word 50 ?r = Inr (n, [])"
    using scan_name [OF assms(2), of "[]"] by simp
  have paid: "keeps (h @ [(Get_Sum v n, ['';GET_MONEY '' @ show_int v])])
      (AList.update n \<lparr>money = wrap32 (balance h n + - v), isConnected = online h n\<rparr> us)" if "known h n"
    by (rule keeps_booked [OF assms(1) that]) simp_all
  have refused: "keeps (h @ [(Get_Sum v n, ['';GET_ERROR;'' @ [newline]])]) us"
    by (rule keeps_same [OF assms(1)]) simp_all
  show ?thesis
    using paid refused
    unfolding do_get_def scan rbind_Inr prod.case name sum find_user_keeps [OF assms(1)]
    by (simp add: answers_well_def)
qed

lemma do_exit_well:
  assumes "keeps h us" and "name_ok n"
  shows "answers_well h (Leave n) (do_exit (''exit '' @ n) us)"
proof -
  have scan: "scan_word 50 (''exit '' @ n) = Inr (''exit'', '' '' @ n)"
    using scan_command_word [of "''exit''" n] by simp
  have name: "scan_word 50 ('' '' @ n) = Inr (n, [])"
    using scan_name [OF assms(2), of "[]"] by simp
  show ?thesis
    using keeps_leave [OF assms(1)]
    unfolding do_exit_def scan rbind_Inr prod.case name find_user_keeps [OF assms(1)]
    by (simp add: answers_well_def)
qed

lemma bank_step_well:
  assumes "keeps h us" and "cmd_ok c"
  shows "answers_well h c (bank_step (bytes_of (command_text c)) us)"
  unfolding bank_step_command [OF assms(2)] Let_def
  using assms do_connect_well do_send_to_well do_show_sum_well do_get_well do_exit_well
  by (cases c) (simp_all add: cmd_ok_def)

section \<open>Whole runs\<close>

text \<open>
  A pass of the loop: the line typed at the server, if any, and the command that comes in, if any,
  with its sender.
\<close>

type_synonym 'a pass = "string option \<times> ('a \<times> bank_cmd) option"

definition pass_ok :: "'a pass \<Rightarrow> bool" where
  "pass_ok p \<longleftrightarrow> (case fst p of None \<Rightarrow> True | Some line \<Rightarrow> \<not> is_exit line) \<and>
    (case snd p of None \<Rightarrow> True | Some (a, c) \<Rightarrow> cmd_ok c)"

definition select_of :: "'a pass \<Rightarrow> string option \<times> ('a \<times> u8 list) option option" where
  "select_of p = (fst p, map_option (\<lambda>(a, c). Some (a, bytes_of (command_text c))) (snd p))"

definition commands_in :: "'a pass list \<Rightarrow> ('a \<times> bank_cmd) list" where
  "commands_in ps = List.map_filter snd ps"

text \<open>The answers of a history, each to the sender of its command.\<close>

definition sent_answers :: "('a \<times> bank_cmd) list \<Rightarrow> history \<Rightarrow> ('a \<times> string) list" where
  "sent_answers cs h = concat (map2 (\<lambda>(a, c) (c', r). map (Pair a) r) cs h)"

lemma answers_to_extends: "answers_to h cs = Some h' \<Longrightarrow> \<exists>g. h' = h @ g \<and> map fst g = cs"
proof (induction cs arbitrary: h)
  case (Cons c cs)
  then obtain r where r: "answers_to (h @ [(c, r)]) cs = Some h'"
    by (auto simp: Option.bind_eq_Some_conv)
  from Cons.IH [OF r] show ?case
    by auto
qed simp

lemma commands_in_simps [simp]:
  "commands_in [] = []"
  "commands_in (p # ps) = (case snd p of None \<Rightarrow> commands_in ps | Some x \<Rightarrow> x # commands_in ps)"
  by (simp_all add: commands_in_def List.map_filter_simps split: option.split)

definition runs_well :: "history \<Rightarrow> ('a \<times> bank_cmd) list \<Rightarrow> (users \<times> ('a \<times> string) list) res \<Rightarrow> bool" where
  "runs_well h cs res \<longleftrightarrow> (case answers_to h (map snd cs) of
     None \<Rightarrow> res = Inl Null_Deref
   | Some h' \<Rightarrow> \<exists>us'. res = Inr (us', sent_answers cs (drop (length h) h')) \<and> keeps h' us')"

lemma runs_well_Cons:
  assumes "answers_well h c (bank_step bytes us)"
    and "\<And>r us'. keeps (h @ [(c, r)]) us' \<Longrightarrow> runs_well (h @ [(c, r)]) cs (bank_loop sels us')"
  shows "runs_well h ((a, c) # cs)
    (rbind (bank_step bytes us) (\<lambda>(us', replies).
     rbind (bank_loop sels us') (\<lambda>(us'', out). Inr (us'', map (Pair a) replies @ out))))"
proof (cases "answer_to h c")
  case None
  then show ?thesis
    using assms(1) by (simp add: answers_well_def runs_well_def)
next
  case (Some r)
  then obtain us' where us': "bank_step bytes us = Inr (us', r)" "keeps (h @ [(c, r)]) us'"
    using assms(1) by (auto simp: answers_well_def)
  from assms(2) [OF us'(2)] have rest: "runs_well (h @ [(c, r)]) cs (bank_loop sels us')" .
  show ?thesis
  proof (cases "answers_to (h @ [(c, r)]) (map snd cs)")
    case None
    with rest show ?thesis
      by (simp add: runs_well_def Some us'(1))
  next
    case h': (Some h')
    obtain g where "h' = (h @ [(c, r)]) @ g"
      using answers_to_extends [OF h'] by blast
    with rest show ?thesis
      by (auto simp: runs_well_def Some us'(1) h' sent_answers_def)
  qed
qed

lemma bank_loop_well:
  "keeps h us \<Longrightarrow> \<forall>p \<in> set ps. pass_ok p \<Longrightarrow>
    runs_well h (commands_in ps) (bank_loop (map select_of ps) us)"
proof (induction ps arbitrary: h us)
  case Nil
  then show ?case
    by (simp add: runs_well_def sent_answers_def)
next
  case (Cons p ps)
  obtain line cmd where p: "p = (line, cmd)"
    by force
  have line: "\<not> (case line of None \<Rightarrow> False | Some l \<Rightarrow> is_exit l)"
    using Cons.prems(2) by (auto simp: p pass_ok_def split: option.splits)
  show ?case
  proof (cases cmd)
    case None
    then show ?thesis
      using Cons line by (simp add: p select_of_def)
  next
    case (Some x)
    obtain a c where x: "x = (a, c)"
      by force
    have "cmd_ok c"
      using Cons.prems(2) by (simp add: p pass_ok_def Some x)
    then have "answers_well h c (bank_step (bytes_of (command_text c)) us)"
      using Cons.prems(1) by (intro bank_step_well)
    then have "runs_well h ((a, c) # commands_in ps)
        (rbind (bank_step (bytes_of (command_text c)) us) (\<lambda>(us', replies).
         rbind (bank_loop (map select_of ps) us') (\<lambda>(us'', out). Inr (us'', map (Pair a) replies @ out))))"
      using Cons.IH Cons.prems(2) by (intro runs_well_Cons) simp_all
    then show ?thesis
      using line select_of_def [of p] by (simp add: p Some x)
  qed
qed

text \<open>
  C40. The account server keeps the books, in every run that starts with a valid port: whatever commands come in,
  from whatever senders and in whatever order (names of 1 to 49 characters without white space,
  amounts of 32 bits), each is answered to its sender as the history of the answers says. A user
  exists from its first \<open>CONNECT\<close> on and is online until its \<open>exit\<close>; a second \<open>CONNECT\<close> while it is online is
  refused. Its balance is the sum of what was sent to it less what was paid out to it (modulo \<open>2 ^ 32\<close>);
  \<open>send_to\<close> changes the balance of the receiver it names only, so whoever sends pays nothing. \<open>get\<close> is paid
  exactly when the balance covers it, and \<open>show_sum\<close> tells the balance. At the end the table holds
  exactly these users, balances and states. The program reads a user that is not there, an undefined access,
  exactly when \<open>show_sum\<close>, \<open>get\<close> or \<open>exit\<close> names a user that has not connected.
\<close>

theorem bank_keeps_books:
  assumes "argv \<noteq> []" and "atoi (hd argv) \<noteq> 0" and "\<forall>p \<in> set ps. pass_ok p"
  shows "case answers_to [] (map snd (commands_in ps)) of
      None \<Rightarrow> bank_main argv (map select_of ps) = Inl Null_Deref
    | Some h \<Rightarrow> \<exists>us. bank_main argv (map select_of ps) = Inr (us, sent_answers (commands_in ps) h) \<and>
        (\<forall>n. map_of us n =
          (if known h n then Some \<lparr>money = balance h n, isConnected = online h n\<rparr> else None))"
  using bank_loop_well [OF keeps_Nil assms(3)] assms(1,2)
  by (auto simp: runs_well_def bank_main_def keeps_def split: option.splits)

text \<open>
  Ana sends 5 to Ion, who takes out 3: Ion has 2 and Ana still 0. A \<open>show_sum\<close> of a user that never
  connected ends the run.
\<close>

definition demo_passes :: "nat pass list" where
  "demo_passes =
    [(None, Some (1, Connect_As ''ana'')), (Some ''hello'', None), (None, Some (2, Connect_As ''ion'')),
     (None, Some (1, Send_To ''ion'' 5)), (None, Some (2, Get_Sum 3 ''ion'')),
     (None, Some (2, Get_Sum 3 ''ion'')), (None, Some (2, Show_Sum ''ion'')),
     (None, Some (1, Show_Sum ''ana''))]"

theorem bank_keeps_books_witness:
  "(\<exists>us. bank_main [''1234''] (map select_of demo_passes) =
      Inr (us, [(1, '';MONEY_SENT;'' @ [newline]), (2, '';GET_MONEY 3''), (2, '';GET_ERROR;'' @ [newline]),
        (2, '';SHOW_SUM 2''), (1, '';SHOW_SUM 0'')]) \<and>
      map_of us ''ion'' = Some \<lparr>money = 2, isConnected = True\<rparr>) \<and>
    bank_main [''1234''] (map select_of (demo_passes @ [(None, Some (1, Show_Sum ''eva''))])) = Inl Null_Deref"
proof -
  let ?ps = "demo_passes" and ?qs = "demo_passes @ [(None, Some (1, Show_Sum ''eva''))]"
  have "show_int 1234 = ''1234''"
    by code_simp
  then have port: "[''1234''] \<noteq> []" "atoi (hd [''1234'']) \<noteq> 0"
    using atoi_show_int [of 1234] by simp_all
  have ok: "\<forall>p \<in> set ?qs. pass_ok p"
    by (simp add: demo_passes_def pass_ok_def cmd_ok_def name_ok_def int32_def is_exit_def is_space_def
        char_val_def)
  then have ok': "\<forall>p \<in> set ?ps. pass_ok p"
    by simp
  have zero: "balance [] n = 0" for n
    by (simp add: balance_def)
  define h where "h = [(Connect_As ''ana'', []), (Connect_As ''ion'', []),
      (Send_To ''ion'' 5, ['';MONEY_SENT;'' @ [newline]]), (Get_Sum 3 ''ion'', ['';GET_MONEY 3'']),
      (Get_Sum 3 ''ion'', ['';GET_ERROR;'' @ [newline]]), (Show_Sum ''ion'', ['';SHOW_SUM 2'']),
      (Show_Sum ''ana'', ['';SHOW_SUM 0''])]"
  have h: "answers_to [] (map snd (commands_in ?ps)) = Some h"
      "sent_answers (commands_in ?ps) h = [(1, '';MONEY_SENT;'' @ [newline]), (2, '';GET_MONEY 3''),
        (2, '';GET_ERROR;'' @ [newline]), (2, '';SHOW_SUM 2''), (1, '';SHOW_SUM 0'')]"
      "known h ''ion''" "balance h ''ion'' = 2" "online h ''ion''"
    unfolding h_def by code_simp+
  have none: "answers_to [] (map snd (commands_in ?qs)) = None"
    by code_simp
  show ?thesis
    using bank_keeps_books [OF port ok'] bank_keeps_books [OF port ok] h(2-) unfolding h(1) none
    by auto
qed

end
