(* ===== verification/Route_Trie.thy ===== *)
theory Route_Trie
  imports Lab04_Run
begin

text \<open>
  The routing table of the C++ router of \<open>pc pirvu\<close>: the entries (\<open>include/rtable_entry.h\<close>), the
  binary trie (\<open>include/trie.h\<close>) and the table file (\<open>include/rtable.h\<close>). An address is kept in network
  byte order, so bit \<open>i\<close> of the word is bit \<open>i mod 8\<close>, counted from the lowest, of byte \<open>i div 8\<close>; the
  trie branches on the bits of the word from bit 0 on.

  Every node is allocated by \<open>insert\<close> and has one parent, so the nodes form a tree and the trie is a
  datatype; a null child is \<open>None\<close>.
\<close>

section \<open>Entries\<close>

record rTableEntry =
  e_prefix :: u32
  e_nextHop :: u32
  e_mask :: u32
  e_maskLen :: nat
  e_interface :: int

definition rTableEntry0 :: rTableEntry where
  "rTableEntry0 = \<lparr>e_prefix = 0, e_nextHop = 0, e_mask = 0, e_maskLen = 0, e_interface = 0\<rparr>"

text \<open>The leading ones of the mask, from bit 31 down to bit 1.\<close>

fun getMaskLength_from :: "nat \<Rightarrow> u32 \<Rightarrow> nat" where
  "getMaskLength_from 0 m = 0"
| "getMaskLength_from (Suc i) m =
     (if drop_bit (Suc i) m AND 1 = 0 then 0 else Suc (getMaskLength_from i m))"

definition getMaskLength :: "u32 \<Rightarrow> nat" where
  "getMaskLength m = getMaskLength_from 31 m"

definition new_entry :: "u32 \<Rightarrow> u32 \<Rightarrow> u32 \<Rightarrow> int \<Rightarrow> rTableEntry" where
  "new_entry prefix nextHop m interface =
    \<lparr>e_prefix = prefix, e_nextHop = nextHop, e_mask = m, e_maskLen = getMaskLength m,
     e_interface = interface\<rparr>"

section \<open>The trie\<close>

datatype trieNode = TrieNode (node_bit: u32) (node_entry: rTableEntry)
  (child0: "trieNode option") (child1: "trieNode option")

definition trie_root :: trieNode where
  "trie_root = TrieNode 0 rTableEntry0 None None"

definition set_entry :: "rTableEntry \<Rightarrow> trieNode \<Rightarrow> trieNode" where
  "set_entry e t = TrieNode (node_bit t) e (child0 t) (child1 t)"

text \<open>\<open>insert\<close> from bit \<open>i\<close> on, with \<open>maskLen - i\<close> as the second argument.\<close>

fun trie_insert_from :: "rTableEntry \<Rightarrow> nat \<Rightarrow> nat \<Rightarrow> trieNode \<Rightarrow> trieNode" where
  "trie_insert_from e i 0 t = t"
| "trie_insert_from e i (Suc n) t =
     (let bitValue = drop_bit i (e_prefix e) AND 1;
          child = (case if bitValue = 0 then child0 t else child1 t of
              None \<Rightarrow> TrieNode bitValue rTableEntry0 None None
            | Some c \<Rightarrow> c);
          child' = trie_insert_from e (Suc i) n (if n = 0 then set_entry e child else child)
      in if bitValue = 0 then TrieNode (node_bit t) (node_entry t) (Some child') (child1 t)
         else TrieNode (node_bit t) (node_entry t) (child0 t) (Some child'))"

definition trie_insert :: "rTableEntry \<Rightarrow> trieNode \<Rightarrow> trieNode" where
  "trie_insert e t = trie_insert_from e 0 (e_maskLen e) t"

text \<open>\<open>next\<close>, with the entry that \<open>match\<close> holds.\<close>

fun trie_next :: "trieNode option \<Rightarrow> u32 \<Rightarrow> nat \<Rightarrow> rTableEntry \<Rightarrow> rTableEntry" where
  "trie_next None elem pos found = found"
| "trie_next (Some (TrieNode b e c0 c1)) elem pos found =
     (if pos < 32 then
        (let bitValue = drop_bit pos elem AND 1
         in if bitValue = 1 \<and> c1 = None \<and> c0 \<noteq> None then trie_next c0 elem (Suc pos) e
            else trie_next (if bitValue = 0 then c0 else c1) elem (Suc pos) e)
      else found)"

definition getPrefix :: "trieNode \<Rightarrow> u32 \<Rightarrow> rTableEntry" where
  "getPrefix t elem =
    (if 0 < elem then trie_next (if elem AND 1 = 0 then child0 t else child1 t) elem 1 rTableEntry0
     else rTableEntry0)"

section \<open>The table file\<close>

text \<open>
  The loop of \<open>parseRTable\<close>: four words, the last of which must be a number that an \<open>int\<close> holds;
  anything else ends the loop. An address that \<open>inet_aton\<close> does not accept leaves its variable
  unwritten.
\<close>

definition read_addr :: "string \<Rightarrow> u32 res" where
  "read_addr s = (case parse_addr s of None \<Rightarrow> Inl Uninitialised | Some a \<Rightarrow> Inr a)"

definition read_int :: "string \<Rightarrow> (int \<times> string) option" where
  "read_int s = (case scan_number s of None \<Rightarrow> None
     | Some (neg, v, r) \<Rightarrow>
         (let i = (if neg then - int v else int v)
          in if - (2 ^ 31) \<le> i \<and> i < 2 ^ 31 then Some (i, r) else None))"

definition read_words :: "string \<Rightarrow> (string \<times> string \<times> string \<times> int \<times> string) option" where
  "read_words s = (case scan_s s of None \<Rightarrow> None | Some (p, r) \<Rightarrow>
     (case scan_s r of None \<Rightarrow> None | Some (nh, r) \<Rightarrow>
     (case scan_s r of None \<Rightarrow> None | Some (m, r) \<Rightarrow>
     (case read_int r of None \<Rightarrow> None | Some (i, r) \<Rightarrow> Some (p, nh, m, i, r)))))"

lemma scan_s_progress: "scan_s s = Some (w, r) \<Longrightarrow> length r < length s"
proof -
  assume "scan_s s = Some (w, r)"
  then obtain c t where t: "dropWhile is_space s = c # t" "r = dropWhile (\<lambda>c. \<not> is_space c) (c # t)"
    by (cases "dropWhile is_space s") (auto simp: scan_s_def Let_def)
  have "\<not> is_space c"
    using t(1) by (metis dropWhile_eq_Cons_conv)
  then have "length r \<le> length t"
    using t(2) by (simp add: length_dropWhile_le)
  moreover have "length (c # t) \<le> length s"
    by (metis t(1) length_dropWhile_le)
  ultimately show ?thesis
    by simp
qed

lemma read_int_progress: "read_int s = Some (i, r) \<Longrightarrow> length r \<le> length s"
proof -
  assume "read_int s = Some (i, r)"
  then obtain neg v where "scan_number s = Some (neg, v, r)"
    by (auto simp: read_int_def Let_def split: option.splits if_splits)
  then show ?thesis
    using length_dropWhile_le [of is_space s]
    by (auto simp: scan_number_def Let_def split: list.splits if_splits
        intro: order_trans [OF length_dropWhile_le])
qed

lemma read_words_progress: "read_words s = Some (p, nh, m, i, r) \<Longrightarrow> length r < length s"
  by (auto simp: read_words_def split: option.splits dest!: scan_s_progress read_int_progress)

function parse_entries :: "string \<Rightarrow> trieNode \<Rightarrow> trieNode res" where
  "parse_entries s t = (case read_words s of
       None \<Rightarrow> Inr t
     | Some (p, nh, m, i, r) \<Rightarrow>
         rbind (read_addr p) (\<lambda>prefix.
         rbind (read_addr nh) (\<lambda>nextHop.
         rbind (read_addr m) (\<lambda>netm.
           parse_entries r (trie_insert (new_entry prefix nextHop (ntohl netm) i) t)))))"
  by pat_completeness auto

termination
  by (relation "measure (\<lambda>(s, t). length s)") (auto dest: read_words_progress)

declare parse_entries.simps [simp del]

text \<open>A file that cannot be opened is an empty one.\<close>

definition parseRTable :: "string option \<Rightarrow> trieNode res" where
  "parseRTable file = parse_entries (case file of None \<Rightarrow> [] | Some s \<Rightarrow> s) trie_root"

definition findBestEntry :: "trieNode \<Rightarrow> u32 \<Rightarrow> rTableEntry" where
  "findBestEntry t dest_ip = getPrefix t dest_ip"

end
