(* ===== verification/Trie_Props.thy ===== *)
theory Trie_Props
  imports Route_Trie
begin

text \<open>
  What the trie of the C++ router finds: the entry stored at each path after an insertion, the node
  the lookup ends at, that a route without more specific routes below it is found for each of its
  addresses when its mask ends at a byte, and for which tables and addresses the lookup goes wrong.
\<close>

section \<open>Paths\<close>

definition bits_from :: "nat \<Rightarrow> nat \<Rightarrow> u32 \<Rightarrow> bool list" where
  "bits_from i n w = map (bit w) [i..<i + n]"

lemma bits_from_simps [simp]:
  "bits_from i 0 w = []" "bits_from i (Suc n) w = bit w i # bits_from (Suc i) n w"
  "length (bits_from i n w) = n"
  by (simp_all add: bits_from_def upt_conv_Cons del: upt_Suc)

lemma bit_value [simp]: "drop_bit i w AND 1 = 0 \<longleftrightarrow> \<not> bit w i" for w :: u32
  by (simp add: bit_iff_odd_drop_bit and_one_eq even_iff_mod_2_eq_zero)

lemma bit_value_1 [simp]: "drop_bit i w AND 1 = 1 \<longleftrightarrow> bit w i" for w :: u32
  using bit_value [of i w] by (auto simp: and_one_eq mod_2_eq_odd)

lemma bits_from_eq: "bits_from 0 n v = bits_from 0 n w \<longleftrightarrow> take_bit n v = take_bit n w"
proof
  assume "bits_from 0 n v = bits_from 0 n w"
  then show "take_bit n v = take_bit n w"
    by (intro bit_word_eqI) (auto simp: bits_from_def bit_take_bit_iff)
next
  assume t: "take_bit n v = take_bit n w"
  have "bit v k = bit w k" if "k < n" for k
    using arg_cong [OF t, of "\<lambda>u. bit u k"] that by (simp add: bit_take_bit_iff)
  then show "bits_from 0 n v = bits_from 0 n w"
    by (simp add: bits_from_def)
qed

lemma take_bits_from: "k \<le> n \<Longrightarrow> take k (bits_from 0 n w) = bits_from 0 k w"
  by (simp add: bits_from_def take_map min_def)

fun node_at :: "bool list \<Rightarrow> trieNode option \<Rightarrow> trieNode option" where
  "node_at p None = None"
| "node_at [] (Some t) = Some t"
| "node_at (v # p) (Some t) = node_at p (if v then child1 t else child0 t)"

definition entry_at :: "bool list \<Rightarrow> trieNode \<Rightarrow> rTableEntry option" where
  "entry_at p t = map_option node_entry (node_at p (Some t))"

lemma entry_at_simps [simp]:
  "entry_at [] t = Some (node_entry t)"
  "entry_at (v # p) t = Option.bind (if v then child1 t else child0 t) (entry_at p)"
  by (simp_all add: entry_at_def split: Option.bind_split)

lemma entry_at_leaf: "entry_at p (TrieNode b e None None) = (if p = [] then Some e else None)"
  by (cases p) auto

lemma entry_at_set_entry: "entry_at p (set_entry e t) = (if p = [] then Some e else entry_at p t)"
  by (cases p) (auto simp: set_entry_def)

text \<open>Insertion stores the entry at its path, and creates the nodes on the way.\<close>

lemma entry_at_insert_from:
  "entry_at p (trie_insert_from e i n t) =
    (if n \<noteq> 0 \<and> p = bits_from i n (e_prefix e) then Some e
     else case entry_at p t of
       None \<Rightarrow> if take (length p) (bits_from i n (e_prefix e)) = p then Some rTableEntry0 else None
     | Some d \<Rightarrow> Some d)"
proof (induction n arbitrary: i t p)
  case 0
  then show ?case
    by (cases p) (auto split: option.split)
next
  case (Suc n)
  show ?case
  proof (cases p)
    case Nil
    then show ?thesis
      by (simp add: Let_def)
  next
    case (Cons v q)
    define c where "c = (if bit (e_prefix e) i then child1 t else child0 t)"
    define child where "child = (case c of
        None \<Rightarrow> TrieNode (drop_bit i (e_prefix e) AND 1) rTableEntry0 None None | Some c' \<Rightarrow> c')"
    show ?thesis
    proof (cases "v = bit (e_prefix e) i")
      case True
      have at: "entry_at p t = Option.bind c (entry_at q)"
        using True by (simp add: Cons c_def)
      have child: "entry_at q child = (case entry_at p t of
          None \<Rightarrow> if q = [] then Some rTableEntry0 else None | Some d \<Rightarrow> Some d)"
      proof (cases c)
        case None
        then show ?thesis
          by (simp add: at child_def entry_at_leaf)
      next
        case (Some c')
        then show ?thesis
          by (cases q) (simp_all add: at child_def split: option.split)
      qed
      have "entry_at p (trie_insert_from e i (Suc n) t) =
          entry_at q (trie_insert_from e (Suc i) n (if n = 0 then set_entry e child else child))"
        using True by (simp add: Cons Let_def child_def c_def)
      also have "\<dots> = (if q = bits_from (Suc i) n (e_prefix e) then Some e
          else case entry_at q child of
            None \<Rightarrow> if take (length q) (bits_from (Suc i) n (e_prefix e)) = q then Some rTableEntry0 else None
          | Some d \<Rightarrow> Some d)"
      proof (cases "n = 0")
        case True
        then show ?thesis
          by (simp add: entry_at_set_entry split: option.split)
      next
        case False
        then show ?thesis
          by (simp add: Suc.IH)
      qed
      also have "\<dots> = (if p = bits_from i (Suc n) (e_prefix e) then Some e
          else case entry_at p t of
            None \<Rightarrow> if take (length p) (bits_from i (Suc n) (e_prefix e)) = p then Some rTableEntry0 else None
          | Some d \<Rightarrow> Some d)"
        unfolding child using True by (simp add: Cons split: option.split)
      finally show ?thesis
        by simp
    next
      case False
      then have "entry_at p (trie_insert_from e i (Suc n) t) = entry_at p t"
        by (simp add: Cons Let_def)
      moreover have "take (length p) (bits_from i (Suc n) (e_prefix e)) \<noteq> p"
          "p \<noteq> bits_from i (Suc n) (e_prefix e)"
        using False by (simp_all add: Cons)
      ultimately show ?thesis
        by (simp split: option.split)
    qed
  qed
qed

definition path_of :: "rTableEntry \<Rightarrow> bool list" where
  "path_of e = bits_from 0 (e_maskLen e) (e_prefix e)"

lemma entry_at_insert:
  "entry_at p (trie_insert e t) =
    (if p \<noteq> [] \<and> p = path_of e then Some e
     else case entry_at p t of
       None \<Rightarrow> if take (length p) (path_of e) = p then Some rTableEntry0 else None
     | Some d \<Rightarrow> Some d)"
  unfolding trie_insert_def entry_at_insert_from path_of_def
  by (metis bits_from_simps(3) length_0_conv)

definition build_trie :: "rTableEntry list \<Rightarrow> trieNode" where
  "build_trie es = fold trie_insert es trie_root"

lemma build_trie_snoc: "build_trie (es @ [e]) = trie_insert e (build_trie es)"
  by (simp add: build_trie_def)

text \<open>Which paths have a node, and which entries are stored.\<close>

lemma build_trie_node:
  "p \<noteq> [] \<Longrightarrow> entry_at p (build_trie es) = None \<longleftrightarrow> (\<forall>e \<in> set es. take (length p) (path_of e) \<noteq> p)"
proof (induction es rule: rev_induct)
  case Nil
  then show ?case
    by (simp add: build_trie_def trie_root_def entry_at_leaf)
next
  case (snoc e es)
  then show ?case
    by (auto simp: build_trie_snoc entry_at_insert split: option.splits)
qed

lemma build_trie_entries:
  "entry_at p (build_trie es) = Some d \<Longrightarrow> d \<noteq> rTableEntry0 \<Longrightarrow> d \<in> set es \<and> path_of d = p"
proof (induction es rule: rev_induct)
  case Nil
  then show ?case
    by (auto simp: build_trie_def trie_root_def entry_at_leaf split: if_splits)
next
  case (snoc e es)
  then show ?case
    by (auto simp: build_trie_snoc entry_at_insert split: option.splits if_splits)
qed

lemma build_trie_stored:
  assumes "e \<in> set es" and "path_of e \<noteq> []" and "\<forall>e' \<in> set es. path_of e' = path_of e \<longrightarrow> e' = e"
  shows "entry_at (path_of e) (build_trie es) = Some e"
  using assms(1,3)
proof (induction es rule: rev_induct)
  case (snoc x es)
  then show ?case
    using assms(2) by (cases "path_of x = path_of e") (auto simp: build_trie_snoc entry_at_insert)
qed simp

section \<open>Looking up\<close>

text \<open>
  The lookup stops at the node \<open>s\<close> on the path of the address when \<open>s\<close> has no child for the next bit
  and, if this bit is 1, no other child either.
\<close>

definition stops_at :: "bool \<Rightarrow> trieNode \<Rightarrow> bool" where
  "stops_at v s \<longleftrightarrow> child0 s = None \<and> (v \<longrightarrow> child1 s = None)"

lemma trie_next_stops:
  assumes "node_at (bits_from pos n d) (Some t) = Some s" and "pos + n < 32"
    and "stops_at (bit d (pos + n)) s"
  shows "trie_next (Some t) d pos found = node_entry s"
  using assms
proof (induction n arbitrary: pos t found)
  case 0
  then show ?case
    by (cases t) (auto simp: stops_at_def Let_def)
next
  case (Suc n)
  define c where "c = (if bit d pos then child1 t else child0 t)"
  have c: "node_at (bits_from (Suc pos) n d) c = Some s"
    using Suc.prems(1) by (simp add: c_def)
  then obtain t' where t': "c = Some t'"
    by (cases c) auto
  have "trie_next (Some t) d pos found = trie_next c d (Suc pos) (node_entry t)"
    using Suc.prems(2) t' by (cases t) (auto simp: c_def)
  also have "\<dots> = node_entry s"
    unfolding t' by (rule Suc.IH) (use c t' Suc.prems(2,3) in auto)
  finally show ?case .
qed

lemma getPrefix_stops:
  assumes "node_at (bits_from 0 n d) (Some t) = Some s" and "0 < n" and "n < 32" and "d \<noteq> 0"
    and "stops_at (bit d n) s"
  shows "getPrefix t d = node_entry s"
proof -
  obtain m where m: "n = Suc m"
    using assms(2) gr0_implies_Suc by blast
  define c where "c = (if bit d 0 then child1 t else child0 t)"
  have c: "node_at (bits_from 1 m d) c = Some s"
    using assms(1) by (simp add: m c_def)
  then obtain t' where t': "c = Some t'"
    by (cases c) auto
  have "getPrefix t d = trie_next c d 1 rTableEntry0"
    using assms(4) bit_value [of 0 d] by (auto simp: getPrefix_def c_def word_gt_0)
  also have "\<dots> = node_entry s"
    unfolding t' by (rule trie_next_stops [of 1 m]) (use c t' assms(3,5) m in auto)
  finally show ?thesis .
qed

lemma node_at_snoc:
  "node_at p t = Some s \<Longrightarrow> node_at (p @ [v]) t = (if v then child1 s else child0 s)"
proof (induction p t rule: node_at.induct)
  case (2 t)
  then show ?case
    by (cases "if v then child1 t else child0 t") (auto split: if_splits)
qed auto

lemma finds_leaf:
  assumes "e \<in> set es" and "0 < e_maskLen e" and "e_maskLen e < 32" and "d \<noteq> 0"
    and "path_of e = bits_from 0 (e_maskLen e) d"
    and "\<forall>e' \<in> set es. take (e_maskLen e) (path_of e') = path_of e \<longrightarrow> e' = e"
  shows "getPrefix (build_trie es) d = e"
proof -
  let ?t = "build_trie es" and ?p = "path_of e"
  have p: "?p \<noteq> []" "length ?p = e_maskLen e"
    using assms(2) by (simp_all add: path_of_def) (metis bits_from_simps(3) length_0_conv neq0_conv)
  have "\<forall>e' \<in> set es. path_of e' = ?p \<longrightarrow> e' = e"
    using assms(6) p(2) by (metis order_refl take_all)
  then have "entry_at ?p ?t = Some e"
    using build_trie_stored [OF assms(1) p(1)] by blast
  then obtain leaf where leaf: "node_at ?p (Some ?t) = Some leaf" "node_entry leaf = e"
    by (auto simp: entry_at_def)
  have none: "(if v then child1 leaf else child0 leaf) = None" for v
  proof -
    have "take (length (?p @ [v])) (path_of e') \<noteq> ?p @ [v]" if "e' \<in> set es" for e'
    proof
      assume t: "take (length (?p @ [v])) (path_of e') = ?p @ [v]"
      have "take (e_maskLen e) (path_of e') = take (e_maskLen e) (take (length (?p @ [v])) (path_of e'))"
        using p(2) by (simp add: min_def)
      then have "take (e_maskLen e) (path_of e') = ?p"
        unfolding t using p(2) by simp
      then have "e' = e"
        using assms(6) that by blast
      with arg_cong [OF t, of length] p(2) show False
        by simp
    qed
    then have "entry_at (?p @ [v]) ?t = None"
      using build_trie_node [of "?p @ [v]" es] by blast
    then show ?thesis
      using node_at_snoc [OF leaf(1)] by (simp add: entry_at_def)
  qed
  have "getPrefix ?t d = node_entry leaf"
    using leaf(1) assms(2-5) none [of True] none [of False]
    by (intro getPrefix_stops [of "e_maskLen e"]) (simp_all add: stops_at_def)
  then show ?thesis
    by (simp add: leaf(2))
qed

text \<open>Whatever is found is a route of the table, or the empty entry.\<close>

lemma trie_next_in:
  assumes "\<And>p e. entry_at p t = Some e \<Longrightarrow> P e" and "P found"
  shows "P (trie_next (Some t) d pos found)"
  using assms
proof (induction "size t" arbitrary: t pos found rule: less_induct)
  case less
  obtain b e c0 c1 where t: "t = TrieNode b e c0 c1"
    by (cases t)
  have e: "P e"
    using less.prems(1) [of "[]"] by (simp add: t)
  have sub: "P (trie_next c d (Suc pos) e)" if "c = c0 \<or> c = c1" for c
  proof (cases c)
    case None
    then show ?thesis
      using e by simp
  next
    case (Some t')
    have "P x" if "entry_at p t' = Some x" for p x
      using less.prems(1) [of "True # p" x] less.prems(1) [of "False # p" x] that \<open>c = c0 \<or> c = c1\<close> Some
      by (auto simp: t)
    moreover have "size t' < size t"
      using that Some by (auto simp: t)
    ultimately show ?thesis
      unfolding Some using e by (intro less.hyps) auto
  qed
  show ?case
    using sub [of c0] sub [of c1] less.prems(2) by (auto simp: t Let_def)
qed

lemma getPrefix_in_table:
  assumes "getPrefix (build_trie es) d \<noteq> rTableEntry0"
  shows "getPrefix (build_trie es) d \<in> set es"
proof -
  let ?t = "build_trie es" and ?P = "\<lambda>e. e = rTableEntry0 \<or> e \<in> set es"
  let ?c = "if d AND 1 = 0 then child0 ?t else child1 ?t"
  have all: "?P e" if "entry_at p ?t = Some e" for p e
    using build_trie_entries [OF that] by blast
  have "?P (trie_next ?c d 1 rTableEntry0)"
  proof (cases ?c)
    case (Some t')
    have "?P e" if "entry_at p t' = Some e" for p e
      using all [of "(d AND 1 \<noteq> 0) # p" e] Some that by (auto split: if_splits)
    then show ?thesis
      unfolding Some by (rule trie_next_in) auto
  qed simp
  then show ?thesis
    using assms by (simp add: getPrefix_def split: if_splits)
qed

section \<open>Routes with masks that end at a byte\<close>

text \<open>In network byte order such a mask covers the lowest bits of the word.\<close>

definition byte_mask :: "nat \<Rightarrow> bool" where
  "byte_mask k \<longleftrightarrow> k = 8 \<or> k = 16 \<or> k = 24"

lemma netmask_low: "byte_mask k \<Longrightarrow> netmask k = mask k"
proof -
  have "netmask 8 = mask 8" "netmask 16 = mask 16" "netmask 24 = mask 24"
    by code_simp+
  then show "byte_mask k \<Longrightarrow> netmask k = mask k"
    by (auto simp: byte_mask_def)
qed

lemma byte_mask_bits:
  "byte_mask k \<Longrightarrow> v AND netmask k = w AND netmask k \<longleftrightarrow> bits_from 0 k v = bits_from 0 k w"
  by (simp add: netmask_low bits_from_eq take_bit_eq_mask)

text \<open>\<open>getMaskLength\<close> of such a mask in host byte order is its length.\<close>

lemma getMaskLength_netmask: "byte_mask k \<Longrightarrow> getMaskLength (htonl (netmask k)) = k"
proof -
  have "getMaskLength (htonl (netmask 8)) = 8" "getMaskLength (htonl (netmask 16)) = 16"
    "getMaskLength (htonl (netmask 24)) = 24"
    by code_simp+
  then show "byte_mask k \<Longrightarrow> getMaskLength (htonl (netmask k)) = k"
    by (auto simp: byte_mask_def)
qed

lemma trie_finds:
  assumes "e \<in> set es" and "byte_mask (e_maskLen e)" and "d \<noteq> 0"
    and "d AND netmask (e_maskLen e) = e_prefix e AND netmask (e_maskLen e)"
    and "\<forall>e' \<in> set es. e_maskLen e \<le> e_maskLen e' \<and>
      e_prefix e' AND netmask (e_maskLen e) = e_prefix e AND netmask (e_maskLen e) \<longrightarrow> e' = e"
  shows "findBestEntry (build_trie es) d = e"
  unfolding findBestEntry_def
proof (rule finds_leaf [OF assms(1)])
  let ?k = "e_maskLen e"
  show "0 < ?k" "?k < 32"
    using assms(2) by (auto simp: byte_mask_def)
  show "path_of e = bits_from 0 ?k d"
    using assms(4) byte_mask_bits [OF assms(2)] by (simp add: path_of_def)
  show "\<forall>e' \<in> set es. take ?k (path_of e') = path_of e \<longrightarrow> e' = e"
  proof (intro ballI impI)
    fix e'
    assume e': "e' \<in> set es" "take ?k (path_of e') = path_of e"
    have le: "?k \<le> e_maskLen e'"
      using arg_cong [OF e'(2), of length] by (simp add: path_of_def)
    then have "bits_from 0 ?k (e_prefix e') = bits_from 0 ?k (e_prefix e)"
      using e'(2) by (simp add: path_of_def take_bits_from)
    with assms(5) e'(1) le byte_mask_bits [OF assms(2)] show "e' = e"
      by blast
  qed
qed (fact assms(3))

text \<open>
  C18. The lookup of the C++ router finds a route for each of its addresses: for every table, if the mask
  of the route ends at a byte and no other route of the table lies inside it, then the trie built
  from the table returns this route for every address (other than 0.0.0.0) that it matches.
\<close>

theorem trie_finds_route:
  assumes "e \<in> set es" and "byte_mask (e_maskLen e)" and "d \<noteq> 0"
    and "d AND netmask (e_maskLen e) = e_prefix e AND netmask (e_maskLen e)"
    and "\<forall>e' \<in> set es. e_maskLen e \<le> e_maskLen e' \<and>
      e_prefix e' AND netmask (e_maskLen e) = e_prefix e AND netmask (e_maskLen e) \<longrightarrow> e' = e"
  shows "findBestEntry (fold trie_insert es trie_root) d = e"
  using trie_finds [OF assms] by (simp add: build_trie_def)

definition route_10_1 :: rTableEntry where
  "route_10_1 = new_entry 0x0000010A 7 0xFFFF0000 1"

definition route_10_2_3 :: rTableEntry where
  "route_10_2_3 = new_entry 0x0003020A 8 0xFFFFFF00 2"

theorem trie_finds_route_witness:
  "findBestEntry (fold trie_insert [route_10_1, route_10_2_3] trie_root) 0x0503010A = route_10_1"
proof (rule trie_finds_route)
  have len: "e_maskLen route_10_1 = 16" "e_maskLen route_10_2_3 = 24" "netmask 16 = 0xFFFF"
    by code_simp+
  show "byte_mask (e_maskLen route_10_1)"
    by (simp add: len byte_mask_def)
  show "0x0503010A AND netmask (e_maskLen route_10_1) = e_prefix route_10_1 AND netmask (e_maskLen route_10_1)"
    by code_simp
  show "\<forall>e' \<in> set [route_10_1, route_10_2_3]. e_maskLen route_10_1 \<le> e_maskLen e' \<and>
      e_prefix e' AND netmask (e_maskLen route_10_1) = e_prefix route_10_1 AND netmask (e_maskLen route_10_1)
      \<longrightarrow> e' = route_10_1"
    unfolding len by (simp add: route_10_1_def route_10_2_3_def new_entry_def)
qed simp_all

section \<open>Where the lookup goes wrong\<close>

text \<open>A trie that holds one route is a chain; a bit 0 of the route is also taken for a bit 1.\<close>

lemma trie_next_chain:
  "i + n < 32 \<Longrightarrow>
    trie_next (Some (trie_insert_from e i n (TrieNode b (if n = 0 then e else rTableEntry0) None None))) d i f =
      (if \<forall>j. i \<le> j \<and> j < i + n \<longrightarrow> bit (e_prefix e) j \<longrightarrow> bit d j then e else rTableEntry0)"
proof (induction n arbitrary: i b f)
  case 0
  then show ?case
    by auto
next
  case (Suc n)
  let ?w = "drop_bit i (e_prefix e) AND 1"
  let ?c = "trie_insert_from e (Suc i) n (TrieNode ?w (if n = 0 then e else rTableEntry0) None None)"
  have here: "trie_next (Some (trie_insert_from e i (Suc n) (TrieNode b rTableEntry0 None None))) d i f =
      (if bit (e_prefix e) i \<and> \<not> bit d i then rTableEntry0 else trie_next (Some ?c) d (Suc i) rTableEntry0)"
    using Suc.prems by (simp add: Let_def set_entry_def)
  have "(\<forall>j. i \<le> j \<and> j < i + Suc n \<longrightarrow> bit (e_prefix e) j \<longrightarrow> bit d j) \<longleftrightarrow>
      (bit (e_prefix e) i \<longrightarrow> bit d i) \<and>
      (\<forall>j. Suc i \<le> j \<and> j < Suc i + n \<longrightarrow> bit (e_prefix e) j \<longrightarrow> bit d j)"
    by (metis Suc_le_eq add_Suc_right add_Suc_shift le_eq_less_or_eq less_add_Suc1)
  then show ?case
    using Suc.IH [of "Suc i" ?w rTableEntry0] Suc.prems here
    by (simp del: trie_insert_from.simps) blast
qed

lemma single_route:
  assumes "d \<noteq> 0" and "e_maskLen e < 32"
  shows "findBestEntry (build_trie [e]) d =
    (if 0 < e_maskLen e \<and> bit d 0 = bit (e_prefix e) 0 \<and>
        (\<forall>i < e_maskLen e. bit (e_prefix e) i \<longrightarrow> bit d i) then e else rTableEntry0)"
proof (cases "e_maskLen e")
  case 0
  then show ?thesis
    by (simp add: findBestEntry_def getPrefix_def build_trie_def trie_insert_def trie_root_def)
next
  case (Suc n)
  let ?w = "drop_bit 0 (e_prefix e) AND 1"
  let ?c = "trie_insert_from e 1 n (TrieNode ?w (if n = 0 then e else rTableEntry0) None None)"
  have t: "findBestEntry (build_trie [e]) d =
      (if bit d 0 = bit (e_prefix e) 0 then trie_next (Some ?c) d 1 rTableEntry0 else rTableEntry0)"
    using assms(1) Suc bit_value [of 0 d] bit_value [of 0 "e_prefix e"]
    by (simp add: findBestEntry_def getPrefix_def build_trie_def trie_insert_def trie_root_def Let_def
        set_entry_def word_gt_0)
  have "(\<forall>i < Suc n. bit (e_prefix e) i \<longrightarrow> bit d i) \<longleftrightarrow>
      (bit (e_prefix e) 0 \<longrightarrow> bit d 0) \<and> (\<forall>j. 1 \<le> j \<and> j < 1 + n \<longrightarrow> bit (e_prefix e) j \<longrightarrow> bit d j)"
    by (metis One_nat_def Suc_le_eq not_gr_zero plus_1_eq_Suc zero_less_Suc)
  then show ?thesis
    unfolding t using trie_next_chain [of 1 n e ?w d rTableEntry0] assms(2) Suc by auto
qed

text \<open>An inner node without a route hides the shorter routes above it.\<close>

lemma hidden_routes:
  assumes "d \<noteq> 0" and "e \<in> set es" and "0 < k" and "k < e_maskLen e" and "e_maskLen e < 32"
    and "\<forall>i < k. bit d i = bit (e_prefix e) i" and "\<not> bit d k"
    and "\<forall>e' \<in> set es. k \<le> e_maskLen e' \<and> (\<forall>i < k. bit d i = bit (e_prefix e') i) \<longrightarrow>
      k < e_maskLen e' \<and> bit (e_prefix e') k"
  shows "findBestEntry (build_trie es) d = rTableEntry0"
proof -
  let ?t = "build_trie es" and ?p = "bits_from 0 k d"
  have p: "?p \<noteq> []" "length ?p = k"
    using assms(3) by (simp_all add: bits_from_def)
  have agree: "k \<le> e_maskLen e' \<and> (\<forall>i < k. bit d i = bit (e_prefix e') i)"
    if "take k (path_of e') = ?p" for e'
  proof -
    have k: "k \<le> e_maskLen e'"
      using arg_cong [OF that, of length] by (simp add: path_of_def)
    then have "bits_from 0 k (e_prefix e') = ?p"
      using that by (simp add: path_of_def take_bits_from)
    with k show ?thesis
      by (simp add: bits_from_def)
  qed
  have "take (length ?p) (path_of e) = ?p"
    using assms(4,6) p(2) by (simp add: path_of_def take_bits_from) (simp add: bits_from_def)
  then have "entry_at ?p ?t \<noteq> None"
    using build_trie_node [OF p(1)] assms(2) by blast
  then obtain s where s: "node_at ?p (Some ?t) = Some s" "entry_at ?p ?t = Some (node_entry s)"
    by (auto simp: entry_at_def)
  have "node_entry s = rTableEntry0"
  proof (rule ccontr)
    assume "node_entry s \<noteq> rTableEntry0"
    with build_trie_entries [OF s(2)] have e': "node_entry s \<in> set es" "path_of (node_entry s) = ?p"
      by blast+
    then have "e_maskLen (node_entry s) = k"
      using p(2) by (metis bits_from_simps(3) path_of_def)
    moreover have "k < e_maskLen (node_entry s)"
      using agree [of "node_entry s"] assms(8) e' by simp
    ultimately show False
      by simp
  qed
  moreover have "child0 s = None"
  proof -
    have "take (length (?p @ [False])) (path_of e') \<noteq> ?p @ [False]" if "e' \<in> set es" for e'
    proof
      assume t: "take (length (?p @ [False])) (path_of e') = ?p @ [False]"
      have "take k (path_of e') = take k (take (length (?p @ [False])) (path_of e'))"
        using p(2) by (simp add: min_def)
      also have "\<dots> = ?p"
        unfolding t using p(2) by simp
      finally have e': "k < e_maskLen e'" "bit (e_prefix e') k"
        using agree assms(8) that by blast+
      then have "take (length (?p @ [False])) (path_of e') ! k = bit (e_prefix e') k"
        using p(2) by (simp add: path_of_def bits_from_def del: upt_Suc)
      with t e'(2) p(2) show False
        by (simp add: nth_append)
    qed
    then have "entry_at (?p @ [False]) ?t = None"
      using build_trie_node [of "?p @ [False]" es] by blast
    then show ?thesis
      using node_at_snoc [OF s(1)] by (simp add: entry_at_def)
  qed
  ultimately show ?thesis
    unfolding findBestEntry_def
    using getPrefix_stops [OF s(1) assms(3) _ assms(1)] assms(4,5,7) by (simp add: stops_at_def)
qed

text \<open>
  C37. Where the lookup of the C++ router goes wrong, for every address other than 0.0.0.0. In a table
  with a single route, it finds the route exactly for the addresses that have the first bit of the
  route (in the order of the trie) and a 1 wherever the prefix has a 1: a 0 of the prefix is also
  taken for a 1, so addresses outside the route are given to it, and a default route is never found.
  In any table, let some route begin with the first \<open>k\<close> bits of the address; if each route
  that does is longer and goes on with a 1 where the address has a 0, then nothing is found, whatever shorter
  routes match the address.
\<close>

theorem trie_lookup_wrong:
  assumes "d \<noteq> 0"
  shows "(\<forall>e. e_maskLen e < 32 \<longrightarrow> findBestEntry (fold trie_insert [e] trie_root) d =
      (if 0 < e_maskLen e \<and> bit d 0 = bit (e_prefix e) 0 \<and>
          (\<forall>i < e_maskLen e. bit (e_prefix e) i \<longrightarrow> bit d i) then e else rTableEntry0)) \<and>
    (\<forall>es e k. e \<in> set es \<and> 0 < k \<and> k < e_maskLen e \<and> e_maskLen e < 32 \<and>
      (\<forall>i < k. bit d i = bit (e_prefix e) i) \<and> \<not> bit d k \<and>
      (\<forall>e' \<in> set es. k \<le> e_maskLen e' \<and> (\<forall>i < k. bit d i = bit (e_prefix e') i) \<longrightarrow>
        k < e_maskLen e' \<and> bit (e_prefix e') k) \<longrightarrow>
      findBestEntry (fold trie_insert es trie_root) d = rTableEntry0)"
  using single_route [OF assms] hidden_routes [OF assms] unfolding build_trie_def by blast

text \<open>
  10.0.0.0/24 alone gets 10.0.1.5; with 10.0.0.0/8 and 10.1.2.0/24, no route is found for 10.1.0.4.
\<close>

theorem trie_lookup_wrong_witness:
  "(let e = new_entry 0x0000000A 7 0xFFFFFF00 1
    in findBestEntry (fold trie_insert [e] trie_root) 0x0501000A = e \<and> 0x0501000A AND netmask 24 \<noteq> e_prefix e) \<and>
   (let e = new_entry 0x0000000A 7 0xFF000000 1; e' = new_entry 0x0002010A 8 0xFFFFFF00 2
    in findBestEntry (fold trie_insert [e, e'] trie_root) 0x0400010A = rTableEntry0 \<and>
      0x0400010A AND netmask 8 = e_prefix e)"
proof -
  let ?e = "new_entry 0x0000000A 7 0xFFFFFF00 1"
  let ?f = "new_entry 0x0000000A 7 0xFF000000 1" and ?f' = "new_entry 0x0002010A 8 0xFFFFFF00 2"
  have bits: "(\<forall>i < n. Q i) \<longleftrightarrow> (\<forall>i \<in> set [0..<n]. Q i)" for n :: nat and Q
    by auto
  have len: "e_maskLen ?e = 24" "e_maskLen ?f = 8" "e_maskLen ?f' = 24"
    by code_simp+
  have "bit (0x0501000A :: u32) 0 = bit (e_prefix ?e) 0"
    "\<forall>i \<in> set [0..<24]. bit (e_prefix ?e) i \<longrightarrow> bit (0x0501000A :: u32) i"
    by code_simp+
  then have 1: "findBestEntry (fold trie_insert [?e] trie_root) 0x0501000A = ?e"
    using trie_lookup_wrong [of "0x0501000A", THEN conjunct1, rule_format, of ?e] unfolding len bits
    by (simp only: simp_thms) simp
  have at17: "\<forall>i < 17. bit (0x0400010A :: u32) i = bit (e_prefix ?f') i"
    unfolding bits by code_simp
  have next17: "\<not> bit (0x0400010A :: u32) 17" "bit (e_prefix ?f') 17"
    by code_simp+
  have 2: "findBestEntry (fold trie_insert [?f, ?f'] trie_root) 0x0400010A = rTableEntry0"
    by (rule trie_lookup_wrong [of "0x0400010A", THEN conjunct2, rule_format, of ?f' _ 17])
      (use at17 next17 len in simp_all)
  have "(0x0501000A :: u32) AND netmask 24 \<noteq> e_prefix ?e" "(0x0400010A :: u32) AND netmask 8 = e_prefix ?f"
    by code_simp+
  with 1 2 show ?thesis
    unfolding Let_def by blast
qed

end
