(* ===== verification/Cpp_Router.thy ===== *)
theory Cpp_Router
  imports Trie_Props "HOL-Library.AList"
begin

text \<open>
  The C++ router, \<open>pc pirvu/router.cpp\<close>, with the interface functions of its \<open>skel.c\<close>. The frame layout,
  the checksum, \<open>socket_receive_message\<close>, \<open>get_packet\<close>, \<open>get_interface_ip\<close>, \<open>get_sock\<close>, \<open>init\<close> and
  \<open>hwaddr_aton\<close> are the same text as those of the other routers.

  The state is what \<open>main\<close> keeps: the trie, the ARP table (an \<open>unordered_map\<close>: an association list with
  one entry per key), the queue (a \<open>std::queue\<close> of packets by value: a list, oldest first), and the
  packet \<open>m\<close>. A packet that is allocated for sending has unwritten contents, the argument \<open>raw\<close>; at
  most one is allocated per iteration.
\<close>

record cpp_router =
  cr_interfaces :: "int list"
  cr_trie :: trieNode
  arpTable :: "(u32 \<times> arp_entry) list"
  cr_queue :: "packet list"
  cr_buf :: packet

text \<open>The constructor \<open>ARPEntry()\<close>, and the access \<open>arpTable[a]\<close>, which creates it.\<close>

definition ARPEntry0 :: arp_entry where
  "ARPEntry0 = \<lparr>ip = 0, mac = replicate 6 0\<rparr>"

definition arp_access :: "u32 \<Rightarrow> (u32 \<times> arp_entry) list \<Rightarrow> arp_entry \<times> (u32 \<times> arp_entry) list" where
  "arp_access a tab = (case map_of tab a of
       Some e \<Rightarrow> (e, tab)
     | None \<Rightarrow> (ARPEntry0, AList.update a ARPEntry0 tab))"

section \<open>The interfaces\<close>

definition cpp_send_packet :: "net_env \<Rightarrow> int list \<Rightarrow> int \<Rightarrow> packet \<Rightarrow> frame res" where
  "cpp_send_packet env interfaces sockfd m =
    rbind (static_send_packet interfaces sockfd m) (\<lambda>f.
      if write_fails env sockfd (snd f) then Inl (Exit 1) else Inr f)"

definition cpp_interface_mac :: "net_env \<Rightarrow> int list \<Rightarrow> int \<Rightarrow> u8 list res" where
  "cpp_interface_mac env interfaces interface =
    (if interface < 0 \<or> int (length interfaces) \<le> interface then Inl Out_Of_Bounds
     else Inr (take 6 (ioctl_hwaddr env (''r-'' @ show_nat (unat (of_int interface :: u32))))))"

section \<open>Frames\<close>

definition sendARPReply :: "net_env \<Rightarrow> int list \<Rightarrow> u8 list \<Rightarrow> packet \<Rightarrow> u8 list \<Rightarrow> frame res" where
  "sendARPReply env interfaces raw arpRequest newMac =
    (let b = payload arpRequest;
         b1 = write_at 0 (block 6 6 b) raw;
         b2 = write_at 6 newMac b1;
         b3 = write_at 12 (block 12 2 b) b2;
         b4 = write_at 14 (block 14 28 b) b3;
         b5 = store16 20 (htons 2) b4;
         b6 = write_at 38 (block 28 4 b) b5;
         b7 = write_at 32 (block 22 6 b) b6;
         b8 = write_at 28 (block 38 4 b) b7;
         b9 = write_at 22 newMac b8
     in cpp_send_packet env interfaces (pkt_interface arpRequest)
          \<lparr>pkt_len = pkt_len arpRequest, payload = b9, pkt_interface = pkt_interface arpRequest\<rparr>)"

definition sendARPRequest :: "net_env \<Rightarrow> int list \<Rightarrow> u8 list \<Rightarrow> rTableEntry \<Rightarrow> u32 \<Rightarrow> frame res" where
  "sendARPRequest env interfaces raw e dest =
    (let b1 = store16 12 (htons ETHERTYPE_ARP) raw;
         b2 = write_at 0 (snd (hwaddr_aton ''ff:ff:ff:ff:ff:ff'')) b1
     in rbind (cpp_interface_mac env interfaces (e_interface e)) (\<lambda>hw.
        let b3 = write_at 6 hw b2;
            b4 = store16 14 (htons 1) b3;
            b5 = store16 16 (htons 0x0800) b4;
            b6 = b5[19 := 4, 18 := 6];
            b7 = store16 20 (htons 1) b6
        in rbind (static_interface_ip env interfaces (e_interface e)) (\<lambda>s.
           rbind (inet_aton s) (\<lambda>sourceIp.
           let b8 = store32 28 sourceIp b7;
               b9 = write_at 22 hw b8;
               b10 = store32 38 dest b9;
               b11 = write_at 32 (snd (hwaddr_aton ''00:00:00:00:00:00'')) b10
           in cpp_send_packet env interfaces (e_interface e)
                \<lparr>pkt_len = 42, payload = b11, pkt_interface = e_interface e\<rparr>))))"

text \<open>
  The echo reply is made in the received packet. The buffers are aligned to 4 and their payload starts
  at offset 4, so the two headers are at addresses 2 modulo 4. The ICMP checksum is computed over the
  8 bytes of the header.
\<close>

definition echo_reply_bytes :: "u8 list \<Rightarrow> u8 list" where
  "echo_reply_bytes b =
    (let b1 = b[34 := 0, 35 := 0];
         b2 = store32 26 (load32 30 b) (store32 30 (load32 26 b) b1);
         b3 = b2[22 := 64];
         b4 = store16 24 0 b3;
         b5 = store16 24 (ip_checksum 2 (block 14 20 b4)) b4;
         b6 = store16 36 0 b5
     in store16 36 (ip_checksum 2 (block 34 8 b6)) b6)"

definition sendICMPReply :: "net_env \<Rightarrow> int list \<Rightarrow> packet \<Rightarrow> (packet \<times> frame) res" where
  "sendICMPReply env interfaces m =
    (let m' = m\<lparr>payload := echo_reply_bytes (payload m)\<rparr>
     in rbind (cpp_send_packet env interfaces (pkt_interface m) m') (\<lambda>f. Inr (m', f)))"

definition icmp_scratch_ip :: "int \<Rightarrow> u32 \<Rightarrow> u32 \<Rightarrow> iphdr" where
  "icmp_scratch_ip p src dst =
    (let h = \<lparr>version = 4, ihl = 5, tos = 0, tot_len = htons (42 - 14), ip_id = htons (of_int p),
           frag_off = 0, ttl = 64, protocol = 1, check = 0, saddr = src, daddr = dst\<rparr>
     in h\<lparr>check := ip_checksum 2 (iphdr_bytes h)\<rparr>)"

definition icmp_scratch_hdr :: "int \<Rightarrow> u8 \<Rightarrow> u8 \<Rightarrow> icmphdr" where
  "icmp_scratch_hdr p ty code =
    (let h = \<lparr>icmp_type = ty, icmp_code = code, checksum = 0, echo_id = htons (of_int p),
           echo_sequence = 0\<rparr>
     in h\<lparr>checksum := ip_checksum 2 (icmphdr_bytes h)\<rparr>)"

definition sendICMPscratch :: "net_env \<Rightarrow> int list \<Rightarrow> u8 list \<Rightarrow> packet \<Rightarrow> u8 \<Rightarrow> u8 \<Rightarrow> frame res" where
  "sendICMPscratch env interfaces raw m ty code =
    (let b = payload m; h = ip_hdr b;
         eth = \<lparr>ether_dhost = block 6 6 b, ether_shost = block 0 6 b, ether_type = htons ETHERTYPE_IP\<rparr>;
         b1 = write_at 0 (ether_bytes eth) raw;
         b2 = write_at 14 (iphdr_bytes (icmp_scratch_ip (pid env) (daddr h) (saddr h))) b1;
         b3 = write_at 34 (icmphdr_bytes (icmp_scratch_hdr (pid env) ty code)) b2
     in cpp_send_packet env interfaces (pkt_interface m)
          \<lparr>pkt_len = 42, payload = b3, pkt_interface = pkt_interface m\<rparr>)"

section \<open>The loop body\<close>

definition cpp_arp_request ::
  "net_env \<Rightarrow> u8 list \<Rightarrow> u32 \<Rightarrow> cpp_router \<Rightarrow> (cpp_router \<times> frame list) res" where
  "cpp_arp_request env raw routerIp st =
    (let m = cr_buf st; incomingIp = load32 38 (payload m)
     in if routerIp = incomingIp then
          rbind (cpp_interface_mac env (cr_interfaces st) (pkt_interface m)) (\<lambda>newMac.
          rbind (sendARPReply env (cr_interfaces st) raw m newMac) (\<lambda>f. Inr (st, [f])))
        else case map_of (arpTable st) incomingIp of
          None \<Rightarrow> Inr (st, [])
        | Some e \<Rightarrow> rbind (sendARPReply env (cr_interfaces st) raw m (mac e)) (\<lambda>f. Inr (st, [f])))"

text \<open>One packet of the queue, and all of them.\<close>

definition cpp_flush_packet ::
  "net_env \<Rightarrow> int list \<Rightarrow> trieNode \<Rightarrow> (u32 \<times> arp_entry) list \<Rightarrow> packet \<Rightarrow>
    (frame \<times> (u32 \<times> arp_entry) list) res" where
  "cpp_flush_packet env interfaces t tab p =
    (let b = update_ip (payload p); dest = daddr (ip_hdr b); (e, tab') = arp_access dest tab
     in rbind (cpp_send_packet env interfaces (e_interface (findBestEntry t dest))
          (p\<lparr>payload := write_at 0 (mac e) b\<rparr>)) (\<lambda>f. Inr (f, tab')))"

fun cpp_flush ::
  "net_env \<Rightarrow> int list \<Rightarrow> trieNode \<Rightarrow> (u32 \<times> arp_entry) list \<Rightarrow> packet list \<Rightarrow>
    (frame list \<times> (u32 \<times> arp_entry) list) res" where
  "cpp_flush env interfaces t tab [] = Inr ([], tab)"
| "cpp_flush env interfaces t tab (p # q) =
     rbind (cpp_flush_packet env interfaces t tab p) (\<lambda>(f, tab').
     rbind (cpp_flush env interfaces t tab' q) (\<lambda>(fs, tab''). Inr (f # fs, tab'')))"

definition cpp_arp_reply :: "net_env \<Rightarrow> cpp_router \<Rightarrow> (cpp_router \<times> frame list) res" where
  "cpp_arp_reply env st =
    (let b = payload (cr_buf st); a = load32 28 b;
         tab = AList.update a \<lparr>ip = a, mac = block 22 6 b\<rparr> (arpTable st)
     in rbind (cpp_flush env (cr_interfaces st) (cr_trie st) tab (cr_queue st)) (\<lambda>(fs, tab').
        Inr (st\<lparr>arpTable := tab', cr_queue := []\<rparr>, fs)))"

text \<open>The last part of the IP branch: asking for the destination, or forwarding.\<close>

definition cpp_forward ::
  "net_env \<Rightarrow> u8 list \<Rightarrow> rTableEntry \<Rightarrow> cpp_router \<Rightarrow> (cpp_router \<times> frame list) res" where
  "cpp_forward env raw bestMatch st =
    (let b = payload (cr_buf st); dest = daddr (ip_hdr b)
     in case map_of (arpTable st) dest of
          None \<Rightarrow>
            rbind (sendARPRequest env (cr_interfaces st) raw bestMatch dest) (\<lambda>f.
              Inr (st\<lparr>arpTable := AList.update dest ARPEntry0 (arpTable st),
                cr_queue := cr_queue st @ [cr_buf st]\<rparr>, [f]))
        | Some e \<Rightarrow>
            let m = (cr_buf st)\<lparr>payload := write_at 0 (mac e) (update_ip b)\<rparr>
            in rbind (cpp_send_packet env (cr_interfaces st) (e_interface bestMatch) m) (\<lambda>f.
              Inr (st\<lparr>cr_buf := m\<rparr>, [f])))"

definition cpp_ipv4 :: "net_env \<Rightarrow> u8 list \<Rightarrow> u32 \<Rightarrow> cpp_router \<Rightarrow> (cpp_router \<times> frame list) res" where
  "cpp_ipv4 env raw routerIp st =
    (let h = ip_hdr (payload (cr_buf st));
         bestMatch = findBestEntry (cr_trie st) (daddr h);
         oldChecksum = check h;
         b = store16 24 0 (payload (cr_buf st));
         st = st\<lparr>cr_buf := (cr_buf st)\<lparr>payload := b\<rparr>\<rparr>;
         m = cr_buf st
     in if ip_checksum 2 (block 14 20 b) \<noteq> oldChecksum then Inr (st, [])
        else if ttl h < 1 then Inr (st, [])
        else if ttl h = 1 then
          rbind (sendICMPscratch env (cr_interfaces st) raw m 11 0) (\<lambda>f. Inr (st, [f]))
        else if e_prefix bestMatch = 0 then
          rbind (sendICMPscratch env (cr_interfaces st) raw m 3 0) (\<lambda>f. Inr (st, [f]))
        else if protocol h = 1 \<and> b ! 34 = 8 \<and> routerIp = daddr h then
          rbind (sendICMPReply env (cr_interfaces st) m) (\<lambda>(m', f). Inr (st\<lparr>cr_buf := m'\<rparr>, [f]))
        else cpp_forward env raw bestMatch st)"

definition cpp_step :: "net_env \<Rightarrow> u8 list \<Rightarrow> cpp_router \<Rightarrow> (cpp_router \<times> frame list) res" where
  "cpp_step env raw st =
    rbind (static_interface_ip env (cr_interfaces st) (pkt_interface (cr_buf st))) (\<lambda>s.
    rbind (inet_aton s) (\<lambda>routerIp.
    let b = payload (cr_buf st); ty = ntohs (ether_type (ether_of b)); op = ntohs (load16 20 b)
    in if ty = ETHERTYPE_ARP then
         (if op = 1 then cpp_arp_request env raw routerIp st
          else if op = 2 then cpp_arp_reply env st
          else Inr (st, []))
       else if ty = ETHERTYPE_IP then cpp_ipv4 env raw routerIp st
       else Inr (st, [])))"

section \<open>The loop and \<open>main\<close>\<close>

text \<open>One element of the list per iteration: what \<open>select\<close> reports and the contents of fresh memory.\<close>

function cpp_run ::
  "net_env \<Rightarrow> u8 list list \<Rightarrow> cpp_router \<Rightarrow> readable list list \<Rightarrow> frame list \<Rightarrow>
    (cpp_router \<times> frame list) res" where
  "cpp_run env raws st sels out =
    (case static_get_packet sels (cr_buf st) of
       Inl e \<Rightarrow> Inl e
     | Inr None \<Rightarrow> Inr (st, out)
     | Inr (Some (p, sels')) \<Rightarrow>
         (let (raw, raws') = (case raws of [] \<Rightarrow> (replicate MAX_LEN 0, []) | r # rs \<Rightarrow> (r, rs))
          in rbind (cpp_step env raw (st\<lparr>cr_buf := p\<rparr>)) (\<lambda>(st', out').
               cpp_run env raws' st' sels' (out @ out'))))"
  by pat_completeness auto

termination
  by (relation "measure (\<lambda>(env, raws, st, sels, out). length sels)")
    (auto dest: static_get_packet_progress)

declare cpp_run.simps [simp del]

definition cpp_main ::
  "net_env \<Rightarrow> (string \<Rightarrow> int option) \<Rightarrow> string option \<Rightarrow> packet \<Rightarrow> u8 list list \<Rightarrow> readable list list \<Rightarrow>
    (cpp_router \<times> frame list) res" where
  "cpp_main env open_socket file m0 raws sels =
    rbind (parseRTable file) (\<lambda>t.
    rbind (static_init open_socket) (\<lambda>socks.
      cpp_run env raws
        \<lparr>cr_interfaces = socks, cr_trie = t, arpTable = [], cr_queue = [], cr_buf = m0\<rparr> sels []))"

end
