(* ===== verification/Cpp_Props.thy ===== *)
theory Cpp_Props
  imports Cpp_Router Router_Props
begin

text \<open>
  What the C++ router does: its invariant, that no iteration fails, and the frames it sends on each
  branch. As in the other routers the receive buffer keeps its 1600 bytes, and a
  fresh packet has 1600 unwritten ones.
\<close>

section \<open>The invariant\<close>

definition cpp_pkt_ok :: "packet \<Rightarrow> bool" where
  "cpp_pkt_ok p \<longleftrightarrow> length (payload p) = MAX_LEN \<and> 0 \<le> pkt_len p \<and> pkt_len p \<le> int MAX_LEN \<and>
    0 \<le> pkt_interface p \<and> pkt_interface p < 4"

definition trie_ok :: "trieNode \<Rightarrow> bool" where
  "trie_ok t \<longleftrightarrow> (\<forall>d. 0 \<le> e_interface (findBestEntry t d) \<and> e_interface (findBestEntry t d) < 4)"

text \<open>A queued packet has been asked for: its destination has an entry in the ARP table.\<close>

definition asked_for :: "(u32 \<times> arp_entry) list \<Rightarrow> packet \<Rightarrow> bool" where
  "asked_for tab p \<longleftrightarrow> map_of tab (daddr (ip_hdr (payload p))) \<noteq> None"

definition cpp_ok :: "cpp_router \<Rightarrow> bool" where
  "cpp_ok st \<longleftrightarrow> length (cr_interfaces st) = 4 \<and> trie_ok (cr_trie st) \<and> cpp_pkt_ok (cr_buf st) \<and>
    (\<forall>p \<in> set (cr_queue st). cpp_pkt_ok p \<and> asked_for (arpTable st) p) \<and>
    (\<forall>e \<in> snd ` set (arpTable st). length (mac e) = 6) \<and> distinct (map fst (arpTable st))"

lemma cpp_okD:
  assumes "cpp_ok st"
  shows "length (cr_interfaces st) = 4" "trie_ok (cr_trie st)" "cpp_pkt_ok (cr_buf st)"
    "\<forall>p \<in> set (cr_queue st). cpp_pkt_ok p \<and> asked_for (arpTable st) p"
    "\<forall>e \<in> snd ` set (arpTable st). length (mac e) = 6" "distinct (map fst (arpTable st))"
    "length (payload (cr_buf st)) = 1600"
  using assms by (simp_all add: cpp_ok_def cpp_pkt_ok_def MAX_LEN_def)

lemma cpp_pkt_len: "cpp_pkt_ok p \<Longrightarrow> length (payload p) = 1600"
  by (simp add: cpp_pkt_ok_def MAX_LEN_def)

lemma arp_entry_length:
  "\<forall>e \<in> snd ` set tab. length (mac e) = 6 \<Longrightarrow> map_of tab a = Some e \<Longrightarrow> length (mac e) = 6"
  by (metis imageI map_of_SomeD snd_conv)

lemma macs_update:
  assumes "\<forall>e \<in> snd ` set tab. length (mac e) = 6" and "length (mac e) = 6"
  shows "\<forall>e \<in> snd ` set (AList.update a e tab). length (mac e) = 6"
  using assms
proof (induction tab)
  case (Cons p tab)
  then show ?case by (cases p) auto
qed simp

lemma cpp_send_ok:
  assumes "net_ok env" "length ifs = 4" "0 \<le> i" "i < 4" "length (payload m) = 1600"
    and "0 \<le> pkt_len m" "pkt_len m \<le> 1600"
  shows "cpp_send_packet env ifs i m = Inr (ifs ! nat i, take (nat (pkt_len m)) (payload m))"
  using assms by (simp add: cpp_send_packet_def static_send_packet_def net_ok_def)

lemma cpp_mac_ok:
  assumes "net_ok env" "length ifs = 4" "0 \<le> i" "i < 4"
  obtains hw where "cpp_interface_mac env ifs i = Inr hw" and "length hw = 6"
  using assms by (simp add: cpp_interface_mac_def net_ok_def env_ok_def)

lemma hwaddr_constants:
  "snd (hwaddr_aton ''ff:ff:ff:ff:ff:ff'') = replicate 6 0xff"
  "snd (hwaddr_aton ''00:00:00:00:00:00'') = replicate 6 0"
  by code_simp+

section \<open>Every branch succeeds\<close>

definition succeeds :: "cpp_router \<Rightarrow> (cpp_router \<times> frame list) res \<Rightarrow> bool" where
  "succeeds st r \<longleftrightarrow> (\<exists>st' out. r = Inr (st', out) \<and> cpp_ok st' \<and> cr_trie st' = cr_trie st)"

lemma succeedsI: "cpp_ok st' \<Longrightarrow> cr_trie st' = cr_trie st \<Longrightarrow> succeeds st (Inr (st', out))"
  by (simp add: succeeds_def)

lemma cpp_ok_payload:
  "cpp_ok st \<Longrightarrow> length b = MAX_LEN \<Longrightarrow> cpp_ok (st\<lparr>cr_buf := (cr_buf st)\<lparr>payload := b\<rparr>\<rparr>)"
  by (simp add: cpp_ok_def cpp_pkt_ok_def)

lemma sendARPReply_ok:
  assumes "net_ok env" "length ifs = 4" "cpp_pkt_ok m" "length raw = 1600" "length hw = 6"
  shows "\<exists>f. sendARPReply env ifs raw m hw = Inr f"
proof -
  have m: "length (payload m) = 1600" "0 \<le> pkt_len m" "pkt_len m \<le> 1600" "0 \<le> pkt_interface m"
    "pkt_interface m < 4"
    using assms(3) by (simp_all add: cpp_pkt_ok_def MAX_LEN_def)
  show ?thesis
    unfolding sendARPReply_def Let_def
    by (subst cpp_send_ok [OF assms(1,2)]) (simp_all add: m assms(4,5))
qed

lemma sendARPRequest_ok:
  assumes "net_ok env" "length ifs = 4" "0 \<le> e_interface e" "e_interface e < 4" "length raw = 1600"
  shows "\<exists>f. sendARPRequest env ifs raw e dest = Inr f"
proof -
  obtain hw where hw: "cpp_interface_mac env ifs (e_interface e) = Inr hw" "length hw = 6"
    by (rule cpp_mac_ok [OF assms(1-4)])
  show ?thesis
    unfolding sendARPRequest_def Let_def hw rbind_Inr hwaddr_constants
    using assms(2-4)
    by (simp add: static_interface_ip_def inet_aton_inet_ntoa not_less not_le)
      (subst cpp_send_ok [OF assms(1,2)]; simp add: assms hw)
qed

lemma sendICMPscratch_ok:
  assumes "net_ok env" "length ifs = 4" "cpp_pkt_ok m" "length raw = 1600"
  shows "\<exists>f. sendICMPscratch env ifs raw m ty code = Inr f"
proof -
  have m: "length (payload m) = 1600" "0 \<le> pkt_interface m" "pkt_interface m < 4"
    using assms(3) by (simp_all add: cpp_pkt_ok_def MAX_LEN_def)
  show ?thesis
    unfolding sendICMPscratch_def Let_def
    by (subst cpp_send_ok [OF assms(1,2)]) (simp_all add: m assms(4))
qed

lemma length_echo_reply [simp]: "length b = 1600 \<Longrightarrow> length (echo_reply_bytes b) = 1600"
  by (simp add: echo_reply_bytes_def Let_def)

lemma sendICMPReply_ok:
  assumes "net_ok env" "length ifs = 4" "cpp_pkt_ok m"
  shows "\<exists>f. sendICMPReply env ifs m = Inr (m\<lparr>payload := echo_reply_bytes (payload m)\<rparr>, f)"
proof -
  have m: "length (payload m) = 1600" "0 \<le> pkt_len m" "pkt_len m \<le> 1600" "0 \<le> pkt_interface m"
    "pkt_interface m < 4"
    using assms(3) by (simp_all add: cpp_pkt_ok_def MAX_LEN_def)
  show ?thesis
    unfolding sendICMPReply_def Let_def by (subst cpp_send_ok [OF assms(1,2)]) (simp_all add: m)
qed

text \<open>The packets of the queue.\<close>

definition cpp_flushed :: "int list \<Rightarrow> trieNode \<Rightarrow> (u32 \<times> arp_entry) list \<Rightarrow> packet \<Rightarrow> frame" where
  "cpp_flushed ifs t tab p =
    (let dest = daddr (ip_hdr (payload p))
     in (ifs ! nat (e_interface (findBestEntry t dest)),
         take (nat (pkt_len p)) (write_at 0 (mac (the (map_of tab dest))) (update_ip (payload p)))))"

lemma cpp_flush_ok:
  assumes "net_ok env" "length ifs = 4" "trie_ok t"
    and "\<forall>e \<in> snd ` set tab. length (mac e) = 6" and "\<forall>p \<in> set q. cpp_pkt_ok p \<and> asked_for tab p"
  shows "cpp_flush env ifs t tab q = Inr (map (cpp_flushed ifs t tab) q, tab)"
  using assms(5)
proof (induction q)
  case (Cons p q)
  have p: "cpp_pkt_ok p" "length (payload p) = 1600" "0 \<le> pkt_len p" "pkt_len p \<le> 1600"
    using Cons.prems by (simp_all add: cpp_pkt_ok_def MAX_LEN_def)
  obtain e where e: "map_of tab (daddr (ip_hdr (payload p))) = Some e"
    using Cons.prems by (auto simp: asked_for_def)
  have hw: "length (mac e) = 6"
    by (rule arp_entry_length [OF assms(4) e])
  have d: "daddr (ip_hdr (update_ip (payload p))) = daddr (ip_hdr (payload p))"
    using p(2) by (intro daddr_update_ip) simp
  have i: "0 \<le> e_interface (findBestEntry t d)" "e_interface (findBestEntry t d) < 4" for d
    using assms(3) by (simp_all add: trie_ok_def)
  have "cpp_flush_packet env ifs t tab p = Inr (cpp_flushed ifs t tab p, tab)"
    unfolding cpp_flush_packet_def cpp_flushed_def Let_def d
    by (simp add: arp_access_def e)
      (subst cpp_send_ok [OF assms(1,2)]; simp add: i p hw update_ip_props(1))
  then show ?case
    using Cons by simp
qed simp

lemma asked_for_update: "asked_for tab p \<Longrightarrow> asked_for (AList.update a e tab) p"
  by (simp add: asked_for_def update_conv')

lemma cpp_arp_reply_eq:
  assumes "net_ok env" "cpp_ok st"
  shows "cpp_arp_reply env st =
    (let b = payload (cr_buf st); a = load32 28 b;
         tab = AList.update a \<lparr>ip = a, mac = block 22 6 b\<rparr> (arpTable st)
     in Inr (st\<lparr>arpTable := tab, cr_queue := []\<rparr>,
          map (cpp_flushed (cr_interfaces st) (cr_trie st) tab) (cr_queue st)))"
proof -
  note ok = cpp_okD [OF assms(2)]
  let ?tab = "\<lambda>a. AList.update a \<lparr>ip = a, mac = block 22 6 (payload (cr_buf st))\<rparr> (arpTable st)"
  have "cpp_flush env (cr_interfaces st) (cr_trie st) (?tab a) (cr_queue st) =
      Inr (map (cpp_flushed (cr_interfaces st) (cr_trie st) (?tab a)) (cr_queue st), ?tab a)" for a
  proof (rule cpp_flush_ok [OF assms(1)])
    show "\<forall>e \<in> snd ` set (?tab a). length (mac e) = 6"
      by (rule macs_update) (use ok in auto)
    show "\<forall>p \<in> set (cr_queue st). cpp_pkt_ok p \<and> asked_for (?tab a) p"
      using ok(4) asked_for_update by blast
  qed (rule ok)+
  then show ?thesis
    by (simp add: cpp_arp_reply_def Let_def)
qed

lemma cpp_arp_reply_succeeds:
  assumes "net_ok env" "cpp_ok st"
  shows "succeeds st (cpp_arp_reply env st)"
proof -
  note ok = cpp_okD [OF assms(2)]
  have "\<forall>e \<in> snd ` set (AList.update a \<lparr>ip = a, mac = block 22 6 (payload (cr_buf st))\<rparr> (arpTable st)).
      length (mac e) = 6" for a
    by (rule macs_update) (use ok in auto)
  then show ?thesis
    unfolding cpp_arp_reply_eq [OF assms] Let_def
    by (intro succeedsI) (use ok in \<open>auto simp: cpp_ok_def distinct_update\<close>)
qed

lemma cpp_ok_forwarded:
  assumes "cpp_ok st" and "length b = 1600"
  shows "cpp_ok (st\<lparr>cr_buf := (cr_buf st)\<lparr>payload := b\<rparr>\<rparr>)"
  using assms by (intro cpp_ok_payload) (simp_all add: MAX_LEN_def)

lemma zero_entry_length: "length (mac ARPEntry0) = 6"
  by (simp add: ARPEntry0_def)

text \<open>The state after a packet has been queued.\<close>

definition cpp_queued :: "u32 \<Rightarrow> cpp_router \<Rightarrow> cpp_router" where
  "cpp_queued dest st = st\<lparr>arpTable := AList.update dest ARPEntry0 (arpTable st),
     cr_queue := cr_queue st @ [cr_buf st]\<rparr>"

lemma cpp_queued_ok:
  assumes "cpp_ok st" and "dest = daddr (ip_hdr (payload (cr_buf st)))"
  shows "cpp_ok (cpp_queued dest st)"
proof -
  note ok = cpp_okD [OF assms(1)]
  have "asked_for (AList.update dest ARPEntry0 (arpTable st)) (cr_buf st)"
    by (simp add: asked_for_def assms(2) update_conv')
  then have "\<forall>p \<in> set (cr_queue (cpp_queued dest st)). cpp_pkt_ok p \<and> asked_for (arpTable (cpp_queued dest st)) p"
    using ok(3,4) asked_for_update by (auto simp: cpp_queued_def)
  moreover have "\<forall>e \<in> snd ` set (arpTable (cpp_queued dest st)). length (mac e) = 6"
    using macs_update [OF ok(5) zero_entry_length] by (simp add: cpp_queued_def)
  moreover have "distinct (map fst (arpTable (cpp_queued dest st)))"
    using ok(6) by (simp add: cpp_queued_def distinct_update)
  ultimately show ?thesis
    using ok unfolding cpp_ok_def by (simp add: cpp_queued_def)
qed

lemma cpp_forward_succeeds:
  assumes "net_ok env" "cpp_ok st" "length raw = 1600"
    and "0 \<le> e_interface e" "e_interface e < 4"
  shows "succeeds st (cpp_forward env raw e st)"
proof -
  note ok = cpp_okD [OF assms(2)]
  let ?b = "payload (cr_buf st)"
  let ?dest = "daddr (ip_hdr ?b)"
  show ?thesis
  proof (cases "map_of (arpTable st) ?dest")
    case None
    obtain f where f: "sendARPRequest env (cr_interfaces st) raw e ?dest = Inr f"
      using sendARPRequest_ok [OF assms(1) ok(1) assms(4,5,3)] by blast
    then have "cpp_forward env raw e st = Inr (cpp_queued ?dest st, [f])"
      by (simp add: cpp_forward_def Let_def None cpp_queued_def)
    then show ?thesis
      using cpp_queued_ok [OF assms(2)] by (simp add: succeeds_def cpp_queued_def)
  next
    case (Some a)
    have hw: "length (mac a) = 6"
      by (rule arp_entry_length [OF ok(5) Some])
    let ?b' = "write_at 0 (mac a) (update_ip ?b)"
    have len: "length ?b' = 1600"
      using ok(7) hw by (simp add: update_ip_props(1))
    have "0 \<le> pkt_len (cr_buf st)" "pkt_len (cr_buf st) \<le> 1600"
      using ok(3) by (simp_all add: cpp_pkt_ok_def MAX_LEN_def)
    then have "\<exists>f. cpp_forward env raw e st = Inr (st\<lparr>cr_buf := (cr_buf st)\<lparr>payload := ?b'\<rparr>\<rparr>, [f])"
      unfolding cpp_forward_def Let_def Some
      by (simp add: cpp_send_ok [OF assms(1) ok(1) assms(4,5)] len)
    then show ?thesis
      using cpp_ok_forwarded [OF assms(2) len] by (auto simp: succeeds_def)
  qed
qed

lemma cpp_ipv4_succeeds:
  assumes "net_ok env" "cpp_ok st" "length raw = 1600"
  shows "succeeds st (cpp_ipv4 env raw routerIp st)"
proof -
  note ok = cpp_okD [OF assms(2)]
  let ?b = "store16 24 0 (payload (cr_buf st))"
  let ?st = "st\<lparr>cr_buf := (cr_buf st)\<lparr>payload := ?b\<rparr>\<rparr>"
  have ok1: "cpp_ok ?st"
    by (rule cpp_ok_forwarded [OF assms(2)]) (use ok(7) in simp)
  note m1 = cpp_okD [OF ok1]
  let ?e = "findBestEntry (cr_trie st) (daddr (ip_hdr (payload (cr_buf st))))"
  have e: "0 \<le> e_interface ?e" "e_interface ?e < 4"
    using ok(2) by (simp_all add: trie_ok_def)
  have same: "succeeds ?st r \<Longrightarrow> succeeds st r" for r
    by (auto simp: succeeds_def)
  have scratch: "succeeds ?st (rbind (sendICMPscratch env (cr_interfaces st) raw (cr_buf ?st) ty code)
      (\<lambda>f. Inr (?st, [f])))" for ty code
    using sendICMPscratch_ok [OF assms(1) m1(1,3) assms(3), of ty code] ok1 by (auto simp: succeeds_def)
  have echo: "succeeds ?st (rbind (sendICMPReply env (cr_interfaces st) (cr_buf ?st))
      (\<lambda>(m', f). Inr (?st\<lparr>cr_buf := m'\<rparr>, [f])))"
    using sendICMPReply_ok [OF assms(1) m1(1,3)] cpp_ok_forwarded [OF ok1, of "echo_reply_bytes ?b"] ok(7)
    by (auto simp: succeeds_def)
  have fwd: "succeeds ?st (cpp_forward env raw ?e ?st)"
    by (rule cpp_forward_succeeds [OF assms(1) ok1 assms(3) e])
  have plain: "succeeds ?st (Inr (?st, []))"
    using ok1 by (simp add: succeeds_def)
  show ?thesis
    unfolding cpp_ipv4_def Let_def
    by (intro same) (use scratch echo fwd plain in simp)
qed

lemma cpp_arp_request_succeeds:
  assumes "net_ok env" "cpp_ok st" "length raw = 1600"
  shows "succeeds st (cpp_arp_request env raw routerIp st)"
proof -
  note ok = cpp_okD [OF assms(2)]
  have i: "0 \<le> pkt_interface (cr_buf st)" "pkt_interface (cr_buf st) < 4"
    using ok(3) by (simp_all add: cpp_pkt_ok_def)
  obtain hw where hw: "cpp_interface_mac env (cr_interfaces st) (pkt_interface (cr_buf st)) = Inr hw"
      "length hw = 6"
    by (rule cpp_mac_ok [OF assms(1) ok(1) i])
  note reply = sendARPReply_ok [OF assms(1) ok(1) ok(3) assms(3)]
  show ?thesis
    using hw(1) reply [OF hw(2)] reply [OF arp_entry_length [OF ok(5)]] assms(2)
    unfolding cpp_arp_request_def Let_def succeeds_def by (fastforce split: option.split)
qed

lemma cpp_step_succeeds:
  assumes "net_ok env" "cpp_ok st" "length raw = 1600"
  shows "succeeds st (cpp_step env raw st)"
proof -
  note ok = cpp_okD [OF assms(2)]
  have "static_interface_ip env (cr_interfaces st) (pkt_interface (cr_buf st)) =
      Inr (inet_ntoa (ioctl_addr env (''r-'' @ show_nat (unat (of_int (pkt_interface (cr_buf st)) :: u32)))))"
    using ok(1,3) by (simp add: static_interface_ip_def cpp_pkt_ok_def)
  moreover have "succeeds st (Inr (st, []))"
    using assms(2) by (simp add: succeeds_def)
  ultimately show ?thesis
    using cpp_arp_request_succeeds [OF assms] cpp_arp_reply_succeeds [OF assms(1,2)]
      cpp_ipv4_succeeds [OF assms]
    by (simp add: cpp_step_def Let_def inet_aton_inet_ntoa)
qed

section \<open>Whole runs\<close>

lemma cpp_scan_ready_ok:
  assumes "Read_Error \<notin> set rs" and "cpp_pkt_ok m" and "0 \<le> i" and "i + int (length rs) \<le> 4"
  shows "case scan_ready i rs m of Inl e \<Rightarrow> False | Inr None \<Rightarrow> True | Inr (Some m') \<Rightarrow> cpp_pkt_ok m'"
  using assms
proof (induction i rs m rule: scan_ready.induct)
  case (2 i r rs m)
  show ?case
  proof (cases r)
    case (Ready bytes)
    then show ?thesis
      using "2.prems" by (auto simp: socket_receive_message_def cpp_pkt_ok_def MAX_LEN_def Let_def)
  qed (use 2 in auto)
qed simp

lemma cpp_get_packet_ok:
  assumes "\<forall>sel \<in> set sels. Read_Error \<notin> set sel" and "cpp_pkt_ok p"
  shows "case static_get_packet sels p of Inl e \<Rightarrow> False | Inr None \<Rightarrow> True
    | Inr (Some (p', sels')) \<Rightarrow> cpp_pkt_ok p' \<and> set sels' \<subseteq> set sels"
  using assms
proof (induction sels)
  case (Cons sel sels)
  let ?sel = "take STATIC_NUM_INTERFACES sel"
  have "Read_Error \<notin> set ?sel"
    using Cons.prems(1) by (auto dest: in_set_takeD)
  then have "case scan_ready 0 ?sel p of Inl e \<Rightarrow> False | Inr None \<Rightarrow> True | Inr (Some p') \<Rightarrow> cpp_pkt_ok p'"
    by (rule cpp_scan_ready_ok) (use Cons.prems(2) in \<open>simp_all add: STATIC_NUM_INTERFACES_def\<close>)
  then show ?case
    using Cons by (auto split: sum.splits option.splits)
qed simp

lemma static_init_length: "static_init open_socket = Inr socks \<Longrightarrow> length socks = 4"
  by (auto simp: static_init_def elim!: rbind_InrE)

text \<open>What the lookup returns is an entry of a node, or the empty entry.\<close>

lemma findBestEntry_entry:
  assumes "\<And>p e. entry_at p t = Some e \<Longrightarrow> P e" and "P rTableEntry0"
  shows "P (findBestEntry t d)"
proof (cases "if d AND 1 = 0 then child0 t else child1 t")
  case (Some t')
  have "P e" if "entry_at p t' = Some e" for p e
    using assms(1) [of "(d AND 1 \<noteq> 0) # p" e] Some that by (auto split: if_splits)
  then have "P (trie_next (Some t') d 1 rTableEntry0)"
    using assms(2) by (rule trie_next_in)
  then show ?thesis
    using Some assms(2) by (auto simp: findBestEntry_def getPrefix_def)
qed (use assms(2) in \<open>auto simp: findBestEntry_def getPrefix_def\<close>)

text \<open>The entries of the trie that \<open>parseRTable\<close> builds are those of the file.\<close>

lemma parse_entries_build:
  "parse_entries s t = Inr t' \<Longrightarrow> t = build_trie es \<Longrightarrow> \<exists>es'. t' = build_trie (es @ es')"
proof (induction s t arbitrary: es rule: parse_entries.induct)
  case (1 s t)
  show ?case
  proof (cases "read_words s")
    case None
    then show ?thesis
      using "1.prems" by (auto simp: parse_entries.simps [of s] intro: exI [of _ "[]"])
  next
    case (Some x)
    obtain p nh m i r where x: "x = (p, nh, m, i, r)"
      by (cases x) auto
    obtain prefix nextHop netm where a: "read_addr p = Inr prefix" "read_addr nh = Inr nextHop"
        "read_addr m = Inr netm"
        "parse_entries r (trie_insert (new_entry prefix nextHop (ntohl netm) i) t) = Inr t'"
      using "1.prems"(1) Some x by (auto simp: parse_entries.simps [of s] elim!: rbind_InrE)
    let ?e = "new_entry prefix nextHop (ntohl netm) i"
    have "\<exists>es'. t' = build_trie ((es @ [?e]) @ es')"
      by (rule "1.IH" [OF Some x [symmetric] refl refl refl a(4)]) (simp add: build_trie_snoc "1.prems"(2))
    then show ?thesis
      by auto
  qed
qed

lemma build_trie_ok:
  assumes "\<forall>e \<in> set es. 0 \<le> e_interface e \<and> e_interface e < 4"
  shows "trie_ok (build_trie es)"
  unfolding trie_ok_def
proof
  fix d
  show "0 \<le> e_interface (findBestEntry (build_trie es) d) \<and> e_interface (findBestEntry (build_trie es) d) < 4"
    using getPrefix_in_table [of es d] assms
    by (cases "getPrefix (build_trie es) d = rTableEntry0")
      (auto simp: findBestEntry_def rTableEntry0_def)
qed

definition demo_table_line :: string where
  "demo_table_line = ''10.1.0.0 192.0.1.1 255.255.0.0 1''"

lemma demo_table_parsed:
  "parseRTable (Some demo_table_line) = Inr (build_trie [new_entry 0x0000010A 0x010100C0 0xFFFF0000 1])"
proof -
  have w: "read_words demo_table_line = Some (''10.1.0.0'', ''192.0.1.1'', ''255.255.0.0'', 1, [])"
    "read_words [] = None"
    by code_simp+
  have a: "read_addr ''10.1.0.0'' = Inr 0x0000010A" "read_addr ''192.0.1.1'' = Inr 0x010100C0"
    "read_addr ''255.255.0.0'' = Inr 0x0000FFFF" "htonl 0x0000FFFF = 0xFFFF0000"
    by code_simp+
  show ?thesis
    by (simp add: parseRTable_def parse_entries.simps w a build_trie_def)
qed

section \<open>What an IPv4 packet causes\<close>

definition cpp_router_ip :: "net_env \<Rightarrow> int \<Rightarrow> u32" where
  "cpp_router_ip env i = ioctl_addr env (''r-'' @ show_nat (unat (of_int i :: u32)))"

text \<open>A packet for another host, with a valid header, a TTL above 1 and a route.\<close>

definition cpp_transit :: "net_env \<Rightarrow> cpp_router \<Rightarrow> bool" where
  "cpp_transit env st \<longleftrightarrow>
    (let b = payload (cr_buf st); h = ip_hdr b
     in ether_type (ether_of b) = htons ETHERTYPE_IP \<and> ip_valid b \<and> 1 < ttl h \<and>
        e_prefix (findBestEntry (cr_trie st) (daddr h)) \<noteq> 0 \<and>
        \<not> (protocol h = 1 \<and> b ! 34 = 8 \<and> daddr h = cpp_router_ip env (pkt_interface (cr_buf st))))"

definition cpp_route :: "cpp_router \<Rightarrow> rTableEntry" where
  "cpp_route st = findBestEntry (cr_trie st) (daddr (ip_hdr (payload (cr_buf st))))"

abbreviation cpp_dest :: "cpp_router \<Rightarrow> u32" where
  "cpp_dest st \<equiv> daddr (ip_hdr (payload (cr_buf st)))"

text \<open>The state with the checksum field cleared.\<close>

definition cpp_cleared :: "cpp_router \<Rightarrow> cpp_router" where
  "cpp_cleared st = st\<lparr>cr_buf := (cr_buf st)\<lparr>payload := store16 24 0 (payload (cr_buf st))\<rparr>\<rparr>"

lemma cpp_step_ip:
  assumes "cpp_ok st" and "ether_type (ether_of (payload (cr_buf st))) = htons ETHERTYPE_IP"
  shows "cpp_step env raw st = cpp_ipv4 env raw (cpp_router_ip env (pkt_interface (cr_buf st))) st"
proof -
  have "static_interface_ip env (cr_interfaces st) (pkt_interface (cr_buf st)) =
      Inr (inet_ntoa (cpp_router_ip env (pkt_interface (cr_buf st))))"
    using cpp_okD(1,3) [OF assms(1)] by (simp add: static_interface_ip_def cpp_pkt_ok_def cpp_router_ip_def)
  then show ?thesis
    by (simp add: cpp_step_def assms(2) inet_aton_inet_ntoa ETHERTYPE_IP_def ETHERTYPE_ARP_def)
qed

lemma cleared_nth34: "length b = 1600 \<Longrightarrow> store16 24 0 b ! 34 = b ! 34"
  by (simp add: store16_def nth_write_at)

lemma cpp_transit_forward:
  assumes "cpp_ok st" and "cpp_transit env st"
  shows "cpp_step env raw st = cpp_forward env raw (cpp_route st) (cpp_cleared st)"
proof -
  have t: "ether_type (ether_of (payload (cr_buf st))) = htons ETHERTYPE_IP"
    "ip_valid (payload (cr_buf st))" "1 < ttl (ip_hdr (payload (cr_buf st)))"
    "e_prefix (cpp_route st) \<noteq> 0"
    "\<not> (protocol (ip_hdr (payload (cr_buf st))) = 1 \<and> payload (cr_buf st) ! 34 = 8 \<and>
      cpp_dest st = cpp_router_ip env (pkt_interface (cr_buf st)))"
    using assms(2) by (simp_all add: cpp_transit_def Let_def cpp_route_def)
  have len: "length (payload (cr_buf st)) = 1600"
    by (rule cpp_okD(7) [OF assms(1)])
  have "ip_checksum 2 (block 14 20 (store16 24 0 (payload (cr_buf st)))) = check (ip_hdr (payload (cr_buf st)))"
    using t(2) len by (simp add: ip_valid_def ip_hdr_store_check)
  moreover have "\<not> ttl (ip_hdr (payload (cr_buf st))) < 1" "ttl (ip_hdr (payload (cr_buf st))) \<noteq> 1"
    using t(3) by auto
  ultimately show ?thesis
    unfolding cpp_step_ip [OF assms(1) t(1)] cpp_ipv4_def Let_def
    using t(4,5) by (auto simp: cpp_cleared_def cpp_route_def cleared_nth34 [OF len])
qed

lemma cpp_cleared_ok: "cpp_ok st \<Longrightarrow> cpp_ok (cpp_cleared st)"
  unfolding cpp_cleared_def by (rule cpp_ok_forwarded) (simp_all add: cpp_okD(7))

lemma cpp_dest_cleared: "cpp_ok st \<Longrightarrow> cpp_dest (cpp_cleared st) = cpp_dest st"
  by (simp add: cpp_cleared_def ip_hdr_store_check cpp_okD(7))

section \<open>The frames it builds\<close>

lemma arp_of_block:
  assumes "42 \<le> length b"
  shows "arp_of (block 14 28 b) = \<lparr>htype = load16 14 b, ptype = load16 16 b, hlen = b ! 18, plen = b ! 19,
    arp_op = load16 20 b, sha = block 22 6 b, spa = load32 28 b, tha = block 32 6 b, tpa = load32 38 b\<rparr>"
  using assms by (simp add: arp_of_def load16_def load32_def nth_block block_block)

lemma take_frame:
  assumes "i + n \<le> k"
  shows "block i n (take k b) = block i n b"
  using assms by (simp add: block_def drop_take min_def)

lemma load_take:
  "i + 2 \<le> k \<Longrightarrow> load16 i (take k b) = load16 i b" "i + 4 \<le> k \<Longrightarrow> load32 i (take k b) = load32 i b"
  by (simp_all add: load16_def load32_def)

lemma update_as_write: "i < length b \<Longrightarrow> b[i := x] = write_at i [x] b"
  by (simp add: write_at_def upd_conv_take_nth_drop)

lemmas load_stored = load16_write_same [unfolded store16_def] load32_write_same [unfolded store32_def]
lemmas edit_simps = store16_def store32_def load_stored load16_write_at_other load32_write_at_other
  block_write_at_same block_write_at_before block_write_at_after

lemma nth_write_other:
  "k < i \<or> i + length ys \<le> k \<Longrightarrow> i + length ys \<le> length bs \<Longrightarrow> k < length bs \<Longrightarrow> write_at i ys bs ! k = bs ! k"
  by (auto simp: nth_write_at)

lemma nth_write_this: "i < length bs \<Longrightarrow> write_at i [x] bs ! i = x"
  by (simp add: nth_write_at)

text \<open>The writes of \<open>sendARPRequest\<close>, one after the other, and what is then in the frame.\<close>

lemma arp_request_fields:
  assumes raw: "length raw = 1600" and hw: "length hw = 6"
    and b1: "b1 = write_at 12 (bytes16 (htons ETHERTYPE_ARP)) raw" and b2: "b2 = write_at 0 (replicate 6 0xff) b1"
    and b3: "b3 = write_at 6 hw b2" and b4: "b4 = write_at 14 (bytes16 (htons 1)) b3"
    and b5: "b5 = write_at 16 (bytes16 (htons 0x0800)) b4" and b6: "b6 = write_at 19 [4] b5"
    and b7: "b7 = write_at 18 [6] b6" and b8: "b8 = write_at 20 (bytes16 (htons 1)) b7"
    and b9: "b9 = write_at 28 (bytes32 src) b8" and b10: "b10 = write_at 22 hw b9"
    and b11: "b11 = write_at 38 (bytes32 dest) b10" and b: "b = write_at 32 (replicate 6 0) b11"
  shows "length b = 1600" and "ether_of b =
      \<lparr>ether_dhost = replicate 6 0xff, ether_shost = hw, ether_type = htons ETHERTYPE_ARP\<rparr>"
    and "arp_of (block 14 28 b) = \<lparr>htype = htons 1, ptype = htons 0x0800, hlen = 6, plen = 4,
      arp_op = htons 1, sha = hw, spa = src, tha = replicate 6 0, tpa = dest\<rparr>"
proof -
  have l1: "length b1 = 1600" by (simp add: b1 raw)
  have l2: "length b2 = 1600" by (simp add: b2 l1)
  have l3: "length b3 = 1600" by (simp add: b3 l2 hw)
  have l4: "length b4 = 1600" by (simp add: b4 l3)
  have l5: "length b5 = 1600" by (simp add: b5 l4)
  have l6: "length b6 = 1600" by (simp add: b6 l5)
  have l7: "length b7 = 1600" by (simp add: b7 l6)
  have l8: "length b8 = 1600" by (simp add: b8 l7)
  have l9: "length b9 = 1600" by (simp add: b9 l8)
  have l10: "length b10 = 1600" by (simp add: b10 l9 hw)
  have l11: "length b11 = 1600" by (simp add: b11 l10)
  show l: "length b = 1600" by (simp add: b l11)
  note ls = raw hw l1 l2 l3 l4 l5 l6 l7 l8 l9 l10 l11
  note rules = load_stored load16_write_at_other load32_write_at_other block_write_at_same
    block_write_at_before block_write_at_after nth_write_other nth_write_this ls
  have high: "block 0 6 b = block 0 6 b3" "block 6 6 b = block 6 6 b3" "load16 12 b = load16 12 b3"
    by (simp_all add: b b11 b10 b9 b8 b7 b6 b5 b4 rules)
  have "block 0 6 b3 = replicate 6 0xff" "block 6 6 b3 = hw" "load16 12 b3 = htons ETHERTYPE_ARP"
    by (simp_all add: b3 b2 b1 rules)
  with high show "ether_of b = \<lparr>ether_dhost = replicate 6 0xff, ether_shost = hw,
      ether_type = htons ETHERTYPE_ARP\<rparr>"
    by (simp add: ether_of_def)
  have mid: "load16 14 b = load16 14 b8" "load16 16 b = load16 16 b8" "b ! 18 = b8 ! 18" "b ! 19 = b8 ! 19"
    "load16 20 b = load16 20 b8"
    by (simp_all add: b b11 b10 b9 rules)
  have "load16 14 b8 = htons 1" "load16 16 b8 = htons 0x0800" "b8 ! 18 = 6" "b8 ! 19 = 4"
    "load16 20 b8 = htons 1"
    by (simp_all add: b8 b7 b6 b5 b4 rules)
  moreover have "block 22 6 b = hw" "load32 28 b = src" "block 32 6 b = replicate 6 0" "load32 38 b = dest"
    by (simp_all add: b b11 b10 b9 rules)
  ultimately show "arp_of (block 14 28 b) = \<lparr>htype = htons 1, ptype = htons 0x0800, hlen = 6, plen = 4,
      arp_op = htons 1, sha = hw, spa = src, tha = replicate 6 0, tpa = dest\<rparr>"
    using mid l by (simp add: arp_of_block)
qed

lemma arp_request_frame:
  assumes "net_ok env" "length ifs = 4" "0 \<le> e_interface e" "e_interface e < 4" "length raw = 1600"
  shows "\<exists>bs. sendARPRequest env ifs raw e dest = Inr (ifs ! nat (e_interface e), bs) \<and> length bs = 42 \<and>
    ether_of bs = \<lparr>ether_dhost = replicate 6 0xff, ether_shost = ether_shost (ether_of bs),
      ether_type = htons ETHERTYPE_ARP\<rparr> \<and>
    arp_hdr bs = \<lparr>htype = htons 1, ptype = htons 0x0800, hlen = 6, plen = 4, arp_op = htons 1,
      sha = ether_shost (ether_of bs), spa = cpp_router_ip env (e_interface e),
      tha = replicate 6 0, tpa = dest\<rparr>"
proof -
  obtain hw where hw: "cpp_interface_mac env ifs (e_interface e) = Inr hw" "length hw = 6"
    by (rule cpp_mac_ok [OF assms(1-4)])
  define b where "b =
    write_at 32 (replicate 6 0) (write_at 38 (bytes32 dest) (write_at 22 hw
      (write_at 28 (bytes32 (cpp_router_ip env (e_interface e))) (write_at 20 (bytes16 (htons 1))
      (write_at 18 [6] (write_at 19 [4] (write_at 16 (bytes16 (htons 0x0800)) (write_at 14 (bytes16 (htons 1))
        (write_at 6 hw (write_at 0 (replicate 6 0xff)
          (write_at 12 (bytes16 (htons ETHERTYPE_ARP)) raw)))))))))))"
  note f = arp_request_fields [OF assms(5) hw(2) refl refl refl refl refl refl refl refl refl refl refl b_def]
  have "sendARPRequest env ifs raw e dest = Inr (ifs ! nat (e_interface e), take 42 b)"
    unfolding sendARPRequest_def Let_def hw rbind_Inr hwaddr_constants using assms(2-4)
    by (simp add: static_interface_ip_def inet_aton_inet_ntoa not_less not_le update_as_write store16_def
        store32_def assms(5) hw(2))
      (subst cpp_send_ok [OF assms(1,2)]; simp add: assms hw b_def cpp_router_ip_def)
  moreover have "ether_of (take 42 b) = ether_of b"
    by (simp add: ether_of_def take_frame load_take)
  moreover have "arp_hdr (take 42 b) = arp_of (block 14 28 b)"
    by (simp add: arp_hdr_def take_frame)
  ultimately show ?thesis
    using f by simp
qed

lemma cpp_forward_known:
  assumes "net_ok env" "cpp_ok st" "map_of (arpTable st) (cpp_dest st) = Some a"
    and "0 \<le> e_interface e" "e_interface e < 4"
  shows "cpp_forward env raw e st =
    (let b' = write_at 0 (mac a) (update_ip (payload (cr_buf st)))
     in Inr (st\<lparr>cr_buf := (cr_buf st)\<lparr>payload := b'\<rparr>\<rparr>,
          [(cr_interfaces st ! nat (e_interface e), take (nat (pkt_len (cr_buf st))) b')]))"
proof -
  note ok = cpp_okD [OF assms(2)]
  have hw: "length (mac a) = 6"
    by (rule arp_entry_length [OF ok(5) assms(3)])
  have len: "length (write_at 0 (mac a) (update_ip (payload (cr_buf st)))) = 1600"
    using ok(7) hw by (simp add: update_ip_props(1))
  have "0 \<le> pkt_len (cr_buf st)" "pkt_len (cr_buf st) \<le> 1600"
    using ok(3) by (simp_all add: cpp_pkt_ok_def MAX_LEN_def)
  then show ?thesis
    unfolding cpp_forward_def Let_def assms(3)
    by (simp add: cpp_send_ok [OF assms(1) ok(1) assms(4,5)] len)
qed

lemma cpp_route_ok: "cpp_ok st \<Longrightarrow> 0 \<le> e_interface (cpp_route st) \<and> e_interface (cpp_route st) < 4"
  using cpp_okD(2) [of st] by (simp add: cpp_route_def trie_ok_def)

lemma edited_cleared:
  assumes "length b = 1600" and "length hw = 6"
  defines "b' \<equiv> write_at 0 hw (update_ip (store16 24 0 b))"
  shows "block 0 6 b' = hw \<and> block 6 8 b' = block 6 8 b \<and> drop 34 b' = drop 34 b \<and>
    ip_hdr b' = (ip_hdr b)\<lparr>ttl := ttl (ip_hdr b) - 1, check := check (ip_hdr b')\<rparr> \<and>
    ip_checksum 2 (block 14 20 b') = 0"
proof -
  have c: "34 \<le> length (store16 24 0 b)"
    using assms(1) by simp
  note e = edited_frame [OF c assms(2), folded b'_def]
  have "ip_hdr (store16 24 0 b) = (ip_hdr b)\<lparr>check := 0\<rparr>"
    using assms(1) by (simp add: ip_hdr_store_check)
  then have "ip_hdr b' = (ip_hdr b)\<lparr>ttl := ttl (ip_hdr b) - 1, check := check (ip_hdr b')\<rparr>"
    using e(4) by simp
  moreover have "block 6 8 (store16 24 0 b) = block 6 8 b" "drop 34 (store16 24 0 b) = drop 34 b"
    using assms(1) by (simp_all add: store16_def block_write_at_before) (simp add: write_at_def)
  ultimately show ?thesis
    using e by simp
qed

text \<open>
  C17. The C++ router forwards. A packet for another host with a valid header, a TTL above 1, a route
  and an entry for its destination in the ARP table is sent on the interface of the route, as long as
  it was received: the destination hardware address is that of the entry, the TTL is one less, the
  new checksum verifies, and every other byte is unchanged.
\<close>

theorem cpp_router_forwards:
  assumes "net_ok env" and "cpp_ok st" and "cpp_transit env st"
    and "map_of (arpTable st) (cpp_dest st) = Some a"
  shows "\<exists>b'. cpp_step env raw st =
      Inr (st\<lparr>cr_buf := (cr_buf st)\<lparr>payload := b'\<rparr>\<rparr>,
        [(cr_interfaces st ! nat (e_interface (cpp_route st)), take (nat (pkt_len (cr_buf st))) b')]) \<and>
    (let b = payload (cr_buf st); h = ip_hdr b
     in block 0 6 b' = mac a \<and> block 6 8 b' = block 6 8 b \<and> drop 34 b' = drop 34 b \<and>
        ip_hdr b' = h\<lparr>ttl := ttl h - 1, check := check (ip_hdr b')\<rparr> \<and>
        ip_checksum 2 (block 14 20 b') = 0)"
proof -
  note ok = cpp_okD [OF assms(2)]
  let ?b' = "write_at 0 (mac a) (update_ip (store16 24 0 (payload (cr_buf st))))"
  have known: "map_of (arpTable (cpp_cleared st)) (cpp_dest (cpp_cleared st)) = Some a"
    unfolding cpp_dest_cleared [OF assms(2)] by (simp add: cpp_cleared_def assms(4))
  have "cpp_step env raw st = Inr (st\<lparr>cr_buf := (cr_buf st)\<lparr>payload := ?b'\<rparr>\<rparr>,
      [(cr_interfaces st ! nat (e_interface (cpp_route st)), take (nat (pkt_len (cr_buf st))) ?b')])"
    unfolding cpp_transit_forward [OF assms(2,3)] using cpp_route_ok [OF assms(2)]
    by (subst cpp_forward_known [OF assms(1) cpp_cleared_ok [OF assms(2)] known]) (simp_all add: cpp_cleared_def Let_def)
  moreover note edited_cleared [OF ok(7) arp_entry_length [OF ok(5) assms(4)]]
  ultimately show ?thesis
    unfolding Let_def by blast
qed

lemma cpp_step_asks:
  assumes "net_ok env" "cpp_ok st" "cpp_transit env st" "length raw = 1600"
    and "map_of (arpTable st) (cpp_dest st) = None"
  shows "\<exists>bs. cpp_step env raw st = Inr (cpp_queued (cpp_dest st) (cpp_cleared st),
      [(cr_interfaces st ! nat (e_interface (cpp_route st)), bs)]) \<and> length bs = 42 \<and>
    ether_dhost (ether_of bs) = replicate 6 0xff \<and> arp_op (arp_hdr bs) = htons 1 \<and>
    tpa (arp_hdr bs) = cpp_dest st \<and> spa (arp_hdr bs) = cpp_router_ip env (e_interface (cpp_route st))"
proof -
  let ?st = "cpp_cleared st"
  have none: "map_of (arpTable ?st) (cpp_dest ?st) = None"
    unfolding cpp_dest_cleared [OF assms(2)] by (simp add: cpp_cleared_def assms(5))
  have r: "0 \<le> e_interface (cpp_route st)" "e_interface (cpp_route st) < 4"
    using cpp_route_ok [OF assms(2)] by simp_all
  obtain bs where bs: "sendARPRequest env (cr_interfaces st) raw (cpp_route st) (cpp_dest st) =
        Inr (cr_interfaces st ! nat (e_interface (cpp_route st)), bs)"
      "length bs = 42" "ether_of bs = \<lparr>ether_dhost = replicate 6 0xff, ether_shost = ether_shost (ether_of bs),
        ether_type = htons ETHERTYPE_ARP\<rparr>"
      "arp_hdr bs = \<lparr>htype = htons 1, ptype = htons 0x0800, hlen = 6, plen = 4, arp_op = htons 1,
        sha = ether_shost (ether_of bs), spa = cpp_router_ip env (e_interface (cpp_route st)),
        tha = replicate 6 0, tpa = cpp_dest st\<rparr>"
    using arp_request_frame [OF assms(1) cpp_okD(1) [OF assms(2)] r assms(4), of "cpp_dest st"] by auto
  have "cpp_forward env raw (cpp_route st) ?st = Inr (cpp_queued (cpp_dest st) ?st,
      [(cr_interfaces st ! nat (e_interface (cpp_route st)), bs)])"
    using none bs(1) cpp_dest_cleared [OF assms(2)]
    by (simp add: cpp_forward_def Let_def cpp_queued_def) (simp add: cpp_cleared_def)
  moreover have "ether_dhost (ether_of bs) = replicate 6 0xff"
    by (subst bs(3)) simp
  ultimately show ?thesis
    unfolding cpp_transit_forward [OF assms(2,3)] using bs(2,4) by simp
qed

text \<open>
  C36. Packets for an unresolved destination. The first one is queued and the C++ router broadcasts an
  ARP request for its destination; but it also enters the destination into the ARP table, with the
  address 00:00:00:00:00:00, so the next packet for it is not queued: it is sent at once, to this
  address.
\<close>

theorem cpp_router_unresolved:
  assumes "net_ok env" and "cpp_ok st" and "cpp_transit env st" and "length raw = MAX_LEN"
    and "map_of (arpTable st) (cpp_dest st) = None"
    and "cpp_transit env (st\<lparr>cr_buf := p\<rparr>)" and "cpp_pkt_ok p" and "6 \<le> pkt_len p"
    and "daddr (ip_hdr (payload p)) = cpp_dest st"
  shows "\<exists>st1 bs. cpp_step env raw st =
      Inr (st1, [(cr_interfaces st ! nat (e_interface (cpp_route st)), bs)]) \<and>
    cr_queue st1 = cr_queue st @ [cr_buf (cpp_cleared st)] \<and>
    arp_op (arp_hdr bs) = htons 1 \<and> tpa (arp_hdr bs) = cpp_dest st \<and>
    (\<exists>st2 bs'. cpp_step env raw' (st1\<lparr>cr_buf := p\<rparr>) =
        Inr (st2, [(cr_interfaces st ! nat (e_interface (cpp_route st)), bs')]) \<and>
      take 6 bs' = replicate 6 0 \<and> cr_queue st2 = cr_queue st1)"
proof -
  let ?st1 = "cpp_queued (cpp_dest st) (cpp_cleared st)"
  obtain bs where bs: "cpp_step env raw st =
        Inr (?st1, [(cr_interfaces st ! nat (e_interface (cpp_route st)), bs)])"
      "arp_op (arp_hdr bs) = htons 1" "tpa (arp_hdr bs) = cpp_dest st"
    using cpp_step_asks [OF assms(1-3) _ assms(5)] assms(4) by (auto simp: MAX_LEN_def)
  have ok1: "cpp_ok (?st1\<lparr>cr_buf := p\<rparr>)"
    using cpp_queued_ok [OF cpp_cleared_ok [OF assms(2)] cpp_dest_cleared [OF assms(2), symmetric]] assms(7)
    by (simp add: cpp_ok_def)
  have transit: "cpp_transit env (?st1\<lparr>cr_buf := p\<rparr>)"
    using assms(6) by (simp add: cpp_transit_def cpp_queued_def cpp_cleared_def)
  let ?st2 = "cpp_cleared (?st1\<lparr>cr_buf := p\<rparr>)"
  have dest: "cpp_dest (?st1\<lparr>cr_buf := p\<rparr>) = cpp_dest st"
    by (simp add: assms(9))
  have route: "cpp_route (?st1\<lparr>cr_buf := p\<rparr>) = cpp_route st"
    by (simp add: cpp_route_def assms(9)) (simp add: cpp_queued_def cpp_cleared_def)
  have known: "map_of (arpTable ?st2) (cpp_dest ?st2) = Some ARPEntry0"
    unfolding cpp_dest_cleared [OF ok1] dest by (simp add: cpp_cleared_def cpp_queued_def update_conv')
  have r: "0 \<le> e_interface (cpp_route st)" "e_interface (cpp_route st) < 4"
    using cpp_route_ok [OF assms(2)] by simp_all
  let ?b' = "write_at 0 (mac ARPEntry0) (update_ip (payload (cr_buf ?st2)))"
  have step: "cpp_step env raw' (?st1\<lparr>cr_buf := p\<rparr>) =
      Inr (?st2\<lparr>cr_buf := (cr_buf ?st2)\<lparr>payload := ?b'\<rparr>\<rparr>,
        [(cr_interfaces ?st2 ! nat (e_interface (cpp_route st)), take (nat (pkt_len (cr_buf ?st2))) ?b')])"
    unfolding cpp_transit_forward [OF ok1 transit] route
    by (subst cpp_forward_known [OF assms(1) cpp_cleared_ok [OF ok1] known r]) (simp add: Let_def)
  have "6 \<le> nat (pkt_len (cr_buf ?st2))"
    using assms(8) by (simp add: cpp_cleared_def)
  then have "take 6 (take (nat (pkt_len (cr_buf ?st2))) ?b') = replicate 6 0"
    by (simp add: write_at_def ARPEntry0_def min_def)
  with step have "\<exists>st2 bs'. cpp_step env raw' (?st1\<lparr>cr_buf := p\<rparr>) =
        Inr (st2, [(cr_interfaces st ! nat (e_interface (cpp_route st)), bs')]) \<and>
      take 6 bs' = replicate 6 0 \<and> cr_queue st2 = cr_queue ?st1"
    by (simp add: cpp_cleared_def cpp_queued_def)
  moreover have "cr_queue ?st1 = cr_queue st @ [cr_buf (cpp_cleared st)]"
    by (simp add: cpp_queued_def cpp_cleared_def)
  ultimately show ?thesis
    using bs by blast
qed

text \<open>
  On any ARP reply the C++ router sends its whole queue, in order, each packet on the interface of
  its route with a new TTL and checksum, to the address its destination has in the ARP table; for the
  packets whose destination has not replied that is 00:00:00:00:00:00. The queue is empty afterwards.
\<close>

theorem cpp_router_flushes:
  assumes "net_ok env" and "cpp_ok st"
    and "ether_type (ether_of (payload (cr_buf st))) = htons ETHERTYPE_ARP"
    and "arp_op (arp_hdr (payload (cr_buf st))) = htons 2"
  shows "let a = arp_hdr (payload (cr_buf st));
      tab = AList.update (spa a) \<lparr>ip = spa a, mac = sha a\<rparr> (arpTable st)
    in cpp_step env raw st = Inr (st\<lparr>arpTable := tab, cr_queue := []\<rparr>,
      map (\<lambda>p. let dest = daddr (ip_hdr (payload p))
        in (cr_interfaces st ! nat (e_interface (findBestEntry (cr_trie st) dest)),
            take (nat (pkt_len p)) (write_at 0 (mac (the (map_of tab dest))) (update_ip (payload p)))))
        (cr_queue st))"
proof -
  note ok = cpp_okD [OF assms(2)]
  have a: "spa (arp_hdr (payload (cr_buf st))) = load32 28 (payload (cr_buf st))"
    "sha (arp_hdr (payload (cr_buf st))) = block 22 6 (payload (cr_buf st))"
    "load16 20 (payload (cr_buf st)) = htons 2"
    using assms(4) ok(7) by (simp_all add: arp_hdr_def arp_of_block)
  have "static_interface_ip env (cr_interfaces st) (pkt_interface (cr_buf st)) =
      Inr (inet_ntoa (cpp_router_ip env (pkt_interface (cr_buf st))))"
    using ok(1,3) by (simp add: static_interface_ip_def cpp_pkt_ok_def cpp_router_ip_def)
  then have "cpp_step env raw st = cpp_arp_reply env st"
    by (simp add: cpp_step_def assms(3) inet_aton_inet_ntoa a(3))
  then show ?thesis
    by (simp add: a cpp_arp_reply_eq [OF assms(1,2)] Let_def cpp_flushed_def [abs_def])
qed

section \<open>ICMP\<close>

lemma icmp_scratch_frame:
  assumes "net_ok env" "length ifs = 4" "cpp_pkt_ok m" "length raw = 1600"
  shows "\<exists>bs. sendICMPscratch env ifs raw m ty code = Inr (ifs ! nat (pkt_interface m), bs) \<and>
    icmp_reply_ok bs (block 0 6 (payload m)) (block 6 6 (payload m)) (saddr (ip_hdr (payload m)))
      (daddr (ip_hdr (payload m))) ty code"
proof -
  have m: "length (payload m) = 1600" "0 \<le> pkt_interface m" "pkt_interface m < 4"
    using assms(3) by (simp_all add: cpp_pkt_ok_def MAX_LEN_def)
  define eth where "eth = \<lparr>ether_dhost = block 6 6 (payload m), ether_shost = block 0 6 (payload m),
    ether_type = htons ETHERTYPE_IP\<rparr>"
  define h where "h = icmp_scratch_ip (pid env) (daddr (ip_hdr (payload m))) (saddr (ip_hdr (payload m)))"
  define c where "c = icmp_scratch_hdr (pid env) ty code"
  let ?bs = "ether_bytes eth @ iphdr_bytes h @ icmphdr_bytes c"
  have len: "length (ether_bytes eth) = 14"
    using m(1) by (simp add: eth_def)
  have "take 42 (write_at 34 (icmphdr_bytes c) (write_at 14 (iphdr_bytes h) (write_at 0 (ether_bytes eth) raw))) = ?bs"
    using len assms(4) by (simp add: write_at_def min_def)
  moreover have "length (write_at 34 (icmphdr_bytes c) (write_at 14 (iphdr_bytes h)
      (write_at 0 (ether_bytes eth) raw))) = 1600"
    using len assms(4) by simp
  ultimately have "sendICMPscratch env ifs raw m ty code = Inr (ifs ! nat (pkt_interface m), ?bs)"
    unfolding sendICMPscratch_def Let_def eth_def [symmetric] h_def [symmetric] c_def [symmetric]
    by (subst cpp_send_ok [OF assms(1,2) m(2,3)]) simp_all
  moreover have "icmp_reply_ok ?bs (block 0 6 (payload m)) (block 6 6 (payload m))
      (saddr (ip_hdr (payload m))) (daddr (ip_hdr (payload m))) ty code"
  proof -
    have h: "version h = 4" "ihl h = 5" "tot_len h = htons 28" "ttl h = 64" "protocol h = 1"
      "saddr h = daddr (ip_hdr (payload m))" "daddr h = saddr (ip_hdr (payload m))"
      by (simp_all add: h_def icmp_scratch_ip_def Let_def)
    have "iphdr_of (iphdr_bytes h) = h"
      using iphdr_of_bytes [of h "[]"] h(1,2) by simp
    moreover have "ip_checksum 2 (iphdr_bytes h) = 0"
      by (rule iphdr_checksum_verifies [where h = h and a = 2]) (simp add: h_def icmp_scratch_ip_def Let_def)
    moreover have "icmphdr_of (icmphdr_bytes c) = c"
      using icmphdr_of_bytes [of c "[]"] by simp
    moreover have "icmp_type c = ty" "icmp_code c = code"
      by (simp_all add: c_def icmp_scratch_hdr_def Let_def)
    moreover have "ip_checksum 2 (icmphdr_bytes c) = 0"
      using checksum_stored_verifies [of "icmphdr_bytes c" 2 2 2]
      by (simp add: store16_icmphdr) (simp add: c_def icmp_scratch_hdr_def Let_def)
    moreover have "ether_of ?bs = eth"
      by (rule ether_of_bytes) (use m(1) in \<open>simp_all add: eth_def\<close>)
    ultimately show ?thesis
      by (simp add: icmp_reply_ok_def len block_frame [OF len] h Let_def) (simp add: eth_def ETHERTYPE_IP_def)
  qed
  ultimately show ?thesis
    by blast
qed

text \<open>
  ICMP errors of the C++ router. A packet with a valid header and a TTL of 1 is answered by Time
  Exceeded, one with a greater TTL and no route by Destination Unreachable: a well-formed ICMP
  message with verifying checksums, from the packet's destination address back to its sender.
\<close>

theorem cpp_router_icmp_errors:
  assumes "net_ok env" and "cpp_ok st" and "length raw = MAX_LEN"
    and "b = payload (cr_buf st)" and "ether_type (ether_of b) = htons ETHERTYPE_IP" and "ip_valid b"
    and "(ttl (ip_hdr b) = 1 \<and> ty = 11) \<or> (1 < ttl (ip_hdr b) \<and> e_prefix (cpp_route st) = 0 \<and> ty = 3)"
  shows "\<exists>bs. cpp_step env raw st =
      Inr (cpp_cleared st, [(cr_interfaces st ! nat (pkt_interface (cr_buf st)), bs)]) \<and>
    icmp_reply_ok bs (block 0 6 b) (block 6 6 b) (saddr (ip_hdr b)) (daddr (ip_hdr b)) ty 0"
proof -
  note ok = cpp_okD [OF assms(2)]
  let ?m = "cr_buf (cpp_cleared st)"
  have m: "cpp_pkt_ok ?m" "pkt_interface ?m = pkt_interface (cr_buf st)" "payload ?m = store16 24 0 b"
    using cpp_okD(3) [OF cpp_cleared_ok [OF assms(2)]] by (simp_all add: cpp_cleared_def assms(4))
  have h: "ip_hdr (payload ?m) = (ip_hdr b)\<lparr>check := 0\<rparr>" "block 0 6 (payload ?m) = block 0 6 b"
      "block 6 6 (payload ?m) = block 6 6 b"
    using ok(7) by (simp_all add: m(3) assms(4) ip_hdr_store_check) (simp_all add: store16_def block_write_at_before)
  obtain bs where bs: "sendICMPscratch env (cr_interfaces st) raw ?m ty 0 =
        Inr (cr_interfaces st ! nat (pkt_interface (cr_buf st)), bs)"
      "icmp_reply_ok bs (block 0 6 b) (block 6 6 b) (saddr (ip_hdr b)) (daddr (ip_hdr b)) ty 0"
    using icmp_scratch_frame [OF assms(1) ok(1) m(1), of raw ty 0] assms(3) h m(2) by (auto simp: MAX_LEN_def)
  have v: "ip_checksum 2 (block 14 20 (store16 24 0 b)) = check (ip_hdr b)"
    using assms(4,6) ok(7) by (simp add: ip_valid_def ip_hdr_store_check)
  have t: "\<not> ttl (ip_hdr b) < 1" "ttl (ip_hdr b) = 1 \<longleftrightarrow> ty = 11"
    using assms(7) by auto
  have "cpp_step env raw st = Inr (cpp_cleared st, [(cr_interfaces st ! nat (pkt_interface (cr_buf st)), bs)])"
    unfolding cpp_step_ip [OF assms(2) assms(5) [unfolded assms(4)]] cpp_ipv4_def Let_def
      assms(4) [symmetric] cpp_route_def [symmetric] if_not_P [OF t(1)]
    using v bs(1) assms(7) by (auto simp: cpp_cleared_def assms(4) cpp_route_def)
  with bs(2) show ?thesis
    by blast
qed

lemma iphdr_of_block:
  assumes "34 \<le> length b"
  shows "iphdr_of (block 14 20 b) = \<lparr>version = drop_bit 4 (b ! 14), ihl = b ! 14 AND 15, tos = b ! 15,
     tot_len = load16 16 b, ip_id = load16 18 b, frag_off = load16 20 b, ttl = b ! 22,
     protocol = b ! 23, check = load16 24 b, saddr = load32 26 b, daddr = load32 30 b\<rparr>"
  using assms by (simp add: iphdr_of_def load16_def load32_def nth_block)

lemma drop_write_before: "i + length ys \<le> k \<Longrightarrow> k \<le> length bs \<Longrightarrow> drop k (write_at i ys bs) = drop k bs"
  by (simp add: write_at_def)

lemma checksum_in_place:
  assumes "length b = 1600" and "k + n \<le> 1600" and "even i" and "i + 2 \<le> n" and "n < 2 ^ 32"
  shows "ip_checksum 2 (block k n (store16 (k + i)
    (ip_checksum 2 (block k n (store16 (k + i) 0 b))) (store16 (k + i) 0 b))) = 0"
proof -
  let ?d = "block k n b"
  have d: "length ?d = n"
    using assms(1,2) by simp
  have s: "block k n (store16 (k + i) w b') = store16 i w (block k n b')" if "length b' = 1600" for w b'
  proof -
    have "length (block k n b') = n"
      using assms(2) that by simp
    then have l: "length (store16 i w (block k n b')) = n"
      using assms(4) by (subst length_store16) simp_all
    show ?thesis
      using assms(2,4) that l by (subst store16_in_block) (auto simp: block_write_at_same)
  qed
  have twice: "store16 i w (store16 i 0 ?d) = store16 i w ?d" for w
    using assms(4) d by (simp add: store16_def write_at_twice)
  have len: "length (store16 (k + i) 0 b) = 1600"
    using assms(1,2,4) by simp
  show ?thesis
    unfolding s [OF len] s [OF assms(1)] twice
    by (rule checksum_stored_verifies) (use d assms(3-5) in simp_all)
qed

lemma echo_reply_fields:
  assumes "length b = 1600"
  defines "r \<equiv> echo_reply_bytes b"
  shows "block 0 14 r = block 0 14 b" and "saddr (ip_hdr r) = daddr (ip_hdr b)"
    and "daddr (ip_hdr r) = saddr (ip_hdr b)" and "ttl (ip_hdr r) = 64"
    and "ip_checksum 2 (block 14 20 r) = 0" and "r ! 34 = 0" and "r ! 35 = 0"
    and "ip_checksum 2 (block 34 8 r) = 0" and "drop 38 r = drop 38 b"
proof -
  define b1 where "b1 = write_at 35 [0] (write_at 34 [0] b)"
  define b2 where "b2 = write_at 26 (bytes32 (load32 30 b)) (write_at 30 (bytes32 (load32 26 b)) b1)"
  define b3 where "b3 = write_at 22 [64] b2"
  define b4 where "b4 = store16 24 0 b3"
  define b5 where "b5 = store16 24 (ip_checksum 2 (block 14 20 b4)) b4"
  define b6 where "b6 = store16 36 0 b5"
  have l1: "length b1 = 1600" by (simp add: b1_def assms(1))
  have l2: "length b2 = 1600" by (simp add: b2_def l1)
  have l3: "length b3 = 1600" by (simp add: b3_def l2)
  have l4: "length b4 = 1600" by (simp add: b4_def l3)
  have l5: "length b5 = 1600" by (simp add: b5_def l4)
  have l6: "length b6 = 1600" by (simp add: b6_def l5)
  have r: "r = store16 36 (ip_checksum 2 (block 34 8 b6)) b6"
    unfolding r_def echo_reply_bytes_def Let_def
    by (simp add: update_as_write assms(1) store32_def flip: b1_def)
      (simp add: b6_def b5_def b4_def b3_def b2_def l1 update_as_write)
  have l: "length r = 1600" by (simp add: r l6)
  note ls = l1 l2 l3 l4 l5 l6
  note rules = store16_def load_stored load16_write_at_other load32_write_at_other block_write_at_same
    block_write_at_before block_write_at_after nth_write_other nth_write_this assms(1) ls
  have top: "block 0 14 r = block 0 14 b3" "load32 26 r = load32 26 b3" "load32 30 r = load32 30 b3"
    "r ! 22 = b3 ! 22" "r ! 34 = b3 ! 34" "r ! 35 = b3 ! 35"
    by (simp_all add: r b6_def b5_def b4_def rules)
  have bot: "block 0 14 b3 = block 0 14 b" "load32 26 b3 = load32 30 b" "load32 30 b3 = load32 26 b"
    "b3 ! 22 = 64" "b3 ! 34 = 0" "b3 ! 35 = 0"
    by (simp_all add: b3_def b2_def b1_def rules)
  show "block 0 14 r = block 0 14 b" "r ! 34 = 0" "r ! 35 = 0"
    by (simp_all only: top bot)
  show "saddr (ip_hdr r) = daddr (ip_hdr b)" "daddr (ip_hdr r) = saddr (ip_hdr b)" "ttl (ip_hdr r) = 64"
    using top bot l assms(1) by (simp_all add: ip_hdr_def iphdr_of_block)
  have "block 14 20 r = block 14 20 b5"
    by (simp add: r b6_def rules)
  also have "ip_checksum 2 \<dots> = 0"
    using checksum_in_place [OF l3, of 14 20 10] by (simp add: b5_def b4_def)
  finally show "ip_checksum 2 (block 14 20 r) = 0" .
  show "ip_checksum 2 (block 34 8 r) = 0"
    using checksum_in_place [OF l5, of 34 8 2] by (simp add: r b6_def)
  show "drop 38 r = drop 38 b"
    by (simp add: r b6_def b5_def b4_def b3_def b2_def b1_def drop_write_before rules)
qed

text \<open>
  The echo reply of the C++ router. An echo request for the address of the receiving interface is
  answered in place: the IP addresses are exchanged, the TTL is 64, type and code are 0, and the
  header checksum verifies; but the Ethernet addresses are not exchanged, so the reply goes to the
  router's own hardware address, and the ICMP checksum is that of the first 8 bytes only, whatever
  data follows.
\<close>

theorem cpp_router_echo_reply:
  assumes "net_ok env" and "cpp_ok st" and "b = payload (cr_buf st)"
    and "ether_type (ether_of b) = htons ETHERTYPE_IP" and "ip_valid b" and "1 < ttl (ip_hdr b)"
    and "e_prefix (cpp_route st) \<noteq> 0" and "protocol (ip_hdr b) = 1" and "b ! 34 = 8"
    and "daddr (ip_hdr b) = cpp_router_ip env (pkt_interface (cr_buf st))"
  shows "\<exists>r st'. cpp_step env raw st = Inr (st',
      [(cr_interfaces st ! nat (pkt_interface (cr_buf st)), take (nat (pkt_len (cr_buf st))) r)]) \<and>
    length r = MAX_LEN \<and> block 0 14 r = block 0 14 b \<and> saddr (ip_hdr r) = daddr (ip_hdr b) \<and>
    daddr (ip_hdr r) = saddr (ip_hdr b) \<and> ttl (ip_hdr r) = 64 \<and> ip_checksum 2 (block 14 20 r) = 0 \<and>
    r ! 34 = 0 \<and> r ! 35 = 0 \<and> ip_checksum 2 (block 34 8 r) = 0 \<and> drop 38 r = drop 38 b"
proof -
  note ok = cpp_okD [OF assms(2)]
  let ?c = "store16 24 0 b" and ?m = "cr_buf st"
  have c: "length ?c = 1600" "ip_hdr ?c = (ip_hdr b)\<lparr>check := 0\<rparr>"
    using ok(7) by (simp_all add: assms(3) ip_hdr_store_check)
  have i: "0 \<le> pkt_interface ?m" "pkt_interface ?m < 4" "0 \<le> pkt_len ?m" "pkt_len ?m \<le> 1600"
    using ok(3) by (simp_all add: cpp_pkt_ok_def MAX_LEN_def)
  have v: "ip_checksum 2 (block 14 20 ?c) = check (ip_hdr b)"
    using assms(5) ok(7) by (simp add: ip_valid_def ip_hdr_store_check assms(3))
  have t: "\<not> ttl (ip_hdr b) < 1" "ttl (ip_hdr b) \<noteq> 1"
    using assms(6) by auto
  have send: "cpp_send_packet env (cr_interfaces st) (pkt_interface ?m) (?m\<lparr>payload := echo_reply_bytes ?c\<rparr>) =
      Inr (cr_interfaces st ! nat (pkt_interface ?m), take (nat (pkt_len ?m)) (echo_reply_bytes ?c))"
    by (subst cpp_send_ok [OF assms(1) ok(1) i(1,2)]) (simp_all add: c i)
  have n34: "?c ! 34 = 8"
    using cleared_nth34 [of b] ok(7) assms(3,9) by simp
  have "\<exists>st'. cpp_step env raw st = Inr (st',
      [(cr_interfaces st ! nat (pkt_interface ?m), take (nat (pkt_len ?m)) (echo_reply_bytes ?c))])"
    unfolding cpp_step_ip [OF assms(2) assms(4) [unfolded assms(3)]] cpp_ipv4_def Let_def
      assms(3) [symmetric] if_not_P [OF t(1)] if_not_P [OF t(2)]
    using v assms(7,8,10) n34 send by (simp add: sendICMPReply_def Let_def cpp_route_def assms(3))
  moreover note echo_reply_fields [OF c(1)]
  moreover have "block 0 14 ?c = block 0 14 b" "drop 38 ?c = drop 38 b"
    using ok(7) by (simp_all add: assms(3) store16_def block_write_at_before drop_write_before)
  moreover have "length (echo_reply_bytes ?c) = MAX_LEN"
    using c(1) by (simp add: MAX_LEN_def)
  ultimately show ?thesis
    by (auto simp: c(2))
qed

end
