(* ===== verification/Cpp_Demo.thy ===== *)
theory Cpp_Demo
  imports Cpp_Props
begin

text \<open>
  The properties of the C++ router at concrete states: a router with the interfaces of the demonstration
  environment of the other routers and one route, 10.0.1.0/24 or 10.0.0.0/24.
\<close>

section \<open>A concrete router\<close>

definition demo_entry :: rTableEntry where
  "demo_entry = new_entry 0x0001000A 0x0201000A 0xFFFFFF00 1"

definition echo_entry :: rTableEntry where
  "echo_entry = new_entry 0x0000000A 0 0xFFFFFF00 0"

definition demo_cpp :: "rTableEntry \<Rightarrow> (u32 \<times> arp_entry) list \<Rightarrow> packet list \<Rightarrow> u8 list \<Rightarrow> cpp_router" where
  "demo_cpp e tab q bs = \<lparr>cr_interfaces = [3, 4, 5, 6], cr_trie = build_trie [e], arpTable = tab, cr_queue = q,
     cr_buf = demo_packet bs\<rparr>"

text \<open>An environment in which the first interface of every router has the address 10.0.0.1.\<close>

definition demo_cpp_env :: net_env where
  "demo_cpp_env = demo_env\<lparr>ioctl_addr := (\<lambda>_. 0x0100000A)\<rparr>"

lemma demo_cpp_env_ok: "net_ok demo_cpp_env"
  using demo_net_ok by (simp add: demo_cpp_env_def net_ok_def env_ok_def)

lemma demo_cpp_simps [simp]:
  "cr_buf (demo_cpp e tab q bs) = demo_packet bs" "arpTable (demo_cpp e tab q bs) = tab"
  "cr_queue (demo_cpp e tab q bs) = q" "cr_trie (demo_cpp e tab q bs) = build_trie [e]"
  "cr_interfaces (demo_cpp e tab q bs) = [3, 4, 5, 6]"
  by (simp_all add: demo_cpp_def)

lemma demo_entry_simps [simp]:
  "e_interface demo_entry = 1" "e_prefix demo_entry = 0x0001000A"
  "e_interface echo_entry = 0" "e_prefix echo_entry = 0x0000000A"
  by (simp_all add: demo_entry_def echo_entry_def new_entry_def)

lemma demo_found:
  "findBestEntry (build_trie [demo_entry]) 0x0201000A = demo_entry"
  "findBestEntry (build_trie [echo_entry]) 0x0100000A = echo_entry"
  by code_simp+

lemma demo_packet_cpp: "length bs \<le> 1600 \<Longrightarrow> cpp_pkt_ok (demo_packet bs)"
  by (simp add: cpp_pkt_ok_def demo_packet_def MAX_LEN_def)

lemma demo_cpp_ok:
  assumes "length bs \<le> 1600" and "0 \<le> e_interface e" and "e_interface e < 4"
    and "\<forall>x \<in> snd ` set tab. length (mac x) = 6" and "distinct (map fst tab)"
    and "\<forall>p \<in> set q. cpp_pkt_ok p \<and> asked_for tab p"
  shows "cpp_ok (demo_cpp e tab q bs)"
  using assms build_trie_ok [of "[e]"] demo_packet_cpp [of bs] by (simp add: cpp_ok_def)

definition demo_resolved :: "(u32 \<times> arp_entry) list" where
  "demo_resolved = [(0x0201000A, demo_arp)]"

lemma demo_udp_ok: "cpp_ok (demo_cpp demo_entry [] [] (udp_frame t c))"
  "cpp_ok (demo_cpp demo_entry demo_resolved [] (udp_frame t c))"
  by (simp_all add: demo_cpp_ok demo_resolved_def demo_arp_def)

lemma demo_transit: "cpp_transit env (demo_cpp demo_entry tab q (udp_frame 64 0x65CD))"
  by (simp add: cpp_transit_def Let_def demo_blocks udp_frame_valid demo_found word_less_nat_alt)

section \<open>The witnesses\<close>

theorem cpp_router_forwards_witness:
  "let st = demo_cpp demo_entry demo_resolved [] (udp_frame 64 0x65CD) in
    \<exists>b'. cpp_step demo_env [] st =
      Inr (st\<lparr>cr_buf := (cr_buf st)\<lparr>payload := b'\<rparr>\<rparr>,
        [(cr_interfaces st ! nat (e_interface (cpp_route st)), take (nat (pkt_len (cr_buf st))) b')]) \<and>
    (let b = payload (cr_buf st); h = ip_hdr b
     in block 0 6 b' = mac demo_arp \<and> block 6 8 b' = block 6 8 b \<and> drop 34 b' = drop 34 b \<and>
        ip_hdr b' = h\<lparr>ttl := ttl h - 1, check := check (ip_hdr b')\<rparr> \<and>
        ip_checksum 2 (block 14 20 b') = 0)"
  unfolding Let_def [of "demo_cpp _ _ _ _"]
  by (rule cpp_router_forwards [OF demo_net_ok demo_udp_ok(2) demo_transit])
    (simp add: demo_blocks demo_resolved_def)

theorem cpp_router_unresolved_witness:
  "let st = demo_cpp demo_entry [] [] (udp_frame 64 0x65CD) in
    \<exists>st1 bs. cpp_step demo_env (replicate 1600 1) st =
      Inr (st1, [(cr_interfaces st ! nat (e_interface (cpp_route st)), bs)]) \<and>
    cr_queue st1 = cr_queue st @ [cr_buf (cpp_cleared st)] \<and>
    arp_op (arp_hdr bs) = htons 1 \<and> tpa (arp_hdr bs) = cpp_dest st \<and>
    (\<exists>st2 bs'. cpp_step demo_env [] (st1\<lparr>cr_buf := demo_packet (udp_frame 64 0x65CD)\<rparr>) =
        Inr (st2, [(cr_interfaces st ! nat (e_interface (cpp_route st)), bs')]) \<and>
      take 6 bs' = replicate 6 0 \<and> cr_queue st2 = cr_queue st1)"
  unfolding Let_def [of "demo_cpp _ _ _ _"]
proof (rule cpp_router_unresolved [OF demo_net_ok demo_udp_ok(1) demo_transit])
  have "(demo_cpp demo_entry [] [] (udp_frame 64 0x65CD))\<lparr>cr_buf := demo_packet (udp_frame 64 0x65CD)\<rparr> =
      demo_cpp demo_entry [] [] (udp_frame 64 0x65CD)"
    by (simp add: demo_cpp_def)
  then show "cpp_transit demo_env
      ((demo_cpp demo_entry [] [] (udp_frame 64 0x65CD))\<lparr>cr_buf := demo_packet (udp_frame 64 0x65CD)\<rparr>)"
    by (simp only: demo_transit)
qed (simp_all add: MAX_LEN_def demo_packet_cpp, simp add: demo_packet_def)

theorem cpp_router_flushes_witness:
  "let st = demo_cpp demo_entry [(0x0201000A, ARPEntry0)] [demo_packet (udp_frame 64 0)] (arp_frame 2 2);
      a = arp_hdr (payload (cr_buf st));
      tab = AList.update (spa a) \<lparr>ip = spa a, mac = sha a\<rparr> (arpTable st)
    in cpp_step demo_env [] st = Inr (st\<lparr>arpTable := tab, cr_queue := []\<rparr>,
      map (\<lambda>p. let dest = daddr (ip_hdr (payload p))
        in (cr_interfaces st ! nat (e_interface (findBestEntry (cr_trie st) dest)),
            take (nat (pkt_len p)) (write_at 0 (mac (the (map_of tab dest))) (update_ip (payload p)))))
        (cr_queue st))"
  unfolding Let_def [of "demo_cpp _ _ _ _"]
proof (rule cpp_router_flushes [OF demo_net_ok demo_cpp_ok])
  show "\<forall>p \<in> set [demo_packet (udp_frame 64 0)]. cpp_pkt_ok p \<and> asked_for [(0x0201000A, ARPEntry0)] p"
    by (simp add: demo_packet_cpp asked_for_def demo_blocks)
qed (simp_all add: ARPEntry0_def demo_blocks demo_arp_hdr)

theorem cpp_router_icmp_errors_witness:
  "let st = demo_cpp demo_entry [] [] (udp_frame 1 0xA4CD); b = payload (cr_buf st) in
    \<exists>bs. cpp_step demo_env (replicate 1600 1) st =
      Inr (cpp_cleared st, [(cr_interfaces st ! nat (pkt_interface (cr_buf st)), bs)]) \<and>
    icmp_reply_ok bs (block 0 6 b) (block 6 6 b) (saddr (ip_hdr b)) (daddr (ip_hdr b)) 11 0"
  unfolding Let_def
  by (rule cpp_router_icmp_errors [OF demo_net_ok demo_udp_ok(1) _ refl])
    (simp_all add: demo_blocks udp_frame_valid MAX_LEN_def)

theorem cpp_router_echo_reply_witness:
  "let st = demo_cpp echo_entry [] [] echo_frame; b = payload (cr_buf st) in
    \<exists>r st'. cpp_step demo_cpp_env [] st = Inr (st',
      [(cr_interfaces st ! nat (pkt_interface (cr_buf st)), take (nat (pkt_len (cr_buf st))) r)]) \<and>
    length r = MAX_LEN \<and> block 0 14 r = block 0 14 b \<and> saddr (ip_hdr r) = daddr (ip_hdr b) \<and>
    daddr (ip_hdr r) = saddr (ip_hdr b) \<and> ttl (ip_hdr r) = 64 \<and> ip_checksum 2 (block 14 20 r) = 0 \<and>
    r ! 34 = 0 \<and> r ! 35 = 0 \<and> ip_checksum 2 (block 34 8 r) = 0 \<and> drop 38 r = drop 38 b"
  unfolding Let_def
proof (rule cpp_router_echo_reply [OF demo_cpp_env_ok _ refl])
  show "cpp_ok (demo_cpp echo_entry [] [] echo_frame)"
    by (simp add: demo_cpp_ok)
  show "e_prefix (cpp_route (demo_cpp echo_entry [] [] echo_frame)) \<noteq> 0"
    by (simp add: cpp_route_def demo_blocks demo_found)
  show "payload (cr_buf (demo_cpp echo_entry [] [] echo_frame)) ! 34 = 8"
    by (simp add: demo_packet_def echo_frame_def)
qed (simp_all add: demo_blocks echo_frame_valid demo_cpp_env_def cpp_router_ip_def word_less_nat_alt)

end
