(* ===== verification/Frame_Origin.thy ===== *)
theory Frame_Origin
  imports Router_Props
begin

text \<open>
  Where a sent frame comes from, for the routers of \<open>Teme/Tema1\<close> and \<open>pc pirvu\<close>: the packets a router has
  received from a sequence of \<open>select\<close> results, and a packet sent on.
\<close>

text \<open>
  \<open>p\<close> is a frame that was ready on one of the first \<open>k\<close> interfaces, in a buffer that may hold other bytes
  behind it.
\<close>

definition received :: "int \<Rightarrow> readable list list \<Rightarrow> packet \<Rightarrow> bool" where
  "received k sels p \<longleftrightarrow> (\<exists>sel \<in> set sels. \<exists>i bs. int i < k \<and> i < length sel \<and> sel ! i = Ready bs \<and>
    pkt_interface p = int i \<and> pkt_len p = int (min MAX_LEN (length bs)) \<and>
    take (nat (pkt_len p)) (payload p) = take MAX_LEN bs)"

lemma scan_ready_received:
  assumes "scan_ready j rs m = Inr (Some p)" and "length (payload m) = MAX_LEN"
  shows "\<exists>i bs. i < length rs \<and> rs ! i = Ready bs \<and> pkt_interface p = j + int i \<and>
    pkt_len p = int (min MAX_LEN (length bs)) \<and> take (nat (pkt_len p)) (payload p) = take MAX_LEN bs"
  using assms
proof (induction j rs m rule: scan_ready.induct)
  case (2 j r rs m)
  show ?case
  proof (cases "r = Not_Ready")
    case True
    then obtain i bs where "i < length rs" "rs ! i = Ready bs" "pkt_interface p = j + 1 + int i"
        "pkt_len p = int (min MAX_LEN (length bs))" "take (nat (pkt_len p)) (payload p) = take MAX_LEN bs"
      using 2 by auto
    then show ?thesis
      by (intro exI [of _ "Suc i"] exI [of _ bs]) simp
  next
    case False
    with "2.prems" obtain bs where "r = Ready bs"
      by (cases r) (auto simp: socket_receive_message_def)
    with "2.prems" show ?thesis
      by (intro exI [of _ 0] exI [of _ bs]) (auto simp: socket_receive_message_def Let_def write_at_def min_def)
  qed
qed simp

lemma scan_ready_in_sels:
  assumes "scan_ready 0 (take (nat k) sel) m = Inr (Some p)" and "length (payload m) = MAX_LEN" and "sel \<in> set sels"
  shows "received k sels p"
proof -
  obtain i bs where i: "i < length (take (nat k) sel)" "take (nat k) sel ! i = Ready bs" "pkt_interface p = 0 + int i"
      "pkt_len p = int (min MAX_LEN (length bs))" "take (nat (pkt_len p)) (payload p) = take MAX_LEN bs"
    using scan_ready_received [OF assms(1,2)] by blast
  then have "int i < k" "i < length sel" "sel ! i = Ready bs"
    by auto
  with i(3-5) assms(3) show ?thesis
    unfolding received_def by (metis add_0)
qed

lemma received_mono: "received k sels p \<Longrightarrow> set sels \<subseteq> set sels' \<Longrightarrow> received k sels' p"
  unfolding received_def by blast

text \<open>
  The bytes \<open>bs\<close> are those of \<open>p\<close> after one hop: as many of them, the same type, the TTL one less, a
  checksum that verifies, and nothing else changed but the two hardware addresses.
\<close>

definition resent :: "packet \<Rightarrow> u8 list \<Rightarrow> bool" where
  "resent p bs \<longleftrightarrow> (let b = payload p; h = ip_hdr b in \<exists>b'.
    bs = take (nat (pkt_len p)) b' \<and> length b' = MAX_LEN \<and> block 12 2 b' = block 12 2 b \<and>
    ip_hdr b' = h\<lparr>ttl := ttl h - 1, check := check (ip_hdr b')\<rparr> \<and>
    ip_checksum 2 (block 14 20 b') = 0 \<and> drop 34 b' = drop 34 b)"

lemma update_cleared:
  assumes "length b = 1600"
  shows "length (update_ip (store16 24 0 b)) = 1600"
    and "block 12 2 (update_ip (store16 24 0 b)) = block 12 2 b"
    and "ip_hdr (update_ip (store16 24 0 b)) =
      (ip_hdr b)\<lparr>ttl := ttl (ip_hdr b) - 1, check := check (ip_hdr (update_ip (store16 24 0 b)))\<rparr>"
    and "drop 34 (update_ip (store16 24 0 b)) = drop 34 b"
proof -
  have c: "34 \<le> length (store16 24 0 b)" "ip_hdr (store16 24 0 b) = (ip_hdr b)\<lparr>check := 0\<rparr>"
    using assms by (simp_all add: ip_hdr_store_check)
  note u = update_ip_props [OF c(1)]
  show "length (update_ip (store16 24 0 b)) = 1600"
    using u(1) assms by simp
  have "take 14 (store16 24 0 b) = take 14 b"
    using assms by (simp add: store16_def write_at_def)
  then show "block 12 2 (update_ip (store16 24 0 b)) = block 12 2 b"
    using u(4) by (simp add: block_def take_drop)
  show "ip_hdr (update_ip (store16 24 0 b)) =
      (ip_hdr b)\<lparr>ttl := ttl (ip_hdr b) - 1, check := check (ip_hdr (update_ip (store16 24 0 b)))\<rparr>"
    using u(2) by (simp add: c(2))
  show "drop 34 (update_ip (store16 24 0 b)) = drop 34 b"
    using u(5) assms by (simp add: drop_store16)
qed

text \<open>Writing the hardware addresses does not touch the rest.\<close>

lemma resentI:
  assumes "length (payload p) = MAX_LEN" and "length f = MAX_LEN"
    and "drop 12 f = drop 12 (update_ip (store16 24 0 (payload p)))"
  shows "resent p (take (nat (pkt_len p)) f)"
proof -
  let ?u = "update_ip (store16 24 0 (payload p))"
  have b: "length (payload p) = 1600"
    using assms(1) by (simp add: MAX_LEN_def)
  have same: "block i n f = block i n ?u" if "12 \<le> i" for i n
  proof -
    have "block i n f = take n (drop (i - 12) (drop 12 f))" "block i n ?u = take n (drop (i - 12) (drop 12 ?u))"
      using that by (simp_all add: block_def)
    with assms(3) show ?thesis
      by simp
  qed
  have "drop 34 f = drop 22 (drop 12 f)"
    by simp
  also have "\<dots> = drop 34 ?u"
    by (simp add: assms(3))
  finally have "drop 34 f = drop 34 ?u" .
  moreover have "ip_hdr f = ip_hdr ?u"
    by (simp add: ip_hdr_def same)
  moreover have "ip_checksum 2 (block 14 20 ?u) = 0"
    using update_ip_props(3) [of "store16 24 0 (payload p)" 2] b by simp
  ultimately show ?thesis
    unfolding resent_def Let_def
    by (intro exI [of _ f]) (simp add: assms(2) same update_cleared(2,4) [OF b] flip: update_cleared(3) [OF b])
qed

lemma drop_write_low:
  assumes "i + length ys \<le> 12" and "12 \<le> length b"
  shows "drop 12 (write_at i ys b) = drop 12 b"
  using assms by (simp add: write_at_def)

end
