(* ===== verification/Cpp_Traffic.thy ===== *)
theory Cpp_Traffic
  imports Cpp_Props Frame_Origin
begin

text \<open>
  What leaves the C++ router in a whole run: every frame sent is caused by one received packet, and
  there are at most two frames for each. With it the run itself: it does not fail, and the invariant
  holds at its end.
\<close>

section \<open>Causes\<close>

abbreviation cpp_dst :: "packet \<Rightarrow> u32" where
  "cpp_dst p \<equiv> daddr (ip_hdr (payload p))"

definition valid_ip :: "packet \<Rightarrow> bool" where
  "valid_ip p \<longleftrightarrow> ether_type (ether_of (payload p)) = htons ETHERTYPE_IP \<and> ip_valid (payload p)"

text \<open>An echo request for the address of the interface it came from.\<close>

definition cpp_echo :: "net_env \<Rightarrow> packet \<Rightarrow> bool" where
  "cpp_echo env p \<longleftrightarrow> protocol (ip_hdr (payload p)) = 1 \<and> payload p ! 34 = 8 \<and>
    cpp_dst p = cpp_router_ip env (pkt_interface p)"

definition cpp_routed :: "net_env \<Rightarrow> trieNode \<Rightarrow> packet \<Rightarrow> bool" where
  "cpp_routed env t p \<longleftrightarrow> valid_ip p \<and> 1 < ttl (ip_hdr (payload p)) \<and>
    e_prefix (findBestEntry t (cpp_dst p)) \<noteq> 0 \<and> \<not> cpp_echo env p"

text \<open>The socket of the route of \<open>p\<close>, and of the interface it came from.\<close>

definition cpp_out :: "int list \<Rightarrow> trieNode \<Rightarrow> packet \<Rightarrow> int" where
  "cpp_out socks t p = socks ! nat (e_interface (findBestEntry t (cpp_dst p)))"

definition cpp_in :: "int list \<Rightarrow> packet \<Rightarrow> int" where
  "cpp_in socks p = socks ! nat (pkt_interface p)"

text \<open>The ARP reply to \<open>p\<close> with the address \<open>hw\<close>, as long as \<open>p\<close>.\<close>

definition arp_reply_to :: "packet \<Rightarrow> u8 list \<Rightarrow> u8 list \<Rightarrow> bool" where
  "arp_reply_to p hw bs \<longleftrightarrow> (let b = payload p; a = arp_hdr b in \<exists>f.
    bs = take (nat (pkt_len p)) f \<and> length f = MAX_LEN \<and> block 0 6 f = block 6 6 b \<and> block 6 6 f = hw \<and>
    block 12 2 f = block 12 2 b \<and>
    arp_hdr f = a\<lparr>arp_op := htons 2, sha := hw, spa := tpa a, tha := sha a, tpa := spa a\<rparr>)"

text \<open>The echo reply: the packet with exchanged IP addresses, type and code 0, and new checksums.\<close>

definition echo_reply_to :: "packet \<Rightarrow> u8 list \<Rightarrow> bool" where
  "echo_reply_to p bs \<longleftrightarrow> (let b = payload p in \<exists>r. bs = take (nat (pkt_len p)) r \<and> length r = MAX_LEN \<and>
    saddr (ip_hdr r) = daddr (ip_hdr b) \<and> daddr (ip_hdr r) = saddr (ip_hdr b) \<and> r ! 34 = 0 \<and> r ! 35 = 0 \<and>
    ip_checksum 2 (block 14 20 r) = 0 \<and> drop 38 r = drop 38 b)"

inductive cpp_caused :: "net_env \<Rightarrow> int list \<Rightarrow> trieNode \<Rightarrow> packet \<Rightarrow> frame \<Rightarrow> bool"
  for env :: net_env and socks :: "int list" and t :: trieNode and p :: packet
where
  cpp_arp_answered: "ether_type (ether_of (payload p)) = htons ETHERTYPE_ARP \<Longrightarrow>
    arp_op (arp_hdr (payload p)) = htons 1 \<Longrightarrow>
    (tpa (arp_hdr (payload p)) = cpp_router_ip env (pkt_interface p) \<longrightarrow>
      cpp_interface_mac env socks (pkt_interface p) = Inr hw) \<Longrightarrow>
    arp_reply_to p hw bs \<Longrightarrow> cpp_caused env socks t p (cpp_in socks p, bs)"
| cpp_icmp_error: "valid_ip p \<Longrightarrow>
    ttl (ip_hdr (payload p)) = 1 \<and> ty = 11 \<or>
      1 < ttl (ip_hdr (payload p)) \<and> e_prefix (findBestEntry t (cpp_dst p)) = 0 \<and> ty = 3 \<Longrightarrow>
    icmp_reply_ok bs (block 0 6 (payload p)) (block 6 6 (payload p)) (saddr (ip_hdr (payload p)))
      (cpp_dst p) ty 0 \<Longrightarrow> cpp_caused env socks t p (cpp_in socks p, bs)"
| cpp_echoed: "valid_ip p \<Longrightarrow> 1 < ttl (ip_hdr (payload p)) \<Longrightarrow> cpp_echo env p \<Longrightarrow> echo_reply_to p bs \<Longrightarrow>
    cpp_caused env socks t p (cpp_in socks p, bs)"
| cpp_asked: "cpp_routed env t p \<Longrightarrow> length bs = 42 \<Longrightarrow> ether_dhost (ether_of bs) = replicate 6 0xff \<Longrightarrow>
    arp_op (arp_hdr bs) = htons 1 \<Longrightarrow> tpa (arp_hdr bs) = cpp_dst p \<Longrightarrow>
    spa (arp_hdr bs) = cpp_router_ip env (e_interface (findBestEntry t (cpp_dst p))) \<Longrightarrow>
    cpp_caused env socks t p (cpp_out socks t p, bs)"
| cpp_passed_on: "cpp_routed env t p \<Longrightarrow> resent p bs \<Longrightarrow> cpp_caused env socks t p (cpp_out socks t p, bs)"

definition cpp_explained :: "net_env \<Rightarrow> int list \<Rightarrow> trieNode \<Rightarrow> readable list list \<Rightarrow> frame \<Rightarrow> bool" where
  "cpp_explained env socks t sels f \<longleftrightarrow> (\<exists>p. received 4 sels p \<and> cpp_caused env socks t p f)"

text \<open>A packet in the queue is a received one, with its checksum field cleared.\<close>

definition cpp_origin :: "net_env \<Rightarrow> trieNode \<Rightarrow> readable list list \<Rightarrow> packet \<Rightarrow> bool" where
  "cpp_origin env t sels q \<longleftrightarrow> (\<exists>p. received 4 sels p \<and> length (payload p) = 1600 \<and> cpp_routed env t p \<and>
    q = p\<lparr>payload := store16 24 0 (payload p)\<rparr>)"

section \<open>The frames\<close>

lemma arp_reply_fields:
  assumes b: "length b = 1600" and raw: "length raw = 1600" and hw: "length hw = 6"
    and b1: "b1 = write_at 0 (block 6 6 b) raw" and b2: "b2 = write_at 6 hw b1"
    and b3: "b3 = write_at 12 (block 12 2 b) b2" and b4: "b4 = write_at 14 (block 14 28 b) b3"
    and b5: "b5 = write_at 20 (bytes16 (htons 2)) b4" and b6: "b6 = write_at 38 (block 28 4 b) b5"
    and b7: "b7 = write_at 32 (block 22 6 b) b6" and b8: "b8 = write_at 28 (block 38 4 b) b7"
    and f: "f = write_at 22 hw b8"
  shows "length f = 1600" and "block 0 6 f = block 6 6 b" and "block 6 6 f = hw" and "block 12 2 f = block 12 2 b"
    and "arp_hdr f = (arp_hdr b)\<lparr>arp_op := htons 2, sha := hw, spa := tpa (arp_hdr b),
      tha := sha (arp_hdr b), tpa := spa (arp_hdr b)\<rparr>"
proof -
  have l1: "length b1 = 1600" by (simp add: b1 raw b)
  have l2: "length b2 = 1600" by (simp add: b2 l1 hw)
  have l3: "length b3 = 1600" by (simp add: b3 l2 b)
  have l4: "length b4 = 1600" by (simp add: b4 l3 b)
  have l5: "length b5 = 1600" by (simp add: b5 l4)
  have l6: "length b6 = 1600" by (simp add: b6 l5 b)
  have l7: "length b7 = 1600" by (simp add: b7 l6 b)
  have l8: "length b8 = 1600" by (simp add: b8 l7 b)
  show l: "length f = 1600" by (simp add: f l8 hw)
  note rules = block_write_at_same block_write_at_before block_write_at_after load16_write_at_other
    load32_write_at_other load_stored b raw hw l1 l2 l3 l4 l5 l6 l7 l8
  show "block 0 6 f = block 6 6 b" "block 6 6 f = hw" "block 12 2 f = block 12 2 b"
    by (simp_all add: f b8 b7 b6 b5 b4 b3 b2 b1 rules)
  have four: "block 28 4 f = block 38 4 b" "block 38 4 f = block 28 4 b"
    by (simp_all add: f b8 b7 b6 rules)
  have words: "load32 28 f = load32 38 b" "load32 38 f = load32 28 b"
    using four by (simp_all add: load32_eq_block l b)
  have b4_blk: "block 14 28 b4 = block 14 28 b"
    by (simp add: b4 rules)
  have b4_sub: "block (14 + i) n b4 = block (14 + i) n b" if "i + n \<le> 28" for i n
  proof -
    have "block (14 + i) n b4 = block i n (block 14 28 b4)" "block (14 + i) n b = block i n (block 14 28 b)"
      using that by (simp_all add: block_block)
    then show ?thesis
      by (simp add: b4_blk)
  qed
  have low: "block 14 6 f = block 14 6 b"
    using b4_sub [of 0 6] by (simp add: f b8 b7 b6 b5 rules)
  have "load16 14 f = load16 14 b" "load16 16 f = load16 16 b" "f ! 18 = b ! 18" "f ! 19 = b ! 19"
  proof -
    have n: "f ! (14 + i) = b ! (14 + i)" if "i < 6" for i
    proof -
      have "block 14 6 f ! i = block 14 6 b ! i"
        by (simp add: low)
      then show ?thesis
        using that l b by (simp add: nth_block)
    qed
    show "load16 14 f = load16 14 b" "load16 16 f = load16 16 b" "f ! 18 = b ! 18" "f ! 19 = b ! 19"
      using n [of 0] n [of 1] n [of 2] n [of 3] n [of 4] n [of 5] by (simp_all add: load16_def)
  qed
  moreover have "load16 20 f = htons 2" "block 22 6 f = hw" "block 32 6 f = block 22 6 b"
    by (simp_all add: f b8 b7 b6 b5 rules)
  ultimately show "arp_hdr f = (arp_hdr b)\<lparr>arp_op := htons 2, sha := hw, spa := tpa (arp_hdr b),
      tha := sha (arp_hdr b), tpa := spa (arp_hdr b)\<rparr>"
    using words l b by (simp add: arp_hdr_def arp_of_block)
qed

lemma sendARPReply_frame:
  assumes "net_ok env" "length socks = 4" "cpp_pkt_ok p" "length raw = 1600" "length hw = 6"
  shows "\<exists>bs. sendARPReply env socks raw p hw = Inr (cpp_in socks p, bs) \<and> arp_reply_to p hw bs"
proof -
  have p: "length (payload p) = 1600" "0 \<le> pkt_len p" "pkt_len p \<le> 1600" "0 \<le> pkt_interface p" "pkt_interface p < 4"
    using assms(3) by (simp_all add: cpp_pkt_ok_def MAX_LEN_def)
  let ?b = "payload p"
  define f where "f = write_at 22 hw (write_at 28 (block 38 4 ?b) (write_at 32 (block 22 6 ?b)
    (write_at 38 (block 28 4 ?b) (write_at 20 (bytes16 (htons 2)) (write_at 14 (block 14 28 ?b)
      (write_at 12 (block 12 2 ?b) (write_at 6 hw (write_at 0 (block 6 6 ?b) raw))))))))"
  note fields = arp_reply_fields [OF p(1) assms(4,5) refl refl refl refl refl refl refl refl f_def]
  have "sendARPReply env socks raw p hw = Inr (cpp_in socks p, take (nat (pkt_len p)) f)"
    unfolding sendARPReply_def Let_def cpp_in_def store16_def f_def [symmetric]
    by (subst cpp_send_ok [OF assms(1,2) p(4,5)]) (simp_all add: p fields(1))
  moreover have "arp_reply_to p hw (take (nat (pkt_len p)) f)"
    unfolding arp_reply_to_def Let_def by (intro exI [of _ f]) (simp add: fields MAX_LEN_def)
  ultimately show ?thesis
    by blast
qed

section \<open>One iteration\<close>

lemma cpp_step_interfaces:
  assumes "cpp_step env raw st = Inr (st', out)"
  shows "cr_interfaces st' = cr_interfaces st"
  using assms
  by (auto simp: cpp_step_def cpp_arp_request_def cpp_arp_reply_def cpp_ipv4_def cpp_forward_def Let_def
      elim!: rbind_InrE split: if_splits option.splits)

lemma cpp_transit_eq:
  "cpp_transit env st \<longleftrightarrow> cpp_routed env (cr_trie st) (cr_buf st)"
  by (auto simp: cpp_transit_def cpp_routed_def valid_ip_def cpp_echo_def Let_def)

text \<open>Only a packet to be routed changes the queue.\<close>

lemma cpp_step_ip_queue:
  assumes "cpp_ok st" and "ether_type (ether_of (payload (cr_buf st))) = htons ETHERTYPE_IP"
    and "\<not> cpp_transit env st" and "cpp_step env raw st = Inr (st', out)"
  shows "cr_queue st' = cr_queue st"
proof -
  have len: "length (payload (cr_buf st)) = 1600"
    by (rule cpp_okD(7) [OF assms(1)])
  have v: "ip_checksum 2 (block 14 20 (store16 24 0 (payload (cr_buf st)))) = check (ip_hdr (payload (cr_buf st))) \<longleftrightarrow>
      ip_valid (payload (cr_buf st))"
    using len by (auto simp: ip_valid_def ip_hdr_store_check)
  have t: "1 < x" if "\<not> x < 1" "x \<noteq> 1" for x :: u8
    using that by (simp add: not_less less_le)
  show ?thesis
    using assms(3,4) t [of "ttl (ip_hdr (payload (cr_buf st)))"] len
    unfolding cpp_step_ip [OF assms(1,2)] cpp_ipv4_def Let_def
    by (auto simp: v cpp_transit_def Let_def assms(2) cleared_nth34 elim!: rbind_InrE split: if_splits)
qed

definition cpp_traced :: "net_env \<Rightarrow> readable list list \<Rightarrow> cpp_router \<Rightarrow> cpp_router \<Rightarrow> frame list \<Rightarrow> bool" where
  "cpp_traced env sels st st' out \<longleftrightarrow>
    list_all (cpp_explained env (cr_interfaces st) (cr_trie st) sels) out \<and>
    list_all (cpp_origin env (cr_trie st) sels) (cr_queue st') \<and>
    length out + length (cr_queue st') \<le> length (cr_queue st) + 2"

lemma cpp_tracedI:
  assumes "list_all (cpp_origin env (cr_trie st) sels) (cr_queue st)" and "cr_queue st' = cr_queue st"
    and "received 4 sels (cr_buf st)" and "cpp_caused env (cr_interfaces st) (cr_trie st) (cr_buf st) f"
  shows "cpp_traced env sels st st' [f]"
  using assms by (auto simp: cpp_traced_def cpp_explained_def)

lemma cpp_traced_none:
  "list_all (cpp_origin env (cr_trie st) sels) (cr_queue st) \<Longrightarrow> cr_queue st' = cr_queue st \<Longrightarrow>
    cpp_traced env sels st st' []"
  by (simp add: cpp_traced_def)

lemma cpp_arp_traced:
  assumes "net_ok env" and "cpp_ok st" and "length raw = 1600"
    and "list_all (cpp_origin env (cr_trie st) sels) (cr_queue st)" and "received 4 sels (cr_buf st)"
    and "ether_type (ether_of (payload (cr_buf st))) = htons ETHERTYPE_ARP"
    and "arp_op (arp_hdr (payload (cr_buf st))) = htons 1"
    and "cpp_arp_request env raw (cpp_router_ip env (pkt_interface (cr_buf st))) st = Inr (st', out)"
  shows "cpp_traced env sels st st' out"
proof -
  note ok = cpp_okD [OF assms(2)]
  let ?p = "cr_buf st"
  have tpa: "load32 38 (payload ?p) = tpa (arp_hdr (payload ?p))"
    using ok(7) by (simp add: arp_hdr_def arp_of_block)
  have i: "0 \<le> pkt_interface ?p" "pkt_interface ?p < 4"
    using ok(3) by (simp_all add: cpp_pkt_ok_def)
  obtain own where own: "cpp_interface_mac env (cr_interfaces st) (pkt_interface ?p) = Inr own" "length own = 6"
    by (rule cpp_mac_ok [OF assms(1) ok(1) i])
  note reply = sendARPReply_frame [OF assms(1) ok(1,3) assms(3)]
  show ?thesis
  proof (cases "cpp_router_ip env (pkt_interface ?p) = load32 38 (payload ?p)")
    case True
    obtain bs where "sendARPReply env (cr_interfaces st) raw ?p own = Inr (cpp_in (cr_interfaces st) ?p, bs)"
        "arp_reply_to ?p own bs"
      using reply [OF own(2)] by blast
    moreover have "cpp_caused env (cr_interfaces st) (cr_trie st) ?p (cpp_in (cr_interfaces st) ?p, bs)"
      by (rule cpp_arp_answered [OF assms(6,7) _ calculation(2)]) (simp add: own(1))
    ultimately show ?thesis
      using assms(4,5,8) True own(1) by (auto simp: cpp_arp_request_def Let_def intro!: cpp_tracedI)
  next
    case False
    show ?thesis
    proof (cases "map_of (arpTable st) (load32 38 (payload ?p))")
      case None
      then show ?thesis
        using assms(4,8) False by (auto simp: cpp_arp_request_def Let_def intro!: cpp_traced_none)
    next
      case (Some e)
      obtain bs where "sendARPReply env (cr_interfaces st) raw ?p (mac e) = Inr (cpp_in (cr_interfaces st) ?p, bs)"
          "arp_reply_to ?p (mac e) bs"
        using reply [OF arp_entry_length [OF ok(5) Some]] by blast
      moreover have "cpp_caused env (cr_interfaces st) (cr_trie st) ?p (cpp_in (cr_interfaces st) ?p, bs)"
        by (rule cpp_arp_answered [OF assms(6,7) _ calculation(2)]) (use False in \<open>simp add: tpa\<close>)
      ultimately show ?thesis
        using assms(4,5,8) False Some by (auto simp: cpp_arp_request_def Let_def intro!: cpp_tracedI)
    qed
  qed
qed

text \<open>A packet sent on, from the buffer or from the queue.\<close>

lemma cpp_passed_on_frame:
  assumes "length (payload p) = 1600" and "cpp_routed env t p" and "length hw = 6"
  shows "cpp_caused env socks t p (cpp_out socks t p,
    take (nat (pkt_len p)) (write_at 0 hw (update_ip (store16 24 0 (payload p)))))"
proof (rule cpp_passed_on [OF assms(2) resentI])
  note u = update_cleared(1) [OF assms(1)]
  show "length (write_at 0 hw (update_ip (store16 24 0 (payload p)))) = MAX_LEN"
    using u assms(3) by (simp add: MAX_LEN_def)
  show "drop 12 (write_at 0 hw (update_ip (store16 24 0 (payload p)))) = drop 12 (update_ip (store16 24 0 (payload p)))"
    using u assms(3) by (simp add: drop_write_low)
qed (simp add: assms(1) MAX_LEN_def)

lemma cpp_flush_traced:
  assumes "net_ok env" and "cpp_ok st"
    and "list_all (cpp_origin env (cr_trie st) sels) (cr_queue st)"
    and "cpp_arp_reply env st = Inr (st', out)"
  shows "cpp_traced env sels st st' out"
proof -
  note ok = cpp_okD [OF assms(2)]
  define tab where "tab = AList.update (load32 28 (payload (cr_buf st)))
    \<lparr>ip = load32 28 (payload (cr_buf st)), mac = block 22 6 (payload (cr_buf st))\<rparr> (arpTable st)"
  have macs: "\<forall>e \<in> snd ` set tab. length (mac e) = 6"
    unfolding tab_def by (rule macs_update) (use ok in auto)
  have r: "st' = st\<lparr>arpTable := tab, cr_queue := []\<rparr>"
      "out = map (cpp_flushed (cr_interfaces st) (cr_trie st) tab) (cr_queue st)"
    using cpp_arp_reply_eq [OF assms(1,2)] assms(4) by (simp_all add: Let_def tab_def)
  have "cpp_explained env (cr_interfaces st) (cr_trie st) sels (cpp_flushed (cr_interfaces st) (cr_trie st) tab q)"
    if q: "q \<in> set (cr_queue st)" for q
  proof -
    obtain p where p: "received 4 sels p" "length (payload p) = 1600" "cpp_routed env (cr_trie st) p"
        "q = p\<lparr>payload := store16 24 0 (payload p)\<rparr>"
      using assms(3) q by (auto simp: list_all_iff cpp_origin_def)
    have dst: "cpp_dst q = cpp_dst p"
      using p(2) by (simp add: p(4) ip_hdr_store_check)
    have "asked_for tab q"
      using ok(4) q asked_for_update unfolding tab_def by blast
    then obtain e where e: "map_of tab (cpp_dst p) = Some e"
      by (auto simp: asked_for_def dst)
    have "cpp_caused env (cr_interfaces st) (cr_trie st) p (cpp_flushed (cr_interfaces st) (cr_trie st) tab q)"
      using cpp_passed_on_frame [OF p(2,3) arp_entry_length [OF macs e], of "cr_interfaces st"]
      unfolding cpp_flushed_def Let_def dst e by (simp add: p(4) cpp_out_def)
    with p(1) show ?thesis
      by (auto simp: cpp_explained_def)
  qed
  then show ?thesis
    by (simp add: r cpp_traced_def list_all_iff)
qed

lemma cpp_ip_traced:
  assumes "net_ok env" and "cpp_ok st" and "length raw = 1600"
    and "list_all (cpp_origin env (cr_trie st) sels) (cr_queue st)" and "received 4 sels (cr_buf st)"
    and "ether_type (ether_of (payload (cr_buf st))) = htons ETHERTYPE_IP"
    and "cpp_step env raw st = Inr (st', out)"
  shows "cpp_traced env sels st st' out"
proof -
  note ok = cpp_okD [OF assms(2)]
  let ?p = "cr_buf st" and ?socks = "cr_interfaces st" and ?t = "cr_trie st"
  let ?b = "payload ?p"
  have v: "ip_checksum 2 (block 14 20 (store16 24 0 ?b)) = check (ip_hdr ?b) \<longleftrightarrow> ip_valid ?b"
    using ok(7) by (auto simp: ip_valid_def ip_hdr_store_check)
  have ttl: "x < 1 \<or> x = 1 \<or> 1 < x" for x :: u8
    by (metis linorder_neqE)
  note plain = cpp_step_ip_queue [OF assms(2,6) _ assms(7)]
  note step = cpp_step_ip [OF assms(2,6), of env raw] cpp_ipv4_def [of env raw _ st, unfolded Let_def]
  note answer = cpp_tracedI [OF assms(4) plain assms(5)]
  consider (drop) "\<not> ip_valid ?b \<or> ttl (ip_hdr ?b) < 1"
    | (error) ty where "ip_valid ?b" "ttl (ip_hdr ?b) = 1 \<and> ty = 11 \<or>
        1 < ttl (ip_hdr ?b) \<and> e_prefix (cpp_route st) = 0 \<and> ty = (3 :: u8)"
    | (echo) "ip_valid ?b" "1 < ttl (ip_hdr ?b)" "e_prefix (cpp_route st) \<noteq> 0" "cpp_echo env ?p"
    | (route) "cpp_transit env st"
    using ttl [of "ttl (ip_hdr ?b)"] assms(6)
    by (auto simp: cpp_transit_eq cpp_routed_def valid_ip_def cpp_route_def)
  then show ?thesis
  proof cases
    case drop
    then have "out = []" "\<not> cpp_transit env st"
      using assms(7) v by (auto simp: step cpp_transit_def Let_def)
    then show ?thesis
      using plain cpp_traced_none [OF assms(4)] by simp
  next
    case (error ty)
    have "\<not> cpp_transit env st"
      using error(2) by (auto simp: cpp_transit_def Let_def cpp_route_def)
    moreover have len: "length raw = MAX_LEN"
      using assms(3) by (simp add: MAX_LEN_def)
    obtain bs where "cpp_step env raw st = Inr (cpp_cleared st, [(cpp_in ?socks ?p, bs)])"
        "icmp_reply_ok bs (block 0 6 ?b) (block 6 6 ?b) (saddr (ip_hdr ?b)) (daddr (ip_hdr ?b)) ty 0"
      using cpp_router_icmp_errors [OF assms(1,2) len refl assms(6) error] by (auto simp: cpp_in_def)
    moreover from this(2) have "cpp_caused env ?socks ?t ?p (cpp_in ?socks ?p, bs)"
      using error assms(6) by (intro cpp_icmp_error) (auto simp: valid_ip_def cpp_route_def)
    ultimately show ?thesis
      using answer assms(7) by simp
  next
    case echo
    have e: "protocol (ip_hdr ?b) = 1" "?b ! 34 = 8" "daddr (ip_hdr ?b) = cpp_router_ip env (pkt_interface ?p)"
      using echo(4) by (simp_all add: cpp_echo_def)
    have "\<not> cpp_transit env st"
      using e by (simp add: cpp_transit_def Let_def)
    moreover obtain r st1 where "cpp_step env raw st = Inr (st1, [(cpp_in ?socks ?p, take (nat (pkt_len ?p)) r)])"
        "length r = MAX_LEN" "saddr (ip_hdr r) = daddr (ip_hdr ?b)" "daddr (ip_hdr r) = saddr (ip_hdr ?b)" "r ! 34 = 0"
        "r ! 35 = 0" "ip_checksum 2 (block 14 20 r) = 0" "drop 38 r = drop 38 ?b"
      using cpp_router_echo_reply [OF assms(1,2) refl assms(6) echo(1-3) e, of raw] unfolding cpp_in_def by blast
    moreover have "cpp_caused env ?socks ?t ?p (cpp_in ?socks ?p, take (nat (pkt_len ?p)) r)"
      using echo calculation assms(6)
      by (intro cpp_echoed) (auto simp: valid_ip_def echo_reply_to_def Let_def)
    ultimately show ?thesis
      using answer assms(7) by simp
  next
    case route
    have routed: "cpp_routed env ?t ?p"
      using route by (simp add: cpp_transit_eq)
    have r: "0 \<le> e_interface (cpp_route st)" "e_interface (cpp_route st) < 4"
      using cpp_route_ok [OF assms(2)] by simp_all
    have dst: "cpp_dest (cpp_cleared st) = cpp_dest st"
      by (rule cpp_dest_cleared [OF assms(2)])
    show ?thesis
    proof (cases "map_of (arpTable st) (cpp_dest st)")
      case None
      obtain bs where bs: "cpp_step env raw st = Inr (cpp_queued (cpp_dest st) (cpp_cleared st), [(cpp_out ?socks ?t ?p, bs)])"
          "length bs = 42" "ether_dhost (ether_of bs) = replicate 6 0xff" "arp_op (arp_hdr bs) = htons 1"
          "tpa (arp_hdr bs) = cpp_dest st" "spa (arp_hdr bs) = cpp_router_ip env (e_interface (cpp_route st))"
        using cpp_step_asks [OF assms(1,2) route assms(3) None] by (auto simp: cpp_out_def cpp_route_def)
      have "cpp_caused env ?socks ?t ?p (cpp_out ?socks ?t ?p, bs)"
        by (rule cpp_asked [OF routed bs(2-5)]) (simp add: bs(6) cpp_route_def)
      moreover have "cpp_origin env ?t sels (cr_buf (cpp_cleared st))"
        using assms(5) ok(7) routed by (auto simp: cpp_origin_def cpp_cleared_def)
      ultimately show ?thesis
        using assms(4,5,7) bs(1)
        by (auto simp: cpp_traced_def cpp_explained_def cpp_queued_def) (auto simp: cpp_cleared_def)
    next
      case (Some a)
      have hw: "length (mac a) = 6"
        by (rule arp_entry_length [OF ok(5) Some])
      let ?b' = "write_at 0 (mac a) (update_ip (store16 24 0 ?b))"
      have "map_of (arpTable (cpp_cleared st)) (cpp_dest (cpp_cleared st)) = Some a"
        unfolding dst by (simp add: cpp_cleared_def Some)
      then have "out = [(cpp_out ?socks ?t ?p, take (nat (pkt_len ?p)) ?b')]" "cr_queue st' = cr_queue st"
        using assms(7) cpp_forward_known [OF assms(1) cpp_cleared_ok [OF assms(2)] _ r, of a]
        unfolding cpp_transit_forward [OF assms(2) route]
        by (auto simp: Let_def cpp_cleared_def cpp_out_def cpp_route_def)
      then show ?thesis
        using cpp_tracedI [OF assms(4) _ assms(5) cpp_passed_on_frame [OF ok(7) routed hw]] by simp
    qed
  qed
qed

lemma cpp_step_traced:
  assumes "net_ok env" and "cpp_ok st" and "length raw = 1600"
    and "list_all (cpp_origin env (cr_trie st) sels) (cr_queue st)" and "received 4 sels (cr_buf st)"
    and "cpp_step env raw st = Inr (st', out)"
  shows "cpp_traced env sels st st' out"
proof -
  note ok = cpp_okD [OF assms(2)]
  let ?p = "cr_buf st"
  have "static_interface_ip env (cr_interfaces st) (pkt_interface ?p) =
      Inr (inet_ntoa (cpp_router_ip env (pkt_interface ?p)))"
    using ok(1,3) by (simp add: static_interface_ip_def cpp_pkt_ok_def cpp_router_ip_def)
  moreover have "load16 20 (payload ?p) = arp_op (arp_hdr (payload ?p))"
    using ok(7) by (simp add: arp_hdr_def arp_of_block)
  ultimately have step: "cpp_step env raw st =
      (let ty = ntohs (ether_type (ether_of (payload ?p))); op = ntohs (arp_op (arp_hdr (payload ?p)))
       in if ty = ETHERTYPE_ARP then
            (if op = 1 then cpp_arp_request env raw (cpp_router_ip env (pkt_interface ?p)) st
             else if op = 2 then cpp_arp_reply env st else Inr (st, []))
          else if ty = ETHERTYPE_IP then cpp_ipv4 env raw (cpp_router_ip env (pkt_interface ?p)) st
          else Inr (st, []))"
    by (simp add: cpp_step_def inet_aton_inet_ntoa Let_def)
  have ntohs: "ntohs w = k \<longleftrightarrow> w = htons k" for w k
    by (metis htons_htons)
  show ?thesis
  proof (cases "ether_type (ether_of (payload ?p)) = htons ETHERTYPE_ARP")
    case True
    then show ?thesis
      using assms(4,6) cpp_arp_traced [OF assms(1-5) True] cpp_flush_traced [OF assms(1,2,4)]
      by (auto simp: step Let_def ntohs intro: cpp_traced_none split: if_splits)
  next
    case False
    then show ?thesis
      using assms(4,6) cpp_ip_traced [OF assms(1-5) _ assms(6)]
      by (cases "ether_type (ether_of (payload ?p)) = htons ETHERTYPE_IP")
        (auto simp: step Let_def ntohs intro: cpp_traced_none)
  qed
qed

section \<open>Runs\<close>

lemma cpp_get_packet_received:
  "static_get_packet sels m = Inr (Some (p, sels')) \<Longrightarrow> length (payload m) = MAX_LEN \<Longrightarrow>
    received 4 sels p \<and> length sels' < length sels"
proof (induction sels)
  case (Cons sel sels)
  show ?case
  proof (cases "scan_ready 0 (take (nat 4) sel) m = Inr None")
    case True
    with Cons show ?thesis
      by (auto simp: STATIC_NUM_INTERFACES_def intro: received_mono)
  next
    case False
    with Cons.prems(1) have "scan_ready 0 (take (nat 4) sel) m = Inr (Some p)" "sels' = sels"
      by (auto simp: STATIC_NUM_INTERFACES_def elim!: rbind_InrE split: option.splits)
    then show ?thesis
      using scan_ready_in_sels [of 4 sel m p "sel # sels"] Cons.prems(2) by simp
  qed
qed simp

lemma cpp_run_traced:
  assumes "net_ok env" and "cpp_ok st" and "\<forall>sel \<in> set sels. Read_Error \<notin> set sel"
    and "\<forall>raw \<in> set raws. length raw = 1600" and "set sels \<subseteq> set all"
    and "list_all (cpp_origin env (cr_trie st) all) (cr_queue st)"
    and "list_all (cpp_explained env (cr_interfaces st) (cr_trie st) all) out"
  shows "\<exists>st' out'. cpp_run env raws st sels out = Inr (st', out') \<and> cpp_ok st' \<and> cr_trie st' = cr_trie st \<and>
    list_all (cpp_explained env (cr_interfaces st) (cr_trie st) all) out' \<and>
    length out' \<le> length out + length (cr_queue st) + 2 * length sels"
  using assms
proof (induction env raws st sels out rule: cpp_run.induct)
  case (1 env raws st sels out)
  have p: "cpp_pkt_ok (cr_buf st)"
    by (rule cpp_okD(3) [OF "1.prems"(2)])
  note got = cpp_get_packet_ok [OF "1.prems"(3) p]
  show ?case
  proof (cases "static_get_packet sels (cr_buf st)")
    case (Inl e)
    with got show ?thesis by simp
  next
    case (Inr r)
    show ?thesis
    proof (cases r)
      case None
      with Inr "1.prems"(2,7) show ?thesis
        by (simp add: cpp_run.simps)
    next
      case (Some ps)
      obtain p' sels' where ps: "ps = (p', sels')"
        by force
      have p': "cpp_pkt_ok p'" "set sels' \<subseteq> set sels" "received 4 all p'" "length sels' < length sels"
        using got Inr Some ps cpp_get_packet_received [of sels "cr_buf st" p' sels'] p "1.prems"(5)
        by (auto simp: cpp_pkt_ok_def intro: received_mono)
      obtain raw raws' where raw: "(case raws of [] \<Rightarrow> (replicate MAX_LEN 0, []) | r # rs \<Rightarrow> (r, rs)) = (raw, raws')"
        by force
      then have len: "length raw = 1600" "\<forall>raw \<in> set raws'. length raw = 1600"
        using "1.prems"(4) by (auto simp: MAX_LEN_def split: list.splits)
      let ?st = "st\<lparr>cr_buf := p'\<rparr>"
      have ok: "cpp_ok ?st"
        using "1.prems"(2) p'(1) by (simp add: cpp_ok_def)
      from cpp_step_succeeds [OF "1.prems"(1) this len(1)] obtain st' out' where
        step: "cpp_step env raw ?st = Inr (st', out')" "cpp_ok st'" "cr_trie st' = cr_trie st"
        by (auto simp: succeeds_def)
      have same: "cr_interfaces st' = cr_interfaces st"
        using cpp_step_interfaces [OF step(1)] by simp
      have tr: "cpp_traced env all ?st st' out'"
        by (rule cpp_step_traced [OF "1.prems"(1) ok len(1) _ _ step(1)]) (use "1.prems"(6) p'(3) in simp_all)
      have run: "cpp_run env raws st sels out = cpp_run env raws' st' sels' (out @ out')"
        using Inr Some ps raw step(1) by (simp add: cpp_run.simps [of env raws st])
      have "\<exists>st2 out2. cpp_run env raws' st' sels' (out @ out') = Inr (st2, out2) \<and> cpp_ok st2 \<and>
          cr_trie st2 = cr_trie st' \<and> list_all (cpp_explained env (cr_interfaces st') (cr_trie st') all) out2 \<and>
          length out2 \<le> length (out @ out') + length (cr_queue st') + 2 * length sels'"
        by (rule "1.IH" [OF Inr Some ps [symmetric] raw [symmetric] refl "1.prems"(1) step(2)])
          (use "1.prems"(3,5,7) p'(2) len(2) tr in \<open>auto simp: cpp_traced_def step(3) same\<close>)
      then show ?thesis
        unfolding run using step(3) same tr p'(4) by (fastforce simp: cpp_traced_def)
    qed
  qed
qed

text \<open>
  C7. Runs of the C++ router. If the table file reads as routes over the interfaces 0 to 3, the four
  sockets open and no read or write fails, then \<open>main\<close> handles every sequence of received frames, of
  any content: no interface number is out of range, and at the end the invariant holds (every queued
  packet has an entry in the ARP table) with the trie unchanged. Each frame it has sent is caused by
  one received packet, on the interface and with the contents this packet calls for: the ARP reply to
  an ARP request, on the interface it came from, with the own address if it asks for that; an ICMP
  error for a valid packet, of type 11 for a TTL of 1 and type 3 for one without a route; the echo
  reply to an echo request for this interface; or, for any other valid packet with a TTL above 1 and a
  route, on the interface of the route the ARP request for its destination, or the packet itself with
  the TTL one less, a verifying checksum and nothing else changed but the hardware addresses. There
  are at most two frames for each call of \<open>select\<close>, which hands over at most one packet. (Reads in the
  1600 bytes of a payload are not checked in the model, and unwritten bytes are arbitrary ones.)
\<close>

theorem cpp_main_frames:
  assumes "net_ok env" and "static_init open_socket = Inr socks"
    and "parseRTable file = Inr (build_trie es)" and "\<forall>e \<in> set es. 0 \<le> e_interface e \<and> e_interface e < 4"
    and "cpp_pkt_ok m0" and "\<forall>raw \<in> set raws. length raw = MAX_LEN"
    and "\<forall>sel \<in> set sels. Read_Error \<notin> set sel"
  shows "\<exists>st out. cpp_main env open_socket file m0 raws sels = Inr (st, out) \<and> cpp_ok st \<and>
    cr_trie st = build_trie es \<and> list_all (cpp_explained env socks (build_trie es) sels) out \<and>
    length out \<le> 2 * length sels"
proof -
  let ?st = "\<lparr>cr_interfaces = socks, cr_trie = build_trie es, arpTable = [], cr_queue = [], cr_buf = m0\<rparr>"
  have "cpp_ok ?st"
    using static_init_length [OF assms(2)] build_trie_ok [OF assms(4)] assms(5) by (simp add: cpp_ok_def)
  from cpp_run_traced [OF assms(1) this assms(7) _ subset_refl, of raws "[]"] show ?thesis
    using assms(6) by (simp add: cpp_main_def assms(2,3) MAX_LEN_def)
qed

text \<open>A packet whose TTL has run out, on interface 1: one ICMP error.\<close>

theorem cpp_main_frames_witness:
  "\<exists>st out. cpp_main demo_env (\<lambda>_. Some 5) (Some demo_table_line) (demo_packet [])
      [replicate MAX_LEN 1] [[Not_Ready, Ready (udp_frame 1 0xA4CD)]] = Inr (st, out) \<and> length out = 1 \<and> cpp_ok st \<and>
    cr_trie st = build_trie [new_entry 0x0000010A 0x010100C0 0xFFFF0000 1] \<and>
    list_all (cpp_explained demo_env [5, 5, 5, 5] (build_trie [new_entry 0x0000010A 0x010100C0 0xFFFF0000 1])
      [[Not_Ready, Ready (udp_frame 1 0xA4CD)]]) out \<and>
    length out \<le> 2 * length [[Not_Ready, Ready (udp_frame 1 0xA4CD)]]"
proof -
  let ?f = "udp_frame 1 0xA4CD" and ?t = "build_trie [new_entry 0x0000010A 0x010100C0 0xFFFF0000 1]"
  let ?raw = "replicate MAX_LEN 1 :: u8 list"
  let ?st = "\<lparr>cr_interfaces = [5, 5, 5, 5], cr_trie = ?t, arpTable = [], cr_queue = [], cr_buf = demo_packet []\<rparr>"
  let ?p = "(demo_packet ?f)\<lparr>pkt_interface := 1\<rparr>"
  have init: "static_init (\<lambda>_. Some 5) = Inr [5, 5, 5, 5]"
    by (simp add: static_init_def get_sock_def)
  obtain st out where main: "cpp_main demo_env (\<lambda>_. Some 5) (Some demo_table_line) (demo_packet [])
        [?raw] [[Not_Ready, Ready ?f]] = Inr (st, out)"
      and facts: "cpp_ok st" "cr_trie st = ?t" "list_all (cpp_explained demo_env [5, 5, 5, 5] ?t [[Not_Ready, Ready ?f]]) out"
        "length out \<le> 2 * length [[Not_Ready, Ready ?f]]"
    using cpp_main_frames [OF demo_net_ok init demo_table_parsed, of "demo_packet []" "[?raw]" "[[Not_Ready, Ready ?f]]"]
    by (auto simp: new_entry_def cpp_pkt_ok_def demo_packet_def MAX_LEN_def)
  have got: "static_get_packet [[Not_Ready, Ready ?f]] (demo_packet []) = Inr (Some (?p, []))"
    by (simp add: STATIC_NUM_INTERFACES_def socket_receive_message_def Let_def MAX_LEN_def)
      (simp add: demo_packet_def write_at_def)
  have "trie_ok ?t"
    by (rule build_trie_ok) (simp add: new_entry_def)
  then have ok: "cpp_ok (?st\<lparr>cr_buf := ?p\<rparr>)"
    by (simp add: cpp_ok_def cpp_pkt_ok_def demo_packet_def MAX_LEN_def)
  obtain st1 f where "cpp_step demo_env ?raw (?st\<lparr>cr_buf := ?p\<rparr>) = Inr (st1, [f])"
    using cpp_router_icmp_errors [OF demo_net_ok ok _ refl, of ?raw 11] by (auto simp: demo_blocks udp_frame_valid)
  then have "cpp_run demo_env [?raw] ?st [[Not_Ready, Ready ?f]] [] = Inr (st1, [f])"
    using got by (simp add: cpp_run.simps)
  then have "[f] = out"
    using main by (simp add: cpp_main_def demo_table_parsed init)
  then have "length out = 1"
    by auto
  with main facts show ?thesis
    by blast
qed

end
