(* ===== verification/Route_Lookup.thy ===== *)
theory Route_Lookup
  imports Trie_Props
begin

text \<open>
  The three lookups of the repository as one interface: the binary search of the course router, the
  scan of the static router and the trie of the C++ router. Each finds a route that covers the
  destination under its own conditions on the table; where all conditions hold, the three agree.
\<close>

locale route_lookup =
  fixes find_route :: "'t \<Rightarrow> u32 \<Rightarrow> 'r option" and routes :: "'t \<Rightarrow> 'r set"
    and covers :: "u32 \<Rightarrow> 'r \<Rightarrow> bool" and good :: "'t \<Rightarrow> u32 \<Rightarrow> bool"
  assumes covered: "good t d \<Longrightarrow> r \<in> routes t \<Longrightarrow> covers d r \<Longrightarrow>
    \<exists>r'. find_route t d = Some r' \<and> r' \<in> routes t \<and> covers d r'"
begin

lemma only_route:
  assumes "good t d" and "r \<in> routes t" and "covers d r"
    and "\<And>r'. r' \<in> routes t \<Longrightarrow> covers d r' \<Longrightarrow> r' = r"
  shows "find_route t d = Some r"
  using covered [OF assms(1-3)] assms(4) by auto

lemma no_route:
  assumes "good t d" and "find_route t d = None" and "r \<in> routes t"
  shows "\<not> covers d r"
  using covered [OF assms(1,3)] assms(2) by auto

end

section \<open>The three lookups\<close>

text \<open>The binary search: one mask, and prefixes that the signed comparator sorts.\<close>

definition course_lookup :: "route_table_entry list \<Rightarrow> u32 \<Rightarrow> route_table_entry option" where
  "course_lookup rt d = (case get_best_route (qsort_rtable rt) d of Inr r \<Rightarrow> r | Inl _ \<Rightarrow> None)"

definition course_good :: "route_table_entry list \<Rightarrow> bool" where
  "course_good rt \<longleftrightarrow> (\<forall>e \<in> set rt. rt_mask e = rt_mask (hd rt) \<and> rt_prefix e < 0x80000000)"

lemma course_covered:
  assumes "course_good rt" and "r \<in> set rt" and "matches d r"
  shows "\<exists>r'. course_lookup rt d = Some r' \<and> r' \<in> set rt \<and> matches d r'"
proof -
  have "searchable (qsort_rtable rt) d"
    by (rule searchable_uniform [OF sorted_desc_qsort, where m = "rt_mask (hd rt)"])
      (use assms(1) in \<open>auto simp: course_good_def\<close>)
  then have "get_best_route (qsort_rtable rt) d \<noteq> Inr None"
    using get_best_route_searchable [of "qsort_rtable rt" d r] assms(2,3) by auto
  then show ?thesis
    by (cases rule: get_best_route_cases [of "qsort_rtable rt" d]) (auto simp: course_lookup_def)
qed

interpretation course: route_lookup course_lookup set matches "\<lambda>rt d. course_good rt"
  by unfold_locales (rule course_covered)

text \<open>The scan: no default route.\<close>

definition static_good :: "route_table_entry list \<Rightarrow> bool" where
  "static_good rt \<longleftrightarrow> (\<forall>e \<in> set rt. rt_mask e \<noteq> 0)"

interpretation static: route_lookup best_route set matches "\<lambda>rt d. static_good rt"
proof unfold_locales
  fix rt d and r :: route_table_entry
  assume "static_good rt" "r \<in> set rt" "matches d r"
  then show "\<exists>r'. best_route rt d = Some r' \<and> r' \<in> set rt \<and> matches d r'"
    using foldl_better [of rt d] by (auto simp: best_route_fold static_good_def split: option.splits)
qed

text \<open>
  The trie: an address other than 0.0.0.0, masks that end at a byte, and no route inside another one.
  \<open>entry_of\<close> is the entry \<open>parseRTable\<close> makes of a line of the table.
\<close>

definition entry_of :: "route_table_entry \<Rightarrow> rTableEntry" where
  "entry_of r = new_entry (rt_prefix r) (rt_next_hop r) (ntohl (rt_mask r)) (rt_interface r)"

definition cpp_lookup :: "rTableEntry list \<Rightarrow> u32 \<Rightarrow> rTableEntry option" where
  "cpp_lookup es d =
    (let e = findBestEntry (build_trie es) d in if e = rTableEntry0 then None else Some e)"

definition entry_covers :: "u32 \<Rightarrow> rTableEntry \<Rightarrow> bool" where
  "entry_covers d e \<longleftrightarrow> d AND netmask (e_maskLen e) = e_prefix e AND netmask (e_maskLen e)"

definition cpp_good :: "rTableEntry list \<Rightarrow> u32 \<Rightarrow> bool" where
  "cpp_good es d \<longleftrightarrow> d \<noteq> 0 \<and> (\<forall>e \<in> set es. byte_mask (e_maskLen e) \<and>
    (\<forall>e' \<in> set es. e_maskLen e \<le> e_maskLen e' \<and> entry_covers (e_prefix e') e \<longrightarrow> e' = e))"

interpretation cpp: route_lookup cpp_lookup set entry_covers cpp_good
proof unfold_locales
  fix es d e
  assume good: "cpp_good es d" and e: "e \<in> set es" "entry_covers d e"
  have "byte_mask (e_maskLen e)"
    using good e(1) by (simp add: cpp_good_def)
  moreover have "findBestEntry (build_trie es) d = e"
    by (rule trie_finds) (use good e in \<open>auto simp: cpp_good_def entry_covers_def\<close>)
  ultimately have "cpp_lookup es d = Some e"
    by (auto simp: cpp_lookup_def rTableEntry0_def byte_mask_def)
  with e show "\<exists>e'. cpp_lookup es d = Some e' \<and> e' \<in> set es \<and> entry_covers d e'"
    by simp
qed

section \<open>Agreement\<close>

text \<open>Tables of routes with one mask, in canonical form, with prefixes below 2^31.\<close>

definition common_table :: "nat \<Rightarrow> route_table_entry list \<Rightarrow> bool" where
  "common_table k rt \<longleftrightarrow> byte_mask k \<and> (\<forall>e \<in> set rt. rt_mask e = netmask k \<and>
    rt_prefix e AND netmask k = rt_prefix e \<and> rt_prefix e < 0x80000000)"

lemma common_table_good:
  assumes "common_table k rt"
  shows "course_good rt" and "static_good rt"
proof -
  have "netmask k \<noteq> 0"
    using assms netmask_eq_0 [of k] by (auto simp: common_table_def byte_mask_def)
  moreover have "hd rt \<in> set rt" if "e \<in> set rt" for e
    using that by (cases rt) auto
  ultimately show "course_good rt" "static_good rt"
    using assms by (auto simp: common_table_def course_good_def static_good_def)
qed

lemma entry_of_simps:
  assumes "common_table k rt" and "r \<in> set rt"
  shows "e_maskLen (entry_of r) = k" and "e_prefix (entry_of r) = rt_prefix r"
    and "entry_covers d (entry_of r) \<longleftrightarrow> matches d r"
proof -
  show k: "e_maskLen (entry_of r) = k" and "e_prefix (entry_of r) = rt_prefix r"
    using assms getMaskLength_netmask [of k] by (auto simp: entry_of_def new_entry_def common_table_def)
  then show "entry_covers d (entry_of r) \<longleftrightarrow> matches d r"
    using assms by (auto simp: entry_covers_def matches_def common_table_def)
qed

lemma common_table_cpp_good:
  assumes "common_table k rt" and "inj_on rt_prefix (set rt)" and "d \<noteq> 0"
  shows "cpp_good (map entry_of rt) d"
proof -
  have "entry_of r' = entry_of r" if "r \<in> set rt" "r' \<in> set rt" "matches (rt_prefix r') r" for r r'
  proof -
    have "rt_prefix r' = rt_prefix r"
      using that assms(1) by (auto simp: matches_def common_table_def)
    then show ?thesis
      using inj_onD [OF assms(2)] that by auto
  qed
  then show ?thesis
    using assms entry_of_simps [OF assms(1)] by (auto simp: cpp_good_def) (auto simp: common_table_def)
qed

definition demo_route_16 :: route_table_entry where
  "demo_route_16 = \<lparr>rt_prefix = 0x0000010A, rt_next_hop = 7, rt_mask = 0x0000FFFF, rt_interface = 1\<rparr>"

text \<open>
  C6. The three routers choose the same route. On every table with one mask that ends at a byte, with
  distinct prefixes in canonical form and below 2^31 in network byte order, and for every address
  other than 0.0.0.0 that one of its routes matches, the binary search over the sorted table, the
  scan and the trie built from the same table return this route.
\<close>

theorem lookups_agree:
  assumes "common_table k rt" and "inj_on rt_prefix (set rt)" and "d \<noteq> 0"
    and "r \<in> set rt" and "matches d r"
  shows "get_best_route (qsort_rtable rt) d = Inr (Some r) \<and> best_route rt d = Some r \<and>
    findBestEntry (build_trie (map entry_of rt)) d = entry_of r"
proof -
  note good = common_table_good [OF assms(1)]
  have one: "r' = r" if "r' \<in> set rt" "matches d r'" for r'
    using that assms inj_onD [OF assms(2)] by (auto simp: matches_def common_table_def)
  have "course_lookup rt d = Some r"
    by (rule course.only_route [OF good(1) assms(4,5) one])
  then have "get_best_route (qsort_rtable rt) d = Inr (Some r)"
    by (auto simp: course_lookup_def split: sum.splits)
  moreover have "best_route rt d = Some r"
    by (rule static.only_route [OF good(2) assms(4,5) one])
  moreover have "cpp_lookup (map entry_of rt) d = Some (entry_of r)"
  proof (rule cpp.only_route [OF common_table_cpp_good [OF assms(1-3)]])
    show "entry_of r \<in> set (map entry_of rt)" "entry_covers d (entry_of r)"
      using assms(4,5) entry_of_simps(3) [OF assms(1,4)] by simp_all
    fix e
    assume e: "e \<in> set (map entry_of rt)" "entry_covers d e"
    then obtain r' where r': "r' \<in> set rt" "e = entry_of r'"
      by auto
    then have "matches d r'"
      using e(2) entry_of_simps(3) [OF assms(1) r'(1)] by simp
    then show "e = entry_of r"
      using one [OF r'(1)] r'(2) by simp
  qed
  then have "findBestEntry (build_trie (map entry_of rt)) d = entry_of r"
    by (simp add: cpp_lookup_def Let_def split: if_splits)
  ultimately show ?thesis
    by blast
qed

theorem lookups_agree_witness:
  "let r = demo_route_16; rt = [\<lparr>rt_prefix = 0x0000020A, rt_next_hop = 8, rt_mask = 0x0000FFFF, rt_interface = 2\<rparr>, r]
    in get_best_route (qsort_rtable rt) 0x0503010A = Inr (Some r) \<and> best_route rt 0x0503010A = Some r \<and>
      findBestEntry (build_trie (map entry_of rt)) 0x0503010A = entry_of r"
proof -
  have "netmask 16 = 0xFFFF"
    by code_simp
  then show ?thesis
    unfolding Let_def
    by (intro lookups_agree [of 16])
      (simp_all add: common_table_def byte_mask_def demo_route_16_def matches_def)
qed

end
