(* ===== verification/Socket_Progs.thy ===== *)
theory Socket_Progs
  imports Link_Lib Lab04_Run
begin

text \<open>
  What the small socket programs of the laboratories share: the effect of \<open>recv\<close> and \<open>read\<close> on a
  buffer, texts as bytes in a buffer, and the address a program binds or connects to.

  The result of a \<open>recv\<close>, \<open>recvfrom\<close> or \<open>read\<close> is \<open>None\<close> for an error (-1, the buffer unchanged) and
  otherwise the bytes that arrived: of a datagram or a stream as many as fit are stored.
\<close>

definition recv_into :: "nat \<Rightarrow> u8 list option \<Rightarrow> u8 list \<Rightarrow> int \<times> u8 list" where
  "recv_into n r buf = (case r of
       None \<Rightarrow> (- 1, buf)
     | Some bs \<Rightarrow> (int (length (take n bs)), write_at 0 (take n bs) buf))"

lemma recv_into_simps [simp]:
  "recv_into n None buf = (- 1, buf)"
  "length bs \<le> n \<Longrightarrow> recv_into n (Some bs) buf = (int (length bs), write_at 0 bs buf)"
  by (simp_all add: recv_into_def)

text \<open>The characters of a text in a buffer, and what reading it back gives.\<close>

definition text_of :: "u8 list \<Rightarrow> string" where
  "text_of bs = map (\<lambda>b. char_of (unat b)) bs"

lemma string_of_prefix:
  assumes "0 \<notin> set bs"
  shows "string_of (bs @ 0 # rest) = Inr (text_of bs)"
proof -
  have "takeWhile (\<lambda>b. b \<noteq> 0) (bs @ 0 # rest) = bs"
    using assms by (induction bs) auto
  then show ?thesis
    by (simp add: string_of_def text_of_def)
qed

lemma string_of_zeros:
  assumes "0 \<notin> set bs" and "length bs < n"
  shows "string_of (write_at 0 bs (replicate n 0)) = Inr (text_of bs)"
proof -
  have "replicate (n - length bs) 0 = (0 :: u8) # replicate (n - Suc (length bs)) 0"
    using assms(2) by (simp add: Suc_diff_Suc flip: replicate_Suc)
  then show ?thesis
    using string_of_prefix [OF assms(1)] by (simp add: write_at_def)
qed

lemma string_of_terminated:
  assumes "0 \<notin> set bs" and "length bs < length buf"
  shows "string_of (write_at 0 (bs @ [0]) buf) = Inr (text_of bs)"
  using string_of_prefix [OF assms(1), of "drop (Suc (length bs)) buf"] by (simp add: write_at_def)

lemma string_of_total: "0 \<in> set bs \<Longrightarrow> \<exists>s. string_of bs = Inr s"
  by (simp add: string_of_def)

lemma string_of_fails: "0 \<notin> set bs \<Longrightarrow> string_of bs = Inl Out_Of_Bounds"
  by (simp add: string_of_def)

text \<open>\<open>strlen\<close> of a string in a buffer.\<close>

definition strlen :: "u8 list \<Rightarrow> nat res" where
  "strlen buf = rbind (string_of buf) (\<lambda>s. Inr (length s))"

lemma strlen_zeros:
  "0 \<notin> set bs \<Longrightarrow> length bs < n \<Longrightarrow> strlen (write_at 0 bs (replicate n 0)) = Inr (length bs)"
  by (simp add: strlen_def string_of_zeros text_of_def)

text \<open>
  The address of a server that listens on every interface, and of the server a client connects to;
  the port is given as text. \<open>inet_aton\<close> leaves the field \<open>old\<close> as it is when the text is no address.
\<close>

definition any_addr :: "string \<Rightarrow> sockaddr" where
  "any_addr port = \<lparr>sin_family = AF_INET, sin_port = htons (of_int (atoi port)), sin_addr = 0\<rparr>"

definition server_addr :: "u32 \<Rightarrow> string \<Rightarrow> string \<Rightarrow> sockaddr" where
  "server_addr old host port =
    \<lparr>sin_family = AF_INET, sin_port = htons (of_int (atoi port)),
      sin_addr = (case parse_addr host of None \<Rightarrow> old | Some a \<Rightarrow> a)\<rparr>"

text \<open>
  \<open>inet_pton\<close> for \<open>AF_INET\<close>: exactly four decimal numbers up to 255, without leading zeros. \<open>ds\<close> are the
  numbers that are complete, \<open>held\<close> the one being read, once a digit of it has been seen.
\<close>

fun pton4 :: "nat list \<Rightarrow> nat option \<Rightarrow> string \<Rightarrow> nat list option" where
  "pton4 ds held [] = (case held of None \<Rightarrow> None | Some v \<Rightarrow> if length ds = 3 then Some (ds @ [v]) else None)"
| "pton4 ds held (c # s) =
     (if is_digit c then
        (case held of
           None \<Rightarrow> pton4 ds (Some (digit_val c)) s
         | Some v \<Rightarrow>
             if v = 0 \<or> 255 < 10 * v + digit_val c then None else pton4 ds (Some (10 * v + digit_val c)) s)
      else if c = CHR ''.'' then
        (case held of None \<Rightarrow> None | Some v \<Rightarrow> if length ds = 3 then None else pton4 (ds @ [v]) None s)
      else None)"

definition inet_pton :: "string \<Rightarrow> u32 option" where
  "inet_pton s = (case pton4 [] None s of
       Some [a, b, c, d] \<Rightarrow> Some (mk32 (of_nat d) (of_nat c) (of_nat b) (of_nat a))
     | _ \<Rightarrow> None)"

lemma pton4_number: "n < 256 \<Longrightarrow> pton4 ds None (show_nat n @ r) = pton4 ds (Some n) r"
proof (induction n arbitrary: r rule: show_nat.induct)
  case (1 n)
  show ?case
  proof (cases "n < 10")
    case True
    then show ?thesis
      by (simp add: show_nat.simps [of n] digit_char_props)
  next
    case False
    have "pton4 ds None (show_nat n @ r) = pton4 ds (Some (n div 10)) (digit_char (n mod 10) # r)"
      using 1 False by (simp add: show_nat.simps [of n])
    then show ?thesis
      using False 1(2) by (auto simp: digit_char_props div_eq_0_iff)
  qed
qed

lemma inet_pton_inet_ntoa: "inet_pton (inet_ntoa a) = Some a"
  using pton4_number [of "unat (byte32 3 a)" _ "[]"]
  by (simp add: inet_pton_def inet_ntoa_def dotted_def pton4_number unat_bound8)

end
