(* ===== verification/Ping_Lab.thy ===== *)
theory Ping_Lab
  imports Socket_Progs Packets
begin

text \<open>
  The ping laboratory, \<open>Lab05/icmp.c\<close> and \<open>utils.c\<close>: \<open>ping\<close> and \<open>traceroute\<close> over a raw socket. Its
  \<open>checksum\<close> is the text of \<open>ip_checksum\<close>; the payload of a packet is aligned, so its IP and ICMP headers are at
  addresses 2 modulo 4. \<open>arp_resolve\<close> is in the repository only as an object file and is an argument.

  Frames that arrive are the list of results of \<open>recv\<close>. The times that \<open>ping\<close> prints are arguments: the
  text of each.
\<close>

definition PACKET_LEN :: nat where
  "PACKET_LEN = 1500"

text \<open>
  The answers of the operating system: the hardware and the IP address of the interface (\<open>None\<close> if
  \<open>ioctl\<close> fails), the output of \<open>ip route\<close> (\<open>None\<close> if \<open>popen\<close> fails), which frames \<open>send\<close> does not accept.
\<close>

record ping_env =
  own_hwaddr :: "u8 list option"
  own_addr :: "u32 option"
  route_output :: "string option"
  arp_resolve :: "u32 \<Rightarrow> u8 list"
  refused :: "u8 list \<Rightarrow> bool"
  own_pid :: int

section \<open>\<open>utils.c\<close>\<close>

definition init_packet :: "u8 list" where
  "init_packet = replicate PACKET_LEN 0"

definition dns_lookup :: "(string \<Rightarrow> u32 option) \<Rightarrow> string \<Rightarrow> string option" where
  "dns_lookup gethostbyname host = map_option inet_ntoa (gethostbyname host)"

definition get_default_gateway_ip :: "ping_env \<Rightarrow> u32 res" where
  "get_default_gateway_ip env = (case route_output env of
       None \<Rightarrow> Inl (Exit 1)
     | Some out \<Rightarrow> (case fgets 64 out of
         None \<Rightarrow> Inl (Exit 1)
       | Some (l, _) \<Rightarrow> (case inet_pton (butlast l) of None \<Rightarrow> Inl (Exit 1) | Some a \<Rightarrow> Inr a)))"

definition lab_interface_mac :: "ping_env \<Rightarrow> u8 list res" where
  "lab_interface_mac env = (case own_hwaddr env of None \<Rightarrow> Inl (Exit 1) | Some hw \<Rightarrow> Inr (take 6 hw))"

definition lab_interface_ip :: "ping_env \<Rightarrow> u32 res" where
  "lab_interface_ip env = (case own_addr env of None \<Rightarrow> Inl (Exit 1) | Some a \<Rightarrow> Inr a)"

definition relevant_packet :: "ping_env \<Rightarrow> u8 list \<Rightarrow> bool res" where
  "relevant_packet env reply =
    rbind (lab_interface_mac env) (\<lambda>own_mac.
      Inr (own_mac = block 0 6 reply \<and> ntohs (load16 12 reply) = ETHERTYPE_IP \<and> reply ! 23 = 1))"

text \<open>
  The loop of \<open>time_packet\<close>: the first relevant frame, in the buffer of the reply, which keeps what
  earlier frames left; \<open>None\<close> if it still waits.
\<close>

fun await_reply :: "ping_env \<Rightarrow> u8 list \<Rightarrow> u8 list option list \<Rightarrow> (u8 list \<times> u8 list option list) option res" where
  "await_reply env reply [] = Inr None"
| "await_reply env reply (r # rs) =
     (let (n, reply) = recv_into PACKET_LEN r reply
      in if n < 0 then Inl (Exit 1)
         else rbind (relevant_packet env reply) (\<lambda>ok.
           if ok then Inr (Some (reply, rs)) else await_reply env reply rs))"

definition time_packet ::
  "ping_env \<Rightarrow> u8 list \<Rightarrow> u8 list \<Rightarrow> u8 list option list \<Rightarrow> (u8 list \<times> u8 list option list) option res" where
  "time_packet env frame reply rs = (if refused env frame then Inl (Exit 1) else await_reply env reply rs)"

text \<open>\<open>hex_dump\<close>: \<open>ascii\<close> is the array of 17 characters, whose last one is the terminator.\<close>

definition upper_hex :: "nat \<Rightarrow> char" where
  "upper_hex n = (if n < 10 then digit_char n else char_of (55 + n))"

definition hex_byte :: "u8 \<Rightarrow> string" where
  "hex_byte b = [upper_hex (unat b div 16), upper_hex (unat b mod 16), CHR '' '']"

definition printable :: "u8 \<Rightarrow> char" where
  "printable b = (if 32 \<le> b \<and> b \<le> 126 then char_of (unat b) else CHR ''.'')"

definition dump_text :: "string \<Rightarrow> string" where
  "dump_text ascii = ''|  '' @ takeWhile (\<lambda>c. c \<noteq> CHR 0x00) ascii @ '' '' @ [newline]"

fun hex_dump_from :: "nat \<Rightarrow> string \<Rightarrow> u8 list \<Rightarrow> string" where
  "hex_dump_from i ascii [] = []"
| "hex_dump_from i ascii (b # bs) =
     (let ascii = ascii[i mod 16 := printable b]; k = (i + 1) mod 16
      in hex_byte b @
        (if (i + 1) mod 8 = 0 \<or> bs = [] then
           '' '' @ (if k = 0 then dump_text ascii
             else if bs = [] then
               (if k \<le> 8 then '' '' else []) @ concat (replicate (16 - k) ''   '') @ dump_text (ascii[k := CHR 0x00])
             else [])
         else []) @ hex_dump_from (i + 1) ascii bs)"

definition hex_dump :: "string \<Rightarrow> u8 list \<Rightarrow> string" where
  "hex_dump raw data = hex_dump_from 0 (raw[16 := CHR 0x00]) data"

section \<open>Echo requests\<close>

text \<open>\<open>init_eth_hdr\<close>: the hardware address of the gateway, the own one, the type.\<close>

definition init_eth_hdr :: "ping_env \<Rightarrow> u8 list \<Rightarrow> u8 list res" where
  "init_eth_hdr env b =
    rbind (get_default_gateway_ip env) (\<lambda>dg_addr.
    let b1 = write_at 0 (arp_resolve env dg_addr) b
    in rbind (lab_interface_mac env) (\<lambda>hw. Inr (store16 12 (htons ETHERTYPE_IP) (write_at 6 hw b1))))"

definition request_ip :: "int \<Rightarrow> u8 \<Rightarrow> u32 \<Rightarrow> u32 \<Rightarrow> iphdr" where
  "request_ip p t src dst =
    (let h = \<lparr>version = 4, ihl = 5, tos = 0, tot_len = htons (42 - 14), ip_id = htons (of_int p),
           frag_off = 0, ttl = t, protocol = 1, check = 0, saddr = src, daddr = dst\<rparr>
     in h\<lparr>check := ip_checksum 2 (iphdr_bytes h)\<rparr>)"

definition request_icmp :: "int \<Rightarrow> icmphdr" where
  "request_icmp p =
    (let h = \<lparr>icmp_type = 8, icmp_code = 0, checksum = 0, echo_id = htons (of_int p), echo_sequence = 0\<rparr>
     in h\<lparr>checksum := ip_checksum 2 (icmphdr_bytes h)\<rparr>)"

text \<open>The part of the loops that fills the headers of the packet.\<close>

definition fill_request :: "ping_env \<Rightarrow> u8 \<Rightarrow> u32 \<Rightarrow> u8 list \<Rightarrow> u8 list res" where
  "fill_request env t dst b =
    rbind (lab_interface_ip env) (\<lambda>curr_ip.
      Inr (write_at 34 (icmphdr_bytes (request_icmp (own_pid env)))
        (write_at 14 (iphdr_bytes (request_ip (own_pid env) t curr_ip dst)) b)))"

section \<open>\<open>ping\<close> and \<open>traceroute\<close>\<close>

text \<open>The address of a reply as it is printed: the bytes of the word from the highest on.\<close>

definition shown_addr :: "u32 \<Rightarrow> string" where
  "shown_addr a = show_nat (unat (drop_bit 24 a AND 0xFF)) @ CHR ''.'' # show_nat (unat (drop_bit 16 a AND 0xFF)) @
     CHR ''.'' # show_nat (unat (drop_bit 8 a AND 0xFF)) @ CHR ''.'' # show_nat (unat (a AND 0xFF))"

definition ping_line :: "string \<Rightarrow> u8 list \<Rightarrow> string" where
  "ping_line elapsed reply = ''Response: '' @ shown_addr (load32 26 reply) @ ''; '' @
     show_nat (unat (load16 16 reply)) @ '' bytes. TTL: '' @ show_nat (unat (reply ! 22)) @ ''; Time Elapsed : '' @
     elapsed @ '' ms; ICMP Type: '' @ show_nat (unat (reply ! 34)) @ ''. '' @ [newline]"

text \<open>
  The loop of \<open>ping\<close>, with \<open>n\<close> passes to go and \<open>i\<close> passed; \<open>raw i\<close> is the unwritten local reply of a pass.
  The results are the frames sent, the lines printed, and how it ends.
\<close>

fun ping_loop ::
  "ping_env \<Rightarrow> (nat \<Rightarrow> string) \<Rightarrow> (nat \<Rightarrow> u8 list) \<Rightarrow> u32 \<Rightarrow> nat \<Rightarrow> nat \<Rightarrow> u8 list \<Rightarrow> u8 list option list \<Rightarrow>
    (u8 list list \<times> string list \<times> proc_end) res" where
  "ping_loop env elapsed raw dst 0 i b rs = Inr ([], [], Returned 0)"
| "ping_loop env elapsed raw dst (Suc n) i b rs =
     rbind (fill_request env 64 dst b) (\<lambda>b.
     rbind (time_packet env (take 42 b) (raw i) rs) (\<lambda>got. case got of
         None \<Rightarrow> Inr ([take 42 b], [], Waiting)
       | Some (reply, rs') \<Rightarrow>
           rbind (ping_loop env elapsed raw dst n (i + 1) b rs') (\<lambda>(out, log, e).
             Inr (take 42 b # out, ping_line (elapsed i) reply # log, e))))"

definition ping ::
  "ping_env \<Rightarrow> (nat \<Rightarrow> string) \<Rightarrow> (nat \<Rightarrow> u8 list) \<Rightarrow> u32 \<Rightarrow> int \<Rightarrow> u8 list option list \<Rightarrow>
    (u8 list list \<times> string list \<times> proc_end) res" where
  "ping env elapsed raw dst count rs =
    rbind (init_eth_hdr env init_packet) (\<lambda>b.
    rbind (ping_loop env elapsed raw dst (nat (if count = - 1 then 1 else count)) 0 b rs) (\<lambda>(out, log, e).
      Inr (out, (''PING '' @ inet_ntoa dst @ '' ...'' @ [newline]) # log, e)))"

text \<open>The loop of \<open>traceroute\<close>; \<open>currentTTL\<close> is a byte and wraps around.\<close>

definition hop_line :: "u8 \<Rightarrow> u8 list \<Rightarrow> string" where
  "hop_line currentTTL reply = ''Hop '' @ show_int (int (unat currentTTL) - 1) @ '': IP: '' @
     shown_addr (load32 26 reply) @ '';'' @ [newline]"

lemma await_reply_progress: "await_reply env reply rs = Inr (Some (reply', rs')) \<Longrightarrow> length rs' < length rs"
  by (induction env reply rs rule: await_reply.induct)
    (fastforce simp: Let_def elim!: rbind_InrE split: prod.splits if_splits)+

function trace_loop ::
  "ping_env \<Rightarrow> u32 \<Rightarrow> u8 \<Rightarrow> u8 list \<Rightarrow> u8 list \<Rightarrow> u8 list option list \<Rightarrow>
    (u8 list list \<times> string list \<times> proc_end) res" where
  "trace_loop env dst currentTTL reply b rs =
     (case fill_request env currentTTL dst b of
        Inl e \<Rightarrow> Inl e
      | Inr b \<Rightarrow> (case time_packet env (take 42 b) reply rs of
          Inl e \<Rightarrow> Inl e
        | Inr None \<Rightarrow> Inr ([take 42 b], [], Waiting)
        | Inr (Some (reply, rs')) \<Rightarrow>
            let currentTTL = currentTTL + 1; line = hop_line currentTTL reply
            in if reply ! 34 = 11
               then rbind (trace_loop env dst currentTTL reply b rs') (\<lambda>(out, log, e).
                 Inr (take 42 b # out, line # log, e))
               else Inr ([take 42 b], [line], Returned 0)))"
  by pat_completeness auto

termination
  by (relation "measure (\<lambda>(env, dst, currentTTL, reply, b, rs). length rs)")
    (auto simp: time_packet_def dest: await_reply_progress split: if_splits)

declare trace_loop.simps [simp del]

definition traceroute ::
  "ping_env \<Rightarrow> u8 list \<Rightarrow> u32 \<Rightarrow> u8 list option list \<Rightarrow> (u8 list list \<times> string list \<times> proc_end) res" where
  "traceroute env raw dst rs =
    rbind (init_eth_hdr env init_packet) (\<lambda>b.
    rbind (trace_loop env dst 2 raw b rs) (\<lambda>(out, log, e).
      Inr (out, (''TRACEROUTE '' @ inet_ntoa dst @ '' ...'' @ [newline]) # log, e)))"

section \<open>\<open>main\<close>\<close>

datatype run_mode = PING | TRACEROUTE

text \<open>A missing argument is a null pointer, which \<open>strcmp\<close> reads.\<close>

definition validate :: "string list \<Rightarrow> run_mode res" where
  "validate argv =
    (if length argv < 2 then Inl Null_Deref
     else rbind (if argv ! 1 = ''ping'' then Inr PING
         else if argv ! 1 = ''traceroute'' then Inr TRACEROUTE else Inl (Exit 1)) (\<lambda>mode.
       if length argv = 3 \<or> (mode = PING \<and> length argv = 4) then Inr mode else Inl (Exit 1)))"

definition icmp_main ::
  "string list \<Rightarrow> (string \<Rightarrow> u32 option) \<Rightarrow> int option \<Rightarrow> ping_env \<Rightarrow> (nat \<Rightarrow> string) \<Rightarrow> (nat \<Rightarrow> u8 list) \<Rightarrow>
    u8 list option list \<Rightarrow> (u8 list list \<times> string list \<times> proc_end) res" where
  "icmp_main argv gethostbyname sock env elapsed raw rs =
    rbind (validate argv) (\<lambda>mode. case dns_lookup gethostbyname (argv ! 2) of
       None \<Rightarrow> Inl (Exit 1)
     | Some ip_str \<Rightarrow> (case inet_aton ip_str of
         Inl _ \<Rightarrow> Inl (Exit 1)
       | Inr dst \<Rightarrow>
           if sock = None then Inl (Exit 1)
           else case mode of
             PING \<Rightarrow> ping env elapsed raw dst (if length argv = 4 then atoi (argv ! 3) else - 1) rs
           | TRACEROUTE \<Rightarrow> traceroute env (raw 0) dst rs))"

end
