(* ===== verification/Ping_Props.thy ===== *)
theory Ping_Props
  imports Ping_Lab Cpp_Props
begin

text \<open>
  What \<open>ping\<close> and \<open>traceroute\<close> send and print on every sequence of frames, and that \<open>hex_dump\<close> prints a
  table.
\<close>

section \<open>The environment\<close>

definition ping_net :: "ping_env \<Rightarrow> u32 \<Rightarrow> u8 list \<Rightarrow> u32 \<Rightarrow> bool" where
  "ping_net env gw hw src \<longleftrightarrow> route_output env = Some (inet_ntoa gw @ [newline]) \<and> length (arp_resolve env gw) = 6 \<and>
    map_option (take 6) (own_hwaddr env) = Some hw \<and> length hw = 6 \<and> own_addr env = Some src \<and>
    (\<forall>f. \<not> refused env f)"

definition request_frame :: "ping_env \<Rightarrow> u32 \<Rightarrow> u8 list \<Rightarrow> u32 \<Rightarrow> u32 \<Rightarrow> u8 \<Rightarrow> u8 list" where
  "request_frame env gw hw src dst t =
    ether_bytes \<lparr>ether_dhost = arp_resolve env gw, ether_shost = hw, ether_type = htons ETHERTYPE_IP\<rparr> @
    iphdr_bytes (request_ip (own_pid env) t src dst) @ icmphdr_bytes (request_icmp (own_pid env))"

lemma gateway_ok:
  assumes "ping_net env gw hw src"
  shows "get_default_gateway_ip env = Inr gw"
proof -
  have "fgets 64 (inet_ntoa gw @ newline # []) = Some (inet_ntoa gw @ [newline], [])"
    by (rule fgets_line) (use inet_ntoa_props [of gw] in \<open>auto simp: is_space_def char_val_def\<close>)
  then show ?thesis
    using assms by (simp add: get_default_gateway_ip_def ping_net_def inet_pton_inet_ntoa)
qed

lemma lab_mac_ok: "ping_net env gw hw src \<Longrightarrow> lab_interface_mac env = Inr hw"
  by (auto simp: lab_interface_mac_def ping_net_def split: option.splits)

lemma init_eth_ok:
  assumes "ping_net env gw hw src"
  shows "\<exists>b. init_eth_hdr env init_packet = Inr b \<and> length b = 1500 \<and>
    take 14 b = ether_bytes \<lparr>ether_dhost = arp_resolve env gw, ether_shost = hw, ether_type = htons ETHERTYPE_IP\<rparr>"
proof -
  have "length (arp_resolve env gw) = 6" "length hw = 6"
    using assms by (simp_all add: ping_net_def)
  then show ?thesis
    by (simp add: init_eth_hdr_def gateway_ok [OF assms] lab_mac_ok [OF assms] init_packet_def PACKET_LEN_def
        store16_def write_at_def ether_bytes_def min_def)
qed

lemma fill_request_ok:
  assumes "ping_net env gw hw src" and "length b = 1500" and "take 14 b =
      ether_bytes \<lparr>ether_dhost = arp_resolve env gw, ether_shost = hw, ether_type = htons ETHERTYPE_IP\<rparr>"
  shows "\<exists>b'. fill_request env t dst b = Inr b' \<and> length b' = 1500 \<and> take 14 b' = take 14 b \<and>
    take 42 b' = request_frame env gw hw src dst t"
proof -
  have "lab_interface_ip env = Inr src"
    using assms(1) by (simp add: lab_interface_ip_def ping_net_def)
  moreover have "take 42 (write_at 34 c (write_at 14 h b)) = take 14 b @ h @ c \<and>
      length (write_at 34 c (write_at 14 h b)) = 1500 \<and> take 14 (write_at 34 c (write_at 14 h b)) = take 14 b"
    if "length h = 20" "length c = 8" for h c
    using assms(2) that by (simp add: write_at_def min_def)
  ultimately show ?thesis
    using assms(3) by (simp add: fill_request_def request_frame_def)
qed

section \<open>The frames that arrive\<close>

definition relevant :: "u8 list \<Rightarrow> u8 list \<Rightarrow> bool" where
  "relevant hw f \<longleftrightarrow> hw = block 0 6 f \<and> ntohs (load16 12 f) = ETHERTYPE_IP \<and> f ! 23 = 1"

definition frame_length_ok :: "u8 list \<Rightarrow> bool" where
  "frame_length_ok f \<longleftrightarrow> 42 \<le> length f \<and> length f \<le> PACKET_LEN"

lemma same_start:
  assumes "take 42 r = take 42 f" and "42 \<le> length f" and "42 \<le> length r"
  shows "relevant hw r = relevant hw f" and "ping_line el r = ping_line el f" and "hop_line t r = hop_line t f"
    and "r ! 34 = f ! 34"
proof -
  have n: "r ! k = f ! k" if "k < 42" for k
    using assms(1) that by (metis nth_take)
  have "block 0 6 r = take 6 (take 42 r)" "block 0 6 f = take 6 (take 42 f)"
    by (simp_all add: block_def min_def)
  then show "relevant hw r = relevant hw f"
    by (simp add: relevant_def load16_def n assms(1))
  show "ping_line el r = ping_line el f" "hop_line t r = hop_line t f" "r ! 34 = f ! 34"
    by (simp_all add: ping_line_def hop_line_def load16_def load32_def n)
qed

lemma await_reply_frames:
  assumes "ping_net env gw hw src" and "\<forall>f \<in> set fs. frame_length_ok f" and "length reply = 1500"
  shows "\<exists>reply'. length reply' = 1500 \<and> await_reply env reply (map Some fs) =
    Inr (case dropWhile (\<lambda>f. \<not> relevant hw f) fs of [] \<Rightarrow> None | f # fs' \<Rightarrow> Some (reply', map Some fs')) \<and>
    (case dropWhile (\<lambda>f. \<not> relevant hw f) fs of [] \<Rightarrow> True | f # fs' \<Rightarrow> take 42 reply' = take 42 f)"
  using assms(2,3)
proof (induction fs arbitrary: reply)
  case Nil
  then show ?case by auto
next
  case (Cons f fs)
  have f: "42 \<le> length f" "length f \<le> 1500"
    using Cons.prems by (auto simp: frame_length_ok_def PACKET_LEN_def)
  let ?reply = "write_at 0 f reply"
  have t: "length ?reply = 1500" "take 42 ?reply = take 42 f"
    using f Cons.prems(2) by (simp_all add: write_at_def)
  have rel: "relevant_packet env ?reply = Inr (relevant hw f)"
    using same_start(1) [OF t(2) f(1), of hw] t(1)
    by (simp add: relevant_packet_def lab_mac_ok [OF assms(1)] relevant_def)
  show ?case
  proof (cases "relevant hw f")
    case True
    then show ?thesis
      using f t rel by (intro exI [of _ ?reply]) (simp add: PACKET_LEN_def)
  next
    case False
    then show ?thesis
      using f t rel Cons.IH [of ?reply] Cons.prems by (simp add: PACKET_LEN_def)
  qed
qed

text \<open>One pass of either loop.\<close>

lemma time_packet_frames:
  assumes "ping_net env gw hw src" and "\<forall>f \<in> set fs. frame_length_ok f" and "length reply = 1500"
  obtains (none) "filter (relevant hw) fs = []" and "time_packet env frame reply (map Some fs) = Inr None"
  | (some) f fs' reply' where "filter (relevant hw) fs = f # filter (relevant hw) fs'" and "set fs' \<subseteq> set fs"
    and "time_packet env frame reply (map Some fs) = Inr (Some (reply', map Some fs'))"
    and "length reply' = 1500" and "take 42 reply' = take 42 f" and "42 \<le> length f"
proof -
  have sent: "\<not> refused env frame"
    using assms(1) by (simp add: ping_net_def)
  show ?thesis
  proof (cases "dropWhile (\<lambda>f. \<not> relevant hw f) fs")
    case Nil
    then have "filter (relevant hw) fs = []"
      by (simp add: filter_empty_conv)
    then show ?thesis
      using none await_reply_frames [OF assms] Nil sent by (auto simp: time_packet_def)
  next
    case (Cons f fs')
    have fs: "fs = takeWhile (\<lambda>f. \<not> relevant hw f) fs @ f # fs'"
      using Cons by (metis takeWhile_dropWhile_id)
    have "relevant hw f"
      using Cons by (simp add: dropWhile_eq_Cons_conv)
    moreover have "filter (relevant hw) (takeWhile (\<lambda>f. \<not> relevant hw f) fs) = []"
      by (auto simp: filter_empty_conv dest: set_takeWhileD)
    ultimately have "filter (relevant hw) fs = f # filter (relevant hw) fs'"
      by (subst fs) simp
    moreover have "set fs' \<subseteq> set fs" "f \<in> set fs"
      by (subst fs, auto)+
    moreover have "42 \<le> length f"
      using assms(2) \<open>f \<in> set fs\<close> by (auto simp: frame_length_ok_def)
    ultimately show ?thesis
      using some await_reply_frames [OF assms] Cons sent by (auto simp: time_packet_def)
  qed
qed

section \<open>\<open>ping\<close>\<close>

lemma ping_loop_frames:
  assumes "ping_net env gw hw src" and "\<forall>f \<in> set fs. frame_length_ok f" and "\<forall>k. length (raw k) = 1500"
    and "length b = 1500" and "take 14 b =
      ether_bytes \<lparr>ether_dhost = arp_resolve env gw, ether_shost = hw, ether_type = htons ETHERTYPE_IP\<rparr>"
  shows "ping_loop env elapsed raw dst n i b (map Some fs) =
    (let hits = filter (relevant hw) fs
     in Inr (replicate (min n (length hits + 1)) (request_frame env gw hw src dst 64),
          map (\<lambda>(k, f). ping_line (elapsed k) f) (zip [i..<i + n] hits),
          if n \<le> length hits then Returned 0 else Waiting))"
  using assms(2,4,5)
proof (induction n arbitrary: i b fs)
  case (Suc n)
  obtain b' where b': "fill_request env 64 dst b = Inr b'" "length b' = 1500" "take 14 b' = take 14 b"
      "take 42 b' = request_frame env gw hw src dst 64"
    using fill_request_ok [OF assms(1) Suc.prems(2,3)] by blast
  have raw: "length (raw i) = 1500"
    using assms(3) by blast
  show ?case
    using assms(1) Suc.prems(1) raw
  proof (cases rule: time_packet_frames [where frame = "take 42 b'"])
    case none
    then show ?thesis
      using b' by (simp add: Let_def)
  next
    case (some f fs' reply')
    have "ping_line (elapsed i) reply' = ping_line (elapsed i) f"
      using same_start(2) [OF some(5,6)] some(4) by simp
    moreover have "ping_loop env elapsed raw dst n (Suc i) b' (map Some fs') =
        (let hits = filter (relevant hw) fs'
         in Inr (replicate (min n (length hits + 1)) (request_frame env gw hw src dst 64),
              map (\<lambda>(k, f). ping_line (elapsed k) f) (zip [Suc i..<Suc i + n] hits),
              if n \<le> length hits then Returned 0 else Waiting))"
      by (rule Suc.IH) (use Suc.prems some(2) b' in auto)
    ultimately show ?thesis
      using b' some(1,3) by (simp add: Let_def upt_conv_Cons del: upt_Suc)
  qed
qed simp

lemma shown_addr_reversed: "shown_addr a = inet_ntoa (htonl a)"
proof -
  have "unat (drop_bit n a AND 0xFF) = unat (ucast (drop_bit n a) :: u8)" for n
  proof -
    have "(0xFF :: u32) = mask 8"
      by (simp add: mask_eq_exp_minus_1)
    then have "drop_bit n a AND 0xFF = take_bit 8 (drop_bit n a)"
      by (simp only: take_bit_eq_mask)
    then show ?thesis
      by (simp only: unsigned_ucast_eq unsigned_take_bit_eq) simp
  qed
  from this [of 24] this [of 16] this [of 8] this [of 0] show ?thesis
    by (simp add: shown_addr_def inet_ntoa_def dotted_def htonl_def) (simp add: byte32_def)
qed

text \<open>A well-formed echo request.\<close>

definition echo_request_ok :: "u8 list \<Rightarrow> u8 list \<Rightarrow> u8 list \<Rightarrow> u32 \<Rightarrow> u32 \<Rightarrow> u8 \<Rightarrow> bool" where
  "echo_request_ok bs dst_mac src_mac src dst t \<longleftrightarrow> length bs = 42 \<and>
    ether_of bs = \<lparr>ether_dhost = dst_mac, ether_shost = src_mac, ether_type = htons 0x0800\<rparr> \<and>
    (let h = ip_hdr bs
     in version h = 4 \<and> ihl h = 5 \<and> tot_len h = htons 28 \<and> ttl h = t \<and> protocol h = 1 \<and>
        saddr h = src \<and> daddr h = dst) \<and>
    ip_checksum 2 (block 14 20 bs) = 0 \<and>
    icmp_type (icmphdr_of (block 34 8 bs)) = 8 \<and> icmp_code (icmphdr_of (block 34 8 bs)) = 0 \<and>
    ip_checksum 2 (block 34 8 bs) = 0"

lemma request_frame_ok:
  assumes "ping_net env gw hw src"
  shows "echo_request_ok (request_frame env gw hw src dst t) (arp_resolve env gw) hw src dst t"
proof -
  define eth where "eth = \<lparr>ether_dhost = arp_resolve env gw, ether_shost = hw, ether_type = htons ETHERTYPE_IP\<rparr>"
  define h where "h = request_ip (own_pid env) t src dst"
  define c where "c = request_icmp (own_pid env)"
  have e: "length (ether_dhost eth) = 6" "length (ether_shost eth) = 6"
    using assms by (simp_all add: eth_def ping_net_def)
  then have len: "length (ether_bytes eth) = 14"
    by simp
  have h: "version h = 4" "ihl h = 5" "tot_len h = htons 28" "ttl h = t" "protocol h = 1" "saddr h = src" "daddr h = dst"
    by (simp_all add: h_def request_ip_def Let_def)
  have "iphdr_of (iphdr_bytes h) = h"
    using iphdr_of_bytes [of h "[]"] h(1,2) by simp
  moreover have "ip_checksum 2 (iphdr_bytes h) = 0"
    by (rule iphdr_checksum_verifies [where h = h and a = 2]) (simp add: h_def request_ip_def Let_def)
  moreover have "icmphdr_of (icmphdr_bytes c) = c" "icmp_type c = 8" "icmp_code c = 0"
    using icmphdr_of_bytes [of c "[]"] by (simp_all add: c_def request_icmp_def Let_def)
  moreover have "ip_checksum 2 (icmphdr_bytes c) = 0"
    using checksum_stored_verifies [of "icmphdr_bytes c" 2 2 2]
    by (simp add: store16_icmphdr) (simp add: c_def request_icmp_def Let_def)
  moreover have "ether_of (ether_bytes eth @ rest) = eth" for rest
    by (rule ether_of_bytes [OF e])
  ultimately show ?thesis
    unfolding request_frame_def eth_def [symmetric] h_def [symmetric] c_def [symmetric]
    by (simp add: echo_request_ok_def len block_frame [OF len] h ip_hdr_def Let_def)
      (simp add: eth_def ETHERTYPE_IP_def)
qed

lemma ping_frames:
  assumes "ping_net env gw hw src" and "\<forall>f \<in> set fs. frame_length_ok f" and "\<forall>k. length (raw k) = PACKET_LEN"
    and "n = nat (if count = - 1 then 1 else count)" and "hits = filter (relevant hw) fs"
  shows "ping env elapsed raw dst count (map Some fs) =
    Inr (replicate (min n (length hits + 1)) (request_frame env gw hw src dst 64),
      (''PING '' @ inet_ntoa dst @ '' ...'' @ [newline]) # map (\<lambda>(k, f). ping_line (elapsed k) f) (zip [0..<n] hits),
      if n \<le> length hits then Returned 0 else Waiting)"
proof -
  obtain b where b: "init_eth_hdr env init_packet = Inr b" "length b = 1500" "take 14 b =
      ether_bytes \<lparr>ether_dhost = arp_resolve env gw, ether_shost = hw, ether_type = htons ETHERTYPE_IP\<rparr>"
    using init_eth_ok [OF assms(1)] by blast
  have raw: "\<forall>k. length (raw k) = 1500"
    using assms(3) by (simp add: PACKET_LEN_def)
  have "ping_loop env elapsed raw dst n 0 b (map Some fs) =
      Inr (replicate (min n (length hits + 1)) (request_frame env gw hw src dst 64),
        map (\<lambda>(k, f). ping_line (elapsed k) f) (zip [0..<0 + n] hits), if n \<le> length hits then Returned 0 else Waiting)"
    using ping_loop_frames [OF assms(1,2) raw b(2,3), of elapsed dst n 0] assms(5) by (simp add: Let_def)
  then show ?thesis
    unfolding ping_def b(1) rbind_Inr assms(4) [symmetric] by simp
qed

text \<open>
  C19. A run of \<open>ping\<close>, for every sequence of frames with full headers. It sends well-formed echo requests,
  one more than the replies it has got but at most \<open>count\<close>; frames that are not ICMP messages for this host
  are skipped; each reply is reported in order with its IP length (in network byte order), TTL and
  ICMP type, and with the address of its sender printed backwards. It returns exactly if \<open>count\<close> replies
  arrive.
\<close>

theorem ping_session:
  assumes "ping_net env gw hw src" and "\<forall>f \<in> set fs. frame_length_ok f" and "\<forall>k. length (raw k) = PACKET_LEN"
    and "n = nat (if count = - 1 then 1 else count)" and "hits = filter (relevant hw) fs"
  shows "\<exists>request. echo_request_ok request (arp_resolve env gw) hw src dst 64 \<and>
    ping env elapsed raw dst count (map Some fs) =
      Inr (replicate (min n (length hits + 1)) request,
        (''PING '' @ inet_ntoa dst @ '' ...'' @ [newline]) #
        map (\<lambda>(k, f). ''Response: '' @ inet_ntoa (htonl (load32 26 f)) @ ''; '' @ show_nat (unat (load16 16 f)) @
          '' bytes. TTL: '' @ show_nat (unat (f ! 22)) @ ''; Time Elapsed : '' @ elapsed k @ '' ms; ICMP Type: '' @
          show_nat (unat (f ! 34)) @ ''. '' @ [newline]) (zip [0..<n] hits),
        if n \<le> length hits then Returned 0 else Waiting)"
  using request_frame_ok [OF assms(1)] ping_frames [OF assms]
  unfolding ping_line_def shown_addr_reversed by blast

section \<open>\<open>traceroute\<close>\<close>

definition expired :: "u8 list \<Rightarrow> bool" where
  "expired f \<longleftrightarrow> f ! 34 = 11"

lemma trace_loop_frames:
  assumes "ping_net env gw hw src" and "\<forall>f \<in> set fs. frame_length_ok f" and "length reply = 1500"
    and "length b = 1500" and "take 14 b =
      ether_bytes \<lparr>ether_dhost = arp_resolve env gw, ether_shost = hw, ether_type = htons ETHERTYPE_IP\<rparr>"
    and "filter (relevant hw) fs = hits"
  shows "trace_loop env dst t reply b (map Some fs) =
    (let k = length (takeWhile expired hits)
     in Inr (map (\<lambda>j. request_frame env gw hw src dst (t + of_nat j)) [0..<Suc k],
          map (\<lambda>(j, f). hop_line (t + of_nat (Suc j)) f) (zip [0..<Suc k] hits),
          if k < length hits then Returned 0 else Waiting))"
  using assms(2-6)
proof (induction hits arbitrary: t b fs reply)
  case Nil
  obtain b' where b': "fill_request env t dst b = Inr b'" "take 42 b' = request_frame env gw hw src dst t"
    using fill_request_ok [OF assms(1) Nil.prems(3,4)] by blast
  show ?case
    using assms(1) Nil.prems(1,2)
  proof (cases rule: time_packet_frames [where frame = "take 42 b'"])
    case none
    then show ?thesis
      using b' by (simp add: trace_loop.simps [of env dst t])
  next
    case (some f fs' reply')
    then show ?thesis
      using Nil.prems(5) by simp
  qed
next
  case (Cons h hits)
  obtain b' where b': "fill_request env t dst b = Inr b'" "length b' = 1500" "take 14 b' = take 14 b"
      "take 42 b' = request_frame env gw hw src dst t"
    using fill_request_ok [OF assms(1) Cons.prems(3,4)] by blast
  show ?case
    using assms(1) Cons.prems(1,2)
  proof (cases rule: time_packet_frames [where frame = "take 42 b'"])
    case none
    then show ?thesis
      using Cons.prems(5) by simp
  next
    case (some f fs' reply')
    have h: "f = h" "filter (relevant hw) fs' = hits"
      using Cons.prems(5) some(1) by auto
    have line: "hop_line (t + 1) reply' = hop_line (t + 1) h" "reply' ! 34 = 11 \<longleftrightarrow> expired h"
      using same_start(3,4) [OF some(5,6)] some(4) h(1) by (simp_all add: expired_def)
    have IH: "trace_loop env dst (t + 1) reply' b' (map Some fs') =
        (let k = length (takeWhile expired hits)
         in Inr (map (\<lambda>j. request_frame env gw hw src dst (t + 1 + of_nat j)) [0..<Suc k],
              map (\<lambda>(j, f). hop_line (t + 1 + of_nat (Suc j)) f) (zip [0..<Suc k] hits),
              if k < length hits then Returned 0 else Waiting))"
      by (rule Cons.IH) (use Cons.prems some(2,4) b' h in auto)
    have step: "trace_loop env dst t reply b (map Some fs) =
        (if expired h then rbind (trace_loop env dst (t + 1) reply' b' (map Some fs')) (\<lambda>(out, log, e).
             Inr (request_frame env gw hw src dst t # out, hop_line (t + 1) h # log, e))
         else Inr ([request_frame env gw hw src dst t], [hop_line (t + 1) h], Returned 0))"
      using some(3) b' line by (subst trace_loop.simps) (simp add: Let_def)
    have shift: "map g [0..<Suc (Suc k)] = g 0 # map (\<lambda>j. g (Suc j)) [0..<Suc k]"
      "map p (zip [0..<Suc (Suc k)] (h # hits)) = p (0, h) # map (\<lambda>(j, f). p (Suc j, f)) (zip [0..<Suc k] hits)"
      for k and g :: "nat \<Rightarrow> u8 list" and p :: "nat \<times> u8 list \<Rightarrow> string"
      by (simp_all only: upt_conv_Cons [of 0 "Suc (Suc k)"] map_Suc_upt [symmetric] zip_map1 list.map zip_Cons_Cons
          map_map) (auto simp: comp_def)
    show ?thesis
    proof (cases "expired h")
      case True
      then show ?thesis
        unfolding step IH Let_def by (simp add: shift add.assoc del: upt_Suc)
    next
      case False
      then show ?thesis
        unfolding step Let_def by simp
    qed
  qed
qed

text \<open>
  C20. A run of \<open>traceroute\<close>, for every sequence of frames with full headers. It sends well-formed echo
  requests with the TTLs 2, 3 and so on, modulo 256: one more for each Time Exceeded message that
  arrives; it prints a line for each reply, and returns exactly if an ICMP message of another type
  arrives, at the first one.
\<close>

theorem traceroute_session:
  assumes "ping_net env gw hw src" and "\<forall>f \<in> set fs. frame_length_ok f" and "length raw = PACKET_LEN"
    and "hits = filter (relevant hw) fs" and "k = length (takeWhile (\<lambda>f. f ! 34 = 11) hits)"
  shows "\<exists>request. (\<forall>t. echo_request_ok (request t) (arp_resolve env gw) hw src dst t) \<and>
    traceroute env raw dst (map Some fs) =
      Inr (map (\<lambda>j. request (2 + of_nat j)) [0..<k + 1],
        (''TRACEROUTE '' @ inet_ntoa dst @ '' ...'' @ [newline]) #
          map (\<lambda>(j, f). hop_line (3 + of_nat j) f) (zip [0..<k + 1] hits),
        if k < length hits then Returned 0 else Waiting)"
proof -
  obtain b where b: "init_eth_hdr env init_packet = Inr b" "length b = 1500" "take 14 b =
      ether_bytes \<lparr>ether_dhost = arp_resolve env gw, ether_shost = hw, ether_type = htons ETHERTYPE_IP\<rparr>"
    using init_eth_ok [OF assms(1)] by blast
  have raw: "length raw = 1500"
    using assms(3) by (simp add: PACKET_LEN_def)
  have k: "k = length (takeWhile expired hits)"
    using assms(5) by (simp add: expired_def [abs_def])
  have "trace_loop env dst 2 raw b (map Some fs) =
      Inr (map (\<lambda>j. request_frame env gw hw src dst (2 + of_nat j)) [0..<k + 1],
        map (\<lambda>(j, f). hop_line (3 + of_nat j) f) (zip [0..<k + 1] hits),
        if k < length hits then Returned 0 else Waiting)"
    using trace_loop_frames [OF assms(1,2) raw b(2,3) assms(4) [symmetric], of dst 2]
    by (simp add: Let_def k del: upt_Suc)
  then have "traceroute env raw dst (map Some fs) =
      Inr (map (\<lambda>j. request_frame env gw hw src dst (2 + of_nat j)) [0..<k + 1],
        (''TRACEROUTE '' @ inet_ntoa dst @ '' ...'' @ [newline]) #
          map (\<lambda>(j, f). hop_line (3 + of_nat j) f) (zip [0..<k + 1] hits),
        if k < length hits then Returned 0 else Waiting)"
    by (simp add: traceroute_def b(1))
  then show ?thesis
    using request_frame_ok [OF assms(1)] by (intro exI [of _ "request_frame env gw hw src dst"]) simp
qed

section \<open>A concrete host\<close>

text \<open>A host 10.0.0.2 behind the gateway 10.0.0.1, and the Time Exceeded and echo reply frames it receives.\<close>

definition demo_host :: ping_env where
  "demo_host = \<lparr>own_hwaddr = Some (replicate 14 9), own_addr = Some 0x0200000A,
     route_output = Some (inet_ntoa 0x0100000A @ [newline]), arp_resolve = (\<lambda>_. replicate 6 5),
     refused = (\<lambda>_. False), own_pid = 7\<rparr>"

definition answer_frame :: "u8 \<Rightarrow> u8 list" where
  "answer_frame ty = [9, 9, 9, 9, 9, 9, 5, 5, 5, 5, 5, 5, 8, 0, 69, 0, 0, 28, 0, 1, 0, 0, 64, 1, 0, 0,
     10, 0, 0, 1, 10, 0, 0, 2, ty, 0, 0, 0, 0, 7, 0, 0]"

definition other_frame :: "u8 list" where
  "other_frame = replicate 60 1"

lemma demo_ping_net: "ping_net demo_host 0x0100000A (replicate 6 9) 0x0200000A"
  by (simp add: ping_net_def demo_host_def)

lemma demo_frames_ok: "\<forall>f \<in> set [other_frame, answer_frame 11, answer_frame 0]. frame_length_ok f"
  by (simp add: frame_length_ok_def other_frame_def answer_frame_def PACKET_LEN_def)

theorem ping_session_witness:
  "let fs = [other_frame, answer_frame 11, answer_frame 0]; hits = filter (relevant (replicate 6 9)) fs in
    \<exists>request. echo_request_ok request (arp_resolve demo_host 0x0100000A) (replicate 6 9) 0x0200000A 0x08080808 64 \<and>
    ping demo_host (\<lambda>_. ''0.10'') (\<lambda>_. replicate 1500 0) 0x08080808 3 (map Some fs) =
      Inr (replicate (min 3 (length hits + 1)) request,
        (''PING '' @ inet_ntoa 0x08080808 @ '' ...'' @ [newline]) #
        map (\<lambda>(k, f). ''Response: '' @ inet_ntoa (htonl (load32 26 f)) @ ''; '' @ show_nat (unat (load16 16 f)) @
          '' bytes. TTL: '' @ show_nat (unat (f ! 22)) @ ''; Time Elapsed : '' @ ''0.10'' @ '' ms; ICMP Type: '' @
          show_nat (unat (f ! 34)) @ ''. '' @ [newline]) (zip [0..<3] hits),
        if 3 \<le> length hits then Returned 0 else Waiting)"
  unfolding Let_def
  by (rule ping_session [OF demo_ping_net demo_frames_ok, where raw = "\<lambda>_. replicate 1500 0" and elapsed = "\<lambda>_. ''0.10''"])
    (simp_all add: PACKET_LEN_def)

theorem traceroute_session_witness:
  "let fs = [other_frame, answer_frame 11, answer_frame 0]; hits = filter (relevant (replicate 6 9)) fs;
      k = length (takeWhile (\<lambda>f. f ! 34 = 11) hits) in
    \<exists>request. (\<forall>t. echo_request_ok (request t) (arp_resolve demo_host 0x0100000A) (replicate 6 9) 0x0200000A 0x08080808 t) \<and>
    traceroute demo_host (replicate 1500 0) 0x08080808 (map Some fs) =
      Inr (map (\<lambda>j. request (2 + of_nat j)) [0..<k + 1],
        (''TRACEROUTE '' @ inet_ntoa 0x08080808 @ '' ...'' @ [newline]) #
          map (\<lambda>(j, f). hop_line (3 + of_nat j) f) (zip [0..<k + 1] hits),
        if k < length hits then Returned 0 else Waiting)"
  unfolding Let_def
  by (rule traceroute_session [OF demo_ping_net demo_frames_ok]) (simp_all add: PACKET_LEN_def)

section \<open>\<open>hex_dump\<close>\<close>

text \<open>A line of the table: up to 16 bytes in two columns of 8, the bar in column 50, then their characters.\<close>

definition hex_line :: "u8 list \<Rightarrow> string" where
  "hex_line bs = concat (map hex_byte (take 8 bs)) @
     (if length bs \<le> 8 then ''  '' else '' '' @ concat (map hex_byte (drop 8 bs)) @ '' '') @
     replicate (48 - 3 * length bs) CHR '' '' @ ''|  '' @ map printable bs @ '' '' @ [newline]"

fun hex_table :: "nat \<Rightarrow> u8 list \<Rightarrow> string" where
  "hex_table 0 bs = []"
| "hex_table (Suc n) bs = (if bs = [] then [] else hex_line (take 16 bs) @ hex_table n (drop 16 bs))"

text \<open>The columns of a line after its first \<open>j\<close> bytes, byte by byte.\<close>

fun line_tail :: "nat \<Rightarrow> u8 list \<Rightarrow> string" where
  "line_tail j [] = []"
| "line_tail j [b] = hex_byte b @ '' '' @ (if j < 8 then '' '' else []) @ replicate (48 - 3 * Suc j) CHR '' ''"
| "line_tail j (b # c # bs) = hex_byte b @ (if j = 7 then '' '' else []) @ line_tail (Suc j) (c # bs)"

lemma line_tail_columns:
  assumes "bs \<noteq> []" and "j + length bs \<le> 16"
  shows "line_tail j bs =
    (if j + length bs \<le> 8 then concat (map hex_byte bs) @ ''  ''
     else if j < 8 then concat (map hex_byte (take (8 - j) bs)) @ '' '' @ concat (map hex_byte (drop (8 - j) bs)) @ '' ''
     else concat (map hex_byte bs) @ '' '') @ replicate (48 - 3 * (j + length bs)) CHR '' ''"
  using assms
proof (induction j bs rule: line_tail.induct)
  case (3 j b c bs)
  consider "j < 7" | "j = 7" | "8 \<le> j"
    by linarith
  then show ?case
  proof cases
    case 1
    then have "8 - j = Suc (8 - Suc j)"
      by simp
    with 1 3 show ?thesis
      by simp
  qed (use 3 in auto)
qed auto

lemma hex_line_tail:
  "bs \<noteq> [] \<Longrightarrow> length bs \<le> 16 \<Longrightarrow> hex_line bs = line_tail 0 bs @ ''|  '' @ map printable bs @ '' '' @ [newline]"
  using line_tail_columns [of bs 0] by (auto simp: hex_line_def)

lemma blanks: "concat (replicate n ''   '') = replicate (3 * n) CHR '' ''"
  by (induction n) (simp_all add: numeral_3_eq_3)

lemma printable_not_null: "printable b \<noteq> CHR 0x00"
proof -
  have "char_of (unat b) \<noteq> CHR 0x00" if "32 \<le> b"
  proof
    assume "char_of (unat b) = CHR 0x00"
    then have "of_char (char_of (unat b)) = (0 :: nat)"
      by simp
    then show False
      using that unat_bound8 [of b] by (simp add: word_le_nat_alt)
  qed
  then show ?thesis
    by (simp add: printable_def)
qed

lemma dump_text_prefix:
  assumes "take n ascii = map printable bs" and "n < length ascii" and "ascii ! n = CHR 0x00"
  shows "dump_text ascii = ''|  '' @ map printable bs @ '' '' @ [newline]"
proof -
  have "ascii = map printable bs @ CHR 0x00 # drop (Suc n) ascii"
    using assms by (metis append_take_drop_id Cons_nth_drop_Suc)
  moreover have "takeWhile (\<lambda>c. c \<noteq> CHR 0x00) (map printable bs @ CHR 0x00 # r) = map printable bs" for r
    using printable_not_null by (induction bs) auto
  ultimately have "takeWhile (\<lambda>c. c \<noteq> CHR 0x00) ascii = map printable bs"
    by metis
  then show ?thesis
    by (simp add: dump_text_def)
qed

lemma hex_dump_step:
  assumes "i mod 16 = j" and "ascii1 = ascii[j := printable b]"
  shows "hex_dump_from i ascii (b # bs) = hex_byte b @
    (if j = 15 then '' '' @ dump_text ascii1
     else if bs = [] then '' '' @ (if j < 8 then '' '' else []) @ replicate (48 - 3 * Suc j) CHR '' '' @
       dump_text (ascii1[Suc j := CHR 0x00])
     else if j = 7 then '' '' else []) @ hex_dump_from (i + 1) ascii1 bs"
proof -
  have j: "j < 16"
    using assms(1) by auto
  have k: "(i + 1) mod 16 = (if j = 15 then 0 else Suc j)"
    using assms(1) j by (simp add: mod_Suc)
  have "(i + 1) mod 8 = ((i + 1) mod 16) mod 8"
    by (simp add: mod_mod_cancel)
  then have k8: "(i + 1) mod 8 = 0 \<longleftrightarrow> j = 7 \<or> j = 15"
    unfolding k using j by (auto simp: mod_Suc) presburger+
  consider "j = 15" | "j < 15" "bs = []" | "j < 15" "bs \<noteq> []"
    using j by linarith
  then show ?thesis
    unfolding hex_dump_from.simps Let_def k k8 assms(1) assms(2) [symmetric]
    by cases (simp_all add: blanks less_Suc_eq_le diff_mult_distrib2)
qed

lemma hex_dump_line:
  assumes "bs \<noteq> []" and "length seen + length bs \<le> 16" and "rest \<noteq> [] \<longrightarrow> length seen + length bs = 16"
    and "i mod 16 = length seen" and "take (length seen) ascii = map printable seen"
    and "length ascii = 17" and "ascii ! 16 = CHR 0x00"
  shows "\<exists>ascii'. length ascii' = 17 \<and> ascii' ! 16 = CHR 0x00 \<and> hex_dump_from i ascii (bs @ rest) =
    line_tail (length seen) bs @ ''|  '' @ map printable (seen @ bs) @ '' '' @ [newline] @
    hex_dump_from (i + length bs) ascii' rest"
  using assms
proof (induction bs arbitrary: seen i ascii)
  case (Cons b bs)
  let ?j = "length seen"
  have j: "?j < 16"
    using Cons.prems(2) by simp
  define ascii1 where "ascii1 = ascii[?j := printable b]"
  have a: "length ascii1 = 17" "ascii1 ! 16 = CHR 0x00" "take (Suc ?j) ascii1 = map printable (seen @ [b])"
    using Cons.prems(5-7) j by (auto simp: ascii1_def take_Suc_conv_app_nth)
  note step = hex_dump_step [OF Cons.prems(4) ascii1_def]
  show ?case
  proof (cases "bs = []")
    case True
    show ?thesis
    proof (cases "?j = 15")
      case j15: True
      have "dump_text ascii1 = ''|  '' @ map printable (seen @ [b]) @ '' '' @ [newline]"
        by (rule dump_text_prefix [where n = 16]) (use a j15 in simp_all)
      then show ?thesis
        using True j15 a(1,2) step [of rest] by (intro exI [of _ ascii1]) simp
    next
      case False
      then have rest: "rest = []"
        using Cons.prems(3) True by auto
      have "dump_text (ascii1[Suc ?j := CHR 0x00]) = ''|  '' @ map printable (seen @ [b]) @ '' '' @ [newline]"
        by (rule dump_text_prefix [where n = "Suc ?j"]) (use a False j in simp_all)
      then show ?thesis
        using True False rest a(1,2) step [of "[]"] by (intro exI [of _ ascii1]) simp
    qed
  next
    case False
    then obtain c bs' where bs: "bs = c # bs'"
      by (cases bs) auto
    have j15: "?j < 15"
      using Cons.prems(2) bs by simp
    have "(i + 1) mod 16 = length (seen @ [b])"
      using Cons.prems(4) j15 by (simp add: mod_Suc)
    then obtain ascii' where ascii': "length ascii' = 17" "ascii' ! 16 = CHR 0x00"
      "hex_dump_from (i + 1) ascii1 (bs @ rest) = line_tail (length (seen @ [b])) bs @ ''|  '' @
        map printable ((seen @ [b]) @ bs) @ '' '' @ [newline] @ hex_dump_from (i + 1 + length bs) ascii' rest"
      using Cons.IH [of "seen @ [b]" "i + 1" ascii1] False Cons.prems(2,3) a by auto
    then show ?thesis
      using bs j15 step [of "bs @ rest"] by (intro exI [of _ ascii']) simp
  qed
qed simp

text \<open>
  C28. \<open>hex_dump\<close> prints, for every data and whatever its array holds at first, the table of its lines of 16
  bytes: two columns of hexadecimal numbers, the bar in the same column on every line, and the
  characters, with a dot for those that cannot be printed.
\<close>

theorem hex_dump_table:
  assumes "length raw = 17"
  shows "hex_dump raw bs = hex_table (length bs) bs"
proof -
  have "hex_dump_from i ascii bs = hex_table n bs"
    if "length bs \<le> n" "i mod 16 = 0" "length ascii = 17" "ascii ! 16 = CHR 0x00" for i ascii n
    using that
  proof (induction n arbitrary: i ascii bs)
    case (Suc n)
    show ?case
    proof (cases "bs = []")
      case False
      obtain ascii' where ascii': "length ascii' = 17" "ascii' ! 16 = CHR 0x00"
        "hex_dump_from i ascii (take 16 bs @ drop 16 bs) = line_tail 0 (take 16 bs) @ ''|  '' @
          map printable (take 16 bs) @ '' '' @ [newline] @ hex_dump_from (i + length (take 16 bs)) ascii' (drop 16 bs)"
        using hex_dump_line [of "take 16 bs" "[]" "drop 16 bs" i ascii] False Suc.prems by auto
      have "hex_dump_from (i + length (take 16 bs)) ascii' (drop 16 bs) = hex_table n (drop 16 bs)"
      proof (cases "length bs \<le> 16")
        case True
        then show ?thesis
          by (cases n) simp_all
      next
        case False
        then show ?thesis
          using Suc.prems ascii'(1,2) by (intro Suc.IH) auto
      qed
      then show ?thesis
        using ascii'(3) False hex_line_tail [of "take 16 bs"] by simp
    qed simp
  qed simp
  then show ?thesis
    using assms by (simp add: hex_dump_def)
qed

theorem hex_dump_table_witness:
  "hex_dump (replicate 17 CHR ''x'') [72, 105, 10] = hex_table (length [72 :: u8, 105, 10]) [72, 105, 10]"
  by (rule hex_dump_table) simp

end
