(* ===== verification/Echo_Chat.thy ===== *)
theory Echo_Chat
  imports Socket_Progs
begin

text \<open>
  The echo server, the chat server and their client of \<open>Lab07\<close>. A connection is the list of results
  of the \<open>recv\<close> calls on it; \<open>send\<close> on a stream accepts all bytes it is given. The buffer of
  \<open>receive_and_send\<close> is a fresh local variable in each call, with indeterminate contents: they come with
  each result.
\<close>

definition ECHO_BUFLEN :: nat where
  "ECHO_BUFLEN = 1500"

section \<open>The servers\<close>

text \<open>What is printed, what is sent, and the number returned. A negative length is not sent.\<close>

definition receive_and_send :: "u8 list \<Rightarrow> u8 list option \<Rightarrow> (string list \<times> u8 list list \<times> int) res" where
  "receive_and_send raw r =
    (let (bytes_received, buf) = recv_into ECHO_BUFLEN r raw
     in rbind (if bytes_received \<noteq> 0 then rbind (string_of buf) (\<lambda>s. Inr [''Received: '' @ s]) else Inr [])
       (\<lambda>log. Inr (log, if bytes_received \<le> 0 then [] else [take (nat bytes_received) buf], bytes_received)))"

fun echo_loop :: "(u8 list \<times> u8 list option) list \<Rightarrow> (string list \<times> u8 list list \<times> proc_end) res" where
  "echo_loop [] = Inr ([], [], Waiting)"
| "echo_loop ((raw, r) # rs) =
     rbind (receive_and_send raw r) (\<lambda>(log, out, bytes_received).
       if 0 < bytes_received then rbind (echo_loop rs) (\<lambda>(log', out', e). Inr (log @ log', out @ out', e))
       else Inr (log, out, Returned 0))"

text \<open>
  \<open>run_echo_server\<close>: if \<open>accept\<close> fails the descriptor is -1 and \<open>recv\<close> on it fails too.
\<close>

definition run_echo_server ::
  "bool \<Rightarrow> (u8 list \<times> u8 list option) list option \<Rightarrow> u8 list \<Rightarrow> (string list \<times> u8 list list \<times> proc_end) res" where
  "run_echo_server listen_fails connection raw =
    (let log = (if listen_fails then [''fail to listen'' @ [newline]] else [])
     in rbind (echo_loop (case connection of None \<Rightarrow> [(raw, None)] | Some rs \<Rightarrow> rs)) (\<lambda>(log', out, e).
        Inr (log @ log', out, e)))"

text \<open>
  The loop of \<open>run_chat_server\<close>: clients 1 and 2 in turn; what is sent comes with the client it is
  sent to. Only the end of the stream of client 1, and for client 2 also an error, ends the loop.
\<close>

fun chat_loop :: "bool \<Rightarrow> (u8 list \<times> u8 list option) list \<Rightarrow> (string list \<times> (nat \<times> u8 list) list \<times> proc_end) res" where
  "chat_loop first [] = Inr ([], [], Waiting)"
| "chat_loop first ((raw, r) # rs) =
     rbind (receive_and_send raw r) (\<lambda>(log, out, bytes_received).
       let sent = map (Pair (if first then 2 else 1)) out
       in if (if first then bytes_received = 0 else bytes_received \<le> 0) then Inr (log, sent, Returned 0)
          else rbind (chat_loop (\<not> first) rs) (\<lambda>(log', out', e). Inr (log @ log', sent @ out', e)))"

definition run_chat_server ::
  "(u8 list \<times> u8 list option) list \<Rightarrow> (string list \<times> (nat \<times> u8 list) list \<times> proc_end) res" where
  "run_chat_server rs =
    rbind (chat_loop True rs) (\<lambda>(log, out, e).
      Inr (log, (1, bytes_of ''1'' @ [0]) # (2, bytes_of ''2'' @ [0]) # out, e))"

text \<open>
  \<open>main\<close> of the server: a failing \<open>socket\<close> or \<open>bind\<close> is only reported. The results are the address it
  binds, what it prints and sends, and how it ends.
\<close>

definition echo_main ::
  "string list \<Rightarrow> bool \<Rightarrow> bool \<Rightarrow> bool \<Rightarrow> (u8 list \<times> u8 list option) list option \<Rightarrow> u8 list \<Rightarrow>
    (sockaddr option \<times> string list \<times> u8 list list \<times> proc_end) res" where
  "echo_main argv socket_fails bind_fails listen_fails connection raw =
    (if length argv \<noteq> 3
     then Inr (None, [newline # '' Usage: '' @ argv ! 0 @ '' <ip> <port>'' @ [newline]], [], Returned 1)
     else rbind (run_echo_server listen_fails connection raw) (\<lambda>(log, out, e).
       Inr (Some (any_addr (argv ! 2)),
         (if socket_fails then [''fail to connect'' @ [newline]] else []) @
         (if bind_fails then [''fail to connect'' @ [newline]] else []) @ log, out, e)))"

section \<open>The client\<close>

text \<open>
  \<open>run_client\<close>: what is read from the standard input in each pass, and what then arrives from the
  server. The buffer is all zero at the start of each pass.
\<close>

fun run_client :: "u8 list option list \<Rightarrow> u8 list option list \<Rightarrow> (string list \<times> u8 list list \<times> proc_end) res" where
  "run_client [] rs = Inr ([], [], Waiting)"
| "run_client (line # lines) rs =
     (let (n, buf) = recv_into (ECHO_BUFLEN - 1) line (replicate ECHO_BUFLEN 0)
      in if n \<le> 0 \<or> is_space (char_of (unat (buf ! 0))) then Inr ([], [], Returned 0)
         else rbind (strlen buf) (\<lambda>k.
           let sent = take (k + 1) buf
           in case rs of
                [] \<Rightarrow> Inr ([], [sent], Waiting)
              | r # rs' \<Rightarrow>
                  rbind (string_of (snd (recv_into ECHO_BUFLEN r (replicate ECHO_BUFLEN 0)))) (\<lambda>s.
                  rbind (run_client lines rs') (\<lambda>(log, out, e).
                    Inr ((''Received: '' @ s) # log, sent # out, e)))))"

text \<open>\<open>main\<close> of the client; failing \<open>socket\<close> and \<open>connect\<close> calls are only reported.\<close>

definition echo_client_main ::
  "string list \<Rightarrow> bool \<Rightarrow> bool \<Rightarrow> u8 list option list \<Rightarrow> u8 list option list \<Rightarrow>
    (sockaddr option \<times> string list \<times> u8 list list \<times> proc_end) res" where
  "echo_client_main argv socket_fails connect_fails lines rs =
    (if length argv \<noteq> 3
     then Inr (None, [newline # '' Usage: '' @ argv ! 0 @ '' <ip> <port>'' @ [newline]], [], Returned 1)
     else rbind (run_client lines rs) (\<lambda>(log, out, e).
       Inr (Some (server_addr 0 (argv ! 1) (argv ! 2)),
         (if socket_fails then [''fail to connect'' @ [newline]] else []) @
         (if connect_fails then [''fail to connect'' @ [newline]] else []) @ log, out, e)))"

section \<open>What the echo server sends back\<close>

text \<open>One pass on a message that arrives in a buffer with or without a terminator.\<close>

lemma receive_and_send_data:
  assumes "bs \<noteq> []" and "length bs \<le> 1500" and "length raw = 1500"
  shows "receive_and_send raw (Some bs) =
    (if 0 \<in> set (write_at 0 bs raw)
     then Inr ([''Received: '' @ text_of (takeWhile (\<lambda>b. b \<noteq> 0) (write_at 0 bs raw))], [bs], int (length bs))
     else Inl Out_Of_Bounds)"
  using assms by (simp add: receive_and_send_def ECHO_BUFLEN_def string_of_def text_of_def)
    (simp add: write_at_def)

lemma receive_and_send_end: "receive_and_send raw (Some []) = Inr ([], [], 0)"
  by (simp add: receive_and_send_def)

definition terminated :: "u8 list \<times> u8 list \<Rightarrow> bool" where
  "terminated x \<longleftrightarrow> (case x of (raw, bs) \<Rightarrow> 0 \<in> set (write_at 0 bs raw))"

text \<open>
  The echo server, for every way the stream of its client is cut into \<open>recv\<close> results: it sends back
  exactly the bytes it received, in order, and returns when the stream ends, if there is a terminator
  in the buffer after each \<open>recv\<close>; otherwise \<open>printf\<close> reads past the buffer.
\<close>

theorem echo_server_echoes:
  assumes "\<forall>(raw, bs) \<in> set xs. length raw = ECHO_BUFLEN \<and> bs \<noteq> [] \<and> length bs \<le> ECHO_BUFLEN"
  shows "\<exists>log. run_echo_server False (Some (map (\<lambda>(raw, bs). (raw, Some bs)) xs @ [(raw0, Some [])])) raw1 =
    (if list_all terminated xs then Inr (log, map snd xs, Returned 0) else Inl Out_Of_Bounds)"
proof -
  have "\<exists>log. echo_loop (map (\<lambda>(raw, bs). (raw, Some bs)) xs @ [(raw0, Some [])]) =
      (if list_all terminated xs then Inr (log, map snd xs, Returned 0) else Inl Out_Of_Bounds)"
    using assms
  proof (induction xs)
    case (Cons x xs)
    obtain raw bs where x: "x = (raw, bs)"
      by force
    have "length raw = 1500" "bs \<noteq> []" "length bs \<le> 1500"
      using Cons.prems by (auto simp: x ECHO_BUFLEN_def)
    then show ?case
      using Cons by (auto simp: x receive_and_send_data terminated_def)
  qed (simp add: receive_and_send_end)
  then show ?thesis
    by (auto simp: run_echo_server_def)
qed

theorem echo_server_echoes_witness:
  "\<exists>log. run_echo_server False (Some (map (\<lambda>(raw, bs). (raw, Some bs))
      [(replicate 1500 7, [104, 105, 0]), (replicate 1500 0, [33])] @ [([], Some [])])) [] =
    (if list_all terminated [(replicate 1500 7, [104, 105, 0]), (replicate 1500 0, [33])]
     then Inr (log, map snd [(replicate 1500 7 :: u8 list, [104, 105, 0]), (replicate 1500 0, [33])], Returned 0)
     else Inl Out_Of_Bounds)"
  by (rule echo_server_echoes) (simp add: ECHO_BUFLEN_def)

section \<open>The client and the server together\<close>

text \<open>What the client can read in one pass, and the lines it takes: it ends at one that starts with white space.\<close>

definition line_ok :: "u8 list \<Rightarrow> bool" where
  "line_ok l \<longleftrightarrow> l \<noteq> [] \<and> length l < ECHO_BUFLEN \<and> 0 \<notin> set l"

definition starts_text :: "u8 list \<Rightarrow> bool" where
  "starts_text l \<longleftrightarrow> \<not> is_space (char_of (unat (hd l)))"

text \<open>What a single \<open>recv\<close> can bring that the client's buffer of zeros still terminates.\<close>

definition answer_ok :: "u8 list \<Rightarrow> bool" where
  "answer_ok r \<longleftrightarrow> r \<noteq> [] \<and> length r \<le> ECHO_BUFLEN \<and> (0 \<in> set r \<or> length r < ECHO_BUFLEN)"

text \<open>The text up to the first zero.\<close>

definition shown :: "u8 list \<Rightarrow> string" where
  "shown r = ''Received: '' @ text_of (takeWhile (\<lambda>b. b \<noteq> 0) r)"

lemma take_zeros:
  "length l < n \<Longrightarrow> take (length l + 1) (write_at 0 l (replicate n 0)) = l @ [0]" for l :: "u8 list"
  by (simp add: write_at_def take_replicate min_def)

lemma string_of_answer:
  assumes "answer_ok r"
  shows "rbind (string_of (snd (recv_into ECHO_BUFLEN (Some r) (replicate ECHO_BUFLEN 0)))) f =
    f (text_of (takeWhile (\<lambda>b. b \<noteq> 0) r))"
proof -
  let ?buf = "write_at 0 r (replicate 1500 0) :: u8 list"
  have r: "length r \<le> 1500" "0 \<in> set r \<or> length r < 1500"
    using assms by (auto simp: answer_ok_def ECHO_BUFLEN_def)
  have buf: "?buf = r @ replicate (1500 - length r) 0"
    using r(1) by (simp add: write_at_def)
  then have "0 \<in> set ?buf"
    using r(2) by auto
  moreover have "takeWhile (\<lambda>b. b \<noteq> 0) ?buf = takeWhile (\<lambda>b. b \<noteq> 0) r"
    unfolding buf by (auto simp: takeWhile_append takeWhile_eq_all_conv [THEN iffD2])
  ultimately show ?thesis
    using r(1) by (simp add: ECHO_BUFLEN_def string_of_def text_of_def)
qed

lemma run_client_lines:
  assumes "list_all line_ok ls" and "list_all answer_ok rs" and "length rs = length (takeWhile starts_text ls)"
  shows "run_client (map Some ls @ [Some []]) (map Some rs) =
    Inr (map shown rs, map (\<lambda>l. l @ [0]) (takeWhile starts_text ls), Returned 0)"
  using assms
proof (induction ls arbitrary: rs)
  case (Cons l ls)
  let ?buf = "write_at 0 l (replicate 1500 0)"
  have l: "l \<noteq> []" "length l < 1500" "0 \<notin> set l"
    using Cons.prems(1) by (auto simp: line_ok_def ECHO_BUFLEN_def)
  have r: "recv_into 1499 (Some l) (replicate 1500 0) = (int (length l), ?buf)"
    using l(2) by simp
  have h: "?buf ! 0 = hd l"
    using l(1) by (cases l) (simp_all add: write_at_def)
  show ?case
  proof (cases "starts_text l")
    case False
    then show ?thesis
      using Cons.prems(3) by (simp add: ECHO_BUFLEN_def r h starts_text_def)
  next
    case True
    then obtain a rs' where rs: "rs = a # rs'" "length rs' = length (takeWhile starts_text ls)"
      using Cons.prems(3) by (cases rs) auto
    have k: "strlen ?buf = Inr (length l)"
      by (rule strlen_zeros [OF l(3,2)])
    have t: "take (length l + 1) ?buf = l @ [0]"
      by (rule take_zeros [OF l(2)])
    have a: "answer_ok a"
      using Cons.prems(2) by (simp add: rs)
    have IH: "run_client (map Some ls @ [Some []]) (map Some rs') =
        Inr (map shown rs', map (\<lambda>l. l @ [0]) (takeWhile starts_text ls), Returned 0)"
      by (rule Cons.IH) (use Cons.prems(1,2) rs in simp_all)
    have "\<not> is_space (char_of (unat (hd l)))"
      using True by (simp add: starts_text_def)
    then show ?thesis
      using l(1) True t
      by (simp add: ECHO_BUFLEN_def r h k Let_def rs(1) IH shown_def [of a]
          string_of_answer [OF a, unfolded ECHO_BUFLEN_def])
  qed
qed (simp add: ECHO_BUFLEN_def recv_into_def)

lemma echo_loop_pieces:
  assumes "\<forall>(raw, bs) \<in> set xs. length raw = ECHO_BUFLEN \<and> bs \<noteq> [] \<and> length bs \<le> ECHO_BUFLEN"
    and "list_all terminated xs"
  shows "\<exists>log. run_echo_server False (Some (map (\<lambda>(raw, bs). (raw, Some bs)) xs @ [(raw0, Some [])])) raw1 =
    Inr (log, map snd xs, Returned 0)"
proof -
  have "\<exists>log. echo_loop (map (\<lambda>(raw, bs). (raw, Some bs)) xs @ [(raw0, Some [])]) = Inr (log, map snd xs, Returned 0)"
    using assms
  proof (induction xs)
    case (Cons x xs)
    then show ?case
      by (cases x) (auto simp: receive_and_send_data terminated_def ECHO_BUFLEN_def)
  qed (simp add: receive_and_send_end)
  then show ?thesis
    by (auto simp: run_echo_server_def)
qed

text \<open>
  C25. The client and the echo server, for every way TCP cuts the two streams. The client sends the lines it
  reads (each of 1 to 1499 bytes, without a zero byte) up to the first that starts with white space,
  each with a zero byte behind it, and prints for each what one \<open>recv\<close> brings, up to a zero byte. However
  the stream it sends is cut into pieces on its way, the server sends back exactly the bytes of the
  stream, in order, and returns when the stream ends, provided its unwritten buffer of 1500 bytes has a
  zero byte somewhere in or behind each piece. The client prints the lines it has sent when each of
  its \<open>recv\<close> calls brings one message; otherwise it prints what else they bring.
\<close>

theorem echo_session:
  assumes "list_all line_ok ls" and "sent = takeWhile starts_text ls"
    and "concat (map snd xs) = concat (map (\<lambda>l. l @ [0]) sent)"
    and "\<forall>(raw, bs) \<in> set xs. length raw = ECHO_BUFLEN \<and> bs \<noteq> [] \<and> length bs \<le> ECHO_BUFLEN"
    and "list_all terminated xs" and "list_all answer_ok rs" and "length rs = length sent"
  shows "run_client (map Some ls @ [Some []]) (map Some rs) =
      Inr (map shown rs, map (\<lambda>l. l @ [0]) sent, Returned 0) \<and>
    (\<exists>log to_client. run_echo_server False
        (Some (map (\<lambda>(raw, bs). (raw, Some bs)) xs @ [(raw0, Some [])])) raw1 = Inr (log, to_client, Returned 0) \<and>
      concat to_client = concat (map (\<lambda>l. l @ [0]) sent)) \<and>
    (rs = map (\<lambda>l. l @ [0]) sent \<longrightarrow> map shown rs = map (\<lambda>l. ''Received: '' @ text_of l) sent)"
proof -
  have "shown (l @ [0]) = ''Received: '' @ text_of l" if "l \<in> set sent" for l
  proof -
    have "0 \<notin> set l"
      using that assms(1) by (auto simp: assms(2) line_ok_def list_all_iff dest: set_takeWhileD)
    then have "takeWhile (\<lambda>b. b \<noteq> 0) (l @ [0]) = l"
      by (subst takeWhile_append2) auto
    then show ?thesis
      by (simp add: shown_def)
  qed
  then show ?thesis
    using run_client_lines [OF assms(1,6)] echo_loop_pieces [OF assms(4,5), of raw0 raw1] assms(2,3,7) by auto
qed

text \<open>Two lines and an empty one, in a stream that is cut after its second byte.\<close>

theorem echo_session_witness:
  "let ls = [[104, 105, 10], [98, 121, 101, 10], [10], [111]]; sent = [[104, 105, 10], [98, 121, 101, 10]];
      xs = [(replicate 1500 0, [104, 105]), (replicate 1500 7, [10, 0, 98, 121, 101, 10, 0])];
      rs = [[104, 105], [10, 0, 98]] in
    run_client (map Some ls @ [Some []]) (map Some rs) =
      Inr (map shown rs, map (\<lambda>l. l @ [0]) sent, Returned 0) \<and>
    (\<exists>log to_client. run_echo_server False
        (Some (map (\<lambda>(raw, bs). (raw, Some bs)) xs @ [([], Some [])])) [] = Inr (log, to_client, Returned 0) \<and>
      concat to_client = concat (map (\<lambda>l. l @ [0]) sent)) \<and>
    (rs = map (\<lambda>l. l @ [0]) sent \<longrightarrow> map shown rs = map (\<lambda>l. ''Received: '' @ text_of l) sent)"
  unfolding Let_def
  by (rule echo_session)
    (simp_all add: line_ok_def answer_ok_def terminated_def starts_text_def write_at_def ECHO_BUFLEN_def
      is_space_def char_val_def)

section \<open>The chat server\<close>

text \<open>
  The chat server passes the messages on in turn: the \<open>i\<close>-th message, counted from 0, comes from client 1 if \<open>i\<close> is even
  and from client 2 otherwise, and goes unchanged to the other one, after the announcements \<open>1\<close> and \<open>2\<close>;
  the server returns when the client whose turn it is closes its connection.
\<close>

lemma chat_loop_alternates:
  assumes "\<forall>(raw, bs) \<in> set xs. length raw = ECHO_BUFLEN \<and> bs \<noteq> [] \<and> length bs \<le> ECHO_BUFLEN"
    and "list_all terminated xs"
  shows "\<exists>log. chat_loop first (map (\<lambda>(raw, bs). (raw, Some bs)) xs @ [(raw0, Some [])]) =
    Inr (log, map (\<lambda>i. (if even i = first then 2 else 1, snd (xs ! i))) [0..<length xs], Returned 0)"
  using assms
proof (induction xs arbitrary: first)
  case (Cons x xs)
  obtain raw bs where x: "x = (raw, bs)"
    by force
  have d: "length raw = 1500" "bs \<noteq> []" "length bs \<le> 1500" "0 \<in> set (write_at 0 bs raw)"
    using Cons.prems by (auto simp: x ECHO_BUFLEN_def terminated_def)
  obtain log where log: "chat_loop (\<not> first) (map (\<lambda>(raw, bs). (raw, Some bs)) xs @ [(raw0, Some [])]) =
      Inr (log, map (\<lambda>i. (if even i = (\<not> first) then 2 else 1, snd (xs ! i))) [0..<length xs], Returned 0)"
    using Cons.IH [of "\<not> first"] Cons.prems by auto
  have upd: "map (\<lambda>i. (if even i = first then 2 else 1 :: nat, snd ((x # xs) ! i))) [0..<length (x # xs)] =
      (if first then 2 else 1, bs) # map (\<lambda>i. (if even i = (\<not> first) then 2 else 1, snd (xs ! i))) [0..<length xs]"
    by (simp add: upt_conv_Cons x map_Suc_upt [symmetric] del: upt_Suc)
  show ?case
    unfolding upd using d log by (cases first) (simp_all add: x receive_and_send_data Let_def)
qed (simp add: receive_and_send_end)

theorem chat_server_alternates:
  assumes "\<forall>(raw, bs) \<in> set xs. length raw = ECHO_BUFLEN \<and> bs \<noteq> [] \<and> length bs \<le> ECHO_BUFLEN"
    and "list_all terminated xs"
  shows "\<exists>log. run_chat_server (map (\<lambda>(raw, bs). (raw, Some bs)) xs @ [(raw0, Some [])]) =
    Inr (log, (1, [0x31, 0]) # (2, [0x32, 0]) #
      map (\<lambda>i. (if even i then 2 else 1, snd (xs ! i))) [0..<length xs], Returned 0)"
  using chat_loop_alternates [OF assms, of True raw0]
  by (auto simp: run_chat_server_def bytes_of_def char_val_def)

theorem chat_server_alternates_witness:
  "\<exists>log. run_chat_server (map (\<lambda>(raw, bs). (raw, Some bs))
      [(replicate 1500 7, [104, 0]), (replicate 1500 7, [105, 0])] @ [([], Some [])]) =
    Inr (log, (1, [0x31, 0]) # (2, [0x32, 0]) # map (\<lambda>i. (if even i then 2 else 1,
      snd ([(replicate 1500 7 :: u8 list, [104, 0]), (replicate 1500 7, [105, 0])] ! i)))
        [0..<length [(replicate 1500 7 :: u8 list, [104 :: u8, 0]), (replicate 1500 7, [105, 0])]], Returned 0)"
  by (rule chat_server_alternates) (simp_all add: ECHO_BUFLEN_def terminated_def write_at_def)

end
