(* ===== verification/Udp_Backup.thy ===== *)
theory Udp_Backup
  imports Socket_Progs
begin

text \<open>
  The file backup over UDP of \<open>Lab06\<close>: \<open>client.c\<close> sends a file in datagrams of at most 1500 bytes and
  then \<open>DONE\<close>; \<open>server.c\<close> writes what it receives to a file until a datagram starts with \<open>DONE\<close>.
\<close>

definition BACKUP_BUFLEN :: nat where
  "BACKUP_BUFLEN = 1500"

section \<open>The client\<close>

text \<open>
  What is printed: errors on \<open>stderr\<close> with the text of \<open>perror\<close>, and the lines of \<open>printf\<close>. \<open>sendto\<close> fails
  for a negative length; whether it fails for a datagram is the argument \<open>send_fails\<close>.
\<close>

definition send_part :: "(u8 list \<Rightarrow> bool) \<Rightarrow> u8 list \<Rightarrow> int \<Rightarrow> string \<Rightarrow> string \<Rightarrow> string list \<times> u8 list list" where
  "send_part send_fails buf n failed done =
    (if n < 0 \<or> send_fails (take (nat n) buf) then ([failed], []) else ([done], [take (nat n) buf]))"

text \<open>
  The loop over the results of \<open>read\<close>, which ends with the end of the file; \<open>None\<close> is a failing \<open>read\<close>,
  after which the program goes on. The list may end before: then the program still reads.
\<close>

fun send_file :: "(u8 list \<Rightarrow> bool) \<Rightarrow> u8 list option list \<Rightarrow> u8 list \<Rightarrow> string list \<times> u8 list list \<times> u8 list option" where
  "send_file send_fails [] buf = ([], [], None)"
| "send_file send_fails (r # rs) buf =
     (let (readerFile, buf) = recv_into BACKUP_BUFLEN r buf
      in if readerFile = 0 then ([], [], Some buf)
         else let log0 = (if readerFile < 0 then [''Can'' @ CHR 0x27 # ''t read from file '' @ [newline]] else []);
                  (log, out) = send_part send_fails buf readerFile (''Send error '' @ [newline])
                    ''[Client] Trimitere cu success'';
                  (log', out', e) = send_file send_fails rs buf
              in (log0 @ log @ log', out @ out', e))"

text \<open>
  \<open>main\<close>: the address the datagrams go to, what is printed, the datagrams, and how it ends. \<open>file\<close> is
  \<open>None\<close> if it cannot be opened; \<open>garbage\<close> is the unwritten address.
\<close>

definition backup_client ::
  "string list \<Rightarrow> bool \<Rightarrow> (u8 list \<Rightarrow> bool) \<Rightarrow> u8 list option list option \<Rightarrow> u8 list \<Rightarrow> u32 \<Rightarrow>
    (sockaddr \<times> string list \<times> u8 list list \<times> proc_end) res" where
  "backup_client argv socket_fails send_fails file raw garbage =
    (if length argv \<noteq> 4 then Inl (Exit 0)
     else case file of
       None \<Rightarrow> Inl (Exit 1)
     | Some rs \<Rightarrow>
         (let log0 = (if socket_fails then [''[ERROR] failed to open socket'' @ [newline]] else []);
              (log, out, e) = send_file send_fails rs raw;
              a = server_addr garbage (argv ! 1) (argv ! 2)
          in case e of
               None \<Rightarrow> Inr (a, log0 @ log, out, Waiting)
             | Some buf \<Rightarrow>
                 (let (log', out') = send_part send_fails (put_string ''DONE'' buf) 5
                        (''[Client] Trimiterea mesajului nu s-a putut termina cu success'' @ [newline])
                        (''[Client] Tot mesajul a fost trimis '' @ [newline])
                  in Inr (a, log0 @ log @ log', out @ out', Returned 0))))"

section \<open>The server\<close>

text \<open>
  The loop: the buffer keeps the bytes of the earlier datagrams beyond the end of the last one, and
  \<open>strncmp\<close> looks at them. The result is what is appended to the file.
\<close>

fun backup_loop :: "u8 list \<Rightarrow> u8 list option list \<Rightarrow> u8 list \<times> proc_end" where
  "backup_loop buf [] = ([], Waiting)"
| "backup_loop buf (r # rs) =
     (let (n, buf) = recv_into BACKUP_BUFLEN r buf
      in if n = - 1 \<or> take 4 buf = bytes_of ''DONE'' then ([], Returned 0)
         else let (out, e) = backup_loop buf rs in (take (nat n) buf @ out, e))"

definition backup_server ::
  "string list \<Rightarrow> bool \<Rightarrow> bool \<Rightarrow> bool \<Rightarrow> u8 list option list \<Rightarrow> u8 list \<Rightarrow>
    (sockaddr \<times> string list \<times> u8 list \<times> proc_end) res" where
  "backup_server argv socket_fails bind_fails file_opens rs raw =
    (if length argv \<noteq> 3 then Inl (Exit 0)
     else if \<not> file_opens then Inl (Exit 1)
     else let (out, e) = backup_loop raw rs
          in Inr (any_addr (argv ! 1),
            (if socket_fails then [''[ERROR] Failed to open socket '' @ [newline]] else []) @
            (if bind_fails then [''[ERROR] Failed to bind to socket.'' @ [newline]] else []), out, e))"

section \<open>Backing up a file\<close>

text \<open>The results of \<open>read\<close> on a file: pieces of at most 1500 bytes, then the end.\<close>

definition file_pieces :: "u8 list list \<Rightarrow> bool" where
  "file_pieces ps \<longleftrightarrow> (\<forall>p \<in> set ps. p \<noteq> [] \<and> length p \<le> BACKUP_BUFLEN)"

text \<open>The pieces the server writes: those before the first that makes the buffer start with \<open>DONE\<close>.\<close>

fun before_done :: "u8 list \<Rightarrow> u8 list list \<Rightarrow> u8 list list" where
  "before_done buf [] = []"
| "before_done buf (p # ps) =
     (let buf' = write_at 0 p buf in if take 4 buf' = bytes_of ''DONE'' then [] else p # before_done buf' ps)"

lemma send_file_pieces:
  assumes "file_pieces ps" and "length buf = 1500"
  shows "\<exists>log buf'. send_file (\<lambda>_. False) (map Some ps @ [Some []]) buf = (log, ps, Some buf') \<and> length buf' = 1500"
  using assms
proof (induction ps arbitrary: buf)
  case (Cons p ps)
  have p: "p \<noteq> []" "length p \<le> 1500" "file_pieces ps"
    using Cons.prems(1) by (auto simp: file_pieces_def BACKUP_BUFLEN_def)
  let ?buf = "write_at 0 p buf"
  have len: "length ?buf = 1500"
    using p(2) Cons.prems(2) by simp
  obtain log buf' where "send_file (\<lambda>_. False) (map Some ps @ [Some []]) ?buf = (log, ps, Some buf')" "length buf' = 1500"
    using Cons.IH [OF p(3) len] by blast
  moreover have "take (length p) ?buf = p"
    by (simp add: write_at_def)
  ultimately show ?case
    using p(1,2) by (simp add: BACKUP_BUFLEN_def send_part_def)
qed (simp add: BACKUP_BUFLEN_def write_at_def)

lemma done_datagram: "length buf = 1500 \<Longrightarrow> take 5 (put_string ''DONE'' buf) = bytes_of ''DONE'' @ [0]"
  by (simp add: put_string_def write_at_def)

lemma backup_loop_pieces:
  assumes "file_pieces ps" and "length buf = 1500"
  shows "backup_loop buf (map Some ps @ [Some (bytes_of ''DONE'' @ [0])]) = (concat (before_done buf ps), Returned 0)"
  using assms
proof (induction ps arbitrary: buf)
  case Nil
  then show ?case
    by (simp add: BACKUP_BUFLEN_def write_at_def)
next
  case (Cons p ps)
  have p: "p \<noteq> []" "length p \<le> 1500" "file_pieces ps"
    using Cons.prems(1) by (auto simp: file_pieces_def BACKUP_BUFLEN_def)
  have "length (write_at 0 p buf) = 1500"
    using p(2) Cons.prems(2) by simp
  moreover have "take (length p) (write_at 0 p buf) = p"
    by (simp add: write_at_def)
  ultimately show ?case
    using p Cons.IH by (simp add: BACKUP_BUFLEN_def Let_def)
qed

text \<open>
  C26. The backup of a file. Over a network that neither loses nor reorders datagrams both programs return, the client having sent
  the pieces of the file and \<open>DONE\<close>, and the server has written the file up to the first piece after
  which its buffer starts with \<open>DONE\<close>; so the copy is complete exactly if there is no such piece.
\<close>

theorem backup_copies:
  assumes "file_pieces ps" and "length raw = BACKUP_BUFLEN" and "length raw' = BACKUP_BUFLEN"
    and "length argv = 4" and "length argv' = 3"
  shows "\<exists>a a' log sent. backup_client argv False (\<lambda>_. False) (Some (map Some ps @ [Some []])) raw garbage =
      Inr (a, log, sent, Returned 0) \<and> sent = ps @ [bytes_of ''DONE'' @ [0]] \<and>
    backup_server argv' False False True (map Some sent) raw' =
      Inr (a', [], concat (before_done raw' ps), Returned 0) \<and>
    (concat (before_done raw' ps) = concat ps \<longleftrightarrow> before_done raw' ps = ps)"
proof -
  have prefix: "concat (before_done buf ps) = concat ps \<longleftrightarrow> before_done buf ps = ps" for buf
    using assms(1)
  proof (induction ps arbitrary: buf)
    case (Cons p ps)
    then show ?case
      by (auto simp: Let_def file_pieces_def)
  qed simp
  obtain log buf' where "send_file (\<lambda>_. False) (map Some ps @ [Some []]) raw = (log, ps, Some buf')" "length buf' = 1500"
    using send_file_pieces [OF assms(1), of raw] assms(2) by (auto simp: BACKUP_BUFLEN_def)
  then have "\<exists>a log. backup_client argv False (\<lambda>_. False) (Some (map Some ps @ [Some []])) raw garbage =
      Inr (a, log, ps @ [bytes_of ''DONE'' @ [0]], Returned 0)"
    using assms(4) done_datagram [of buf'] by (simp add: backup_client_def send_part_def)
  moreover have "\<exists>a'. backup_server argv' False False True (map Some (ps @ [bytes_of ''DONE'' @ [0]])) raw' =
      Inr (a', [], concat (before_done raw' ps), Returned 0)"
    using assms(5) backup_loop_pieces [OF assms(1), of raw'] assms(3)
    by (simp add: backup_server_def BACKUP_BUFLEN_def)
  ultimately show ?thesis
    using prefix by blast
qed

text \<open>A file that is cut: its second piece is the single byte \<open>D\<close>, after the first left \<open>ONE\<close> behind it.\<close>

theorem backup_copies_witness:
  "\<exists>a a' log sent. backup_client [''client'', ''10.0.0.1'', ''4000'', ''f''] False (\<lambda>_. False)
      (Some (map Some [[88, 79, 78, 69], [68]] @ [Some []])) (replicate 1500 0) 0 =
      Inr (a, log, sent, Returned 0) \<and> sent = [[88, 79, 78, 69], [68]] @ [bytes_of ''DONE'' @ [0]] \<and>
    backup_server [''server'', ''4000'', ''f''] False False True (map Some sent) (replicate 1500 0) =
      Inr (a', [], concat (before_done (replicate 1500 0) [[88, 79, 78, 69], [68]]), Returned 0) \<and>
    (concat (before_done (replicate 1500 0) [[88, 79, 78, 69], [68]]) = concat [[88, 79, 78, 69], [68]] \<longleftrightarrow>
      before_done (replicate 1500 0) [[88, 79, 78, 69], [68]] = [[88, 79, 78, 69], [68]])"
  by (rule backup_copies) (simp_all add: file_pieces_def BACKUP_BUFLEN_def)

lemma backup_cut: "before_done (replicate 1500 0) [[88, 79, 78, 69], [68]] = [[88, 79, 78, 69]]"
  by (simp add: write_at_def bytes_of_def char_val_def)

end
