(* ===== verification/Select_Relay.thy ===== *)
theory Select_Relay
  imports Socket_Progs
begin

text \<open>
  The relay server of \<open>Lab08\<close> (\<open>server.c\<close>) and its client: the server accepts connections and passes on
  a message whose first character is a digit from 4 to 9 to the descriptor with this number.

  The descriptors that \<open>select\<close> reports come with what \<open>accept\<close> or \<open>recv\<close> then returns; \<open>send_fails\<close> says
  which calls of \<open>send\<close> fail.
\<close>

definition RELAY_BUFLEN :: nat where
  "RELAY_BUFLEN = 256"

section \<open>The server\<close>

record relay =
  listen_fd :: int
  read_fds :: "int set"
  fdmax :: int

datatype relay_event =
    Connecting "int option" string u16
  | Arriving "u8 list option"

datatype relay_action = Said string | Sent int "u8 list" | Closed int

text \<open>A message, in the buffer that was cleared before the \<open>recv\<close>.\<close>

definition relay_message :: "(int \<Rightarrow> u8 list \<Rightarrow> bool) \<Rightarrow> int \<Rightarrow> u8 list \<Rightarrow> relay_action list res" where
  "relay_message send_fails i buffer =
    (let c = buffer ! 0
     in rbind (if 0x34 \<le> c \<and> c \<le> 0x39
         then rbind (strlen (drop 2 buffer)) (\<lambda>n.
           let clientNo = int (unat c) - 48; bs = take n (drop 2 buffer)
           in if send_fails clientNo bs then Inl (Exit 1) else Inr [Sent clientNo bs])
         else Inr [Said (''Invalid destination! '' @ [newline])]) (\<lambda>acts.
       rbind (string_of buffer) (\<lambda>s.
         Inr (acts @ [Said (''Server: am primit pe sock '' @ show_int i @ '' mesajul: '' @ s @ [newline])]))))"

text \<open>One descriptor.\<close>

definition relay_fd ::
  "(int \<Rightarrow> u8 list \<Rightarrow> bool) \<Rightarrow> int \<Rightarrow> relay_event \<Rightarrow> relay \<Rightarrow> (relay \<times> relay_action list) res" where
  "relay_fd send_fails i ev st = (case ev of
       Connecting new ip_str port \<Rightarrow> (case new of
           None \<Rightarrow> Inl (Exit 1)
         | Some newsockfd \<Rightarrow>
             Inr (st\<lparr>read_fds := insert newsockfd (read_fds st), fdmax := max newsockfd (fdmax st)\<rparr>,
               [Said (''Noua conexiune de la '' @ ip_str @ '', port '' @ show_nat (unat (ntohs port)) @
                 '', socket client '' @ show_int newsockfd @ [newline])]))
     | Arriving r \<Rightarrow>
         (let (n, buffer) = recv_into RELAY_BUFLEN r (replicate RELAY_BUFLEN 0)
          in if n < 0 then Inl (Exit 1)
             else if n = 0 then
               Inr (st\<lparr>read_fds := read_fds st - {i}\<rparr>,
                 [Said (''Socket-ul client '' @ show_int i @ '' a inchis conexiunea'' @ [newline]), Closed i])
             else rbind (relay_message send_fails i buffer) (\<lambda>acts. Inr (st, acts))))"

text \<open>The descriptors of one \<open>select\<close>, in ascending order, and the rounds of the loop.\<close>

fun relay_round ::
  "(int \<Rightarrow> u8 list \<Rightarrow> bool) \<Rightarrow> (int \<times> relay_event) list \<Rightarrow> relay \<Rightarrow> (relay \<times> relay_action list) res" where
  "relay_round send_fails [] st = Inr (st, [])"
| "relay_round send_fails ((i, ev) # evs) st =
     rbind (relay_fd send_fails i ev st) (\<lambda>(st', out).
     rbind (relay_round send_fails evs st') (\<lambda>(st'', out'). Inr (st'', out @ out')))"

fun relay_loop ::
  "(int \<Rightarrow> u8 list \<Rightarrow> bool) \<Rightarrow> (int \<times> relay_event) list list \<Rightarrow> relay \<Rightarrow> (relay \<times> relay_action list) res" where
  "relay_loop send_fails [] st = Inr (st, [])"
| "relay_loop send_fails (evs # sels) st =
     rbind (relay_round send_fails evs st) (\<lambda>(st', out).
     rbind (relay_loop send_fails sels st') (\<lambda>(st'', out'). Inr (st'', out @ out')))"

text \<open>\<open>main\<close>: the descriptor of the socket (\<open>None\<close> for an error), and whether \<open>bind\<close> or \<open>listen\<close> fail.\<close>

definition relay_start :: "int \<Rightarrow> relay" where
  "relay_start sockfd = \<lparr>listen_fd = sockfd, read_fds = {sockfd}, fdmax = sockfd\<rparr>"

definition relay_main ::
  "string list \<Rightarrow> int option \<Rightarrow> bool \<Rightarrow> bool \<Rightarrow> (int \<Rightarrow> u8 list \<Rightarrow> bool) \<Rightarrow> (int \<times> relay_event) list list \<Rightarrow>
    (sockaddr \<times> relay \<times> relay_action list) res" where
  "relay_main argv sock bind_fails listen_fails send_fails sels =
    (if length argv < 2 then Inl (Exit 0)
     else case sock of
       None \<Rightarrow> Inl (Exit 1)
     | Some sockfd \<Rightarrow>
         if atoi (argv ! 1) = 0 \<or> bind_fails \<or> listen_fails then Inl (Exit 1)
         else rbind (relay_loop send_fails sels (relay_start sockfd)) (\<lambda>(st, out).
           Inr (any_addr (argv ! 1), st, out)))"

section \<open>The client\<close>

text \<open>
  One round: whether \<open>select\<close> reports the standard input, and what \<open>recv\<close> returns if it reports the
  socket. \<open>inp\<close> is what is still to be read of the standard input: the rest of a line longer than the
  buffer is read when the input is reported next. At its end \<open>fgets\<close> leaves the cleared buffer.
\<close>

definition typed_line :: "bool \<Rightarrow> string \<Rightarrow> string option \<times> string" where
  "typed_line ready inp =
    (if \<not> ready then (None, inp)
     else case fgets (RELAY_BUFLEN - 1) inp of None \<Rightarrow> (Some [], inp) | Some (l, inp') \<Rightarrow> (Some l, inp'))"

fun relay_client_loop ::
  "(u8 list \<Rightarrow> bool) \<Rightarrow> string \<Rightarrow> (bool \<times> u8 list option option) list \<Rightarrow>
    (string list \<times> u8 list list \<times> proc_end) res" where
  "relay_client_loop send_fails inp [] = Inr ([], [], Waiting)"
| "relay_client_loop send_fails inp ((ready, sock) # sels) =
     (let (line, inp') = typed_line ready inp
      in if (case line of None \<Rightarrow> False | Some l \<Rightarrow> take 4 l = ''exit'') then Inr ([], [], Returned 0)
         else if (case line of None \<Rightarrow> False | Some l \<Rightarrow> send_fails (bytes_of l)) \<or> sock = Some None then Inl (Exit 1)
         else rbind (case sock of
                None \<Rightarrow> Inr []
              | Some r \<Rightarrow> rbind (string_of (snd (recv_into RELAY_BUFLEN r (replicate RELAY_BUFLEN 0))))
                  (\<lambda>s. Inr [''received client: '' @ s @ [newline]])) (\<lambda>log.
            rbind (relay_client_loop send_fails inp' sels) (\<lambda>(log', out, e).
              Inr (log @ log', (case line of None \<Rightarrow> [] | Some l \<Rightarrow> [bytes_of l]) @ out, e))))"

definition relay_client_main ::
  "string list \<Rightarrow> int option \<Rightarrow> bool \<Rightarrow> (u8 list \<Rightarrow> bool) \<Rightarrow> string \<Rightarrow> (bool \<times> u8 list option option) list \<Rightarrow>
    (string list \<times> u8 list list \<times> proc_end) res" where
  "relay_client_main argv sock connect_fails send_fails inp sels =
    (if length argv < 3 then Inl (Exit 0)
     else if sock = None \<or> parse_addr (argv ! 1) = None \<or> connect_fails then Inl (Exit 1)
     else relay_client_loop send_fails inp sels)"

text \<open>Every message the client sends has at most 254 characters, so the relay receives none cut off.\<close>

lemma typed_line_short: "typed_line ready inp = (Some l, inp') \<Longrightarrow> length l \<le> 254"
  by (auto simp: typed_line_def RELAY_BUFLEN_def fgets_def Let_def split: if_splits option.splits prod.splits)

lemma relay_client_short:
  "relay_client_loop send_fails inp sels = Inr (log, out, e) \<Longrightarrow> bs \<in> set out \<Longrightarrow> length bs < RELAY_BUFLEN"
proof (induction send_fails inp sels arbitrary: log out rule: relay_client_loop.induct)
  case (2 send_fails inp ready sock sels)
  obtain line inp' where t: "typed_line ready inp = (line, inp')"
    by force
  show ?case
  proof (cases "case line of None \<Rightarrow> False | Some l \<Rightarrow> take 4 l = ''exit''")
    case False
    with 2 t obtain log' out' where r: "relay_client_loop send_fails inp' sels = Inr (log', out', e)"
        "out = (case line of None \<Rightarrow> [] | Some l \<Rightarrow> [bytes_of l]) @ out'"
      and no: "\<not> ((case line of None \<Rightarrow> False | Some l \<Rightarrow> send_fails (bytes_of l)) \<or> sock = Some None)"
      by (auto elim!: rbind_InrE split: if_splits)
    have "bs \<in> set out' \<Longrightarrow> length bs < RELAY_BUFLEN"
      using "2.IH" [OF t [symmetric] refl False no r(1)] by blast
    then show ?thesis
      using 2(3) t by (auto simp: r(2) RELAY_BUFLEN_def bytes_of_def split: option.splits dest: typed_line_short)
  qed (use 2 t in simp)
qed simp

section \<open>Reachable states\<close>

text \<open>
  What \<open>select\<close>, \<open>accept\<close> and \<open>recv\<close> can report: a ready descriptor is in the set, the listening one
  reports a connection, whose new descriptor is not in use, and the others report data.
\<close>

definition event_ok :: "relay \<Rightarrow> int \<times> relay_event \<Rightarrow> bool" where
  "event_ok st x \<longleftrightarrow> (case x of (i, ev) \<Rightarrow> i \<in> read_fds st \<and> (case ev of
       Connecting new _ _ \<Rightarrow> i = listen_fd st \<and> (\<forall>fd. new = Some fd \<longrightarrow> 0 \<le> fd \<and> fd \<notin> read_fds st)
     | Arriving _ \<Rightarrow> i \<noteq> listen_fd st))"

inductive relay_reach :: "(int \<Rightarrow> u8 list \<Rightarrow> bool) \<Rightarrow> int \<Rightarrow> relay \<Rightarrow> relay_action list \<Rightarrow> bool"
  for send_fails and sockfd where
  start: "relay_reach send_fails sockfd (relay_start sockfd) []"
| step: "relay_reach send_fails sockfd st out \<Longrightarrow> event_ok st (i, ev) \<Longrightarrow>
    relay_fd send_fails i ev st = Inr (st', out') \<Longrightarrow> relay_reach send_fails sockfd st' (out @ out')"

definition relay_ok :: "relay \<Rightarrow> bool" where
  "relay_ok st \<longleftrightarrow> finite (read_fds st) \<and> listen_fd st \<in> read_fds st \<and>
    (\<forall>fd \<in> read_fds st. fd \<le> fdmax st)"

lemma relay_fd_cases:
  assumes "relay_fd send_fails i ev st = Inr (st', out)"
  obtains (accepted) fd ip_str port where "ev = Connecting (Some fd) ip_str port"
      and "st' = st\<lparr>read_fds := insert fd (read_fds st), fdmax := max fd (fdmax st)\<rparr>" and "\<forall>x bs. Sent x bs \<notin> set out"
  | (closed) "ev = Arriving (Some [])" and "st' = st\<lparr>read_fds := read_fds st - {i}\<rparr>" and "\<forall>x bs. Sent x bs \<notin> set out"
  | (data) buffer where "st' = st" and "relay_message send_fails i buffer = Inr out"
proof (cases ev)
  case (Connecting new ip_str port)
  then show ?thesis
    using assms accepted by (cases new) (auto simp: relay_fd_def)
next
  case (Arriving r)
  then show ?thesis
  proof (cases r)
    case None
    then show ?thesis
      using assms Arriving by (simp add: relay_fd_def)
  next
    case (Some bs)
    show ?thesis
    proof (cases "bs = []")
      case True
      then show ?thesis
        using assms Arriving Some closed by (auto simp: relay_fd_def RELAY_BUFLEN_def)
    next
      case False
      then have "relay_fd send_fails i ev st =
          rbind (relay_message send_fails i (write_at 0 (take 256 bs) (replicate 256 0))) (\<lambda>acts. Inr (st, acts))"
        using False by (auto simp: Arriving Some relay_fd_def recv_into_def RELAY_BUFLEN_def Let_def min_def)
      then show ?thesis
        using assms data by (force elim!: rbind_InrE dest: sym)
    qed
  qed
qed

lemma relay_ok_step:
  assumes "relay_ok st" and "event_ok st (i, ev)" and "relay_fd send_fails i ev st = Inr (st', out)"
  shows "relay_ok st' \<and> listen_fd st' = listen_fd st"
  using assms(3)
proof (cases rule: relay_fd_cases)
  case (accepted fd ip_str port)
  then show ?thesis
    using assms(1) by (auto simp: relay_ok_def le_max_iff_disj)
next
  case closed
  then show ?thesis
    using assms(1,2) by (auto simp: relay_ok_def event_ok_def)
next
  case (data buffer)
  then show ?thesis
    using assms(1) by simp
qed

text \<open>
  The invariant of the relay: in every reachable state the set that \<open>select\<close> waits for contains the
  listening descriptor, and none of its descriptors is above \<open>fdmax\<close>, the bound of the loop and the
  argument of \<open>select\<close>.
\<close>

theorem relay_invariant:
  assumes "relay_reach send_fails sockfd st out"
  shows "relay_ok st \<and> listen_fd st = sockfd"
  using assms
proof (induction rule: relay_reach.induct)
  case start
  then show ?case
    by (simp add: relay_ok_def relay_start_def)
next
  case (step st out i ev st' out')
  then show ?case
    using relay_ok_step by metis
qed

theorem relay_invariant_witness:
  "let st = relay_start 3 in relay_ok (st\<lparr>read_fds := insert 4 (read_fds st), fdmax := max 4 (fdmax st)\<rparr>) \<and>
    listen_fd (st\<lparr>read_fds := insert 4 (read_fds st), fdmax := max 4 (fdmax st)\<rparr>) = 3"
proof -
  have "relay_reach (\<lambda>_ _. True) 3 (relay_start 3) []"
    by (rule relay_reach.start)
  moreover have "event_ok (relay_start 3) (3, Connecting (Some 4) ''10.0.0.1'' 7)"
    by (simp add: event_ok_def relay_start_def)
  ultimately have "\<exists>out. relay_reach (\<lambda>_ _. True) 3
      ((relay_start 3)\<lparr>read_fds := insert 4 (read_fds (relay_start 3)), fdmax := max 4 (fdmax (relay_start 3))\<rparr>) out"
    by (intro exI) (rule relay_reach.step, auto simp: relay_fd_def)
  then show ?thesis
    unfolding Let_def using relay_invariant by blast
qed

section \<open>Passing messages on\<close>

text \<open>A message \<open>d text\<close>: a digit, any character, and a text without terminators.\<close>

lemma relay_message_digit:
  assumes "c # x # msg = bs" and "length bs < RELAY_BUFLEN" and "0 \<notin> set bs" and "0x34 \<le> c" and "c \<le> 0x39"
  shows "relay_message send_fails i (write_at 0 bs (replicate RELAY_BUFLEN 0)) =
    (if send_fails (int (unat c) - 48) msg then Inl (Exit 1)
     else Inr [Sent (int (unat c) - 48) msg,
       Said (''Server: am primit pe sock '' @ show_int i @ '' mesajul: '' @ text_of bs @ [newline])])"
proof -
  let ?buf = "write_at 0 bs (replicate RELAY_BUFLEN 0)"
  have d: "drop 2 ?buf = write_at 0 msg (replicate (RELAY_BUFLEN - 2) 0)"
    using assms(1,2) by (auto simp: write_at_def)
  have n: "strlen (drop 2 ?buf) = Inr (length msg)"
    unfolding d by (rule strlen_zeros) (use assms(1-3) in \<open>auto simp: RELAY_BUFLEN_def\<close>)
  have t: "take (length msg) (drop 2 ?buf) = msg"
    unfolding d by (simp add: write_at_def)
  have h: "?buf ! 0 = c"
    using assms(1) by (auto simp: write_at_def)
  show ?thesis
    using assms(4,5) string_of_zeros [OF assms(3,2)]
    by (simp add: relay_message_def h n t)
qed

text \<open>
  What the relay does with a message of less than 256 characters from a client: if it starts with a
  digit from 4 to 9, the text from the third character on goes to the descriptor with this number,
  and to no other; the state does not change. If that \<open>send\<close> fails, as it does when nobody is
  connected there, the server exits.
\<close>

theorem relay_passes_on:
  assumes "c # x # msg = bs" and "length bs < RELAY_BUFLEN" and "0 \<notin> set bs" and "0x34 \<le> c" and "c \<le> 0x39"
    and "clientNo = int (unat c) - 48"
  shows "relay_fd send_fails i (Arriving (Some bs)) st =
    (if send_fails clientNo msg then Inl (Exit 1)
     else Inr (st, [Sent clientNo msg,
       Said (''Server: am primit pe sock '' @ show_int i @ '' mesajul: '' @ text_of bs @ [newline])]))"
  using assms(1,2) relay_message_digit [OF assms(1-5), of send_fails i]
  by (auto simp: relay_fd_def assms(6) RELAY_BUFLEN_def)

theorem relay_passes_on_witness:
  "let bs = [0x35, 32, 104, 105] in
    relay_fd (\<lambda>fd _. fd \<notin> {4, 5}) 4 (Arriving (Some bs)) (relay_start 3) =
    (if (\<lambda>fd _. fd \<notin> {4, 5 :: int}) (5 :: int) [104, 105 :: u8] then Inl (Exit 1)
     else Inr (relay_start 3, [Sent 5 [104, 105],
       Said (''Server: am primit pe sock '' @ show_int 4 @ '' mesajul: '' @ text_of bs @ [newline])]))"
  unfolding Let_def by (rule relay_passes_on [of "0x35" 32]) (simp_all add: RELAY_BUFLEN_def)

end
