(* ===== verification/Mail_Client.thy ===== *)
theory Mail_Client
  imports Socket_Progs
begin

text \<open>
  The mail client of \<open>Lab11\<close>, \<open>send_mail.c\<close>: a session with an SMTP server, one command and one line of
  answer at a time. The connection is the list of results of the one-byte \<open>read\<close> calls; the program
  uses arrays of 500 characters.
\<close>

definition MAXLEN :: nat where
  "MAXLEN = 500"

section \<open>Reading a line\<close>

text \<open>A \<open>read\<close> of one byte: the byte, the end of the stream, an interrupt, or another error.\<close>

datatype byte_read = Byte u8 | End_Of_Stream | Interrupted | Failed

text \<open>
  \<open>read_line\<close>: the bytes stored from the start of the array, the number returned, whether the
  terminator was written, and the rest of the connection. \<open>k\<close> is \<open>maxlen - n\<close>, \<open>buffer\<close> what is stored so far;
  \<open>None\<close> is a \<open>read\<close> that waits.
\<close>

fun read_line_from ::
  "nat \<Rightarrow> nat \<Rightarrow> u8 list \<Rightarrow> byte_read list \<Rightarrow> (u8 list \<times> int \<times> bool \<times> byte_read list) option" where
  "read_line_from 0 n buffer rs = Some (buffer, int n, True, rs)"
| "read_line_from (Suc k) n buffer [] = None"
| "read_line_from (Suc k) n buffer (r # rs) = (case r of
       Byte c \<Rightarrow> if c = 10 then Some (buffer @ [c], int n, True, rs)
                 else read_line_from k (n + 1) (buffer @ [c]) rs
     | End_Of_Stream \<Rightarrow> if n = 1 then Some (buffer, 0, False, rs) else Some (buffer, int n, True, rs)
     | Interrupted \<Rightarrow> read_line_from k (n + 1) buffer rs
     | Failed \<Rightarrow> Some (buffer, - 1, False, rs))"

text \<open>The array after the call, from the contents \<open>a\<close> before it.\<close>

definition read_line ::
  "nat \<Rightarrow> u8 list \<Rightarrow> byte_read list \<Rightarrow> (u8 list \<times> int \<times> byte_read list) option" where
  "read_line maxlen a rs = map_option (\<lambda>(buffer, n, terminated, rs').
     (write_at 0 (buffer @ (if terminated then [0] else [])) a, n, rs'))
     (read_line_from (maxlen - 1) 1 [] rs)"

section \<open>The session\<close>

datatype mail_action = Print string | Write "u8 list"

datatype mail_end = Mail_Returned int | Mail_Waiting | Mail_Exit int

text \<open>
  \<open>send_command\<close>: what is done, how it ends (\<open>None\<close>: it returns) and the rest of the connection. \<open>raw\<close>
  is the unwritten array \<open>recvbuf\<close>.
\<close>

definition send_command ::
  "u8 list \<Rightarrow> string \<Rightarrow> string \<Rightarrow> byte_read list \<Rightarrow> (mail_action list \<times> mail_end option \<times> byte_read list) res" where
  "send_command raw sendbuf expected rs =
    (let acts = [Print (''Trimit: '' @ sendbuf @ [newline]), Write (bytes_of sendbuf), Write [13, 10]]
     in case read_line (MAXLEN - 1) raw rs of
          None \<Rightarrow> Inr (acts, Some Mail_Waiting, [])
        | Some (recvbuf, nbytes, rs') \<Rightarrow>
            if nbytes < 0 \<or> int (length recvbuf) \<le> nbytes then Inl Out_Of_Bounds
            else rbind (string_of (recvbuf[nat nbytes := 0])) (\<lambda>answer.
              let acts = acts @ [Print (''Am primit: '' @ answer)]
              in if take (length expected) answer = expected then Inr (acts, None, rs')
                 else Inr (acts @ [Print (''Am primit mesaj de eroare de la server!'' @ [newline])],
                   Some (Mail_Exit (- 1)), rs')))"

text \<open>Commands one after the other, until one does not return.\<close>

fun send_commands ::
  "u8 list \<Rightarrow> (string \<times> string) list \<Rightarrow> byte_read list \<Rightarrow> (mail_action list \<times> mail_end option \<times> byte_read list) res"
where
  "send_commands raw [] rs = Inr ([], None, rs)"
| "send_commands raw ((cmd, expected) # cmds) rs =
     rbind (send_command raw cmd expected rs) (\<lambda>(acts, e, rs').
       case e of
         Some e' \<Rightarrow> Inr (acts, Some e', rs')
       | None \<Rightarrow> rbind (send_commands raw cmds rs') (\<lambda>(acts', e', rs''). Inr (acts @ acts', e', rs'')))"

text \<open>The commands up to \<open>DATA\<close>, and the parts of the message around the name and the contents of the file.\<close>

definition opening_cmds :: "(string \<times> string) list" where
  "opening_cmds = [(''HELO localhost'', ''250''), (''MAIL FROM: <student@upb.ro>'', ''250''),
     (''RCPT TO: <profesor@upb.ro>'', ''250''), (''DATA'', ''354'')]"

definition mail_head :: string where
  "mail_head = ''MIME-Version: 1.0'' @ [newline] @ ''From: Student <student@upb.ro>'' @ [newline] @
     ''To: Profesor <profesor@upb.ro>'' @ [newline] @ ''Subject: Tema'' @ [newline] @
     ''Content-Type: multipart/mixed; boundary=abc'' @ [newline] @
     ''--abc'' @ [newline] @ ''Content-Type: text/plain'' @ [newline] @ ''Atasez tema.'' @ [newline] @
     ''--abc'' @ [newline] @ ''Content-Type: text/plain'' @ [newline] @
     ''Content-Disposition: attachment; filename='' @ [CHR 0x22]"

definition mail_text :: "string \<Rightarrow> string \<Rightarrow> string" where
  "mail_text name contents = mail_head @ name @ [CHR 0x22, newline, newline] @ contents @
     newline # ''--abc'' @ [CHR 0x0D, newline] @ ''.''"

text \<open>
  The part of \<open>main\<close> that builds the message: the result \<open>r\<close> of \<open>read\<close> (\<open>None\<close> also if the file could not be opened) goes to
  an array of 500 characters, whose element at the number of bytes read is then cleared; the whole
  message must fit in 500 characters with its terminator.
\<close>

definition build_mail :: "string \<Rightarrow> u8 list option \<Rightarrow> u8 list \<Rightarrow> string res" where
  "build_mail name r readbuf =
    (let (n, readbuf) = recv_into MAXLEN r readbuf
     in if MAXLEN \<le> length (mail_head @ name @ [CHR 0x22, newline, newline]) then Inl Out_Of_Bounds
        else if n < 0 \<or> int (length readbuf) \<le> n then Inl Out_Of_Bounds
        else rbind (string_of (readbuf[nat n := 0])) (\<lambda>contents.
          if MAXLEN \<le> length (mail_text name contents) then Inl Out_Of_Bounds
          else Inr (mail_text name contents)))"

text \<open>
  \<open>main\<close>: an address of 16 characters or more leaves \<open>server_ip\<close> without a terminator. The other arguments are failing \<open>socket\<close> and \<open>connect\<close> calls, which are only reported, the connection, and what
  \<open>read\<close> on the file returns. \<open>raw\<close> are the unwritten arrays. After \<open>read_line\<close> has returned 0 or -1 the first
  \<open>printf\<close> prints the array as it is.
\<close>

definition mail_main ::
  "string list \<Rightarrow> bool \<Rightarrow> bool \<Rightarrow> u8 list \<Rightarrow> byte_read list \<Rightarrow> u8 list option \<Rightarrow>
    (mail_action list \<times> mail_end) res" where
  "mail_main argv socket_fails connect_fails raw rs r =
    (if length argv \<noteq> 3
     then Inr ([Print (''Utilizare: ./send_msg adresa_server nume_fisier'' @ [newline])], Mail_Exit (- 1))
     else if 16 \<le> length (argv ! 1) then Inl Out_Of_Bounds
     else
       let acts0 = (if socket_fails then [Print (''[ERROR] failed to open socket'' @ [newline])] else []) @
             (if connect_fails then [Print ''[ERROR] failed to connect to socket''] else [])
       in case read_line (MAXLEN - 1) raw rs of
         None \<Rightarrow> Inr (acts0, Mail_Waiting)
       | Some (recvbuf, _, rs) \<Rightarrow>
           rbind (string_of recvbuf) (\<lambda>greeting.
           let acts0 = acts0 @ [Print (''Am primit: '' @ greeting @ [newline])]
           in rbind (send_commands raw opening_cmds rs) (\<lambda>(acts, e, rs). case e of
                Some e' \<Rightarrow> Inr (acts0 @ acts, e')
              | None \<Rightarrow>
                  rbind (build_mail (argv ! 2) r raw) (\<lambda>mail.
                  rbind (send_commands raw [(mail, ''250''), (''QUIT'', ''221'')] rs) (\<lambda>(acts', e, _).
                    Inr (acts0 @ acts @ acts', case e of None \<Rightarrow> Mail_Returned 0 | Some e' \<Rightarrow> e'))))))"

section \<open>What \<open>read_line\<close> returns\<close>

text \<open>A line that fits, of bytes other than the newline: it is stored with its newline and a terminator.\<close>

lemma read_line_from_line:
  assumes "10 \<notin> set bs" and "length bs < k"
  shows "read_line_from k n buffer (map Byte bs @ Byte 10 # rs) =
    Some (buffer @ bs @ [10], int (n + length bs), True, rs)"
  using assms
proof (induction bs arbitrary: k n buffer)
  case Nil
  then show ?case
    by (cases k) simp_all
next
  case (Cons b bs)
  then show ?case
    by (cases k) auto
qed

lemma read_line_line:
  assumes "10 \<notin> set bs" and "length bs + 1 < maxlen"
  shows "read_line maxlen a (map Byte bs @ Byte 10 # rs) =
    Some (write_at 0 (bs @ [10, 0]) a, int (length bs + 1), rs)"
  using assms by (simp add: read_line_def read_line_from_line)

text \<open>The bytes stored and the number returned, on every connection.\<close>

lemma read_line_from_bounds:
  assumes "read_line_from k n buffer rs = Some (buffer', m, t, rs')" and "length buffer < n"
  shows "length buffer' \<le> length buffer + k \<and> m \<le> int (n + k) \<and> (t \<longrightarrow> int (length buffer') \<le> m) \<and>
    (\<not> t \<longrightarrow> m = 0 \<or> m = - 1)"
  using assms
proof (induction k n buffer rs rule: read_line_from.induct)
  case (3 k n buffer r rs)
  then show ?case
    by (cases r) (auto split: if_splits)
qed auto

text \<open>
  \<open>read_line\<close> never stores more than \<open>maxlen\<close> bytes, the terminator included, whatever the connection
  delivers; the number it returns is at most \<open>maxlen\<close>, and -1 or 0 when it stores no terminator.
\<close>

theorem read_line_bounds:
  assumes "read_line maxlen a rs = Some (a', n, rs')" and "0 < maxlen" and "maxlen \<le> length a"
  shows "length a' = length a \<and> drop maxlen a' = drop maxlen a \<and> n \<le> int maxlen \<and>
    (0 < n \<longrightarrow> 0 \<in> set (take maxlen a')) \<and> - 1 \<le> n"
proof -
  obtain buffer t where r: "read_line_from (maxlen - 1) 1 [] rs = Some (buffer, n, t, rs')"
    "a' = write_at 0 (buffer @ (if t then [0] else [])) a"
    using assms(1) by (auto simp: read_line_def)
  note b = read_line_from_bounds [OF r(1), simplified]
  have len: "length (buffer @ (if t then [0] else [])) \<le> maxlen"
    using b assms(2) by auto
  have "0 \<in> set (take maxlen a')" if "t"
    using that len by (cases "maxlen - length buffer") (simp_all add: r(2) write_at_def)
  moreover have "drop maxlen a' = drop maxlen a" "length a' = length a"
    using len assms(3) by (auto simp: r(2) write_at_def)
  ultimately show ?thesis
    using b assms(2) by auto
qed

section \<open>Sessions\<close>

text \<open>An answer of the server that starts with the expected code.\<close>

definition answers :: "u8 list \<Rightarrow> string \<Rightarrow> bool" where
  "answers bs expected \<longleftrightarrow> 10 \<notin> set bs \<and> 0 \<notin> set bs \<and> length bs < 498 \<and>
    take (length expected) (text_of (bs @ [10])) = expected"

lemma send_command_answered:
  assumes "10 \<notin> set bs" and "0 \<notin> set bs" and "length bs < 498" and "length raw = MAXLEN"
  shows "send_command raw cmd expected (map Byte bs @ Byte 10 # rs) =
    (let acts = [Print (''Trimit: '' @ cmd @ [newline]), Write (bytes_of cmd), Write [13, 10],
         Print (''Am primit: '' @ text_of (bs @ [10]))]
     in if answers bs expected then Inr (acts, None, rs)
        else Inr (acts @ [Print (''Am primit mesaj de eroare de la server!'' @ [newline])],
          Some (Mail_Exit (- 1)), rs))"
proof -
  have r: "read_line 499 raw (map Byte bs @ Byte 10 # rs) =
      Some (write_at 0 (bs @ [10, 0]) raw, int (length bs + 1), rs)"
    using assms(1,3) by (intro read_line_line) simp_all
  have u: "(write_at 0 (bs @ [10, 0]) raw)[length bs + 1 := 0] = write_at 0 ((bs @ [10]) @ [0]) raw"
    using assms(3,4) by (simp add: write_at_def MAXLEN_def list_update_append nth_append)
  have s: "string_of (write_at 0 ((bs @ [10]) @ [0]) raw) = Inr (text_of (bs @ [10]))"
    using assms by (intro string_of_terminated) (simp_all add: MAXLEN_def)
  show ?thesis
    using assms r u s by (simp add: send_command_def MAXLEN_def Let_def answers_def nat_add_distrib)
qed

text \<open>The lines of the server as a connection, and the bytes a client writes.\<close>

definition server_lines :: "u8 list list \<Rightarrow> byte_read list" where
  "server_lines bss = concat (map (\<lambda>bs. map Byte bs @ [Byte 10]) bss)"

fun written :: "mail_action list \<Rightarrow> u8 list" where
  "written [] = []"
| "written (Print s # acts) = written acts"
| "written (Write bs # acts) = bs @ written acts"

lemma written_append [simp]: "written (acts @ acts') = written acts @ written acts'"
  by (induction acts rule: written.induct) auto

definition command_bytes :: "string list \<Rightarrow> u8 list" where
  "command_bytes cmds = concat (map (\<lambda>c. bytes_of c @ [13, 10]) cmds)"

lemma send_commands_answered:
  assumes "length bss = length cmds" and "\<forall>(bs, cmd) \<in> set (zip bss cmds). answers bs (snd cmd)"
    and "length raw = MAXLEN"
  shows "\<exists>acts. send_commands raw cmds (server_lines bss @ rs) = Inr (acts, None, rs) \<and>
    written acts = command_bytes (map fst cmds)"
  using assms(1,2)
proof (induction cmds arbitrary: bss)
  case Nil
  then show ?case
    by (simp add: server_lines_def command_bytes_def)
next
  case (Cons cmd cmds)
  obtain bs bss' where bss: "bss = bs # bss'"
    using Cons.prems(1) by (cases bss) auto
  obtain c e where cmd: "cmd = (c, e)"
    by force
  have a: "answers bs e"
    using Cons.prems(2) by (simp add: bss cmd)
  obtain acts where acts: "send_commands raw cmds (server_lines bss' @ rs) = Inr (acts, None, rs)"
      "written acts = command_bytes (map fst cmds)"
    using Cons.IH [of bss'] Cons.prems by (auto simp: bss)
  have "send_command raw c e (server_lines bss @ rs) = Inr ([Print (''Trimit: '' @ c @ [newline]), Write (bytes_of c),
      Write [13, 10], Print (''Am primit: '' @ text_of (bs @ [10]))], None, server_lines bss' @ rs)"
    using send_command_answered [of bs raw c e "server_lines bss' @ rs"] a assms(3)
    by (simp add: bss server_lines_def answers_def Let_def)
  then show ?case
    using acts by (simp add: cmd command_bytes_def)
qed

text \<open>The message, for every file.\<close>

lemma build_mail_text:
  assumes "length raw = MAXLEN" and "0 \<notin> set file"
  shows "build_mail name (Some file) raw =
    (if length (mail_text name (text_of file)) < MAXLEN then Inr (mail_text name (text_of file)) else Inl Out_Of_Bounds)"
proof (cases "length file < 500")
  case True
  have "(write_at 0 file raw)[length file := 0] = write_at 0 (file @ [0]) raw"
    using True assms(1) by (simp add: write_at_def MAXLEN_def list_update_append upd_conv_take_nth_drop)
  then show ?thesis
    using True assms(1) string_of_terminated [OF assms(2), of raw]
    by (auto simp: build_mail_def MAXLEN_def mail_text_def)
next
  case False
  then show ?thesis
    using assms(1) by (simp add: build_mail_def recv_into_def MAXLEN_def mail_text_def text_of_def)
qed

text \<open>
  C27. A mail session. The server greets the client and answers each command with the code it expects. If
  the message with the name and the text of the file is shorter than 500 characters, the client
  writes exactly the six commands, each ended by CR LF, and returns 0; otherwise it writes past its
  array, after the server has accepted \<open>DATA\<close>.
\<close>

theorem mail_session:
  assumes "length argv = 3" and "length (argv ! 1) < 16" and "length raw = MAXLEN" and "answers greeting ''''"
    and "length bss = 4" and "\<forall>(bs, cmd) \<in> set (zip bss opening_cmds). answers bs (snd cmd)"
    and "answers ok ''250''" and "answers bye ''221''" and "0 \<notin> set file"
    and "mail = mail_text (argv ! 2) (text_of file)"
  shows "\<exists>acts. mail_main argv False False raw (server_lines ([greeting] @ bss @ [ok, bye])) (Some file) =
      (if length mail < MAXLEN then Inr (acts, Mail_Returned 0) else Inl Out_Of_Bounds) \<and>
    written acts = command_bytes (map fst opening_cmds @ [mail, ''QUIT''])"
proof -
  let ?rest = "server_lines [ok, bye]"
  have l: "server_lines ([greeting] @ bss @ [ok, bye]) = map Byte greeting @ Byte 10 # server_lines bss @ ?rest"
    by (simp add: server_lines_def)
  have g: "10 \<notin> set greeting" "0 \<notin> set greeting" "length greeting < 498"
    using assms(4) by (auto simp: answers_def)
  have greet: "read_line 499 raw (map Byte greeting @ Byte 10 # server_lines bss @ ?rest) =
      Some (write_at 0 ((greeting @ [10]) @ [0]) raw, int (length greeting + 1), server_lines bss @ ?rest)"
    using read_line_line [of greeting 499 raw] g by simp
  have s: "string_of (write_at 0 ((greeting @ [10]) @ [0]) raw) = Inr (text_of (greeting @ [10]))"
    using g assms(3) by (intro string_of_terminated) (simp_all add: MAXLEN_def)
  obtain acts where acts: "send_commands raw opening_cmds (server_lines bss @ ?rest) = Inr (acts, None, ?rest)"
      "written acts = command_bytes (map fst opening_cmds)"
    using send_commands_answered [of bss opening_cmds raw ?rest] assms(3,5,6) by (auto simp: opening_cmds_def)
  obtain acts' where acts': "send_commands raw [(mail, ''250''), (''QUIT'', ''221'')] ?rest = Inr (acts', None, [])"
      "written acts' = command_bytes [mail, ''QUIT'']"
    using send_commands_answered [of "[ok, bye]" "[(mail, ''250''), (''QUIT'', ''221'')]" raw "[]"] assms(3,7,8)
    by auto
  have "build_mail (argv ! 2) (Some file) raw = (if length mail < MAXLEN then Inr mail else Inl Out_Of_Bounds)"
    using build_mail_text [OF assms(3,9)] assms(10) by simp
  then show ?thesis
    using assms(1,2) greet s acts acts' unfolding l
    by (simp add: mail_main_def MAXLEN_def) (auto simp: command_bytes_def intro!: exI [of _ "acts @ acts'"])
qed

lemma send_commands_refused:
  assumes "length bss = k" and "k < length cmds" and "\<forall>(bs, cmd) \<in> set (zip bss cmds). answers bs (snd cmd)"
    and "10 \<notin> set no" and "0 \<notin> set no" and "length no < 498" and "\<not> answers no (snd (cmds ! k))"
    and "length raw = MAXLEN"
  shows "\<exists>acts rs'. send_commands raw cmds (server_lines (bss @ [no]) @ rs) = Inr (acts, Some (Mail_Exit (- 1)), rs') \<and>
    written acts = command_bytes (map fst (take (Suc k) cmds))"
  using assms(1-3,7)
proof (induction cmds arbitrary: bss k)
  case (Cons cmd cmds)
  obtain c e where cmd: "cmd = (c, e)"
    by force
  show ?case
  proof (cases bss)
    case Nil
    then have "send_command raw c e (server_lines (bss @ [no]) @ rs) = Inr ([Print (''Trimit: '' @ c @ [newline]),
        Write (bytes_of c), Write [13, 10], Print (''Am primit: '' @ text_of (no @ [10])),
        Print (''Am primit mesaj de eroare de la server!'' @ [newline])], Some (Mail_Exit (- 1)), rs)"
      using send_command_answered [OF assms(4-6,8), of c e rs] Cons.prems by (simp add: server_lines_def cmd Let_def)
    then show ?thesis
      using Nil Cons.prems(1) by (simp add: cmd command_bytes_def)
  next
    case (Cons bs bss')
    have a: "answers bs e"
      using Cons.prems(3) by (simp add: Cons cmd)
    obtain acts rs' where acts: "send_commands raw cmds (server_lines (bss' @ [no]) @ rs) = Inr (acts, Some (Mail_Exit (- 1)), rs')"
        "written acts = command_bytes (map fst (take (length bss) cmds))"
      using Cons.IH [of bss' "length bss'"] Cons.prems by (auto simp: Cons)
    have "send_command raw c e (server_lines (bss @ [no]) @ rs) = Inr ([Print (''Trimit: '' @ c @ [newline]), Write (bytes_of c),
        Write [13, 10], Print (''Am primit: '' @ text_of (bs @ [10]))], None, server_lines (bss' @ [no]) @ rs)"
      using send_command_answered [of bs raw c e "server_lines (bss' @ [no]) @ rs"] a assms(8)
      by (simp add: Cons server_lines_def answers_def Let_def)
    then show ?thesis
      using acts Cons.prems(1) by (simp add: cmd command_bytes_def)
  qed
qed simp

text \<open>
  An answer with another code. When the server refuses the command after the first \<open>k\<close>, the client has
  written the commands up to this one and nothing more, and exits with -1.
\<close>

theorem mail_refused:
  assumes "length argv = 3" and "length (argv ! 1) < 16" and "length raw = MAXLEN" and "answers greeting ''''"
    and "length bss = k" and "k < 4" and "\<forall>(bs, cmd) \<in> set (zip bss opening_cmds). answers bs (snd cmd)"
    and "10 \<notin> set no" and "0 \<notin> set no" and "length no < 498" and "\<not> answers no (snd (opening_cmds ! k))"
  shows "\<exists>acts. mail_main argv False False raw (server_lines ([greeting] @ bss @ [no]) @ rs) r =
      Inr (acts, Mail_Exit (- 1)) \<and>
    written acts = command_bytes (map fst (take (Suc k) opening_cmds))"
proof -
  have g: "10 \<notin> set greeting" "0 \<notin> set greeting" "length greeting < 498"
    using assms(4) by (auto simp: answers_def)
  have greet: "read_line 499 raw (map Byte greeting @ Byte 10 # server_lines (bss @ [no]) @ rs) =
      Some (write_at 0 ((greeting @ [10]) @ [0]) raw, int (length greeting + 1), server_lines (bss @ [no]) @ rs)"
    using read_line_line [of greeting 499 raw] g by simp
  have s: "string_of (write_at 0 ((greeting @ [10]) @ [0]) raw) = Inr (text_of (greeting @ [10]))"
    using g assms(3) by (intro string_of_terminated) (simp_all add: MAXLEN_def)
  have "k < length opening_cmds"
    using assms(6) by (simp add: opening_cmds_def)
  from send_commands_refused [OF assms(5) this assms(7-11,3), of rs] obtain acts rs' where
    acts: "send_commands raw opening_cmds (server_lines (bss @ [no]) @ rs) = Inr (acts, Some (Mail_Exit (- 1)), rs')"
      "written acts = command_bytes (map fst (take (Suc k) opening_cmds))"
    by blast
  have l: "server_lines ([greeting] @ bss @ [no]) @ rs = map Byte greeting @ Byte 10 # server_lines (bss @ [no]) @ rs"
    by (simp add: server_lines_def)
  show ?thesis
    using assms(1,2) greet s acts unfolding l
    by (simp add: mail_main_def MAXLEN_def)
qed

section \<open>Concrete sessions\<close>

definition ok_line :: "u8 list" where
  "ok_line = [50, 53, 48]"

lemma demo_answers: "answers [50, 50, 48] ''''" "answers ok_line ''250''" "answers [51, 53, 52] ''354''"
  "answers [50, 50, 49] ''221''" "\<not> answers [53, 53, 48] ''250''"
  by code_simp+

theorem mail_session_witness:
  "\<exists>acts. mail_main [''send_msg'', ''127.0.0.1'', ''f''] False False (replicate 500 1)
      (server_lines ([[50, 50, 48]] @ [ok_line, ok_line, ok_line, [51, 53, 52]] @ [ok_line, [50, 50, 49]])) (Some [104, 105]) =
      (if length (mail_text ''f'' (text_of [104, 105])) < MAXLEN then Inr (acts, Mail_Returned 0) else Inl Out_Of_Bounds) \<and>
    written acts = command_bytes (map fst opening_cmds @ [mail_text ''f'' (text_of [104, 105]), ''QUIT''])"
  by (rule mail_session) (simp_all add: MAXLEN_def demo_answers opening_cmds_def)

theorem mail_refused_witness:
  "\<exists>acts. mail_main [''send_msg'', ''127.0.0.1'', ''f''] False False (replicate 500 1)
      (server_lines ([[50, 50, 48]] @ [ok_line] @ [[53, 53, 48]]) @ []) None = Inr (acts, Mail_Exit (- 1)) \<and>
    written acts = command_bytes (map fst (take (Suc 1) opening_cmds))"
  by (rule mail_refused) (simp_all add: MAXLEN_def demo_answers opening_cmds_def)

theorem read_line_bounds_witness:
  "let a' = write_at 0 [104, 105, 0 :: u8] (replicate 8 9); n = (3 :: int) in
    length a' = length (replicate 8 (9 :: u8)) \<and> drop 3 a' = drop 3 (replicate 8 9) \<and> n \<le> int 3 \<and>
    (\<exists>x \<in> set (take 3 a'). x = 0) \<and> - 1 \<le> n"
proof -
  have "read_line 3 (replicate 8 9) [Byte 104, Byte 105, Byte 106] =
      Some (write_at 0 [104, 105, 0] (replicate 8 9), 3, [Byte 106])"
    by code_simp
  from read_line_bounds [OF this] show ?thesis
    by (simp add: Let_def)
qed

end
