(* ===== verification/File_Tools.thy ===== *)
theory File_Tools
  imports Socket_Progs
begin

text \<open>
  The two programs of \<open>Lab01\<close>: \<open>cat.c\<close> copies a file to the standard output byte by byte, \<open>tac.c\<close> prints its lines in
  reverse order.
\<close>

section \<open>\<open>cat\<close>\<close>

text \<open>
  The loop over the results of \<open>read\<close> of one byte: \<open>Some None\<close> is the end of the file, \<open>None\<close> an error,
  after which the loop goes on with the byte read last (\<open>buffer\<close>, at first unwritten).
\<close>

fun cat_loop :: "u8 \<Rightarrow> u8 option option list \<Rightarrow> u8 list \<times> proc_end" where
  "cat_loop buffer [] = ([], Waiting)"
| "cat_loop buffer (r # rs) = (case r of
       Some None \<Rightarrow> ([], Returned 0)
     | Some (Some b) \<Rightarrow> (let (out, e) = cat_loop b rs in (b # out, e))
     | None \<Rightarrow> (let (out, e) = cat_loop buffer rs in (buffer # out, e)))"

text \<open>\<open>main\<close>; without an argument \<open>open\<close> gets a null pointer and fails.\<close>

definition cat_main :: "string list \<Rightarrow> (string \<Rightarrow> u8 option option list option) \<Rightarrow> u8 \<Rightarrow> (u8 list \<times> proc_end) res" where
  "cat_main argv open_file raw =
    (case if length argv < 2 then None else open_file (argv ! 1) of
       None \<Rightarrow> Inl (Exit (- 1))
     | Some rs \<Rightarrow> Inr (cat_loop raw rs))"

text \<open>
  \<open>cat\<close> on a file that can be read copies it; and after the first failing \<open>read\<close>, it writes the last byte again
  for every further one.
\<close>

lemma cat_copies: "cat_loop raw (map (\<lambda>b. Some (Some b)) bs @ [Some None]) = (bs, Returned 0)"
  by (induction bs arbitrary: raw) simp_all

lemma cat_repeats:
  "cat_loop raw (map (\<lambda>b. Some (Some b)) bs @ replicate n None) = (bs @ replicate n (last (raw # bs)), Waiting)"
proof (induction bs arbitrary: raw)
  case Nil
  show ?case
    by (induction n) simp_all
qed simp

section \<open>\<open>tac\<close>\<close>

text \<open>\<open>getline\<close>: the next line with its newline, if it has one.\<close>

definition getline :: "string \<Rightarrow> (string \<times> string) option" where
  "getline s =
    (if s = [] then None
     else let l = takeWhile (\<lambda>c. c \<noteq> newline) s; r = dropWhile (\<lambda>c. c \<noteq> newline) s
          in Some (case r of [] \<Rightarrow> (l, []) | c # r' \<Rightarrow> (l @ [c], r')))"

lemma getline_progress: "getline s = Some (l, r) \<Longrightarrow> length r < length s"
proof -
  assume g: "getline s = Some (l, r)"
  have "length (dropWhile (\<lambda>c. c \<noteq> newline) s) \<le> length s"
    by (rule length_dropWhile_le)
  then show ?thesis
    using g by (auto simp: getline_def Let_def split: if_splits list.splits)
qed

text \<open>
  The first loop: \<open>strlen\<close> and \<open>strcpy\<close> stop at a terminator inside the line; the newline is removed if
  it is then the last character. The array has 1024 rows of 1024 characters.
\<close>

definition c_prefix :: "string \<Rightarrow> string" where
  "c_prefix l = takeWhile (\<lambda>c. c \<noteq> CHR 0x00) l"

definition strip_newline :: "string \<Rightarrow> string" where
  "strip_newline l = (let s = c_prefix l in if s \<noteq> [] \<and> last s = newline then butlast s else s)"

function read_all_lines :: "string list \<Rightarrow> string \<Rightarrow> string list res" where
  "read_all_lines ls s = (case getline s of
       None \<Rightarrow> Inr ls
     | Some (l, r) \<Rightarrow>
         if 1024 \<le> length ls \<or> 1024 \<le> length (strip_newline l) then Inl Out_Of_Bounds
         else read_all_lines (ls @ [strip_newline l]) r)"
  by pat_completeness auto

termination
  by (relation "measure (\<lambda>(ls, s). length s)") (auto dest: getline_progress)

declare read_all_lines.simps [simp del]

text \<open>\<open>main\<close>: what is printed and the value returned.\<close>

definition tac_main :: "string list \<Rightarrow> (string \<Rightarrow> string option) \<Rightarrow> (string \<times> int) res" where
  "tac_main argv open_file =
    (if length argv \<noteq> 2 then Inr (''bad arguments'' @ [newline], - 1)
     else case open_file (argv ! 1) of
       None \<Rightarrow> Inr (''Error Reading the fime'' @ [newline], - 1)
     | Some s \<Rightarrow> rbind (read_all_lines [] s) (\<lambda>ls. Inr (concat (map (\<lambda>l. l @ [newline]) (rev ls)), 0)))"

text \<open>A file of text lines, the last of which may lack its newline.\<close>

definition text_lines :: "string list \<Rightarrow> bool" where
  "text_lines ls \<longleftrightarrow> (\<forall>l \<in> set ls. newline \<notin> set l \<and> CHR 0x00 \<notin> set l)"

lemma getline_line:
  "newline \<notin> set l \<Longrightarrow> getline (l @ newline # r) = Some (l @ [newline], r)"
proof -
  assume l: "newline \<notin> set l"
  then have "takeWhile (\<lambda>c. c \<noteq> newline) (l @ newline # r) = l" "dropWhile (\<lambda>c. c \<noteq> newline) (l @ newline # r) = newline # r"
    by (induction l) auto
  then show ?thesis
    by (simp add: getline_def)
qed

lemma strip_newline_line:
  assumes "newline \<notin> set l" and "CHR 0x00 \<notin> set l"
  shows "strip_newline (l @ [newline]) = l"
proof -
  have "c_prefix (l @ [newline]) = l @ [newline]"
    using assms(2) by (auto simp: c_prefix_def takeWhile_eq_all_conv)
  then show ?thesis
    by (simp add: strip_newline_def)
qed

lemma read_all_lines_text:
  assumes "text_lines ls"
  shows "read_all_lines acc (concat (map (\<lambda>l. l @ [newline]) ls)) =
    (if length acc + length ls \<le> 1024 \<and> (\<forall>l \<in> set ls. length l < 1024) \<or> ls = []
     then Inr (acc @ ls) else Inl Out_Of_Bounds)"
  using assms
proof (induction ls arbitrary: acc)
  case Nil
  then show ?case
    by (simp add: read_all_lines.simps getline_def)
next
  case (Cons l ls)
  have l: "newline \<notin> set l" "CHR 0x00 \<notin> set l" "text_lines ls"
    using Cons.prems by (auto simp: text_lines_def)
  have "getline (concat (map (\<lambda>l. l @ [newline]) (l # ls))) =
      Some (l @ [newline], concat (map (\<lambda>l. l @ [newline]) ls))"
    using getline_line [OF l(1)] by simp
  then have "read_all_lines acc (concat (map (\<lambda>l. l @ [newline]) (l # ls))) =
      (if 1024 \<le> length acc \<or> 1024 \<le> length l then Inl Out_Of_Bounds
       else read_all_lines (acc @ [l]) (concat (map (\<lambda>l. l @ [newline]) ls)))"
    by (subst read_all_lines.simps) (simp add: strip_newline_line [OF l(1,2)])
  then show ?case
    using Cons.IH [OF l(3), of "acc @ [l]"] by auto
qed

text \<open>
  \<open>tac\<close> reverses the lines: on a file of text lines it prints them in reverse order and returns 0, if there are
  at most 1024 of them with less than 1024 characters each; otherwise it writes past its array.
\<close>

theorem tac_reverses:
  assumes "length argv = 2" and "text_lines ls" and "open_file (argv ! 1) = Some (concat (map (\<lambda>l. l @ [newline]) ls))"
  shows "tac_main argv open_file =
    (if length ls \<le> 1024 \<and> (\<forall>l \<in> set ls. length l < 1024)
     then Inr (concat (map (\<lambda>l. l @ [newline]) (rev ls)), 0) else Inl Out_Of_Bounds)"
  using assms read_all_lines_text [OF assms(2), of "[]"] by (auto simp: tac_main_def)

theorem tac_reverses_witness:
  "tac_main [''tac'', ''f''] (\<lambda>_. Some (concat (map (\<lambda>l. l @ [newline]) [''one'', ''two'']))) =
    Inr (concat (map (\<lambda>l. l @ [newline]) (rev [''one'', ''two''])), 0)"
  using tac_reverses [of "[''tac'', ''f'']" "[''one'', ''two'']" "\<lambda>_. Some (concat (map (\<lambda>l. l @ [newline]) [''one'', ''two'']))"]
  by (simp add: text_lines_def)

end
