(* ===== verification/Dns_Lookup.thy ===== *)
theory Dns_Lookup
  imports Socket_Progs
begin

text \<open>
  The resolver program of \<open>Lab09\<close>, \<open>dns.c\<close>. \<open>getaddrinfo\<close> and \<open>getnameinfo\<close> are arguments: they return
  the text of an error, or their result. The addresses of a host are a linked list of entries, here
  a list.
\<close>

datatype host_addr = Inet u32 | Inet6 "u8 list"

record addrinfo =
  ai_addr :: host_addr
  ai_port :: u16
  ai_canonname :: "string option"
  ai_protocol :: int

text \<open>The hints that \<open>get_ip\<close> sets; the other fields are null.\<close>

record hints =
  h_family :: string
  h_socktype :: string
  h_flags :: string

definition ip_hints :: hints where
  "ip_hints = \<lparr>h_family = ''AF_UNSPEC'', h_socktype = ''SOCK_DGRAM'', h_flags = ''AI_CANONNAME''\<rparr>"

text \<open>
  One entry: \<open>inet_ntop\<close> of an IPv6 address is an argument; the port is printed as it is stored, in
  network byte order; a null name cannot be printed.
\<close>

definition show_entry :: "(u8 list \<Rightarrow> string) \<Rightarrow> addrinfo \<Rightarrow> string res" where
  "show_entry ntop6 p = (case ai_canonname p of
       None \<Rightarrow> Inl Null_Deref
     | Some name \<Rightarrow>
         Inr ((case ai_addr p of Inet a \<Rightarrow> inet_ntoa a | Inet6 bs \<Rightarrow> ntop6 bs) @ ''. Port: '' @
           show_nat (unat (ai_port p)) @ ''. Canon name: '' @ name @ ''. Protocol: '' @ show_int (ai_protocol p) @
           [newline]))"

fun show_entries :: "(u8 list \<Rightarrow> string) \<Rightarrow> addrinfo list \<Rightarrow> string res" where
  "show_entries ntop6 [] = Inr []"
| "show_entries ntop6 (p # ps) =
     rbind (show_entry ntop6 p) (\<lambda>s. rbind (show_entries ntop6 ps) (\<lambda>s'. Inr (s @ s')))"

definition get_ip ::
  "(string \<Rightarrow> string \<Rightarrow> hints \<Rightarrow> string + addrinfo list) \<Rightarrow> (u8 list \<Rightarrow> string) \<Rightarrow> string \<Rightarrow> string res" where
  "get_ip getaddrinfo ntop6 name = (case getaddrinfo name ''80'' ip_hints of
       Inl _ \<Rightarrow> Inl (Exit 1)
     | Inr ps \<Rightarrow> show_entries ntop6 ps)"

text \<open>\<open>garbage\<close> is the unwritten address, kept when the text is not an IPv4 address.\<close>

definition get_name ::
  "(sockaddr \<Rightarrow> string + string \<times> string) \<Rightarrow> u32 \<Rightarrow> string \<Rightarrow> string res" where
  "get_name getnameinfo garbage ip_str =
    (let a = \<lparr>sin_family = AF_INET, sin_port = 0,
         sin_addr = (case inet_pton ip_str of None \<Rightarrow> garbage | Some a \<Rightarrow> a)\<rparr>
     in case getnameinfo a of
          Inl _ \<Rightarrow> Inl (Exit 1)
        | Inr (host, service) \<Rightarrow> Inr (''Host: '' @ host @ ''. Service : '' @ service @ [newline]))"

definition dns_usage :: "string \<Rightarrow> string \<times> int" where
  "dns_usage name = (''Usage:'' @ [newline, CHR 0x09] @ name @ '' -n <NAME>'' @ [newline, CHR 0x09] @ name @
     '' -a <IP>'' @ [newline], 1)"

text \<open>\<open>main\<close>: what is printed and the value returned.\<close>

definition dns_main ::
  "string list \<Rightarrow> (string \<Rightarrow> string \<Rightarrow> hints \<Rightarrow> string + addrinfo list) \<Rightarrow> (u8 list \<Rightarrow> string) \<Rightarrow>
    (sockaddr \<Rightarrow> string + string \<times> string) \<Rightarrow> u32 \<Rightarrow> (string \<times> int) res" where
  "dns_main argv getaddrinfo ntop6 getnameinfo garbage =
    (if length argv < 3 then Inr (dns_usage (argv ! 0))
     else if take 2 (argv ! 1) = ''-n'' then rbind (get_ip getaddrinfo ntop6 (argv ! 2)) (\<lambda>s. Inr (s, 0))
     else if take 2 (argv ! 1) = ''-a'' then rbind (get_name getnameinfo garbage (argv ! 2)) (\<lambda>s. Inr (s, 0))
     else Inr (dns_usage (argv ! 0)))"

text \<open>
  \<open>getaddrinfo\<close> sets the canonical name in the first entry only, and the port of every entry to that of
  the service, in network byte order.
\<close>

definition resolved :: "string \<Rightarrow> u16 \<Rightarrow> addrinfo list \<Rightarrow> bool" where
  "resolved name port ps \<longleftrightarrow> ps \<noteq> [] \<and> ai_canonname (hd ps) = Some name \<and>
    (\<forall>p \<in> set (tl ps). ai_canonname p = None) \<and> (\<forall>p \<in> set ps. ai_port p = htons port)"

text \<open>
  A look-up by name. For a host with one address the program prints this address, the canonical
  name, the protocol, and 20480 as the port of the service 80; for a host with several addresses it
  prints a null name.
\<close>

theorem dns_prints:
  assumes "take 2 (argv ! 1) = ''-n''" and "3 \<le> length argv"
    and "getaddrinfo (argv ! 2) ''80'' ip_hints = Inr ps" and "resolved name 80 ps" and "ai_addr (hd ps) = Inet a"
  shows "dns_main argv getaddrinfo ntop6 getnameinfo garbage =
    (if length ps = 1
     then Inr (inet_ntoa a @ ''. Port: 20480. Canon name: '' @ name @ ''. Protocol: '' @
       show_int (ai_protocol (hd ps)) @ [newline], 0)
     else Inl Null_Deref)"
proof -
  obtain p ps' where ps: "ps = p # ps'"
    using assms(4) by (cases ps) (auto simp: resolved_def)
  have "unat (htons 80) = 20480"
    by (simp add: htons_def hi8_def lo8_def mk16_def)
  moreover have "show_nat 20480 = ''20480''"
    by (simp add: show_nat.simps digit_char_def char_of_def bit_0)
  ultimately have "show_nat (unat (htons 80)) = ''20480''"
    by simp
  then have first: "show_entry ntop6 p = Inr (inet_ntoa a @ ''. Port: 20480. Canon name: '' @ name @
      ''. Protocol: '' @ show_int (ai_protocol p) @ [newline])"
    using assms(4,5) by (simp add: ps resolved_def show_entry_def)
  show ?thesis
  proof (cases ps')
    case Nil
    then show ?thesis
      using assms(1-3) first by (simp add: dns_main_def get_ip_def ps)
  next
    case (Cons q qs)
    then have "show_entry ntop6 q = Inl Null_Deref"
      using assms(4) by (simp add: ps resolved_def show_entry_def)
    then show ?thesis
      using assms(1-3) first by (simp add: dns_main_def get_ip_def ps Cons)
  qed
qed

theorem dns_prints_witness:
  "dns_main [''dns'', ''-n'', ''localhost'']
      (\<lambda>_ _ _. Inr [\<lparr>ai_addr = Inet 0x0100007F, ai_port = htons 80, ai_canonname = Some ''localhost'', ai_protocol = 17\<rparr>])
      (\<lambda>_. []) (\<lambda>_. Inl []) 0 =
    Inr (inet_ntoa 0x0100007F @ ''. Port: 20480. Canon name: '' @ ''localhost'' @ ''. Protocol: '' @
       show_int 17 @ [newline], 0)"
  using dns_prints [of "[''dns'', ''-n'', ''localhost'']" "\<lambda>_ _ _. Inr [\<lparr>ai_addr = Inet 0x0100007F, ai_port = htons 80,
      ai_canonname = Some ''localhost'', ai_protocol = 17\<rparr>]" _ "''localhost''"]
  by (simp add: resolved_def)

end
