(* ===== verification/Pubsub_Spec.thy ===== *)
theory Pubsub_Spec
  imports Pubsub_Props
begin

text \<open>
  What the publish-subscribe server promises, without its tables: a broker that knows which connection
  belongs to which name, which names are online, what waits for each name, and who follows which
  topic. Every run of the server is a run of the broker (\<open>server_refines_broker\<close>).

  The broker leaves open what the code leaves open to its clients: \<open>Unsubscribe\<close> removes some
  subscription of the topic, since the code uses the descriptor as an index; and the end of a stream
  without a name may register the empty name for its descriptor.
\<close>

section \<open>The broker\<close>

record broker =
  who :: "int \<Rightarrow> string option"
  online :: "string \<Rightarrow> int option"
  mailbox :: "string \<Rightarrow> string list option"
  follows :: "string \<Rightarrow> string \<Rightarrow> bool option"

datatype call =
    Publish string string
  | Join int string
  | Hang_Up int
  | Subscribe int string bool
  | Unsubscribe int string
  | Idle

type_synonym sent = "int \<Rightarrow> string list"

definition nothing :: sent where
  "nothing = (\<lambda>_. [])"

definition only :: "int \<Rightarrow> string list \<Rightarrow> sent" where
  "only fd ss = (\<lambda>x. if x = fd then ss else [])"

definition published :: "broker \<Rightarrow> string \<Rightarrow> string \<Rightarrow> sent" where
  "published b t s = (\<lambda>fd. if \<exists>name. follows b t name \<noteq> None \<and> online b name = Some fd then [s] else [])"

definition deposited :: "broker \<Rightarrow> string \<Rightarrow> string \<Rightarrow> string \<Rightarrow> string list option" where
  "deposited b t s = (\<lambda>name.
    if follows b t name = Some True \<and> online b name = None then map_option (\<lambda>ms. ms @ [s]) (mailbox b name)
    else mailbox b name)"

fun broker_step :: "call \<Rightarrow> broker \<Rightarrow> broker \<Rightarrow> sent \<Rightarrow> bool" where
  "broker_step (Publish t s) b b' out \<longleftrightarrow> out = published b t s \<and> b' = b\<lparr>mailbox := deposited b t s\<rparr>"
| "broker_step (Join fd name) b b' out \<longleftrightarrow>
    (if online b name \<noteq> None then b' = b \<and> out = only fd ['';ID_EXISTS;'' @ [newline]]
     else out = only fd (case mailbox b name of None \<Rightarrow> [] | Some ms \<Rightarrow> ms) \<and>
       b' = b\<lparr>who := (who b)(fd \<mapsto> name), online := (online b)(name \<mapsto> fd), mailbox := (mailbox b)(name \<mapsto> [])\<rparr>)"
| "broker_step (Hang_Up fd) b b' out \<longleftrightarrow> out = nothing \<and>
    (if who b fd = None \<or> who b fd = Some [] then b' = b \<or> b' = b\<lparr>who := (who b)(fd \<mapsto> [])\<rparr>
     else b' = b\<lparr>who := (who b)(fd := None), online := (online b)(the (who b fd) := None)\<rparr>)"
| "broker_step (Subscribe fd t sf) b b' out \<longleftrightarrow> out = nothing \<and> b' = (case who b fd of
       None \<Rightarrow> b
     | Some name \<Rightarrow> if follows b t name \<noteq> None then b
                   else b\<lparr>follows := (follows b)(t := (follows b t)(name \<mapsto> sf))\<rparr>)"
| "broker_step (Unsubscribe fd t) b b' out \<longleftrightarrow> out = nothing \<and> (case who b fd of
       None \<Rightarrow> b' = b
     | Some name \<Rightarrow> if follows b t name = None then b' = b
                   else \<exists>victim. follows b t victim \<noteq> None \<and>
                     b' = b\<lparr>follows := (follows b)(t := (follows b t)(victim := None))\<rparr>)"
| "broker_step Idle b b' out \<longleftrightarrow> b' = b \<and> out = nothing"

fun broker_run :: "call list \<Rightarrow> broker \<Rightarrow> broker \<Rightarrow> sent \<Rightarrow> bool" where
  "broker_run [] b b' out \<longleftrightarrow> b' = b \<and> out = nothing"
| "broker_run (c # cs) b b' out \<longleftrightarrow> (\<exists>b1 o1 o2. broker_step c b b1 o1 \<and> broker_run cs b1 b' o2 \<and>
     out = (\<lambda>fd. o1 fd @ o2 fd))"

section \<open>The server seen as a broker\<close>

definition flags :: "subscription list \<Rightarrow> string \<Rightarrow> bool option" where
  "flags ns = map_of (map (\<lambda>n. (clientID n, SF n)) ns)"

definition abs_broker :: "server \<Rightarrow> broker" where
  "abs_broker st =
    \<lparr>who = (\<lambda>fd. map_option client_ID (map_of (clientsConnected st) fd)),
     online = (\<lambda>name. case map_of (subscribers st) name of
         None \<Rightarrow> None | Some c \<Rightarrow> if connected c then Some (sub_fd c) else None),
     mailbox = (\<lambda>name. map_option packets (map_of (subscribers st) name)),
     follows = (\<lambda>t. case map_of (topics st) t of None \<Rightarrow> Map.empty | Some ns \<Rightarrow> flags ns)\<rparr>"

text \<open>What an input asks for.\<close>

definition command_of :: "int \<Rightarrow> u8 list \<Rightarrow> call" where
  "command_of i buf = (case rbind (string_of buf) (\<lambda>cmd. rbind (scan_word 16 cmd) (\<lambda>(_, r). scan_word 51 r)) of
       Inl _ \<Rightarrow> Idle
     | Inr (t, r) \<Rightarrow>
         if starts_with ''unsubscribe'' buf then Unsubscribe i t
         else if starts_with ''subscribe'' buf then (case scan_d r of None \<Rightarrow> Idle | Some (v, _) \<Rightarrow> Subscribe i t (v \<noteq> 0))
         else Idle)"

definition call_of :: "input \<Rightarrow> call" where
  "call_of x = (case x of
       Udp udpIp port bytes \<Rightarrow> (case processUdpPacket (in_buf bytes) of
           Inr (Some d) \<Rightarrow> Publish (pkt_topic d) (message_for udpIp port d) | _ \<Rightarrow> Idle)
     | Connect newfd tcpIp port bytes \<Rightarrow> (case string_of (in_buf bytes) of Inr name \<Rightarrow> Join newfd name | _ \<Rightarrow> Idle)
     | Tcp i bytes \<Rightarrow> if bytes = [] then Hang_Up i else command_of i (in_buf bytes)
     | Failed \<Rightarrow> Idle)"

lemma flags_None: "flags ns name = None \<longleftrightarrow> name \<notin> set (map clientID ns)"
  by (simp add: flags_def map_of_eq_None_iff image_image)

lemma flags_Some:
  "distinct (map clientID ns) \<Longrightarrow> flags ns name = Some sf \<longleftrightarrow> (\<exists>n \<in> set ns. clientID n = name \<and> SF n = sf)"
  by (force simp: flags_def map_of_eq_Some_iff comp_def)

lemma flags_append: "name \<notin> set (map clientID ns) \<Longrightarrow> flags (ns @ [\<lparr>clientID = name, SF = sf\<rparr>]) = (flags ns)(name \<mapsto> sf)"
  by (induction ns) (auto simp: flags_def fun_eq_iff)

lemma flags_drop:
  "distinct (map clientID (xs @ n # ys)) \<Longrightarrow> flags (xs @ ys) = (flags (xs @ n # ys))(clientID n := None)"
proof (induction xs)
  case Nil
  then have "flags ys (clientID n) = None"
    by (simp add: flags_None)
  then show ?case
    by (auto simp: flags_def)
next
  case (Cons x xs)
  then show ?case
    by (auto simp: flags_def)
qed

lemma flags_remove:
  assumes "distinct (map clientID ns)" and "k < length ns"
  shows "flags (take k ns @ drop (Suc k) ns) = (flags ns)(clientID (ns ! k) := None)"
  using flags_drop [of "take k ns" "ns ! k" "drop (Suc k) ns"] assms by (simp add: id_take_nth_drop [symmetric])

section \<open>One input\<close>

text \<open>The descriptors of the table of connections are watched.\<close>

definition watched :: "server \<Rightarrow> bool" where
  "watched st \<longleftrightarrow> (\<forall>fd. map_of (clientsConnected st) fd \<noteq> None \<longrightarrow> fd \<in> set (read_fds st))"

lemma sent_to_publish:
  assumes "server_ok st" and "distinct (map clientID ns)"
  shows "sent_to fd (sends_for ns s (subscribers st)) =
    (if \<exists>name \<in> set (map clientID ns). online (abs_broker st) name = Some fd then [s] else [])"
  using assms(2)
proof (induction ns)
  case (Cons n ns)
  let ?on = "\<lambda>name. online (abs_broker st) name = Some fd"
  have uniq: "name = name'" if on: "?on name" "?on name'" for name name'
  proof -
    obtain c c' where "map_of (subscribers st) name = Some c" "connected c" "sub_fd c = fd"
        "map_of (subscribers st) name' = Some c'" "connected c'" "sub_fd c' = fd"
      using on by (auto simp: abs_broker_def split: option.splits if_splits)
    then show ?thesis
      using server_okD(2) [OF assms(1), of name c] server_okD(2) [OF assms(1), of name' c'] by auto
  qed
  have h: "sent_to fd (case map_of (subscribers st) (clientID n) of
      None \<Rightarrow> [] | Some c \<Rightarrow> if connected c then [Send_To (sub_fd c) s] else []) = (if ?on (clientID n) then [s] else [])"
    by (auto simp: abs_broker_def split: option.splits)
  have "sent_to fd (sends_for (n # ns) s (subscribers st)) =
      (if ?on (clientID n) then [s] else []) @ sent_to fd (sends_for ns s (subscribers st))"
    unfolding h [symmetric] by (simp add: sends_for_def)
  then show ?case
    using Cons uniq by auto
qed (simp add: sends_for_def)

lemma abs_broker_simps [simp]:
  "abs_broker (st\<lparr>read_fds := fds\<rparr>) = abs_broker st"
  by (simp add: abs_broker_def)

lemma udp_refines:
  assumes "server_ok st" and "handle_udp sends_ok udpIp port bytes st = Inr (st', acts)"
  shows "broker_step (call_of (Udp udpIp port bytes)) (abs_broker st) (abs_broker st') (\<lambda>fd. sent_to fd acts)"
proof -
  obtain p where p: "processUdpPacket (in_buf bytes) = Inr p"
    using assms(2) by (auto simp: handle_udp_def rbind_eq_Inr_iff)
  show ?thesis
  proof (cases "\<exists>d ns. p = Some d \<and> map_of (topics st) (pkt_topic d) = Some ns")
    case False
    have "abs_broker st\<lparr>mailbox := deposited (abs_broker st) t s\<rparr> = abs_broker st"
        "published (abs_broker st) t s = nothing" if "map_of (topics st) t = None" for t s
      using that by (auto simp: deposited_def published_def nothing_def abs_broker_def)
    then show ?thesis
      using assms(2) p False by (auto simp: handle_udp_def call_of_def nothing_def split: option.splits)
  next
    case True
    then obtain d ns where d: "p = Some d" "map_of (topics st) (pkt_topic d) = Some ns"
      by blast
    let ?s = "message_for udpIp port d"
    have dist: "distinct (map clientID ns)"
      by (rule server_okD(1) [OF assms(1) d(2)])
    from deliver_result [OF this, of ?s "subscribers st"]
    obtain subs where st': "st' = st\<lparr>subscribers := subs\<rparr>" "acts = sends_for ns ?s (subscribers st)"
      "\<And>name. map_of subs name = map_option (stored_for ns ?s name) (map_of (subscribers st) name)"
      using assms(2) p d by (auto simp: handle_udp_def)
    have f: "follows (abs_broker st) (pkt_topic d) = flags ns"
      using d(2) by (simp add: abs_broker_def)
    have "published (abs_broker st) (pkt_topic d) ?s = (\<lambda>fd. sent_to fd acts)"
      unfolding published_def f st'(2) sent_to_publish [OF assms(1) dist] by (auto simp: flags_None)
    moreover have "abs_broker st' = abs_broker st\<lparr>mailbox := deposited (abs_broker st) (pkt_topic d) ?s\<rparr>"
    proof -
      have "map_option packets (map_of subs name) = deposited (abs_broker st) (pkt_topic d) ?s name" for name
        unfolding deposited_def f flags_Some [OF dist]
        by (auto simp: st'(3) abs_broker_def stored_for_def option.map_comp comp_def split: option.splits)
      moreover have "(case map_of subs name of None \<Rightarrow> None | Some c \<Rightarrow> if connected c then Some (sub_fd c) else None) =
          online (abs_broker st) name" for name
        by (auto simp: st'(3) abs_broker_def split: option.splits)
      ultimately show ?thesis
        by (simp add: st'(1)) (simp add: abs_broker_def)
    qed
    ultimately show ?thesis
      using p d(1) by (simp add: call_of_def)
  qed
qed

lemma connect_refines:
  assumes "handle_connect sends_ok newfd tcpIp port bytes st = Inr (st', acts)"
  shows "broker_step (call_of (Connect newfd tcpIp port bytes)) (abs_broker st) (abs_broker st') (\<lambda>fd. sent_to fd acts)"
proof -
  obtain name where name: "string_of (in_buf bytes) = Inr name"
    using assms by (auto simp: handle_connect_def rbind_eq_Inr_iff)
  have call: "call_of (Connect newfd tcpIp port bytes) = Join newfd name"
    by (simp add: call_of_def name)
  have stored: "sent_to fd (map (Send_To newfd) ps) = only newfd ps fd" for fd ps
    by (induction ps) (auto simp: only_def)
  show ?thesis
  proof (cases "online (abs_broker st) name")
    case (Some fd)
    then have "\<exists>c. map_of (subscribers st) name = Some c \<and> connected c"
      by (auto simp: abs_broker_def split: option.splits if_splits)
    then have "st' = st\<lparr>read_fds := List.insert newfd (read_fds st)\<rparr>"
        "acts = [Log (''Client '' @ name @ '' already connected.'' @ [newline]), Send_To newfd ('';ID_EXISTS;'' @ [newline])]"
      using assms name by (auto simp: handle_connect_def Let_def)
    then show ?thesis
      using Some by (auto simp: call only_def)
  next
    case None
    let ?ms = "case mailbox (abs_broker st) name of None \<Rightarrow> [] | Some ms \<Rightarrow> ms"
    obtain con c l where st': "clientsConnected st' = AList.update newfd con (clientsConnected st)"
        "subscribers st' = AList.update name c (subscribers st)" "topics st' = topics st"
        "client_ID con = name" "connected c" "sub_fd c = newfd" "packets c = []"
        "acts = Log l # map (Send_To newfd) ?ms"
      using assms name None
      by (auto simp: handle_connect_def Let_def rbind_eq_Inr_iff send_stored_all abs_broker_def split: option.splits if_splits)
    have "abs_broker st' = abs_broker st\<lparr>who := (who (abs_broker st))(newfd \<mapsto> name),
        online := (online (abs_broker st))(name \<mapsto> newfd), mailbox := (mailbox (abs_broker st))(name \<mapsto> [])\<rparr>"
      using st'(1-7) by (auto simp: abs_broker_def update_conv' fun_eq_iff)
    moreover have "(\<lambda>fd. sent_to fd acts) = only newfd ?ms"
      by (simp add: st'(8) stored)
    ultimately show ?thesis
      using None by (simp add: call)
  qed
qed

lemma hang_up_refines:
  assumes "server_ok st" and "handle_tcp i [] st = Inr (st', acts)"
  shows "broker_step (Hang_Up i) (abs_broker st) (abs_broker st') (\<lambda>fd. sent_to fd acts)"
proof (cases "who (abs_broker st) i = None \<or> who (abs_broker st) i = Some []")
  case True
  then have "st' = st\<lparr>clientsConnected := AList.update i (case map_of (clientsConnected st) i of
        None \<Rightarrow> no_data | Some con \<Rightarrow> con) (clientsConnected st)\<rparr> \<and> acts = []"
    using assms(2) by (auto simp: handle_tcp_def abs_broker_def no_data_def split: option.splits)
  then show ?thesis
    using True by (auto simp: abs_broker_def update_conv' nothing_def no_data_def fun_eq_iff split: option.splits)
next
  case False
  then obtain con where con: "map_of (clientsConnected st) i = Some con" "client_ID con \<noteq> []"
    by (auto simp: abs_broker_def)
  obtain c where c: "map_of (subscribers st) (client_ID con) = Some c"
    using server_okD(3) [OF assms(1) con] by blast
  have "st' = st\<lparr>subscribers := AList.update (client_ID con) (c\<lparr>connected := False\<rparr>) (subscribers st),
      clientsConnected := AList.delete i (clientsConnected st), read_fds := removeAll i (read_fds st)\<rparr>"
    "(\<lambda>fd. sent_to fd acts) = nothing"
    using assms(2) con c by (auto simp: handle_tcp_def nothing_def)
  moreover have "abs_broker (st\<lparr>subscribers := AList.update (client_ID con) (c\<lparr>connected := False\<rparr>) (subscribers st),
      clientsConnected := AList.delete i (clientsConnected st), read_fds := fds\<rparr>) =
    abs_broker st\<lparr>who := (who (abs_broker st))(i := None), online := (online (abs_broker st))(client_ID con := None)\<rparr>"
    for fds
    using c by (auto simp: abs_broker_def update_conv' delete_conv' fun_eq_iff)
  moreover have "who (abs_broker st) i = Some (client_ID con)"
    by (simp add: abs_broker_def con)
  ultimately show ?thesis
    using con(2) by simp
qed

text \<open>The commands.\<close>

lemma abs_broker_topics:
  "abs_broker (st\<lparr>topics := AList.update t ns (topics st)\<rparr>) =
    abs_broker st\<lparr>follows := (follows (abs_broker st))(t := flags ns)\<rparr>"
  by (auto simp: abs_broker_def update_conv' fun_eq_iff)

lemma subscribe_refines:
  assumes "handle_subscribe i cmd st = Inr st'" and "scan_word 16 cmd = Inr (j, r)" and "scan_word 51 r = Inr (t, r')"
  shows "\<exists>v r''. scan_d r' = Some (v, r'') \<and> broker_step (Subscribe i t (v \<noteq> 0)) (abs_broker st) (abs_broker st') nothing"
proof -
  obtain v r'' where v: "scan_d r' = Some (v, r'')"
    using assms by (auto simp: handle_subscribe_def split: option.splits)
  show ?thesis
  proof (cases "map_of (clientsConnected st) i")
    case None
    then show ?thesis
      using assms v by (auto simp: handle_subscribe_def abs_broker_def)
  next
    case (Some con)
    have w: "who (abs_broker st) i = Some (client_ID con)"
      by (simp add: abs_broker_def Some)
    show ?thesis
    proof (cases "map_of (topics st) t")
      case None
      have e: "flags [\<lparr>clientID = client_ID con, SF = v \<noteq> 0\<rparr>] = Map.empty(client_ID con \<mapsto> v \<noteq> 0)"
        by (simp add: flags_def)
      have "follows (abs_broker st) t = Map.empty"
        using None by (simp add: abs_broker_def)
      moreover have "st' = st\<lparr>topics := AList.update t [\<lparr>clientID = client_ID con, SF = v \<noteq> 0\<rparr>] (topics st)\<rparr>"
        using assms v Some None by (simp add: handle_subscribe_def)
      ultimately show ?thesis
        using v by (simp add: w abs_broker_topics e)
    next
      case (Some ns)
      have f: "follows (abs_broker st) t = flags ns"
        using Some by (simp add: abs_broker_def)
      show ?thesis
      proof (cases "client_ID con \<in> set (map clientID ns)")
        case True
        then have "flags ns (client_ID con) \<noteq> None"
          by (metis flags_None)
        moreover have "st' = st"
          using assms v True Some \<open>map_of (clientsConnected st) i = Some con\<close>
          by (auto simp: handle_subscribe_def)
        ultimately show ?thesis
          using v by (simp add: w f)
      next
        case False
        then have "st' = st\<lparr>topics := AList.update t (ns @ [\<lparr>clientID = client_ID con, SF = v \<noteq> 0\<rparr>]) (topics st)\<rparr>"
          using assms v Some \<open>map_of (clientsConnected st) i = Some con\<close> by (auto simp: handle_subscribe_def)
        then show ?thesis
          using v False flags_None [of ns "client_ID con"] by (simp add: w f abs_broker_topics flags_append)
      qed
    qed
  qed
qed

lemma unsubscribe_refines:
  assumes "server_ok st" and "handle_unsubscribe i cmd st = Inr st'"
    and "scan_word 16 cmd = Inr (j, r)" and "scan_word 51 r = Inr (t, r')"
  shows "broker_step (Unsubscribe i t) (abs_broker st) (abs_broker st') nothing"
proof (cases "\<exists>ns con. map_of (topics st) t = Some ns \<and> map_of (clientsConnected st) i = Some con \<and>
    client_ID con \<in> set (map clientID ns)")
  case True
  then obtain ns con where t: "map_of (topics st) t = Some ns" "map_of (clientsConnected st) i = Some con"
      "client_ID con \<in> set (map clientID ns)"
    by blast
  have f: "follows (abs_broker st) t = flags ns" "who (abs_broker st) i = Some (client_ID con)"
    by (simp_all add: abs_broker_def t(1,2))
  have k: "0 \<le> i" "nat i < length ns"
      "st' = st\<lparr>topics := AList.update t (take (nat i) ns @ drop (Suc (nat i)) ns) (topics st)\<rparr>"
    using assms(2-4) t by (auto simp: handle_unsubscribe_def erase_at_def split: if_splits)
  have "flags ns (clientID (ns ! nat i)) \<noteq> None" "flags ns (client_ID con) \<noteq> None"
    using k(2) t(3) by (simp_all add: flags_None)
  then show ?thesis
    using flags_remove [OF server_okD(1) [OF assms(1) t(1)] k(2)] by (auto simp: f k(3) abs_broker_topics)
next
  case False
  then have "st' = st"
    using assms(2-4) by (auto simp: handle_unsubscribe_def split: option.splits if_splits)
  moreover have "who (abs_broker st) i = Some name \<Longrightarrow> follows (abs_broker st) t name = None" for name
    using False by (fastforce simp: abs_broker_def flags_None split: option.splits)
  ultimately show ?thesis
    by (auto split: option.splits)
qed

lemma command_refines:
  assumes "server_ok st" and "bytes \<noteq> []" and "handle_tcp i bytes st = Inr (st', acts)"
  shows "broker_step (command_of i (in_buf bytes)) (abs_broker st) (abs_broker st') (\<lambda>fd. sent_to fd acts)"
proof -
  let ?buf = "in_buf bytes"
  consider (unsub) cmd where "starts_with ''unsubscribe'' ?buf" "string_of ?buf = Inr cmd"
      "handle_unsubscribe i cmd st = Inr st'" "acts = []"
    | (sub) cmd where "\<not> starts_with ''unsubscribe'' ?buf" "starts_with ''subscribe'' ?buf" "string_of ?buf = Inr cmd"
      "handle_subscribe i cmd st = Inr st'" "acts = []"
    | (none) "\<not> starts_with ''unsubscribe'' ?buf" "\<not> starts_with ''subscribe'' ?buf" "st' = st" "acts = []"
    using assms(2,3) by (auto simp: handle_tcp_def elim!: rbind_InrE split: if_splits)
  then show ?thesis
  proof cases
    case unsub
    obtain j r t r' where w: "scan_word 16 cmd = Inr (j, r)" "scan_word 51 r = Inr (t, r')"
      using unsub(3) by (auto simp: handle_unsubscribe_def elim!: rbind_InrE)
    then show ?thesis
      using unsubscribe_refines [OF assms(1) unsub(3) w] unsub by (simp add: command_of_def nothing_def)
  next
    case sub
    obtain j r t r' where w: "scan_word 16 cmd = Inr (j, r)" "scan_word 51 r = Inr (t, r')"
      using sub(4) by (auto simp: handle_subscribe_def elim!: rbind_InrE)
    then show ?thesis
      using subscribe_refines [OF sub(4) w] sub by (auto simp: command_of_def nothing_def)
  next
    case none
    then show ?thesis
      by (auto simp: command_of_def nothing_def split: sum.splits)
  qed
qed

section \<open>Runs\<close>

lemma watched_input:
  assumes "watched st" and "handle_input sends_ok x st = Inr (st', acts)"
  shows "watched st'"
proof (cases x)
  case (Udp udpIp port bytes)
  then have "clientsConnected st' = clientsConnected st \<and> read_fds st' = read_fds st"
    using assms(2) by (auto simp: handle_input_def handle_udp_def elim!: rbind_InrE split: option.splits)
  then show ?thesis
    using assms(1) by (simp add: watched_def)
next
  case (Connect newfd tcpIp port bytes)
  then show ?thesis
    using assms
    by (auto simp: watched_def handle_input_def handle_connect_def Let_def update_conv' elim!: rbind_InrE
        split: if_splits option.splits)
next
  case (Tcp i bytes)
  show ?thesis
  proof (cases "i \<in> set (read_fds st)")
    case True
    have unsub: "handle_unsubscribe i cmd st = Inr st2 \<Longrightarrow>
        clientsConnected st2 = clientsConnected st \<and> read_fds st2 = read_fds st" for cmd st2
      using handle_unsubscribe_cases [of i cmd st st2] by auto
    have sub: "handle_subscribe i cmd st = Inr st2 \<Longrightarrow>
        clientsConnected st2 = clientsConnected st \<and> read_fds st2 = read_fds st" for cmd st2
      using handle_subscribe_cases [of i cmd st st2] by auto
    show ?thesis
      using assms Tcp True
      by (auto simp: watched_def handle_input_def handle_tcp_def Let_def update_conv' delete_conv' elim!: rbind_InrE
          dest!: unsub sub split: if_splits)
  next
    case False
    then show ?thesis
      using assms Tcp by (simp add: handle_input_def)
  qed
next
  case Failed
  then show ?thesis
    using assms(2) by (simp add: handle_input_def)
qed

lemma server_reach_watched: "server_reach st \<Longrightarrow> watched st"
proof (induction rule: server_reach.induct)
  case (reach_init t u)
  then show ?case by (simp add: watched_def)
next
  case (reach_input st x st' acts)
  then show ?case using watched_input by blast
qed

lemma unwatched_call:
  assumes "who b i = None"
  shows "broker_step (call_of (Tcp i bytes)) b b nothing"
  using assms by (auto simp: call_of_def command_of_def split: sum.splits option.splits)

lemma input_refines:
  assumes "server_ok st" and "watched st" and "handle_input sends_ok x st = Inr (st', acts)"
  shows "broker_step (call_of x) (abs_broker st) (abs_broker st') (\<lambda>fd. sent_to fd acts)"
proof (cases x)
  case (Udp udpIp port bytes)
  then show ?thesis
    using assms udp_refines by (simp add: handle_input_def)
next
  case (Connect newfd tcpIp port bytes)
  then show ?thesis
    using assms connect_refines by (simp add: handle_input_def)
next
  case (Tcp i bytes)
  show ?thesis
  proof (cases "i \<in> set (read_fds st)")
    case True
    then have step: "handle_tcp i bytes st = Inr (st', acts)"
      using assms(3) Tcp by (simp add: handle_input_def)
    show ?thesis
    proof (cases "bytes = []")
      case True
      with hang_up_refines [OF assms(1)] step show ?thesis
        by (simp add: Tcp call_of_def)
    next
      case False
      with command_refines [OF assms(1) False step] show ?thesis
        by (simp add: Tcp call_of_def)
    qed
  next
    case False
    then have "who (abs_broker st) i = None"
      using assms(2) by (auto simp: watched_def abs_broker_def)
    moreover have "st' = st" "acts = []"
      using False assms(3) Tcp by (simp_all add: handle_input_def)
    ultimately show ?thesis
      using unwatched_call [of "abs_broker st" i bytes] by (simp add: Tcp nothing_def)
  qed
next
  case Failed
  then show ?thesis
    using assms(3) by (simp add: handle_input_def)
qed

text \<open>Every \<open>accept\<close> of a run gives a descriptor that is not in use then.\<close>

fun fresh_inputs :: "input list \<Rightarrow> server \<Rightarrow> bool" where
  "fresh_inputs [] st \<longleftrightarrow> True"
| "fresh_inputs (x # xs) st \<longleftrightarrow> fresh_input st x \<and>
     (case handle_input sends_ok x st of Inl _ \<Rightarrow> True | Inr (st', _) \<Rightarrow> fresh_inputs xs st')"

text \<open>
  C5. The server implements the broker. Every run of its input handlers from a reachable state that meets no
  error is a run of the broker on what the inputs ask for: the same messages go to each connection in
  the same order, and the tables show what the broker then knows of connections, waiting messages and
  subscriptions.
\<close>

theorem server_refines_broker:
  assumes "server_reach st" and "fresh_inputs xs st" and "handle_inputs sends_ok xs st = Inr (st', acts)"
  shows "broker_run (map call_of xs) (abs_broker st) (abs_broker st') (\<lambda>fd. sent_to fd acts)"
  using assms
proof (induction xs arbitrary: st acts)
  case Nil
  then show ?case
    by (simp add: nothing_def)
next
  case (Cons x xs)
  obtain st1 acts1 acts2 where x: "handle_input sends_ok x st = Inr (st1, acts1)"
    and xs: "handle_inputs sends_ok xs st1 = Inr (st', acts2)" and acts: "acts = acts1 @ acts2"
    using Cons.prems(3) by (auto elim!: rbind_InrE)
  have "server_reach st1"
    by (rule reach_input [OF Cons.prems(1) _ x]) (use Cons.prems(2) in simp)
  then have "broker_run (map call_of xs) (abs_broker st1) (abs_broker st') (\<lambda>fd. sent_to fd acts2)"
    by (rule Cons.IH) (use Cons.prems(2) x xs in auto)
  moreover have "broker_step (call_of x) (abs_broker st) (abs_broker st1) (\<lambda>fd. sent_to fd acts1)"
    by (rule input_refines [OF server_reach_ok server_reach_watched x]) (rule Cons.prems(1))+
  ultimately show ?case
    by (auto simp: acts)
qed

theorem server_refines_broker_witness:
  "broker_run (map call_of [Udp ''9.9.9.9'' 5 demo_datagram, Tcp 5 []]) (abs_broker (demo_server 5))
    (abs_broker demo_away) (\<lambda>fd. sent_to fd [Send_To 5 (''9.9.9.9:5 - t - STRING - hi'' @ [newline]),
      Log (''Client C1 disconnected.'' @ [newline]), Close_Fd 5])"
proof (rule server_refines_broker [OF demo_reach])
  show "handle_inputs sends_ok [Udp ''9.9.9.9'' 5 demo_datagram, Tcp 5 []] (demo_server 5) =
      Inr (demo_away, [Send_To 5 (''9.9.9.9:5 - t - STRING - hi'' @ [newline]),
        Log (''Client C1 disconnected.'' @ [newline]), Close_Fd 5])"
    by code_simp
qed (simp add: fresh_input_def split: sum.splits)

end
