(* ===== verification/Ping_Router.thy ===== *)
theory Ping_Router
  imports Ping_Props Router_Run
begin

text \<open>
  The host of \<open>Lab05\<close> and the router of \<open>Teme/Tema1\<close> on one network: \<open>ping\<close> with an address of the
  router. What one program sends is what the other receives.
\<close>

section \<open>The router answers a request\<close>

text \<open>One ready interface in a \<open>select\<close> of the router.\<close>

definition arrives :: "int \<Rightarrow> u8 list \<Rightarrow> readable list" where
  "arrives i f = replicate (nat i) Not_Ready @ [Ready f]"

lemma get_packet_arrives:
  assumes "0 \<le> i" and "i < 3" and "length f \<le> MAX_LEN"
  shows "get_packet (arrives i f # sels) m =
    Inr (Some (m\<lparr>pkt_len := int (length f), payload := write_at 0 f (payload m), pkt_interface := i\<rparr>, sels))"
proof -
  have "scan_ready j (replicate n Not_Ready @ [Ready f]) m = Inr (Some
      (m\<lparr>pkt_len := int (length f), payload := write_at 0 f (payload m), pkt_interface := j + int n\<rparr>))" for j n
    using assms(3) by (induction n arbitrary: j) (simp_all add: socket_receive_message_def Let_def add.commute add.left_commute)
  then show ?thesis
    using assms(1,2) by (simp add: arrives_def ROUTER_NUM_INTERFACES_def)
qed

text \<open>The headers of a request in the buffer of the router.\<close>

lemma request_headers:
  assumes "ping_net env gw hw src" and "b = request_frame env gw hw src dst t @ rest"
  shows "ether_of b = \<lparr>ether_dhost = arp_resolve env gw, ether_shost = hw, ether_type = htons ETHERTYPE_IP\<rparr>"
    and "ip_hdr b = request_ip (own_pid env) t src dst" and "ip_valid b"
    and "icmphdr_of (drop 34 b) = request_icmp (own_pid env)"
proof -
  define eth where "eth = \<lparr>ether_dhost = arp_resolve env gw, ether_shost = hw, ether_type = htons ETHERTYPE_IP\<rparr>"
  define h where "h = request_ip (own_pid env) t src dst"
  define c where "c = request_icmp (own_pid env)"
  have e: "length (ether_dhost eth) = 6" "length (ether_shost eth) = 6"
    using assms(1) by (simp_all add: eth_def ping_net_def)
  then have len: "length (ether_bytes eth) = 14"
    by simp
  have b: "b = ether_bytes eth @ iphdr_bytes h @ icmphdr_bytes c @ rest"
    using assms(2) by (simp add: request_frame_def eth_def h_def c_def)
  have h: "version h = 4" "ihl h = 5" "h = h\<lparr>check := ip_checksum 2 (iphdr_bytes (h\<lparr>check := 0\<rparr>))\<rparr>"
    by (simp_all add: h_def request_ip_def Let_def)
  have blk: "block 14 20 b = iphdr_bytes h" "drop 34 b = icmphdr_bytes c @ rest"
    using len by (simp_all add: b block_def)
  have ip: "ip_hdr b = h"
    using iphdr_of_bytes [of h "[]"] h(1,2) by (simp add: ip_hdr_def blk(1))
  show "ether_of b = \<lparr>ether_dhost = arp_resolve env gw, ether_shost = hw, ether_type = htons ETHERTYPE_IP\<rparr>"
    unfolding b eth_def [symmetric] by (rule ether_of_bytes [OF e])
  show "ip_hdr b = request_ip (own_pid env) t src dst"
    by (simp add: ip h_def)
  show "ip_valid b"
    unfolding ip_valid_def ip blk(1) store16_iphdr by (subst h(3)) simp
  show "icmphdr_of (drop 34 b) = request_icmp (own_pid env)"
    by (simp add: blk(2) icmphdr_of_bytes c_def)
qed

text \<open>The router that answers: an interface has the address, and the table a route to it.\<close>

definition answers_for :: "net_env \<Rightarrow> router \<Rightarrow> int \<Rightarrow> u32 \<Rightarrow> bool" where
  "answers_for env st i dst \<longleftrightarrow> net_ok env \<and> router_ok st \<and> 0 \<le> i \<and> i < 3 \<and>
    ioctl_addr env (interface_name i) = dst \<and> (\<exists>r. get_best_route (rtable st) dst = Inr (Some r)) \<and>
    pid env mod 65536 \<noteq> 0"

lemma router_answers_request:
  assumes "ping_net penv gw hw src" and "answers_for env st i dst" and "1 < t"
  shows "\<exists>st' reply. answers_for env st' i dst \<and> icmp_reply_ok reply (arp_resolve penv gw) hw src dst 0 0 \<and>
    (\<forall>sels out. router_run env st (arrives i (request_frame penv gw hw src dst t) # sels) out =
      router_run env st' sels (out @ [(i, reply)]))"
proof -
  let ?f = "request_frame penv gw hw src dst t"
  have len: "length ?f = 42"
    using request_frame_ok [OF assms(1)] by (auto simp: echo_request_ok_def)
  have ok: "net_ok env" "router_ok st" "0 \<le> i" "i < 3" "ioctl_addr env (interface_name i) = dst" "pid env mod 65536 \<noteq> 0"
    using assms(2) by (simp_all add: answers_for_def)
  obtain r where r: "get_best_route (rtable st) dst = Inr (Some r)"
    using assms(2) by (auto simp: answers_for_def)
  have m: "pkt_ok (m_buf st)"
    using ok(2) by (rule router_okE)
  define m' where "m' = (m_buf st)\<lparr>pkt_len := 42, payload := write_at 0 ?f (payload (m_buf st)), pkt_interface := i\<rparr>"
  define st1 where "st1 = st\<lparr>m_buf := m'\<rparr>"
  have m': "pkt_ok m'"
    using m ok(3,4) len by (simp add: m'_def pkt_ok_def MAX_LEN_def)
  have ok1: "router_ok st1"
    unfolding st1_def by (rule router_ok_receive [OF ok(2) m'])
  have b: "payload m' = ?f @ drop 42 (payload (m_buf st))"
    using len by (simp add: m'_def write_at_def)
  note hdr = request_headers [OF assms(1) b]
  have ip: "protocol (ip_hdr (payload m')) = 1" "daddr (ip_hdr (payload m')) = dst" "saddr (ip_hdr (payload m')) = src"
      "ttl (ip_hdr (payload m')) = t"
    by (simp_all add: hdr(2) request_ip_def Let_def)
  have echo: "is_echo env m'"
    using ok(5) by (simp add: is_echo_def ip hdr(4)) (simp add: m'_def request_icmp_def Let_def)
  have action: "ipv4_action env st1 = Echo_Reply"
    using assms(3) hdr(3) r echo by (simp add: ipv4_action_def st1_def Let_def ip)
  have m1: "m_buf st1 = m'"
    by (simp add: st1_def)
  obtain reply where step: "router_step env st1 = Some (Inr (cleared st1, [(i, reply)]))"
      "icmp_reply_ok reply (arp_resolve penv gw) hw src dst 0 0"
    using router_echo_reply [OF ok(1) ok1 refl _ action ok(6)] unfolding m1 cleared_def
    by (auto simp: hdr(1) ip) (auto simp: m'_def)
  have "router_run env st (arrives i ?f # sels) out = router_run env (cleared st1) sels (out @ [(i, reply)])"
    for sels out
    using get_packet_arrives [OF ok(3,4), of ?f] len step(1)
    by (subst router_run.simps) (simp add: MAX_LEN_def m'_def st1_def)
  moreover have "answers_for env (cleared st1) i dst"
    using ok r router_ok_cleared [OF ok1] by (simp add: answers_for_def) (simp add: st1_def)
  ultimately show ?thesis
    using step(2) by blast
qed

lemma router_answers_requests:
  assumes "ping_net penv gw hw src" and "answers_for env st i dst" and "1 < t"
  shows "\<exists>st' replies. length replies = n \<and>
    (\<forall>reply \<in> set replies. icmp_reply_ok reply (arp_resolve penv gw) hw src dst 0 0) \<and>
    router_run env st (map (arrives i) (replicate n (request_frame penv gw hw src dst t))) out =
      Some (Inr (st', out @ map (Pair i) replies))"
  using assms(2)
proof (induction n arbitrary: st out)
  case 0
  then show ?case
    by (subst router_run.simps) simp
next
  case (Suc n)
  obtain st1 reply where 1: "answers_for env st1 i dst" "icmp_reply_ok reply (arp_resolve penv gw) hw src dst 0 0"
      "\<And>sels out. router_run env st (arrives i (request_frame penv gw hw src dst t) # sels) out =
        router_run env st1 sels (out @ [(i, reply)])"
    using router_answers_request [OF assms(1) Suc.prems assms(3)] by blast
  obtain st2 replies where "length replies = n"
      "\<forall>reply \<in> set replies. icmp_reply_ok reply (arp_resolve penv gw) hw src dst 0 0"
      "router_run env st1 (map (arrives i) (replicate n (request_frame penv gw hw src dst t))) (out @ [(i, reply)]) =
        Some (Inr (st2, (out @ [(i, reply)]) @ map (Pair i) replies))"
    using Suc.IH [OF 1(1)] by blast
  with 1(2,3) show ?case
    by (intro exI [of _ st2] exI [of _ "reply # replies"]) simp
qed

section \<open>What the host makes of the answer\<close>

lemma reply_bytes:
  assumes "icmp_reply_ok f gw_mac hw src dst ty code"
  shows "length f = 42" and "relevant hw f" and "load32 26 f = dst" and "load16 16 f = htons 28"
    and "f ! 22 = 64" and "f ! 34 = ty"
proof -
  show len: "length f = 42"
    using assms by (simp add: icmp_reply_ok_def)
  have h: "tot_len (iphdr_of (block 14 20 f)) = htons 28" "ttl (iphdr_of (block 14 20 f)) = 64"
      "protocol (iphdr_of (block 14 20 f)) = 1" "saddr (iphdr_of (block 14 20 f)) = dst"
      "ether_of f = \<lparr>ether_dhost = hw, ether_shost = gw_mac, ether_type = htons 0x0800\<rparr>"
      "icmp_type (icmphdr_of (block 34 8 f)) = ty"
    using assms by (simp_all add: icmp_reply_ok_def Let_def)
  show "f ! 34 = ty" "f ! 22 = 64"
    using h(2,6) len by (simp_all add: icmphdr_of_def iphdr_of_def nth_block)
  show "load32 26 f = dst" "load16 16 f = htons 28"
    using h(1,4) len by (simp_all add: iphdr_of_def load32_def load16_def nth_block)
  show "relevant hw f"
    using h(3,5) len by (auto simp: relevant_def ether_of_def iphdr_of_def nth_block ETHERTYPE_IP_def)
qed

text \<open>The line \<open>ping\<close> prints for an answer of the router.\<close>

definition router_line :: "u32 \<Rightarrow> string \<Rightarrow> string" where
  "router_line dst elapsed = ''Response: '' @ inet_ntoa (htonl dst) @ ''; 7168 bytes. TTL: 64; Time Elapsed : '' @
     elapsed @ '' ms; ICMP Type: 0. '' @ [newline]"

lemma ping_line_reply:
  assumes "icmp_reply_ok f gw_mac hw src dst 0 0"
  shows "ping_line elapsed f = router_line dst elapsed"
proof -
  have "htons 28 = 7168"
    by (simp add: htons_def hi8_def lo8_def mk16_def)
  moreover have "show_nat 7168 = ''7168''" "show_nat 64 = ''64''" "show_nat 0 = ''0''"
    by (simp_all add: show_nat.simps digit_char_def char_of_def bit_0)
  ultimately show ?thesis
    by (simp add: ping_line_def router_line_def shown_addr_reversed reply_bytes [OF assms])
qed

text \<open>
  C8. \<open>ping\<close> against the router. The host pings the address of the very interface its requests arrive on, the
  routing table has a route for this address, no write fails, and the process number of the router
  is not a multiple of 65536 (it is the identifier of the replies): then the router takes exactly
  the requests and sends exactly the replies, \<open>ping\<close> returns after \<open>count\<close> of them (one by default)
  and prints for each that it has type 0 (echo reply) and TTL 64 - with the address backwards and the
  length 28 in network byte order.
\<close>

theorem ping_through_router:
  assumes "ping_net penv gw hw src" and "answers_for env st i dst" and "\<forall>k. length (raw k) = PACKET_LEN"
    and "n = nat (if count = - 1 then 1 else count)"
  shows "\<exists>requests replies st'.
    router_run env st (map (arrives i) requests) [] = Some (Inr (st', map (Pair i) replies)) \<and>
    ping penv elapsed raw dst count (map Some replies) =
      Inr (requests, (''PING '' @ inet_ntoa dst @ '' ...'' @ [newline]) #
        map (\<lambda>k. router_line dst (elapsed k)) [0..<n], Returned 0) \<and>
    length requests = n \<and> length replies = n"
proof -
  have t: "1 < (64 :: u8)"
    by simp
  let ?requests = "replicate n (request_frame penv gw hw src dst 64)"
  obtain st' replies where r: "length replies = n"
      "\<And>f. f \<in> set replies \<Longrightarrow> icmp_reply_ok f (arp_resolve penv gw) hw src dst 0 0"
      "router_run env st (map (arrives i) ?requests) [] = Some (Inr (st', [] @ map (Pair i) replies))"
    using router_answers_requests [OF assms(1,2) t, of n "[]"] by blast
  have "filter (relevant hw) replies = replies" "\<forall>f \<in> set replies. frame_length_ok f"
    using reply_bytes(1,2) [OF r(2)] by (auto simp: filter_id_conv frame_length_ok_def PACKET_LEN_def)
  moreover have "map (\<lambda>(k, f). ping_line (elapsed k) f) (zip [0..<n] replies) =
      map (\<lambda>k. router_line dst (elapsed k)) [0..<n]"
    using r(1) ping_line_reply [OF r(2)] by (auto simp: list_eq_iff_nth_eq)
  ultimately have "ping penv elapsed raw dst count (map Some replies) =
      Inr (?requests, (''PING '' @ inet_ntoa dst @ '' ...'' @ [newline]) #
        map (\<lambda>k. router_line dst (elapsed k)) [0..<n], Returned 0)"
    using ping_frames [OF assms(1) _ assms(3,4) refl, of replies elapsed dst] r(1) by (simp add: min_def)
  then show ?thesis
    using r(1,3) by (intro exI [of _ ?requests] exI [of _ replies] exI [of _ st']) simp
qed

section \<open>A host and a router\<close>

lemma demo_ping_answers: "answers_for demo_env echo_router 0 0x0100000A"
proof -
  have "get_best_route [demo_net] 0x0100000A = Inr (Some demo_net)"
    by code_simp
  then show ?thesis
    using demo_net_ok echo_router_ok
    by (simp add: answers_for_def demo_env_def interface_name_def) (simp add: echo_router_def)
qed

theorem ping_through_router_witness:
  "\<exists>requests replies st'.
    router_run demo_env echo_router (map (arrives 0) requests) [] = Some (Inr (st', map (Pair 0) replies)) \<and>
    ping demo_host (\<lambda>k. ''0.25'') (\<lambda>k. replicate 1500 0) 0x0100000A 3 (map Some replies) =
      Inr (requests, (''PING '' @ inet_ntoa 0x0100000A @ '' ...'' @ [newline]) #
        map (\<lambda>k. router_line 0x0100000A ''0.25'') [0..<3], Returned 0) \<and>
    length requests = 3 \<and> length replies = 3"
  by (rule ping_through_router [OF demo_ping_net demo_ping_answers]) (simp_all add: PACKET_LEN_def)

end
