(* ===== verification/Router_Traffic.thy ===== *)
theory Router_Traffic
  imports Router_Run Frame_Origin
begin

text \<open>
  What leaves the router in a whole run: every frame sent is caused by one received packet, in one of
  six ways, and the router does not amplify traffic. A received packet causes at most two frames, an
  ARP request for its next hop and later the packet itself; the packets that wait are the balance.
\<close>

section \<open>Causes\<close>

definition transit :: "route_table_entry list \<Rightarrow> packet \<Rightarrow> route_table_entry \<Rightarrow> bool" where
  "transit rt p r \<longleftrightarrow> ether_type (ether_of (payload p)) = htons ETHERTYPE_IP \<and> ip_valid (payload p) \<and>
    1 < ttl (ip_hdr (payload p)) \<and> get_best_route rt (daddr (ip_hdr (payload p))) = Inr (Some r)"

text \<open>An ICMP message back to the sender of \<open>p\<close>, on the interface \<open>p\<close> came from.\<close>

definition icmp_answer :: "packet \<Rightarrow> u8 \<Rightarrow> u8 list \<Rightarrow> bool" where
  "icmp_answer p ty bs \<longleftrightarrow> (let b = payload p in
    icmp_reply_ok bs (ether_dhost (ether_of b)) (ether_shost (ether_of b)) (saddr (ip_hdr b)) (daddr (ip_hdr b)) ty 0)"

text \<open>The frames a packet \<open>p\<close> can cause.\<close>

inductive caused :: "net_env \<Rightarrow> route_table_entry list \<Rightarrow> packet \<Rightarrow> frame \<Rightarrow> bool"
  for env :: net_env and rt :: "route_table_entry list" and p :: packet
where
  arp_answered: "ether_type (ether_of (payload p)) = htons ETHERTYPE_ARP \<Longrightarrow> arp_op (arp_hdr (payload p)) = htons 1 \<Longrightarrow>
    arp_frame_ok bs \<lparr>ether_dhost = ether_shost (ether_of (payload p)),
        ether_shost = take 6 (ioctl_hwaddr env (interface_name (pkt_interface p))), ether_type = htons 0x0806\<rparr>
      (spa (arp_hdr (payload p))) (ioctl_addr env (interface_name (pkt_interface p))) (htons 2) \<Longrightarrow>
    caused env rt p (pkt_interface p, bs)"
| time_exceeded: "ether_type (ether_of (payload p)) = htons ETHERTYPE_IP \<Longrightarrow> ip_valid (payload p) \<Longrightarrow>
    ttl (ip_hdr (payload p)) \<le> 1 \<Longrightarrow> icmp_answer p 11 bs \<Longrightarrow> caused env rt p (pkt_interface p, bs)"
| unreachable: "ether_type (ether_of (payload p)) = htons ETHERTYPE_IP \<Longrightarrow> ip_valid (payload p) \<Longrightarrow>
    1 < ttl (ip_hdr (payload p)) \<Longrightarrow> get_best_route rt (daddr (ip_hdr (payload p))) = Inr None \<Longrightarrow>
    icmp_answer p 3 bs \<Longrightarrow> caused env rt p (pkt_interface p, bs)"
| echoed: "transit rt p r \<Longrightarrow> is_echo env p \<Longrightarrow> length bs = 42 \<Longrightarrow>
    pid env mod 65536 = 0 \<or> icmp_answer p 0 bs \<Longrightarrow> caused env rt p (pkt_interface p, bs)"
| asked: "transit rt p r \<Longrightarrow> \<not> is_echo env p \<Longrightarrow>
    arp_frame_ok bs \<lparr>ether_dhost = replicate 6 0xff,
        ether_shost = take 6 (ioctl_hwaddr env (interface_name (rt_interface r))), ether_type = htons 0x0806\<rparr>
      (rt_next_hop r) (ioctl_addr env (interface_name (rt_interface r))) (htons 1) \<Longrightarrow>
    caused env rt p (rt_interface r, bs)"
| passed_on: "transit rt p r \<Longrightarrow> \<not> is_echo env p \<Longrightarrow> resent p bs \<Longrightarrow> caused env rt p (rt_interface r, bs)"

definition frame_ok :: "frame \<Rightarrow> bool" where
  "frame_ok f \<longleftrightarrow> 0 \<le> fst f \<and> fst f < 3 \<and> length (snd f) \<le> MAX_LEN"

definition explained :: "net_env \<Rightarrow> route_table_entry list \<Rightarrow> readable list list \<Rightarrow> frame \<Rightarrow> bool" where
  "explained env rt sels f \<longleftrightarrow> frame_ok f \<and> (\<exists>p. received 3 sels p \<and> caused env rt p f)"

text \<open>A packet in the queue is a received one, with its checksum field cleared.\<close>

definition origin_ok :: "net_env \<Rightarrow> route_table_entry list \<Rightarrow> readable list list \<Rightarrow> queued \<Rightarrow> bool" where
  "origin_ok env rt sels x = (case x of Local_Pkt \<Rightarrow> True
     | Heap_Pkt q \<Rightarrow> \<exists>p r. received 3 sels p \<and> pkt_ok p \<and> transit rt p r \<and> \<not> is_echo env p \<and>
         q = p\<lparr>payload := store16 24 0 (payload p)\<rparr>)"

definition is_heap :: "queued \<Rightarrow> bool" where
  "is_heap x \<longleftrightarrow> (\<exists>p. x = Heap_Pkt p)"

definition waiting_in :: "queued list \<Rightarrow> nat" where
  "waiting_in xs = length (filter is_heap xs)"

lemma waiting_in_simps [simp]:
  "waiting_in (map Heap_Pkt ps) = length ps" "waiting_in (replicate n Local_Pkt) = 0"
  "waiting_in (xs @ ys) = waiting_in xs + waiting_in ys" "waiting_in [Heap_Pkt p] = 1" "waiting_in [] = 0"
  by (simp_all add: waiting_in_def is_heap_def filter_map comp_def)

text \<open>What an iteration sends, and how the number of packets that wait changes from \<open>k\<close>.\<close>

definition balance :: "net_env \<Rightarrow> readable list list \<Rightarrow> nat \<Rightarrow> router \<Rightarrow> frame list \<Rightarrow> bool" where
  "balance env sels k st' out \<longleftrightarrow> list_all (explained env (rtable st') sels) out \<and>
    (\<exists>ys. queue_repr (pq st') ys \<and> list_all (origin_ok env (rtable st') sels) ys \<and> length out + waiting_in ys \<le> k + 2)"

lemma balance_same_queue:
  "queue_repr (pq st') xs \<Longrightarrow> list_all (origin_ok env (rtable st') sels) xs \<Longrightarrow>
    list_all (explained env (rtable st') sels) out \<Longrightarrow> length out \<le> 2 \<Longrightarrow> balance env sels (waiting_in xs) st' out"
  by (auto simp: balance_def)

lemma explainedI:
  "received 3 sels p \<Longrightarrow> caused env rt p (i, bs) \<Longrightarrow> 0 \<le> i \<Longrightarrow> i < 3 \<Longrightarrow> length bs \<le> MAX_LEN \<Longrightarrow>
    explained env rt sels (i, bs)"
  by (auto simp: explained_def frame_ok_def)

lemma explained_answer:
  assumes "received 3 sels p" and "pkt_ok p" and "length bs = 42" and "caused env rt p (pkt_interface p, bs)"
  shows "explained env rt sels (pkt_interface p, bs)"
  using assms by (intro explainedI) (auto simp: pkt_ok_def MAX_LEN_def)

text \<open>A packet that leaves the queue.\<close>

lemma flushed_explained:
  assumes "rtable_ok rt" and "origin_ok env rt sels (Heap_Pkt q)" and "net_ok env" and "length hw = 6"
  shows "explained env rt sels (flushed env (route_of rt q) hw q)"
proof -
  obtain p r where p: "received 3 sels p" "pkt_ok p" "transit rt p r" "\<not> is_echo env p"
      "q = p\<lparr>payload := store16 24 0 (payload p)\<rparr>"
    using assms(2) by (auto simp: origin_ok_def)
  have len: "length (payload p) = 1600"
    using p(2) by (rule pkt_ok_length)
  have r: "get_best_route rt (daddr (ip_hdr (payload p))) = Inr (Some r)"
    using p(3) by (simp add: transit_def)
  have route: "route_of rt q = r"
    using len r by (simp add: route_of_def p(5) ip_hdr_store_check)
  let ?u = "update_ip (payload q)"
  let ?f = "write_at 6 (take 6 (ioctl_hwaddr env (interface_name (rt_interface r)))) (write_at 0 hw ?u)"
  have u: "length ?u = 1600"
    using update_cleared(1) [OF len] by (simp add: p(5))
  have own: "length (take 6 (ioctl_hwaddr env n)) = 6" for n
    using assms(3) by (simp add: net_ok_def env_ok_def)
  have "drop 12 ?f = drop 12 ?u"
    using u own assms(4) by (simp add: drop_write_low)
  moreover have "length ?f = MAX_LEN"
    using u own assms(4) by (simp add: MAX_LEN_def)
  ultimately have "resent p (take (nat (pkt_len p)) ?f)"
    using len by (intro resentI) (simp_all add: MAX_LEN_def p(5))
  then have "caused env rt p (flushed env r hw q)"
    using passed_on [OF p(3,4)] by (simp add: flushed_def p(5))
  moreover have "length (snd (flushed env r hw q)) \<le> MAX_LEN"
    using u own assms(4) by (simp add: flushed_def MAX_LEN_def)
  ultimately show ?thesis
    unfolding route using route_interface [OF assms(1) r] p(1)
    by (auto simp: explained_def frame_ok_def flushed_def)
qed

section \<open>One iteration\<close>

lemma ipv4_action_valid:
  assumes "ipv4_action env st = a" and "a \<noteq> Discard"
  shows "ip_valid (payload (m_buf st))"
    and "a = Time_Exceeded \<longleftrightarrow> ttl (ip_hdr (payload (m_buf st))) \<le> 1"
    and "a = Unreachable \<Longrightarrow> get_best_route (rtable st) (daddr (ip_hdr (payload (m_buf st)))) = Inr None"
    and "a = Echo_Reply \<Longrightarrow> is_echo env (m_buf st) \<and>
      (\<exists>r. get_best_route (rtable st) (daddr (ip_hdr (payload (m_buf st)))) = Inr (Some r))"
    and "a = Ask r \<or> a = Forward r e \<Longrightarrow> \<not> is_echo env (m_buf st)"
proof -
  obtain route where route: "get_best_route (rtable st) (daddr (ip_hdr (payload (m_buf st)))) = Inr route"
    using get_best_route_total by blast
  note a = assms [unfolded ipv4_action_def Let_def route]
  show "ip_valid (payload (m_buf st))" and "a = Time_Exceeded \<longleftrightarrow> ttl (ip_hdr (payload (m_buf st))) \<le> 1"
    using a by (auto split: if_splits option.splits)
  show "a = Unreachable \<Longrightarrow> get_best_route (rtable st) (daddr (ip_hdr (payload (m_buf st)))) = Inr None"
    and "a = Echo_Reply \<Longrightarrow> is_echo env (m_buf st) \<and>
      (\<exists>r. get_best_route (rtable st) (daddr (ip_hdr (payload (m_buf st)))) = Inr (Some r))"
    and "a = Ask r \<or> a = Forward r e \<Longrightarrow> \<not> is_echo env (m_buf st)"
    using a by (auto simp: route split: if_splits option.splits)
qed

text \<open>The answers to the sender.\<close>

lemma answer_caused:
  assumes "net_ok env" and "router_ok st" and "m_buf st = p"
    and "ether_type (ether_of (payload p)) = htons ETHERTYPE_IP" and "handle_ipv4 env st = Inr (st', out)"
    and "ipv4_action env st \<in> {Time_Exceeded, Unreachable, Echo_Reply}"
  shows "\<exists>bs. st' = cleared st \<and> out = [(pkt_interface p, bs)] \<and> length bs = 42 \<and>
    caused env (rtable st) p (pkt_interface p, bs)"
proof -
  have ok: "pkt_ok p"
    using assms(2,3) by (auto elim: router_okE)
  let ?b = "payload p" and ?i = "pkt_interface p"
  let ?h = "ip_hdr ?b" and ?eth = "ether_of ?b"
  have macs: "length (ether_dhost ?eth) = 6" "length (ether_shost ?eth) = 6"
    using macs_of_frame [of ?b] pkt_ok_length [OF ok] by simp_all
  have i: "0 \<le> ?i" "?i < 3" and w: "\<And>bs. \<not> write_fails env ?i bs"
    using ok assms(1) by (simp_all add: pkt_ok_def net_ok_def)
  note eq = handle_ipv4_action [OF _ _ refl refl refl, of st env, unfolded assms(3), OF ok assms(4)]
  have error: "\<exists>bs. send_icmp_error env (saddr ?h) (daddr ?h) (ether_dhost ?eth) (ether_shost ?eth) t 0 ?i =
      Inr (?i, bs) \<and> icmp_answer p t bs \<and> length bs = 42" if "t \<noteq> 0" for t
    using send_icmp_error_ok [OF macs i w, of t 0] that by (fastforce simp: icmp_reply_ok_def icmp_answer_def Let_def)
  note act = ipv4_action_valid [OF refl, of env st, unfolded assms(3)]
  show ?thesis
  proof (cases "ipv4_action env st")
    case Time_Exceeded
    obtain bs where "send_icmp_error env (saddr ?h) (daddr ?h) (ether_dhost ?eth) (ether_shost ?eth) 11 0 ?i = Inr (?i, bs)"
        "icmp_answer p 11 bs" "length bs = 42"
      using error [of 11] by auto
    then show ?thesis
      using eq assms(5) Time_Exceeded act by (auto intro: time_exceeded [OF assms(4)])
  next
    case Unreachable
    obtain bs where "send_icmp_error env (saddr ?h) (daddr ?h) (ether_dhost ?eth) (ether_shost ?eth) 3 0 ?i = Inr (?i, bs)"
        "icmp_answer p 3 bs" "length bs = 42"
      using error [of 3] by auto
    then show ?thesis
      using eq assms(5) Unreachable act by (auto intro: unreachable [OF assms(4)] simp: not_le)
  next
    case Echo_Reply
    obtain r where "transit (rtable st) p r" "is_echo env p"
      using act Echo_Reply assms(4) by (auto simp: transit_def not_le)
    moreover obtain bs where "send_icmp env (saddr ?h) (daddr ?h) (ether_dhost ?eth) (ether_shost ?eth) 0 0 ?i
        (int (unat (htons (of_int (pid env))))) 0 = Inr (?i, bs)" and len: "length bs = 42"
      using send_icmp_frame [OF assms(1) macs i] by blast
    then have bs: "handle_ipv4 env st = Inr (cleared st, [(?i, bs)])"
      using eq Echo_Reply by simp
    moreover have "icmp_answer p 0 bs" if "pid env mod 65536 \<noteq> 0"
      using router_echo_reply [OF assms(1,2) refl _ Echo_Reply that, unfolded assms(3)] assms(4) bs(1)
      by (auto simp: router_step_ipv4 assms(3) icmp_answer_def Let_def)
    ultimately have "caused env (rtable st) p (?i, bs)"
      using len by (intro echoed) auto
    with bs len show ?thesis
      using assms(5) by auto
  qed (use assms(6) in simp_all)
qed

lemma ipv4_balance:
  assumes "net_ok env" and "router_ok st"
    and "ether_type (ether_of (payload (m_buf st))) = htons ETHERTYPE_IP"
    and "handle_ipv4 env st = Inr (st', out)" and "queue_repr (pq st) xs"
    and "list_all (origin_ok env (rtable st) sels) xs" and "received 3 sels (m_buf st)"
  shows "balance env sels (waiting_in xs) st' out"
proof -
  have ok: "pkt_ok (m_buf st)"
    using assms(2) by (rule router_okE)
  let ?b = "payload (m_buf st)" and ?p = "m_buf st"
  have len: "length ?b = 1600"
    by (rule pkt_ok_length [OF ok])
  note eq = handle_ipv4_action [OF ok assms(3) refl refl refl, of env]
  note act = ipv4_action_valid [OF refl, of env st]
  have tr: "transit (rtable st) ?p r" if "ipv4_action env st = Ask r \<or> ipv4_action env st = Forward r e" for r e
    using that act ipv4_action_cases(2) [OF assms(2) refl, of env r e] assms(3) by (auto simp: transit_def not_le)
  have pc: "m_buf (cleared st) = ?p\<lparr>payload := store16 24 0 ?b\<rparr>"
    by (simp add: cleared_def)
  consider (drop) "ipv4_action env st = Discard"
    | (answer) "ipv4_action env st \<in> {Time_Exceeded, Unreachable, Echo_Reply}"
    | (ask) r where "ipv4_action env st = Ask r" | (fwd) r e where "ipv4_action env st = Forward r e"
    by (cases "ipv4_action env st") auto
  then show ?thesis
  proof cases
    case drop
    then show ?thesis
      using eq assms(4) by (auto intro!: balance_same_queue simp: assms(5,6))
  next
    case answer
    then obtain bs where "st' = cleared st" "out = [(pkt_interface ?p, bs)]" "length bs = 42"
        "caused env (rtable st) ?p (pkt_interface ?p, bs)"
      using answer_caused [OF assms(1,2) refl assms(3,4)] by blast
    then show ?thesis
      using explained_answer [OF assms(7) ok] by (auto intro!: balance_same_queue simp: assms(5,6))
  next
    case (ask r)
    note r = ipv4_action_cases(2) [OF assms(2) ask, of r]
    have "queue_repr (pq (cleared st)) xs"
      using assms(5) by simp
    from ask_result [OF assms(1) pkt_ok_cleared [OF ok] this, of r]
    obtain q b' bs where a: "enqueue_and_ask env (cleared st) r =
        Inr ((cleared st)\<lparr>pq := q, m_buf := (m_buf (cleared st))\<lparr>payload := b'\<rparr>\<rparr>, [(rt_interface r, bs)])"
        "queue_repr q (xs @ [Heap_Pkt (m_buf (cleared st))])"
        "arp_frame_ok bs \<lparr>ether_dhost = replicate 6 0xff,
          ether_shost = take 6 (ioctl_hwaddr env (interface_name (rt_interface r))), ether_type = htons 0x0806\<rparr>
          (rt_next_hop r) (ioctl_addr env (interface_name (rt_interface r))) (htons 1)"
      using r by auto
    have out: "st' = (cleared st)\<lparr>pq := q, m_buf := (m_buf (cleared st))\<lparr>payload := b'\<rparr>\<rparr>" "out = [(rt_interface r, bs)]"
      using eq assms(4) ask a(1) by auto
    have e: "\<not> is_echo env ?p"
      using act(5) ask by auto
    have "explained env (rtable st) sels (rt_interface r, bs)"
      using a(3) r tr ask e by (intro explainedI [OF assms(7)] asked) (auto simp: arp_frame_ok_def MAX_LEN_def)
    moreover have "origin_ok env (rtable st) sels (Heap_Pkt (m_buf (cleared st)))"
      using assms(7) ok tr ask e pc by (auto simp: origin_ok_def)
    ultimately show ?thesis
      using assms(6) a(2) by (auto simp: out balance_def intro!: exI [of _ "xs @ [Heap_Pkt (m_buf (cleared st))]"])
  next
    case (fwd r e)
    note c1 = ipv4_action_cases(1) [OF assms(2) fwd, of r e]
    note c2 = ipv4_action_cases(2) [OF assms(2) fwd, of r e]
    let ?b' = "write_at 0 (mac e) (update_ip (payload (m_buf (cleared st))))"
    have l: "length ?b' = MAX_LEN" "drop 12 ?b' = drop 12 (update_ip (store16 24 0 ?b))"
      using len c1 by (simp_all add: update_ip_props MAX_LEN_def drop_write_low)
    have "forward env (cleared st) r e = Inr ((cleared st)\<lparr>m_buf := (m_buf (cleared st))\<lparr>payload := ?b'\<rparr>\<rparr>,
        [(rt_interface r, take (nat (pkt_len (m_buf (cleared st)))) ?b')])"
      by (rule forward_result [OF assms(1) pkt_ok_cleared [OF ok] _ _ _ refl]) (use c1 c2 in auto)
    then have out: "st' = (cleared st)\<lparr>m_buf := (m_buf (cleared st))\<lparr>payload := ?b'\<rparr>\<rparr>"
        "out = [(rt_interface r, take (nat (pkt_len ?p)) ?b')]"
      using eq assms(4) fwd by auto
    have "resent ?p (take (nat (pkt_len ?p)) ?b')"
      using len l by (intro resentI) (simp_all add: MAX_LEN_def)
    moreover have "\<not> is_echo env ?p"
      using act(5) fwd by auto
    ultimately have "explained env (rtable st) sels (rt_interface r, take (nat (pkt_len ?p)) ?b')"
      using tr fwd c2 l(1) by (intro explainedI [OF assms(7)] passed_on) auto
    then show ?thesis
      by (auto simp: out intro!: balance_same_queue simp: assms(5,6))
  qed
qed

lemma step_balance:
  assumes "net_ok env" and "router_ok st" and "length (arp_table st) < 66000" and "queue_repr (pq st) xs"
    and "router_step env st = Some (Inr (st', out))"
    and "list_all (origin_ok env (rtable st) sels) xs" and "received 3 sels (m_buf st)"
  shows "balance env sels (waiting_in xs) st' out"
proof -
  let ?b = "payload (m_buf st)"
  have ok: "pkt_ok (m_buf st)"
    using assms(2) by (rule router_okE)
  consider (request) "ether_type (ether_of ?b) = htons ETHERTYPE_ARP" "arp_op (arp_hdr ?b) = htons 1"
    | (reply) "ether_type (ether_of ?b) = htons ETHERTYPE_ARP" "arp_op (arp_hdr ?b) \<noteq> htons 1"
    | (ip) "ether_type (ether_of ?b) = htons ETHERTYPE_IP"
    | (other) "ether_type (ether_of ?b) \<noteq> htons ETHERTYPE_ARP" "ether_type (ether_of ?b) \<noteq> htons ETHERTYPE_IP"
    by blast
  then show ?thesis
  proof cases
    case request
    obtain b' bs where bs: "handle_arp_request env st =
        Inr (st\<lparr>m_buf := (m_buf st)\<lparr>payload := b'\<rparr>\<rparr>, [(pkt_interface (m_buf st), bs)])"
        "arp_frame_ok bs \<lparr>ether_dhost = ether_shost (ether_of ?b),
          ether_shost = take 6 (ioctl_hwaddr env (interface_name (pkt_interface (m_buf st)))), ether_type = htons 0x0806\<rparr>
          (spa (arp_hdr ?b)) (ioctl_addr env (interface_name (pkt_interface (m_buf st)))) (htons 2)"
      using request_result [OF assms(1) ok refl refl] by auto
    then have "explained env (rtable st) sels (pkt_interface (m_buf st), bs)"
      by (intro explained_answer [OF assms(7) ok] arp_answered request) (auto simp: arp_frame_ok_def)
    then show ?thesis
      using assms(5) request bs(1) by (auto simp: router_step_arp intro!: balance_same_queue assms(4,6))
  next
    case reply
    have step: "handle_arp_reply env st = Some (Inr (st', out))"
      using assms(5) reply by (simp add: router_step_arp)
    have inv: "rtable_ok (rtable st)" "length (sha (arp_hdr ?b)) = 6"
      using assms(2) pkt_ok_length [OF ok] by (simp_all add: router_ok_def)
    have q: "\<forall>x \<in> set xs. queued_ok (rtable st) x"
    proof -
      obtain xs' where "queue_repr (pq st) xs'" "\<forall>x \<in> set xs'. queued_ok (rtable st) x"
        using assms(2) by (auto simp: router_ok_def)
      then show ?thesis
        using queue_repr_unique [OF _ assms(4)] by metis
    qed
    then have "Local_Pkt \<notin> set xs"
      using arp_reply_local [OF assms(1) inv assms(4) _ _ assms(3)] step by auto
    then obtain ps where ps: "xs = map Heap_Pkt ps"
      by (rule heap_list)
    then have qs: "\<forall>p \<in> set ps. queued_ok (rtable st) (Heap_Pkt p)"
      using q by simp
    let ?a = "arp_hdr ?b"
    obtain n where r: "out = map (\<lambda>p. flushed env (route_of (rtable st) p) (sha ?a) p)
        (filter (waits_for (rtable st) (spa ?a)) ps)" "queue_repr (pq st') (replicate n Local_Pkt)"
      using arp_reply_heap [OF assms(1) inv assms(4) [unfolded ps] qs assms(3) refl] step by auto
    have "rtable st' = rtable st"
      using step_safe [OF assms(1-3)] assms(5) by (simp add: safe_outcome_def)
    moreover have "explained env (rtable st) sels (flushed env (route_of (rtable st) p) (sha ?a) p)"
      if "p \<in> set ps" for p
      using assms(6) that by (intro flushed_explained inv assms(1)) (auto simp: ps list_all_iff)
    ultimately have "list_all (explained env (rtable st') sels) out"
      by (auto simp: r(1) list_all_iff)
    moreover have "length out \<le> length ps"
      by (simp add: r(1))
    ultimately show ?thesis
      using r(2) by (auto simp: balance_def ps list_all_iff origin_ok_def intro!: exI [of _ "replicate n Local_Pkt"])
  next
    case ip
    then show ?thesis
      using ipv4_balance [OF assms(1,2) ip _ assms(4,6,7)] assms(5) by (simp add: router_step_ipv4)
  next
    case other
    then show ?thesis
      using assms(4-6) by (auto simp: router_step_def intro!: balance_same_queue)
  qed
qed

section \<open>Runs\<close>

lemma get_packet_received:
  "get_packet sels m = Inr (Some (p, sels')) \<Longrightarrow> length (payload m) = MAX_LEN \<Longrightarrow> received 3 sels p"
proof (induction sels)
  case (Cons sel sels)
  show ?case
  proof (cases "scan_ready 0 (take (nat 3) sel) m = Inr None")
    case True
    with Cons show ?thesis
      by (auto simp: ROUTER_NUM_INTERFACES_def intro: received_mono)
  next
    case False
    with Cons.prems(1) have "scan_ready 0 (take (nat 3) sel) m = Inr (Some p)"
      by (auto simp: ROUTER_NUM_INTERFACES_def elim!: rbind_InrE split: option.splits)
    then show ?thesis
      by (rule scan_ready_in_sels) (simp_all add: Cons.prems(2))
  qed
qed simp

lemma run_balance:
  assumes "net_ok env" and "router_ok st" and "\<forall>sel \<in> set sels. Read_Error \<notin> set sel"
    and "length (arp_table st) + length sels \<le> 66000" and "queue_repr (pq st) xs"
    and "list_all (explained env (rtable st) all) out" and "list_all (origin_ok env (rtable st) all) xs"
    and "set sels \<subseteq> set all"
    and "router_run env st sels out = Some (Inr (st', out'))"
  shows "list_all (explained env (rtable st) all) out' \<and> length out' \<le> length out + waiting_in xs + 2 * length sels"
  using assms
proof (induction env st sels out arbitrary: xs rule: router_run.induct)
  case (1 env st sels out)
  have p: "pkt_ok (m_buf st)"
    using "1.prems"(2) by (rule router_okE)
  note got = get_packet_ok [OF "1.prems"(3) p]
  show ?case
  proof (cases "get_packet sels (m_buf st)")
    case (Inl e)
    with got show ?thesis by simp
  next
    case (Inr r)
    show ?thesis
    proof (cases r)
      case None
      with Inr "1.prems"(6,9) show ?thesis
        by (simp add: router_run.simps)
    next
      case (Some ps)
      obtain p' sels' where ps: "ps = (p', sels')"
        by force
      have got': "pkt_ok p'" "set sels' \<subseteq> set sels" "length sels' < length sels"
        using got Inr Some ps by auto
      let ?st = "st\<lparr>m_buf := p'\<rparr>"
      obtain st1 out1 where step: "router_step env ?st = Some (Inr (st1, out1))"
        and run: "router_run env st1 sels' (out @ out1) = Some (Inr (st', out'))"
        using "1.prems"(9) Inr Some ps by (auto simp: router_run.simps [of env st] split: option.splits sum.splits)
      have ok: "router_ok ?st" and arp: "length (arp_table ?st) < 66000"
        using "1.prems"(2,4) got' router_ok_receive by auto
      have st1: "router_ok st1" "length (arp_table st1) \<le> length (arp_table st) + 1" "rtable st1 = rtable st"
        using step_safe [OF "1.prems"(1) ok arp] step by (simp_all add: safe_outcome_def)
      have "received 3 all p'"
        using get_packet_received [of sels "m_buf st" p' sels'] Inr Some ps p "1.prems"(8)
        by (auto simp: pkt_ok_def intro: received_mono)
      then have "balance env all (waiting_in xs) st1 out1"
        by (intro step_balance [OF "1.prems"(1) ok arp _ step]) (use "1.prems"(5,7) in simp_all)
      then obtain ys where ys: "list_all (explained env (rtable st) all) out1" "queue_repr (pq st1) ys"
          "length out1 + waiting_in ys \<le> waiting_in xs + 2" "list_all (origin_ok env (rtable st) all) ys"
        by (auto simp: balance_def st1(3))
      have "list_all (explained env (rtable st1) all) out' \<and> length out' \<le> length (out @ out1) + waiting_in ys + 2 * length sels'"
        using "1.IH" [OF Inr Some ps [symmetric] step refl refl "1.prems"(1) st1(1) _ _ ys(2) _ _ _ run]
          "1.prems"(3,4,6,8) got' st1(2,3) ys(1,4)
        by force
      then show ?thesis
        using ys(3) got'(3) by (auto simp: st1(3))
    qed
  qed
qed

text \<open>
  C9. What leaves the router in a whole run. If the sockets open, the table reads and its interfaces are 0 to 2, no read
  or write fails and \<open>select\<close> is called at most 66000 times, then in every run of \<open>main\<close> that does not
  end in the dangling pointer, whatever frames arrive, each frame sent is caused by one received
  packet, on the interface and with the contents this packet calls for: an ARP reply to an ARP
  request, on the interface it came from; an ICMP message back to the sender of a valid packet whose
  TTL has run out (type 11), for whose destination there is no route (type 3), or that is an echo
  request for this interface (type 0, unless the process number is a multiple of 65536); or, for a valid
  packet with a TTL above 1 and a route, on the interface of the route the ARP request for its next
  hop, or the packet itself with the TTL one less, a verifying checksum and nothing else changed but
  the hardware addresses. There are at most two frames for each call of \<open>select\<close>, which hands over at
  most one packet.
\<close>

theorem router_traffic:
  assumes "net_ok env" and "init open_socket [] names = Inr socks"
    and "readRtable file = Inr rt" and "\<forall>e \<in> set rt. 0 \<le> rt_interface e \<and> rt_interface e < 3"
    and "pkt_ok m0" and "\<forall>sel \<in> set sels. Read_Error \<notin> set sel" and "length sels \<le> 66000"
    and "router_main env open_socket file names m0 sels = Some (Inr (st', out))"
  shows "list_all (explained env (qsort_rtable rt) sels) out \<and> length out \<le> 2 * length sels"
proof -
  let ?st = "\<lparr>rtable = qsort_rtable rt, arp_table = [], pq = queue_create empty_store, m_buf = m0\<rparr>"
  have q: "queue_repr (queue_create empty_store :: queued store \<times> cqueue) []"
    by (rule queue_create_repr) simp
  then have "router_ok ?st"
    using assms(4,5) by (auto simp: router_ok_def rtable_ok_def)
  then show ?thesis
    using run_balance [OF assms(1) _ assms(6), of ?st "[]" sels "[]" st' out] assms(2,3,7,8) q
    by (simp add: router_main_def)
qed

theorem router_traffic_witness:
  "\<exists>st' out. router_main demo_env (\<lambda>n. Some 3) (Some (render_rtable [demo_route])) [''rr-0-1'', ''r-0'']
      (demo_packet []) [[Ready (arp_frame 1 2)]] = Some (Inr (st', out)) \<and> length out = 1 \<and>
    list_all (explained demo_env (qsort_rtable [demo_route]) [[Ready (arp_frame 1 2)]]) out \<and> length out \<le> 2 * length [[Ready (arp_frame 1 2)]]"
proof -
  let ?main = "router_main demo_env (\<lambda>n. Some 3) (Some (render_rtable [demo_route])) [''rr-0-1'', ''r-0'']
      (demo_packet []) [[Ready (arp_frame 1 2)]]"
  have init: "init (\<lambda>n. Some 3) [] [''rr-0-1'', ''r-0''] = Inr [3, 3]"
    by (simp add: get_sock_def ROUTER_NUM_INTERFACES_def)
  have table: "readRtable (Some (render_rtable [demo_route])) = Inr [demo_route]"
    using read_lines_render [of "[demo_route]" "[]"] by (simp add: readRtable_def demo_route_def)
  obtain st' f where run: "?main = Some (Inr (st', [f]))"
  proof -
    let ?f = "arp_frame 1 2" and ?st = "\<lparr>rtable = qsort_rtable [demo_route], arp_table = [],
      pq = queue_create empty_store, m_buf = demo_packet []\<rparr>"
    have got: "get_packet [[Ready ?f]] (demo_packet []) = Inr (Some (demo_packet ?f, []))"
      by (simp add: socket_receive_message_def ROUTER_NUM_INTERFACES_def MAX_LEN_def Let_def)
        (simp add: demo_packet_def write_at_def)
    obtain b' bs where req: "handle_arp_request demo_env (?st\<lparr>m_buf := demo_packet ?f\<rparr>) =
        Inr (?st\<lparr>m_buf := (demo_packet ?f)\<lparr>payload := b'\<rparr>\<rparr>, [(pkt_interface (demo_packet ?f), bs)])"
      using request_result [OF demo_net_ok _ refl refl, of "?st\<lparr>m_buf := demo_packet ?f\<rparr>"]
      by (auto simp: demo_packet_ok)
    have "router_step demo_env (?st\<lparr>m_buf := demo_packet ?f\<rparr>) =
        Some (Inr (?st\<lparr>m_buf := (demo_packet ?f)\<lparr>payload := b'\<rparr>\<rparr>, [(pkt_interface (demo_packet ?f), bs)]))"
      using req by (simp add: router_step_arp demo_arp_hdr demo_blocks)
    then have "\<exists>st' f. router_run demo_env ?st [[Ready ?f]] [] = Some (Inr (st', [f]))"
      using got by (subst router_run.simps) (simp add: router_run.simps [where sels = "[]"])
    then show ?thesis
      using that init table by (auto simp: router_main_def)
  qed
  have "list_all (explained demo_env (qsort_rtable [demo_route]) [[Ready (arp_frame 1 2)]]) [f] \<and> length [f] \<le> 2 * length [[Ready (arp_frame 1 2)]]"
    by (rule router_traffic [OF demo_net_ok init table _ _ _ _ run]) (simp_all add: demo_route_def demo_packet_ok)
  with run show ?thesis
    by (intro exI [of _ st'] exI [of _ "[f]"]) simp
qed

end
