(* ===== verification/Link_Drain.thy ===== *)
theory Link_Drain
  imports Link_Safety
begin

text \<open>
  The link emulator in time: the rate and the delay of the link, and progress. The scheduler is let run by
  itself, at whatever times its sleeps make it read the clock, until it has delivered everything.
\<close>

section \<open>Passes of the scheduler\<close>

text \<open>The passes of the scheduler at given clock readings.\<close>

definition passes :: "(int \<times> int) list \<Rightarrow> action list" where
  "passes clocks = concat (map (\<lambda>c. [Do_Top c, Do_Launch]) clocks)"

abbreviation clock_time :: "int \<times> int \<Rightarrow> int" where
  "clock_time c \<equiv> sint (now c)"

text \<open>What the waiting times are when the head of the queue in flight is not due.\<close>

lemma wait_times_head:
  assumes "equeue_repr (in_flight s) (d # fl)" and "0 \<le> t" and "t < 2 ^ 63" and "\<not> due t d"
    and "uint (finish_time d) < 2 ^ 63"
  shows "\<exists>send. wait_times t s = Inr (idle_time s - t, send) \<and> 0 < send"
proof -
  have t: "uint (of_int t :: u64) = t"
    using assms(2,3) by (simp add: unsigned_of_int take_bit_int_eq_self)
  then have lt: "t < uint (finish_time d)"
    using assms(4) by (simp add: word_less_def)
  then have "(of_int t :: u64) \<le> finish_time d"
    using t by (simp add: word_le_def)
  then have "uint (finish_time d - of_int t) = uint (finish_time d) - t"
    using t by (simp add: uint_minus_simple_alt)
  then have "sint (finish_time d - of_int t) = uint (finish_time d) - t"
    using lt assms(2,5) by (simp add: sint_uint signed_take_bit_int_eq_self)
  moreover have "0 < esize (snd (in_flight s))"
    using equeue_size [OF assms(1)] by simp
  ultimately show ?thesis
    using assms(1) lt by (elim equeue_head) (simp add: wait_times_def)
qed

text \<open>From the launch to the sleep, or to the end of the waiting.\<close>

lemma sched_launch_head:
  assumes "equeue_repr (lbuffer s) bf" and "equeue_repr (in_flight s) fl" and "stuff \<longrightarrow> bf \<noteq> []"
    and "0 \<le> t" and "t < 2 ^ 63" and "\<forall>d \<in> set fl. uint (finish_time d) < 2 ^ 63"
    and "fl \<noteq> [] \<longrightarrow> \<not> due t (hd fl)" and "\<not> (stuff \<and> idle_time s \<le> t)"
    and "sched_launch cfg t stuff s = Inr (s', out)" and "fl \<noteq> []"
  shows "sched s' = Sched_Top"
proof -
  have "launch cfg t stuff s = Inr (s, [])"
    using assms(8) by (auto simp: launch_def)
  moreover have fl: "fl = hd fl # tl fl"
    using assms(10) by simp
  obtain send where "wait_times t s = Inr (idle_time s - t, send)" "0 < send"
    using wait_times_head [of s "hd fl" "tl fl" t] assms(2,4-7,10) fl by auto
  ultimately show ?thesis
    using assms(9) by (auto simp: sched_launch_def)
qed

lemma sched_launch_sleep:
  assumes "sched_launch cfg t stuff s = Inr (s', out)" and "Slept w \<in> set out"
  shows "0 \<le> w \<and> w \<le> max 0 (idle_time s' - t)"
  using assms
  by (auto simp: sched_launch_def launch_def wait_times_def wait_time_def Let_def
      elim!: rbind_InrE split: if_splits option.splits)

text \<open>One pass: what is due is sent, and the first message in the buffer is launched if the link is idle.\<close>

lemma pass_repr:
  assumes "sched s = Sched_Top" and "equeue_repr (lbuffer s) bf" and "equeue_repr (in_flight s) fl"
    and "t = clock_time clock" and "0 \<le> t" and "\<forall>d \<in> set fl. uint (finish_time d) < 2 ^ 63"
    and "go \<longleftrightarrow> bf \<noteq> [] \<and> idle_time s \<le> t"
  shows "\<exists>s' out. link_acts corr cfg [Do_Top clock, Do_Launch] s = Some (Inr (s', out)) \<and>
    accepted out = [] \<and> launched out = (if go then [(t, hd bf)] else []) \<and>
    delivered out = map (\<lambda>d. (t, mif_m d)) (takeWhile (due t) fl) \<and>
    equeue_repr (lbuffer s') (if go then tl bf else bf) \<and>
    equeue_repr (in_flight s') (dropWhile (due t) fl @ (if go then [mk_flight cfg t (hd bf)] else [])) \<and>
    idle_time s' = (if go then t + serialization_delay cfg else idle_time s) \<and>
    (sched s' = Sched_Top \<or> sched s' = Sched_Check) \<and>
    (t < idle_time s' \<longrightarrow> sched s' = Sched_Top) \<and>
    (\<not> go \<longrightarrow> (sched s' = Sched_Check \<longleftrightarrow> dropWhile (due t) fl = [] \<and> idle_time s \<le> t)) \<and>
    (\<forall>w. Slept w \<in> set out \<longrightarrow> 0 \<le> w \<and> w \<le> max 0 (idle_time s' - t))"
proof -
  let ?fl = "dropWhile (due t) fl"
  obtain q where q: "sched_top clock s =
      Some (Inr (s\<lparr>in_flight := q, sched := Sched_Stuff t (bf \<noteq> [])\<rparr>, map (sent t s) (takeWhile (due t) fl)))"
    "equeue_repr q ?fl"
    using sched_top_repr [OF assms(2-4)] by blast
  let ?s1 = "s\<lparr>in_flight := q, sched := Sched_Stuff t (bf \<noteq> [])\<rparr>"
  have r1: "equeue_repr (lbuffer ?s1) bf" "equeue_repr (in_flight ?s1) ?fl" "bf \<noteq> [] \<longrightarrow> bf \<noteq> []"
    using assms(2) q(2) by simp_all
  have idle: "idle_time ?s1 = idle_time s"
    by simp
  have t: "t < 2 ^ 63"
    using sint_lt [of "now clock"] assms(4) by simp
  obtain s' slept where s': "sched_launch cfg t (bf \<noteq> []) ?s1 =
      Inr (s', (if go then [Launched t (hd bf)] else []) @ slept)"
    "slept = [] \<and> sched s' = Sched_Check \<or> (\<exists>w. slept = [Slept w]) \<and> sched s' = Sched_Top"
    "equeue_repr (lbuffer s') (if go then tl bf else bf)"
    "equeue_repr (in_flight s') (if go then ?fl @ [mk_flight cfg t (hd bf)] else ?fl)"
    "idle_time s' = (if go then t + serialization_delay cfg else idle_time s)"
    "t < idle_time s' \<longrightarrow> sched s' = Sched_Top"
    "idle_time s' \<le> t \<and> ?fl = [] \<and> \<not> go \<longrightarrow> sched s' = Sched_Check"
    using sched_launch_repr [OF r1, of cfg t, unfolded idle assms(7) [symmetric]] by blast
  let ?out = "map (sent t s) (takeWhile (due t) fl) @ (if go then [Launched t (hd bf)] else []) @ slept"
  have top: "sched s' = Sched_Top" if "\<not> go" "?fl \<noteq> []"
  proof (rule sched_launch_head [OF r1 assms(5) t _ _ _ s'(1) that(2)])
    show "\<forall>d \<in> set ?fl. uint (finish_time d) < 2 ^ 63"
      using assms(6) by (auto dest: set_dropWhileD)
    show "?fl \<noteq> [] \<longrightarrow> \<not> due t (hd ?fl)"
      using hd_dropWhile by blast
  qed (use that assms(7) in simp)
  have acts: "link_acts corr cfg [Do_Top clock, Do_Launch] s = Some (Inr (s', ?out))"
    using q(1) s'(1) assms(1) by simp
  have slept: "accepted slept = []" "launched slept = []" "delivered slept = []"
    using s'(2) by auto
  have events: "accepted ?out = []" "launched ?out = (if go then [(t, hd bf)] else [])"
    "delivered ?out = map (\<lambda>d. (t, mif_m d)) (takeWhile (due t) fl)"
    using slept by (cases go; simp)+
  have flight: "equeue_repr (in_flight s') (?fl @ (if go then [mk_flight cfg t (hd bf)] else []))"
    using s'(4) by (cases go) simp_all
  have sched: "sched s' = Sched_Top \<or> sched s' = Sched_Check"
    using s'(2) by blast
  have check: "sched s' = Sched_Check \<longleftrightarrow> ?fl = [] \<and> idle_time s \<le> t" if "\<not> go"
  proof -
    have "idle_time s' = idle_time s"
      using s'(5) that by simp
    then show ?thesis
      using top s'(6,7) that sched by (metis linorder_not_less sched_pc.distinct(3))
  qed
  have sleep: "0 \<le> w \<and> w \<le> max 0 (idle_time s' - t)" if "Slept w \<in> set ?out" for w
    using sched_launch_sleep [OF s'(1), of w] that by (auto split: if_splits)
  show ?thesis
    using check sleep
    by (intro exI [of _ s'] exI [of _ ?out] conjI acts events s'(3,5,6) flight sched) blast+
qed

section \<open>Progress\<close>

lemma link_acts_append:
  assumes "link_acts corr cfg as s = Some (Inr (s1, out1))"
    and "link_acts corr cfg bs s1 = Some (Inr (s2, out2))"
  shows "link_acts corr cfg (as @ bs) s = Some (Inr (s2, out1 @ out2))"
  using assms
proof (induction as arbitrary: s out1)
  case (Cons a as)
  obtain s' o1 o2 where s': "link_act corr cfg a s = Some (Inr (s', o1))"
      "link_acts corr cfg as s' = Some (Inr (s1, o2))" "out1 = o1 @ o2"
    using Cons.prems(1) by (auto simp: rbind_eq_Inr_iff split: option.splits sum.splits)
  then show ?case
    using Cons.IH [OF s'(2) Cons.prems(2)] by simp
qed simp

text \<open>The clock does not go back between two passes, and they are at most \<open>g\<close> microseconds apart.\<close>

definition paced :: "int \<Rightarrow> (int \<times> int) list \<Rightarrow> bool" where
  "paced g clocks \<longleftrightarrow> (\<forall>i. Suc i < length clocks \<longrightarrow>
    clock_time (clocks ! i) \<le> clock_time (clocks ! Suc i) \<and>
    clock_time (clocks ! Suc i) \<le> clock_time (clocks ! i) + g)"

lemma paced_Cons:
  assumes "paced g (c # d # cs)"
  shows "paced g (d # cs)" and "clock_time c \<le> clock_time d" and "clock_time d \<le> clock_time c + g"
  using assms unfolding paced_def by (fastforce, fastforce, fastforce)

lemma paced_last: "paced g (c # cs) \<Longrightarrow> clock_time c \<le> clock_time (last (c # cs))"
proof (induction cs arbitrary: c)
  case (Cons d cs)
  then show ?case
    using order_trans [OF paced_Cons(2) [OF Cons.prems] Cons.IH [OF paced_Cons(1) [OF Cons.prems]]] by simp
qed simp

lemma passes_Cons: "passes (c # cs) = [Do_Top c, Do_Launch] @ passes cs"
  by (simp add: passes_def)

lemma finish_time_exact:
  assumes "0 \<le> t + serialization_delay cfg + delay cfg" and "t + serialization_delay cfg + delay cfg < 2 ^ 63"
  shows "uint (finish_time (mk_flight cfg t m)) = t + serialization_delay cfg + delay cfg"
  using assms by (simp add: unsigned_of_int take_bit_int_eq_self del: of_int_add)

lemma due_by:
  assumes "uint (finish_time d) \<le> t" and "t < 2 ^ 63"
  shows "due t d"
proof -
  have "0 \<le> t"
    using assms(1) by (meson order_trans uint_ge_0)
  then have "uint (of_int t :: u64) = t"
    using assms(2) by (simp add: unsigned_of_int take_bit_int_eq_self)
  then show ?thesis
    using assms(1) by (simp add: word_less_def)
qed

text \<open>
  \<open>F\<close> bounds the times at which what is in flight is due and the link is idle; a message in the buffer
  takes at most its own time and one pause more.
\<close>

lemma drains:
  assumes cfg: "0 < serialization_delay cfg" "0 \<le> delay cfg" "0 \<le> g"
    and "sched s = Sched_Top" and "equeue_repr (lbuffer s) bf" and "equeue_repr (in_flight s) fl"
    and "clocks \<noteq> []" and "paced g clocks" and "0 \<le> clock_time (hd clocks)"
    and "\<forall>d \<in> set fl. uint (finish_time d) \<le> F" and "idle_time s \<le> F"
    and "bf \<noteq> [] \<longrightarrow> clock_time (hd clocks) \<le> F + g"
    and "F + int (length bf) * (serialization_delay cfg + delay cfg + g) \<le> clock_time (last clocks)"
    and "serialization_delay cfg \<le> W" and "idle_time s - clock_time (hd clocks) \<le> W"
  shows "\<exists>k s' out. k \<le> length clocks \<and> link_acts corr cfg (passes (take k clocks)) s = Some (Inr (s', out)) \<and>
    map snd (delivered out) = map mif_m fl @ bf \<and> equeue_repr (lbuffer s') [] \<and> equeue_repr (in_flight s') [] \<and>
    sched s' = Sched_Check \<and> (\<forall>w. Slept w \<in> set out \<longrightarrow> 0 \<le> w \<and> w \<le> W)"
  using assms(4-)
proof (induction clocks arbitrary: s bf fl F)
  case (Cons c cs)
  let ?t = "clock_time c" and ?D = "serialization_delay cfg + delay cfg" and ?n = "int (length bf)"
  define go where "go \<longleftrightarrow> bf \<noteq> [] \<and> idle_time s \<le> ?t"
  have t0: "0 \<le> ?t"
    using Cons.prems(6) by simp
  have lim: "clock_time x < 2 ^ 63" for x
    using sint_lt [of "now x"] by simp
  have last: "?t \<le> clock_time (last (c # cs))"
    by (rule paced_last [OF Cons.prems(5)])
  have "0 \<le> ?n * (?D + g)"
    using cfg by simp
  then have F63: "F < 2 ^ 63"
    using Cons.prems(10) lim [of "last (c # cs)"] by (simp add: add.assoc)
  then have fl63: "\<forall>d \<in> set fl. uint (finish_time d) < 2 ^ 63"
    using Cons.prems(7) by force
  let ?fl = "dropWhile (due ?t) fl @ (if go then [mk_flight cfg ?t (hd bf)] else [])"
  obtain s1 out1 where s1: "link_acts corr cfg [Do_Top c, Do_Launch] s = Some (Inr (s1, out1))"
    "delivered out1 = map (\<lambda>d. (?t, mif_m d)) (takeWhile (due ?t) fl)"
    "equeue_repr (lbuffer s1) (if go then tl bf else bf)" "equeue_repr (in_flight s1) ?fl"
    "idle_time s1 = (if go then ?t + serialization_delay cfg else idle_time s)"
    "sched s1 = Sched_Top \<or> sched s1 = Sched_Check" "?t < idle_time s1 \<longrightarrow> sched s1 = Sched_Top"
    "\<not> go \<longrightarrow> (sched s1 = Sched_Check \<longleftrightarrow> dropWhile (due ?t) fl = [] \<and> idle_time s \<le> ?t)"
    "\<forall>w. Slept w \<in> set out1 \<longrightarrow> 0 \<le> w \<and> w \<le> max 0 (idle_time s1 - ?t)"
    using pass_repr [OF Cons.prems(1-3) refl t0 fl63 go_def, of corr cfg] by blast
  have split: "map mif_m (takeWhile (due ?t) fl) @ map mif_m (dropWhile (due ?t) fl) = map mif_m fl"
    by (metis map_append takeWhile_dropWhile_id)
  have W0: "idle_time s1 - ?t \<le> W"
    using s1(5) Cons.prems(11,12) by (auto split: if_splits)
  have slept: "0 \<le> w \<and> w \<le> W" if "Slept w \<in> set out1" for w
    using s1(9) that W0 cfg(1) Cons.prems(11) by fastforce
  show ?case
  proof (cases "sched s1 = Sched_Check")
    case True
    have "\<not> go"
      using True s1(5,7) cfg(1) by auto
    with True s1(8) have e: "dropWhile (due ?t) fl = []" "bf = []"
      by (auto simp: go_def)
    have "equeue_repr (in_flight s1) []" "equeue_repr (lbuffer s1) []"
      using s1(3,4) \<open>\<not> go\<close> by (simp_all only: e if_False append_Nil)
    moreover have "map snd (delivered out1) = map mif_m fl @ bf"
      using split by (simp only: e s1(2) list.map append_Nil2) (simp add: comp_def)
    moreover have "link_acts corr cfg (passes (take 1 (c # cs))) s = Some (Inr (s1, out1))"
      using s1(1) by (simp add: passes_def del: link_acts.simps)
    ultimately show ?thesis
      using True slept by (intro exI [of _ 1] exI [of _ s1] exI [of _ out1]) auto
  next
    case False
    then have top: "sched s1 = Sched_Top"
      using s1(6) by simp
    show ?thesis
    proof (cases cs)
      case Nil
      have enough: "F + ?n * (?D + g) \<le> ?t"
        using Cons.prems(10) by (simp add: Nil)
      have "bf = []"
      proof (rule ccontr)
        assume ne: "bf \<noteq> []"
        then have "1 * (?D + g) \<le> ?n * (?D + g)"
          using cfg by (intro mult_right_mono) (cases bf, simp_all)
        then have "F + (?D + g) \<le> F + ?n * (?D + g)"
          by simp
        also note enough
        also have "?t \<le> F + g"
          using Cons.prems(9) ne by simp
        finally show False
          using cfg by simp
      qed
      moreover have "F \<le> ?t"
        using enough \<open>0 \<le> ?n * (?D + g)\<close> by linarith
      then have "\<forall>d \<in> set fl. due ?t d"
        using Cons.prems(7) lim due_by by (meson order_trans)
      then have "dropWhile (due ?t) fl = []"
        by simp
      ultimately have False
        using s1(8) False Cons.prems(8) \<open>F \<le> ?t\<close> by (auto simp: go_def)
      then show ?thesis ..
    next
      case d: (Cons d ds)
      note pc = paced_Cons [OF Cons.prems(5) [unfolded d]]
      define F' where "F' = (if go then max F (?t + ?D) else F)"
      let ?bf = "if go then tl bf else bf"
      have start: "bf \<noteq> [] \<Longrightarrow> ?t \<le> F + g"
        using Cons.prems(9) by simp
      have n: "int (length bf) = int (length ?bf) + (if go then 1 else 0)"
        by (cases bf) (auto simp: go_def)
      have "F' + int (length ?bf) * (?D + g) \<le> F + ?n * (?D + g)"
        using cfg start unfolding n F'_def by (auto simp: go_def algebra_simps)
      then have enough: "F' + int (length ?bf) * (?D + g) \<le> clock_time (last cs)"
        using Cons.prems(10) d by simp
      moreover have "0 \<le> int (length ?bf) * (?D + g)"
        using cfg by simp
      ultimately have "F' < 2 ^ 63"
        using lim [of "last cs"] by linarith
      then have "uint (finish_time (mk_flight cfg ?t m)) \<le> F'" if go for m
        using that t0 cfg by (subst finish_time_exact) (auto simp: F'_def)
      moreover have "F \<le> F'"
        by (simp add: F'_def)
      ultimately have "\<forall>x \<in> set ?fl. uint (finish_time x) \<le> F'"
        using Cons.prems(7) by (auto dest!: set_dropWhileD)
      moreover have "idle_time s1 \<le> F'"
        using s1(5) Cons.prems(8) cfg by (auto simp: F'_def)
      moreover have "clock_time (hd cs) \<le> F' + g" if "?bf \<noteq> []"
        using that pc(3) Cons.prems(8) cfg d by (auto simp: F'_def go_def not_le split: if_splits)
      moreover have "idle_time s1 - clock_time (hd cs) \<le> W"
        using W0 pc(2) d by simp
      ultimately obtain k s' out where IH: "k \<le> length cs"
        "link_acts corr cfg (passes (take k cs)) s1 = Some (Inr (s', out))"
        "map snd (delivered out) = map mif_m ?fl @ ?bf" "equeue_repr (lbuffer s') []" "equeue_repr (in_flight s') []"
        "sched s' = Sched_Check" "\<forall>w. Slept w \<in> set out \<longrightarrow> 0 \<le> w \<and> w \<le> W"
        using Cons.IH [OF top s1(3,4), of F'] pc(1,2) t0 enough Cons.prems(11) d by auto
      have "map mif_m ?fl @ ?bf = map mif_m (dropWhile (due ?t) fl) @ bf"
        by (cases bf) (auto simp: go_def)
      then have "map snd (delivered (out1 @ out)) = map mif_m fl @ bf"
        using s1(2) IH(3) split by (simp add: comp_def)
      moreover have "link_acts corr cfg (passes (take (Suc k) (c # cs))) s = Some (Inr (s', out1 @ out))"
        using link_acts_append [OF s1(1) IH(2)] by (simp add: passes_Cons del: link_acts.simps)
      ultimately show ?thesis
        using IH slept by (intro exI [of _ "Suc k"] exI [of _ s'] exI [of _ "out1 @ out"]) auto
    qed
  qed
qed simp


section \<open>Two messages\<close>

text \<open>A further message, when the buffer has room and nothing is lost or corrupted.\<close>

lemma accept_one:
  assumes "fwd s = Fwd_Recv" and "link_up1 s" and "equeue_repr (lbuffer s) bf" and "length bf < 1000"
    and "sched s = Sched_Top"
  shows "\<exists>s'. link_acts corr default_cfg [Do_Recv (Some (a, m)), Do_Forward (50, 50, 0, 0), Do_Put] s =
      Some (Inr (s', [Accepted m])) \<and> sched s' = Sched_Top \<and> equeue_repr (lbuffer s') (bf @ [m]) \<and>
    in_flight s' = in_flight s \<and> idle_time s' = idle_time s"
proof -
  obtain q where q: "enqueue (lbuffer s) m = Inr q" "equeue_repr q (bf @ [m])"
    using enqueue_repr [OF assms(3)] by blast
  have "link_act corr default_cfg (Do_Recv (Some (a, m))) s = Some (Inr (s\<lparr>fwd := Fwd_Check m\<rparr>, []))"
    using assms(1,2) by (simp add: fwd_recv_def receive_message1_def)
  moreover have "link_act corr default_cfg (Do_Forward (50, 50, 0, 0)) (s\<lparr>fwd := Fwd_Check m\<rparr>) =
      Some (Inr (s\<lparr>fwd := Fwd_Put m\<rparr>, []))"
    using assms(4) equeue_size [OF assms(3)] by (simp add: fwd_check_def default_cfg_def BUFFER_SIZE_def)
  moreover have "link_act corr default_cfg Do_Put (s\<lparr>fwd := Fwd_Put m\<rparr>) =
      Some (Inr (s\<lparr>lbuffer := q, fwd := Fwd_Recv\<rparr>, [Accepted m]))"
    using q(1) assms(5) by (simp add: fwd_put_def)
  ultimately have "link_acts corr default_cfg [Do_Recv (Some (a, m)), Do_Forward (50, 50, 0, 0), Do_Put] s =
      Some (Inr (s\<lparr>lbuffer := q, fwd := Fwd_Recv\<rparr>, [Accepted m]))"
    by (simp del: link_act.simps)
  then show ?thesis
    using q(2) assms(5) by (intro exI [of _ "s\<lparr>lbuffer := q, fwd := Fwd_Recv\<rparr>"]) simp
qed

lemma two_reachable:
  obtains s where "link_run corr default_cfg s [Accepted (demo_msg 65), Accepted (demo_msg 66)]"
    and "sched s = Sched_Top" and "equeue_repr (lbuffer s) [demo_msg 65, demo_msg 66]"
    and "equeue_repr (in_flight s) []" and "idle_time s = 0"
proof -
  obtain s where s: "link_run corr default_cfg s [Accepted (demo_msg 65)]" "sched s = Sched_Top" "fwd s = Fwd_Recv"
      "equeue_repr (lbuffer s) [demo_msg 65]" "equeue_repr (in_flight s) []" "idle_time s = 0" "link_up1 s"
    by (rule demo_reachable)
  obtain s' where s': "link_acts corr default_cfg [Do_Recv (Some (local_addr 9, demo_msg 66)), Do_Forward (50, 50, 0, 0), Do_Put] s =
      Some (Inr (s', [Accepted (demo_msg 66)]))" "sched s' = Sched_Top" "equeue_repr (lbuffer s') ([demo_msg 65] @ [demo_msg 66])"
      "in_flight s' = in_flight s" "idle_time s' = idle_time s"
    using accept_one [OF s(3,7,4) _ s(2), of corr "local_addr 9" "demo_msg 66"] by auto
  from link_acts_run [OF s(1) s'(1)] s' s(5,6) show thesis
    by (intro that [of s']) simp_all
qed

lemma demo_times: "clock_time (5, 0) = 5000000" "clock_time (6, 0) = 6000000" "clock_time (7, 0) = 7000000"
    "clock_time (8, 0) = 8000000"
  by code_simp+


section \<open>Rate and delay\<close>

text \<open>
  C13. The link has the rate and the delay it is configured with: in every run, two messages are put
  on the link at least \<open>serialization_delay\<close> apart, the messages delivered are the first ones put on
  the link, and each is delivered no earlier than \<open>serialization_delay + delay\<close> after that (for times
  that an unsigned 64-bit number holds).
\<close>

theorem link_rate_and_delay:
  assumes "link_run corr cfg s tr"
  shows "(\<forall>i. Suc i < length (launched tr) \<longrightarrow>
      fst (launched tr ! i) + serialization_delay cfg \<le> fst (launched tr ! Suc i)) \<and>
    length (delivered tr) \<le> length (launched tr) \<and>
    (\<forall>i < length (delivered tr). snd (delivered tr ! i) = snd (launched tr ! i) \<and>
      (let start = fst (launched tr ! i) + serialization_delay cfg + delay cfg; t = fst (delivered tr ! i)
       in 0 \<le> start \<and> start < 2 ^ 64 \<and> 0 \<le> t \<and> t < 2 ^ 64 \<longrightarrow> start \<le> t))"
proof -
  obtain bf where inv: "link_inv cfg s tr bf"
    using link_run_inv [OF assms] by blast
  have le: "a \<le> b" if "(of_int a :: u64) \<le> of_int b" "0 \<le> a" "a < 2 ^ 64" "0 \<le> b" "b < 2 ^ 64" for a b
    using that by (simp add: word_le_def unsigned_of_int take_bit_int_eq_self)
  show ?thesis
    using inv le unfolding link_inv_def Let_def by blast
qed

text \<open>
  Two messages, accepted before the first pass, which comes after five seconds; passes follow every second.
\<close>

theorem link_rate_and_delay_witness:
  "\<exists>s tr. link_run corrupt_bit default_cfg s tr \<and>
    launched tr = [(5000000, demo_msg 65), (6000000, demo_msg 66)] \<and>
    delivered tr = [(6000000, demo_msg 65), (7000000, demo_msg 66)] \<and>
    (\<forall>i. Suc i < length (launched tr) \<longrightarrow>
      fst (launched tr ! i) + serialization_delay default_cfg \<le> fst (launched tr ! Suc i)) \<and>
    length (delivered tr) \<le> length (launched tr) \<and>
    (\<forall>i < length (delivered tr). snd (delivered tr ! i) = snd (launched tr ! i) \<and>
      (let start = fst (launched tr ! i) + serialization_delay default_cfg + delay default_cfg;
           t = fst (delivered tr ! i)
       in 0 \<le> start \<and> start < 2 ^ 64 \<and> 0 \<le> t \<and> t < 2 ^ 64 \<longrightarrow> start \<le> t))"
proof -
  obtain s where s: "link_run corrupt_bit default_cfg s [Accepted (demo_msg 65), Accepted (demo_msg 66)]"
    "sched s = Sched_Top" "equeue_repr (lbuffer s) [demo_msg 65, demo_msg 66]" "equeue_repr (in_flight s) []" "idle_time s = 0"
    by (rule two_reachable)
  let ?d = "mk_flight default_cfg"
  have fin: "uint (finish_time (?d 5000000 m)) = 5002000" "uint (finish_time (?d 6000000 m)) = 6002000" for m
    by (subst finish_time_exact; simp add: default_cfg_def)+
  have due: "due 6000000 (?d 5000000 m)" "due 7000000 (?d 6000000 m)" for m
    using due_by [of "?d 5000000 m" 6000000] due_by [of "?d 6000000 m" 7000000] unfolding fin by simp_all
  obtain s1 out1 where 1: "link_acts corrupt_bit default_cfg [Do_Top (5, 0), Do_Launch] s = Some (Inr (s1, out1))"
    "launched out1 = [(5000000, demo_msg 65)]" "delivered out1 = []" "sched s1 = Sched_Top"
    "equeue_repr (lbuffer s1) [demo_msg 66]" "equeue_repr (in_flight s1) [?d 5000000 (demo_msg 65)]"
    "idle_time s1 = 5001000"
    using pass_repr [OF s(2-4) demo_times(1) [symmetric] _ _ refl, of corrupt_bit default_cfg] s(5)
    by (auto simp: default_cfg_def)
  obtain s2 out2 where 2: "link_acts corrupt_bit default_cfg [Do_Top (6, 0), Do_Launch] s1 = Some (Inr (s2, out2))"
    "launched out2 = [(6000000, demo_msg 66)]" "delivered out2 = [(6000000, demo_msg 65)]" "sched s2 = Sched_Top"
    "equeue_repr (lbuffer s2) []" "equeue_repr (in_flight s2) [?d 6000000 (demo_msg 66)]"
    using pass_repr [OF 1(4-6) demo_times(2) [symmetric] _ _ refl, of corrupt_bit default_cfg] 1(7) due(1) fin
    by (auto simp: default_cfg_def)
  obtain s3 out3 where 3: "link_acts corrupt_bit default_cfg [Do_Top (7, 0), Do_Launch] s2 = Some (Inr (s3, out3))"
    "launched out3 = []" "delivered out3 = [(7000000, demo_msg 66)]"
    using pass_repr [OF 2(4-6) demo_times(3) [symmetric] _ _ refl, of corrupt_bit default_cfg] due(2) fin
    by auto
  let ?tr = "(([Accepted (demo_msg 65), Accepted (demo_msg 66)] @ out1) @ out2) @ out3"
  have run: "link_run corrupt_bit default_cfg s3 ?tr"
    by (rule link_acts_run [OF link_acts_run [OF link_acts_run [OF s(1) 1(1)] 2(1)] 3(1)])
  have "launched ?tr = [(5000000, demo_msg 65), (6000000, demo_msg 66)]"
    "delivered ?tr = [(6000000, demo_msg 65), (7000000, demo_msg 66)]"
    using 1(2,3) 2(2,3) 3(2,3) by simp_all
  with run link_rate_and_delay [OF run] show ?thesis
    by blast
qed

end
