(* ===== verification/Link_Transfer.thy ===== *)
theory Link_Transfer
  imports Link_Drain File_Transfer
begin

text \<open>
  The programs of \<open>Lab02\<close> on the two ends of the link emulator: what the receiver has written at any
  moment, in every interleaving of the threads of the emulator, and how many messages the emulator
  then holds.
\<close>

section \<open>The programs on a part of their input\<close>

lemma send_chunks_part:
  assumes "send_chunks file payload (replicate (length msgs) (Some ack_msg)) =
    Inr (msgs, replicate (length msgs) Got_Ack, Returned 0)"
  shows "send_chunks file payload (replicate j (Some ack_msg)) =
    Inr (take (Suc j) msgs, replicate (min j (length msgs)) Got_Ack, if length msgs \<le> j then Returned 0 else Waiting)"
  using assms
proof (induction msgs arbitrary: "file" payload j)
  case Nil
  then show ?case
    by (subst send_chunks.simps, subst (asm) send_chunks.simps) (auto simp: Let_def split: if_splits)
next
  case (Cons m msgs)
  have ne: "file \<noteq> []"
    using Cons.prems by (subst (asm) send_chunks.simps) (auto split: if_splits)
  let ?t = "\<lparr>msg_len = int (length (take (MSGSIZE - 1) file)), msg_data = write_at 0 (take (MSGSIZE - 1) file) payload\<rparr>"
  have m: "m = ?t" and rest: "send_chunks (drop (MSGSIZE - 1) file) (replicate MSGSIZE 0)
      (replicate (length msgs) (Some ack_msg)) = Inr (msgs, replicate (length msgs) Got_Ack, Returned 0)"
    using Cons.prems ne by (subst (asm) send_chunks.simps, auto simp: Let_def note_ack elim!: rbind_InrE)+
  show ?case
  proof (cases j)
    case 0
    then show ?thesis
      using ne m by (subst send_chunks.simps) (simp add: Let_def)
  next
    case (Suc i)
    then show ?thesis
      using ne m Cons.IH [OF rest, of i] by (subst send_chunks.simps) (simp add: Let_def note_ack)
  qed
qed

lemma send_main_part:
  assumes "send_chunks file (msg_data ack_msg) (replicate (length msgs) (Some ack_msg)) =
    Inr (msgs, replicate (length msgs) Got_Ack, Returned 0)"
  shows "\<exists>log. send_main (Some file) garbage (replicate j (Some ack_msg)) =
    Inr (take (Suc j) (announce (int (length file)) garbage # msgs), log,
      if length msgs < j then Returned 0 else Waiting)"
proof (cases j)
  case 0
  then show ?thesis
    by (simp add: send_main_def Let_def)
next
  case (Suc i)
  then show ?thesis
    using send_chunks_part [OF assms, of i] by (simp add: send_main_def Let_def note_ack)
qed

lemma receive_chunks_part:
  assumes "\<forall>m \<in> set msgs. chunk_ok m"
  shows "\<exists>k e. receive_chunks s sz out (map Some msgs) = Inr (out @ concat (map msg_chunk (take k msgs)), replicate k s, e) \<and>
    k \<le> length msgs"
  using assms
proof (induction msgs arbitrary: sz out)
  case Nil
  then show ?case
    by auto
next
  case (Cons m msgs)
  show ?case
  proof (cases "sz = 0")
    case True
    then show ?thesis
      by (intro exI [of _ 0]) simp
  next
    case False
    obtain k e where "receive_chunks s (sz - msg_len m) (out @ msg_chunk m) (map Some msgs) =
        Inr ((out @ msg_chunk m) @ concat (map msg_chunk (take k msgs)), replicate k s, e)" "k \<le> length msgs"
      using Cons.IH Cons.prems by (metis list.set_intros(2))
    then show ?thesis
      using Cons.prems False
      by (intro exI [of _ "Suc k"] exI [of _ e]) (simp add: receive_chunks_Cons del: receive_chunks.simps)
  qed
qed

lemma recv_main_part:
  assumes "length garbage = MSGSIZE" and "n < 2 ^ 31" and "\<forall>m \<in> set msgs. chunk_ok m"
  shows "\<exists>k e. recv_main (map Some (take d (announce (int n) garbage # msgs))) =
    Inr (concat (map msg_chunk (take (k - 1) msgs)), replicate k ack_msg, e) \<and> k \<le> d"
proof (cases d)
  case 0
  then show ?thesis
    by (simp add: recv_main_def)
next
  case (Suc c)
  obtain v where v: "scan_announce (send_file_name @ CHR '' '' # take 2 (show_int (int n))) = Inr v"
    using announced_size [OF assms(2)] by blast
  have "\<forall>m \<in> set (take c msgs). chunk_ok m"
    using assms(3) by (auto dest: in_set_takeD)
  from receive_chunks_part [OF this, of ack_msg v "[]"] obtain k e where
    k: "receive_chunks ack_msg v [] (map Some (take c msgs)) =
      Inr (concat (map msg_chunk (take k (take c msgs))), replicate k ack_msg, e)" "k \<le> length (take c msgs)"
    by auto
  then show ?thesis
    using announce_string(1) [OF assms(1)] v Suc
    by (intro exI [of _ "Suc k"] exI [of _ e]) (simp add: recv_main_def min_def split: if_splits)
qed

text \<open>The receiver only ever replies with the acknowledgement.\<close>

lemma receive_replies:
  "receive_chunks s sz out rs = Inr (out', replies, e) \<Longrightarrow> \<exists>k. replies = replicate k s"
proof (induction rs arbitrary: sz out replies)
  case Nil
  then show ?case
    by (intro exI [of _ 0]) auto
next
  case (Cons r rs)
  show ?case
  proof (cases "sz = 0 \<or> r = None")
    case True
    with Cons.prems show ?thesis
      by (intro exI [of _ 0]) (auto split: if_splits)
  next
    case False
    with Cons.prems obtain m :: msg and replies' where "replies = s # replies'"
        "receive_chunks s (sz - msg_len m) (out @ take (nat (msg_len m)) (msg_data m)) rs = Inr (out', replies', e)"
      by (auto elim!: rbind_InrE split: if_splits)
    with Cons.IH show ?thesis
      by (metis replicate_Suc)
  qed
qed

lemma recv_replies: "recv_main ms = Inr (out, replies, e) \<Longrightarrow> \<exists>k. replies = replicate k ack_msg"
proof (cases ms)
  case Nil
  then show "recv_main ms = Inr (out, replies, e) \<Longrightarrow> ?thesis"
    by (intro exI [of _ 0]) (simp add: recv_main_def)
next
  case (Cons r rs)
  assume run: "recv_main ms = Inr (out, replies, e)"
  show ?thesis
  proof (cases r)
    case None
    then show ?thesis
      using run Cons by (intro exI [of _ 0]) (simp add: recv_main_def)
  next
    case (Some m)
    then obtain sz replies' where "replies = ack_msg # replies'"
        "receive_chunks ack_msg sz [] rs = Inr (out, replies', e)"
      using run Cons by (auto simp: recv_main_def elim!: rbind_InrE)
    then show ?thesis
      using receive_replies by (metis replicate_Suc)
  qed
qed

text \<open>
  The two programs without the emulator: the receiver has got the first \<open>d\<close> messages of the sender, and
  the sender the first \<open>j\<close> replies of the receiver.
\<close>

lemma copy_so_far:
  assumes "length garbage = MSGSIZE" and "length file < 2 ^ 31"
    and recv: "recv_main (map Some (take d msgs')) = Inr (out, replies, e)" and "d \<le> length msgs'"
    and send: "send_main (Some file) garbage (map Some (take j replies)) = Inr (msgs', log, e')"
  shows "(\<exists>rest. file = out @ rest) \<and> length msgs' \<le> d + 1 \<and>
    (e' = Returned 0 \<and> d = length msgs' \<longrightarrow> out = file)"
proof -
  let ?t = "announce (int (length file)) garbage"
  obtain msgs where msgs:
    "send_chunks file (msg_data ack_msg) (replicate (length msgs) (Some ack_msg)) =
      Inr (msgs, replicate (length msgs) Got_Ack, Returned 0)"
    "\<forall>m \<in> set msgs. chunk_ok m" "concat (map msg_chunk msgs) = file"
    "recv_main (map Some (?t # msgs)) =
      Inr (file, replicate (Suc (length msgs)) ack_msg, if length file < 100 then Returned 0 else Waiting)"
    using file_chunks [OF assms(1,2)] by blast
  obtain k where k: "replies = replicate k ack_msg"
    using recv_replies [OF recv] by blast
  then have "map Some (take j replies) = replicate (min j k) (Some ack_msg)"
    by simp
  then have sent: "msgs' = take (Suc (min j k)) (?t # msgs)" "e' = Returned 0 \<longrightarrow> length msgs < min j k"
    using send_main_part [OF msgs(1), of garbage "min j k"] send by (auto split: if_splits)
  have "take d msgs' = take (min d (Suc (min j k))) (?t # msgs)"
    by (simp only: sent(1) take_take)
  then have out: "out = concat (map msg_chunk (take (k - 1) msgs))" "k \<le> d"
    using recv_main_part [OF assms(1,2) msgs(2), of "min d (Suc (min j k))"] recv k by auto
  have "file = out @ concat (map msg_chunk (drop (k - 1) msgs))"
    using msgs(3) out(1) by (metis append_take_drop_id concat_append map_append)
  moreover have "length msgs' \<le> d + 1"
    using out(2) by (simp add: sent(1))
  moreover have "out = file" if "e' = Returned 0" "d = length msgs'"
    using sent that recv msgs(4) by simp
  ultimately show ?thesis
    by blast
qed

section \<open>The programs and the emulator\<close>

text \<open>
  C15. A file on its way. At any moment of any run of the emulator in which it has so far accepted, unchanged and without
  a loss, messages from the start of what the sender has sent, and the sender has got some of the replies
  of the receiver: what the receiver has written is a beginning of the file, the emulator holds at most
  one message, and once everything the sender has sent is delivered and the sender has returned, the
  receiver has written the file.
\<close>

theorem file_over_link:
  assumes "length garbage = MSGSIZE" and "length file < 2 ^ 31"
    and "link_run corr cfg s tr"
    and "recv_main (map (\<lambda>d. Some (snd d)) (delivered tr)) = Inr (out, replies, e)"
    and "send_main (Some file) garbage (map Some (take j replies)) = Inr (msgs', log, e')"
    and "accepted tr = take (length (accepted tr)) msgs'"
  shows "(\<exists>rest. file = out @ rest) \<and> length (accepted tr) \<le> length (delivered tr) + 1 \<and>
    (e' = Returned 0 \<and> length (delivered tr) = length msgs' \<longrightarrow> out = file)"
proof -
  let ?d = "length (delivered tr)"
  obtain bf and fl :: "msg_in_flight list" where order: "accepted tr = map snd (delivered tr) @ map mif_m fl @ bf"
    using link_run_order [OF assms(3)] by blast
  have "map snd (delivered tr) = take ?d (accepted tr)"
    by (simp add: order)
  moreover have len: "length (accepted tr) \<le> length msgs'" "?d \<le> length (accepted tr)"
    using arg_cong [OF assms(6), of length] by (simp, simp add: order)
  ultimately have "map snd (delivered tr) = take ?d msgs'"
    using assms(6) by (metis min.absorb1 take_take)
  moreover have "map (\<lambda>d. Some (snd d)) (delivered tr) = map Some (map snd (delivered tr))"
    by simp
  ultimately have "recv_main (map Some (take ?d msgs')) = Inr (out, replies, e)"
    using assms(4) by simp
  from copy_so_far [OF assms(1,2) this _ assms(5)] len show ?thesis
    by auto
qed

text \<open>The announcement of a file of three bytes is delivered, and the sender has got the reply.\<close>

theorem file_over_link_witness:
  "\<exists>s tr out replies e msgs' log e'. link_run corrupt_byte default_cfg s tr \<and>
    recv_main (map (\<lambda>d. Some (snd d)) (delivered tr)) = Inr (out, replies, e) \<and>
    send_main (Some [1, 2, 3]) (replicate MSGSIZE 0) (map Some (take 1 replies)) = Inr (msgs', log, e') \<and>
    length (delivered tr) = 1 \<and>
    (\<exists>rest. [1, 2, 3] = out @ rest) \<and> length (accepted tr) \<le> length (delivered tr) + 1"
proof -
  let ?t = "announce (int (length [1, 2, 3 :: u8])) (replicate MSGSIZE 0)"
  have g: "length (replicate MSGSIZE (0 :: u8)) = MSGSIZE" "length [1, 2, 3 :: u8] < 2 ^ 31"
    by simp_all
  obtain s where s: "link_run corrupt_byte default_cfg s [Accepted ?t]" "sched s = Sched_Top"
      "equeue_repr (lbuffer s) [?t]" "equeue_repr (in_flight s) []" "idle_time s = 0"
    by (rule accept_reachable)
  let ?clocks = "[(5, 0), (6, 0), (7, 0)]"
  have "paced 1000000 ?clocks"
    unfolding paced_def by (auto simp: less_Suc_eq nth_Cons' demo_times)
  then obtain k s' acts where s': "link_acts corrupt_byte default_cfg (passes (take k ?clocks)) s = Some (Inr (s', acts))"
      "map snd (delivered acts) = [?t]" "equeue_repr (lbuffer s') []" "equeue_repr (in_flight s') []"
    using drains [OF _ _ _ s(2-4), of default_cfg 1000000 ?clocks 5000000 1000 corrupt_byte] s(5)
    by (auto simp: default_cfg_def demo_times)
  let ?tr = "[Accepted ?t] @ acts"
  have run: "link_run corrupt_byte default_cfg s' ?tr"
    by (rule link_acts_run [OF s(1) s'(1)])
  obtain bf and fl :: "msg_in_flight list" where "equeue_repr (lbuffer s') bf" "equeue_repr (in_flight s') fl"
      "accepted ?tr = map snd (delivered ?tr) @ map mif_m fl @ bf"
    using link_run_order [OF run] by blast
  then have acc: "accepted ?tr = [?t]"
    using equeue_repr_unique [OF s'(3)] equeue_repr_unique [OF s'(4)] s'(2) by fastforce
  have del: "map (\<lambda>d. Some (snd d)) (delivered ?tr) = [Some ?t]"
    using s'(2) by auto
  obtain v where v: "scan_announce (send_file_name @ CHR '' '' # take 2 (show_int (int (length [1, 2, 3 :: u8])))) = Inr v"
    using announced_size [OF g(2)] by blast
  obtain e where recv: "recv_main (map (\<lambda>d. Some (snd d)) (delivered ?tr)) = Inr ([], [ack_msg], e)"
    unfolding del using announce_string(1) [OF g(1)] v by (simp add: recv_main_def)
  obtain msgs where "send_chunks [1, 2, 3] (msg_data ack_msg) (replicate (length msgs) (Some ack_msg)) =
      Inr (msgs, replicate (length msgs) Got_Ack, Returned 0)"
    using file_chunks [OF g] by blast
  from send_main_part [OF this, of "replicate MSGSIZE 0" 1] obtain log e' where
    send: "send_main (Some [1, 2, 3]) (replicate MSGSIZE 0) (map Some (take 1 [ack_msg])) =
      Inr (take 2 (?t # msgs), log, e')"
    by (auto simp: numeral_2_eq_2)
  have "accepted ?tr = take (length (accepted ?tr)) (take 2 (?t # msgs))"
    using acc by simp
  from file_over_link [OF g run recv send this] have
    "(\<exists>rest. [1, 2, 3] = [] @ rest) \<and> length (accepted ?tr) \<le> length (delivered ?tr) + 1"
    by blast
  moreover have "length (delivered ?tr) = 1"
    using del by (metis length_Cons length_map list.size(3) One_nat_def)
  ultimately show ?thesis
    using run recv send by blast
qed

end
