(* ===== verification/Http_Connection.thy ===== *)
theory Http_Connection
  imports Http_Requests Socket_Progs
begin

text \<open>
  The connections of the HTTP clients: \<open>open_connection\<close> and \<open>close_connection\<close> of \<open>Teme/Tema3/helpers.c\<close>
  (the same text in \<open>Lab10/helpers.c\<close>), and one request with its response over an open connection.
\<close>

text \<open>
  The socket call gives \<open>sock\<close> (\<open>None\<close> for an error), \<open>connect_fails\<close> says to which addresses \<open>connect\<close> fails.
  The address is all zero before \<open>inet_aton\<close>, whose failure is not looked at.
\<close>

definition open_connection ::
  "int option \<Rightarrow> (sockaddr \<Rightarrow> bool) \<Rightarrow> string \<Rightarrow> int \<Rightarrow> (int \<times> sockaddr) res" where
  "open_connection sock connect_fails host_ip portno = (case sock of
       None \<Rightarrow> error
     | Some sockfd \<Rightarrow>
         let serv_addr = \<lparr>sin_family = AF_INET, sin_port = htons (of_int portno),
               sin_addr = (case parse_addr host_ip of None \<Rightarrow> 0 | Some a \<Rightarrow> a)\<rparr>
         in if connect_fails serv_addr then error else Inr (sockfd, serv_addr))"

text \<open>The descriptors that are open.\<close>

definition close_connection :: "int \<Rightarrow> int set \<Rightarrow> int set" where
  "close_connection sockfd open_fds = open_fds - {sockfd}"

text \<open>
  Connecting to an address in dotted form goes to that address and port, or the program exits with
  status 0; a host that is no address is silently connected to as 0.0.0.0.
\<close>

theorem open_connection_address:
  "open_connection (Some fd) connect_fails (inet_ntoa a) portno =
      (let addr = \<lparr>sin_family = AF_INET, sin_port = htons (of_int portno), sin_addr = a\<rparr>
       in if connect_fails addr then Inl (Exit 0) else Inr (fd, addr)) \<and>
    (parse_addr host = None \<longrightarrow> open_connection (Some fd) (\<lambda>_. False) host portno =
      Inr (fd, \<lparr>sin_family = AF_INET, sin_port = htons (of_int portno), sin_addr = 0\<rparr>))"
  by (simp add: open_connection_def error_def Let_def parse_addr_inet_ntoa)

text \<open>
  C21. One request and its response. Whatever part of the request each \<open>write\<close> takes and however the
  response is cut into reads: the server is given exactly the bytes of the request, and the client
  gets exactly the bytes of the response, and nothing of what follows it.
\<close>

theorem request_and_response:
  assumes "writes_ok (length message) ws" and "message \<noteq> []"
    and "http_response resp hdr pre suf body" and "concat cs = resp"
    and "\<forall>c \<in> set cs. c \<noteq> [] \<and> length c \<le> BUFLEN"
  shows "\<exists>ws'. send_to_server ws message = Some (Inr (message, ws')) \<and>
    transact \<lparr>link_writes = ws, link_reads = map Chunk cs @ later\<rparr> message =
      Inr (resp @ [CHR 0x00], \<lparr>link_writes = ws', link_reads = later\<rparr>)"
  using send_to_server_complete [OF assms(1,2)] receive_from_server_whole [OF assms(3-5), of later]
  by (auto simp: transact_def)

theorem request_and_response_witness:
  "\<exists>ws'. send_to_server [1, 3, 1] ''hello'' = Some (Inr (''hello'', ws')) \<and>
    transact \<lparr>link_writes = [1, 3, 1], link_reads =
      map Chunk [take 20 demo_response, take 17 (drop 20 demo_response), drop 37 demo_response] @ [Read_Fail]\<rparr> ''hello'' =
      Inr (demo_response @ [CHR 0x00], \<lparr>link_writes = ws', link_reads = [Read_Fail]\<rparr>)"
  by (rule request_and_response [OF _ _ demo_http_response])
    (simp_all add: demo_response_def demo_header_def HEADER_TERMINATOR_def crlf_def BUFLEN_def)

end
