(* ===== verification/Spec2Isabelle.thy ===== *)
theory Spec2Isabelle
  imports Router_Run Http_Client Http_Requests Lab04_Props Link_Safety Link_Main File_Transfer Parity_Echo
    Pubsub_Props Bank_Ledger Cpp_Demo Cpp_Traffic Route_Lookup
    Ping_Props Echo_Chat Udp_Backup Select_Relay Mail_Client File_Tools Dns_Lookup
    Pubsub_Spec Ping_Router Router_Traffic Link_Transfer Http_Connection
begin

text \<open>
  The repository holds the laboratories and the three homework projects of a course on communication
  protocols, in C and C++. Its programs are of three kinds: routers that forward Ethernet frames
  (\<open>Teme/Tema1\<close>, \<open>Lab04\<close>, \<open>pc pirvu\<close>), programs that talk over an emulated lossy link (the emulator and
  its clients in \<open>Lab02\<close> and \<open>Lab03\<close>), and clients and servers on sockets (the publish-subscribe
  project \<open>Teme/Tema2\<close>, the account server \<open>Partial\<close>, the HTTP clients \<open>Teme/Tema3\<close> and \<open>Lab10\<close>, and
  the programs of the other laboratories: ping and traceroute \<open>Lab05\<close>, the backup over UDP \<open>Lab06\<close>,
  echo and chat \<open>Lab07\<close>, the relay with \<open>select\<close> \<open>Lab08\<close>, DNS \<open>Lab09\<close>, mail \<open>Lab11\<close>); \<open>Lab01\<close> has
  two tools on files.

  Theories and the code they model.

  \<^item> \<open>Net_Prelude\<close>: integers by their C width, the run-time errors of C as values (\<open>c_error\<close>, \<open>res\<close>,
    \<open>rbind\<close>), overwriting a block of an array. \<open>Byte_Order\<close>: words in little-endian memory, \<open>htons\<close> and
    \<open>htonl\<close>. \<open>C_Strings\<close>: the part of the string library that is used (\<open>%d\<close>, \<open>%s\<close>, \<open>atoi\<close>, \<open>fgets\<close>,
    \<open>strstr\<close>, strings in arrays of bytes).
  \<^item> \<open>Inet_Checksum\<close>: \<open>ip_checksum\<close> and \<open>icmp_checksum\<close>, the same text in the \<open>skel.c\<close> of the routers and
    in \<open>Lab05/utils.c\<close>.
  \<^item> \<open>Fifo_Spec\<close> (the interface of a queue, the locale \<open>fifo\<close>), \<open>Cell_Store\<close> (heap cells), and its two
    implementations: \<open>Router_Queue\<close> (\<open>Teme/Tema1/list.c\<close>, \<open>queue.c\<close>) and \<open>Emulator_Queue\<close>
    (\<open>link_emulator/queue.c\<close>).
  \<^item> The router \<open>Teme/Tema1\<close>: \<open>Routing\<close> (the table file, \<open>comparator\<close>, \<open>get_best_route\<close>,
    \<open>get_arp_entry\<close>), \<open>Packets\<close> (\<open>skel.c\<close>: frames, interfaces, ICMP and ARP packets), \<open>Router\<close> (the loop
    body \<open>router_step\<close> and \<open>main\<close>), and what it does: \<open>Router_Frames\<close>, \<open>Router_Safety\<close>, \<open>Router_Props\<close>,
    \<open>Router_Run\<close>, and \<open>Router_Traffic\<close>, which traces each frame it sends to the packet that caused it with
    the vocabulary of \<open>Frame_Origin\<close>.
  \<^item> The static router \<open>Lab04\<close>: \<open>Lab04_Router\<close> (\<open>get_best_route\<close>, the globals), \<open>Lab04_Run\<close> (the table file
    of \<open>parse_arp_table\<close>, \<open>skel.c\<close>, the loop and \<open>main\<close>), \<open>Lab04_Props\<close>.
  \<^item> The C++ router \<open>pc pirvu\<close>: \<open>Route_Trie\<close> (the routing table as a binary trie and its file), \<open>Trie_Props\<close>,
    \<open>Cpp_Router\<close> (\<open>router.cpp\<close>, \<open>skel.c\<close>), \<open>Cpp_Props\<close>, \<open>Cpp_Demo\<close>, \<open>Cpp_Traffic\<close> (the origin of its frames). \<open>Route_Lookup\<close>: the lookups of the three
    routers as interpretations of one interface, the locale \<open>route_lookup\<close>.
  \<^item> The link emulator: \<open>Link_Lib\<close> (\<open>lib.c\<close>), \<open>Link_Emulator\<close> (the scheduler and the two forwarding
    threads of \<open>link.c\<close>), \<open>Link_Props\<close> (the invariant of its runs), \<open>Link_Safety\<close> (failures), \<open>Link_Drain\<close>
    (progress, rate and delay), and \<open>Link_Main\<close> (the command line). Its clients:
    \<open>File_Transfer\<close> (\<open>Lab02/send.c\<close>, \<open>recv.c\<close>) and \<open>Parity_Echo\<close> (\<open>Lab03/send.c\<close>, \<open>recv.c\<close>).
    \<open>Link_Transfer\<close>: the programs of \<open>Lab02\<close> and the emulator together.
  \<^item> The HTTP clients: \<open>Http_Buffer\<close> (\<open>buffer.c\<close>), \<open>Http_Helpers\<close> (\<open>helpers.c\<close>), \<open>Http_Client\<close>
    (\<open>Teme/Tema3/client.c\<close>), \<open>Http_Requests\<close> (\<open>Lab10/requests.c\<close>, \<open>client.c\<close>),
    \<open>Http_Connection\<close> (opening a connection, a request and its response).
  \<^item> The publish-subscribe project: \<open>Pubsub_Server\<close> (\<open>server.cpp\<close>), \<open>Pubsub_Props\<close>, \<open>Pubsub_Spec\<close> (the
    broker it implements), \<open>Pubsub_Client\<close> (\<open>subscriber.cpp\<close>). The account server and client \<open>Partial\<close>:
    \<open>Bank_Server\<close>, and \<open>Bank_Ledger\<close> (the history of answers that determines what the server does).
  \<^item> The other laboratories. \<open>Socket_Progs\<close>: what their socket programs share (receiving into an array,
    strings in it, \<open>inet_pton\<close>). \<open>File_Tools\<close>: \<open>cat.c\<close> and \<open>tac.c\<close> of \<open>Lab01\<close>. \<open>Ping_Lab\<close>: \<open>icmp.c\<close> and
    \<open>utils.c\<close> of \<open>Lab05\<close>, with \<open>Ping_Props\<close>, and \<open>Ping_Router\<close>, where the router of
    \<open>Teme/Tema1\<close> answers \<open>ping\<close>. \<open>Udp_Backup\<close>: \<open>client.c\<close> and \<open>server.c\<close> of \<open>Lab06\<close>.
    \<open>Echo_Chat\<close>: the echo and chat programs of \<open>Lab07\<close>. \<open>Select_Relay\<close>: \<open>server.c\<close> and \<open>client.c\<close> of
    \<open>Lab08\<close>. \<open>Dns_Lookup\<close>: \<open>Lab09\<close>. \<open>Mail_Client\<close>: \<open>send_mail.c\<close> of \<open>Lab11\<close>.

  State and operations. A record per component keeps the variables of the source under their names;
  each function, branch of a \<open>main\<close> or thread step is one definition that returns the new state and
  what it sends, or the error the C program would meet (a null or dead pointer, an access outside an
  array, a read of an unwritten variable, a failed assertion, \<open>exit\<close>). What the operating system
  answers (\<open>read\<close>, \<open>recvfrom\<close>, \<open>select\<close>, \<open>ioctl\<close>, the clock, random numbers) is an argument: a list of
  results or a function. The threads of the link emulator are the step function \<open>link_act\<close>, and
  \<open>link_run\<close> is every interleaving of their steps; the granularity is one critical section.

  What is shown.

  \<^item> The checksum equals the one of RFC 1071 for every alignment, verifies itself, and detects every
    changed byte.
  \<^item> Both linked queues refine a list (one client proof in the locale \<open>fifo\<close>, two interpretations).
  \<^item> The binary search ends, is sound on every table, complete on tables with one mask, and incomplete
    in general; the linear search of \<open>Lab04\<close> finds the longest prefix except the default route.
  \<^item> The router's iteration, branch by branch, as an exact description of the frames sent; its
    invariant; and that a run of \<open>main\<close> on any frames ends and fails only through its dangling queue
    pointer, with a run that does. Each frame it sends is caused by one received packet, with the
    interface and contents this packet calls for, and there are at most two for each \<open>select\<close>. These
    runs are those on table files with the interfaces 0 to 2, without failing reads and writes and of
    at most 66000 calls of \<open>select\<close>.
  \<^item> The trie of the C++ router finds a route whose mask ends at a byte and that no other route refines,
    and misses or invents routes on other tables, as described exactly for tables with one route; where the conditions of the three lookups hold they
    choose the same route. The C++ router keeps its invariant on every sequence of frames, each frame
    it sends is caused by one it received, it forwards as it should, and it mishandles destinations
    that are being asked for.
  \<^item> The link emulator keeps order, capacity, rate and delay in every interleaving, delivers all it
    holds once the clock has gone far enough, and fails in three ways only, one of which is a race in its assertion.
  \<^item> The file copy works, but its receiver returns only for short files; the parity protocol never
    detects a corrupted message and never ends.
  \<^item> The publish-subscribe server refines an abstract broker: each message goes to exactly its
    subscribers or into their mailboxes; it stores and forwards, and keeps its tables consistent. The account server
    gives every command the answer that the history of its answers determines.
  \<^item> The HTTP helpers do not depend on how the stream is cut into reads; the session of the library
    client never uses an unwritten array.
  \<^item> Programs that talk to each other, composed: \<open>ping\<close> and the router that answers it; the file copy
    over any interleaving of the link emulator; a request and its response over any split stream.
  \<^item> Whole sessions of the small programs, client and server composed: echo and backup, both of which
    return; the mail client with any server; ping and traceroute on any sequence of frames, with
    well-formed requests; \<open>hex_dump\<close> as a table whatever its array holds; and the relay of \<open>Lab08\<close>,
    which passes a message on to the descriptor its first digit names.

  Bounds and fuel. No definition uses fuel. Loops over a list of answers of the operating system recurse
  over that list, whose end stands for a call that blocks; loops over a heap structure are
  \<open>partial_function (option)\<close>, where \<open>None\<close> is a loop that does not end, and the theorems show that they
  do. The constants (1600-byte frames, 66000 ARP entries, arrays of 200, 300, 500 and 1400 characters)
  are those of the code.

  Not modelled. \<open>arp_resolve\<close> of \<open>Lab05\<close> and the parser of \<open>Lab04\<close> for the routing table are in the
  repository only as object files and are parameters. The calls that open and bind sockets
  are given by their results, and so is the floating-point arithmetic on measured times, which are arguments. Some
  files repeat the text of a modelled one and have no definitions of their own: \<open>buffer.c\<close> and
  \<open>helpers.c\<close> of \<open>Lab10\<close>, \<open>lib.c\<close> and \<open>queue.c\<close> of \<open>Lab03\<close>, and most of the \<open>skel.c\<close> of the three
  routers. Test drivers and topologies are Python, shell and data.
\<close>

end
